(* ===== verification/Prelude.thy ===== *)
theory Prelude
  imports Main "HOL-Library.Word" "HOL-Library.Multiset"
begin

text \<open>
  Shared vocabulary of the development: the ways a Rust computation of the repository can
  stop, the state-and-panic monad every stateful operation is written in, the total
  correctness predicate \<open>runs\<close> with the rules that work as a verification-condition
  generator, checked machine arithmetic (the kernel and the image tool are built in the
  debug profile, where an overflow panics), and the generic lemmas on lists that several
  components use.
\<close>

unbundle bit_operations_syntax

named_theorems wp "rewrite rules for runs, one per monad operation"
named_theorems arr "lengths and element access of lists that stand for arrays"

type_synonym u8 = "8 word"
type_synonym u64 = "64 word"

section \<open>Panics\<close>

text \<open>
  One constructor per way to stop. \<open>AssertFailed\<close> is \<open>assert!\<close> and \<open>assert_eq!\<close>;
  \<open>UnwrapNone\<close> is \<open>unwrap\<close> or \<open>expect\<close> on a missing value; \<open>Deadlock\<close> is a spin
  lock that the single thread of control already holds; \<open>InvalidEnum\<close> is a match on a
  stored discriminant that no constructor has; \<open>StackOverflow\<close> is unbounded recursion;
  \<open>BadAddress\<close> is an address the crate \<^verbatim>\<open>x86_64\<close> refuses or memory outside an object.
\<close>

datatype rust_panic =
    AssertFailed
  | IndexOutOfBounds
  | ArithOverflow
  | UnwrapNone
  | Deadlock
  | InvalidEnum
  | StackOverflow
  | BadAddress
  | RunOutOfBlockCache
  | RunOutOfInodeCache
  | RunOutOfInodeBlock
  | RunOutOfDataBlock
  | ErrorLoadingCAFS

section \<open>The state-and-panic monad\<close>

type_synonym ('s, 'a) rust = "'s \<Rightarrow> rust_panic + ('a \<times> 's)"

definition ret :: "'a \<Rightarrow> ('s, 'a) rust" where
  "ret a = (\<lambda>s. Inr (a, s))"

definition panic :: "rust_panic \<Rightarrow> ('s, 'a) rust" where
  "panic e = (\<lambda>s. Inl e)"

definition bnd :: "('s, 'a) rust \<Rightarrow> ('a \<Rightarrow> ('s, 'b) rust) \<Rightarrow> ('s, 'b) rust" where
  "bnd m f = (\<lambda>s. case m s of Inl e \<Rightarrow> Inl e | Inr (a, s') \<Rightarrow> f a s')"

definition gets :: "('s \<Rightarrow> 'a) \<Rightarrow> ('s, 'a) rust" where
  "gets f = (\<lambda>s. Inr (f s, s))"

definition upd :: "('s \<Rightarrow> 's) \<Rightarrow> ('s, unit) rust" where
  "upd f = (\<lambda>s. Inr ((), f s))"

text \<open>A computation without state inside a stateful one.\<close>

definition pure :: "rust_panic + 'a \<Rightarrow> ('s, 'a) rust" where
  "pure r = (\<lambda>s. case r of Inl e \<Rightarrow> Inl e | Inr a \<Rightarrow> Inr (a, s))"

definition require :: "bool \<Rightarrow> rust_panic \<Rightarrow> ('s, unit) rust" where
  "require b e = (if b then ret () else panic e)"

text \<open>A computation on one field of a larger state.\<close>

definition zoom :: "('t \<Rightarrow> 's) \<Rightarrow> ('s \<Rightarrow> 't \<Rightarrow> 't) \<Rightarrow> ('s, 'a) rust \<Rightarrow> ('t, 'a) rust" where
  "zoom get put m = (\<lambda>t. case m (get t) of Inl e \<Rightarrow> Inl e | Inr (a, s) \<Rightarrow> Inr (a, put s t))"

text \<open>Loops over a list: \<open>for_each\<close> runs the body for its effect, \<open>map_each\<close> collects.\<close>

primrec for_each :: "'a list \<Rightarrow> ('a \<Rightarrow> ('s, unit) rust) \<Rightarrow> ('s, unit) rust" where
  "for_each [] f = ret ()"
| "for_each (x # xs) f = bnd (f x) (\<lambda>_. for_each xs f)"

primrec map_each :: "'a list \<Rightarrow> ('a \<Rightarrow> ('s, 'b) rust) \<Rightarrow> ('s, 'b list) rust" where
  "map_each [] f = ret []"
| "map_each (x # xs) f = bnd (f x) (\<lambda>y. bnd (map_each xs f) (\<lambda>ys. ret (y # ys)))"

text \<open>A loop that threads an accumulator.\<close>

primrec fold_each :: "'a list \<Rightarrow> ('a \<Rightarrow> 'b \<Rightarrow> ('s, 'b) rust) \<Rightarrow> 'b \<Rightarrow> ('s, 'b) rust" where
  "fold_each [] f acc = ret acc"
| "fold_each (x # xs) f acc = bnd (f x acc) (fold_each xs f)"

text \<open>\<open>for _ in 0..n\<close> with a body that yields a value pushed to a vector.\<close>

primrec repeat_each :: "nat \<Rightarrow> ('s, 'b) rust \<Rightarrow> ('s, 'b list) rust" where
  "repeat_each 0 m = ret []"
| "repeat_each (Suc n) m = bnd m (\<lambda>y. bnd (repeat_each n m) (\<lambda>ys. ret (y # ys)))"

lemma bnd_ret [simp]: "bnd (ret a) f = f a"
  by (simp add: bnd_def ret_def)

lemma bnd_upd: "bnd (upd f) k s = k () (f s)"
  by (simp add: bnd_def upd_def)

lemma bnd_gets: "bnd (gets f) k s = k (f s) s"
  by (simp add: bnd_def gets_def)

lemma pure_Inr [simp]: "pure (Inr a) = ret a"
  by (simp add: pure_def ret_def)

lemma panic_apply: "panic e s = Inl e"
  by (simp add: panic_def)

lemma bnd_panic [simp]: "bnd (panic e) f = panic e"
  by (simp add: bnd_def panic_def)

lemma require_False [simp]: "require False e = panic e"
  by (simp add: require_def)

lemma require_True [simp]: "require True e = ret ()"
  by (simp add: require_def)

section \<open>Total correctness\<close>

text \<open>
  \<open>runs m s Q\<close>: started in \<open>s\<close>, the computation returns (it does not panic) and its
  result and final state satisfy \<open>Q\<close>.
\<close>

definition runs :: "('s, 'a) rust \<Rightarrow> 's \<Rightarrow> ('a \<Rightarrow> 's \<Rightarrow> bool) \<Rightarrow> bool" where
  "runs m s Q \<longleftrightarrow> (case m s of Inl e \<Rightarrow> False | Inr (a, s') \<Rightarrow> Q a s')"

lemma runs_ret [wp]: "runs (ret a) s Q \<longleftrightarrow> Q a s"
  by (simp add: runs_def ret_def)

lemma runs_panic [wp]: "runs (panic e) s Q \<longleftrightarrow> False"
  by (simp add: runs_def panic_def)

lemma runs_bnd [wp]: "runs (bnd m f) s Q \<longleftrightarrow> runs m s (\<lambda>a s'. runs (f a) s' Q)"
  by (auto simp: runs_def bnd_def split: sum.splits)

lemma runs_gets [wp]: "runs (gets f) s Q \<longleftrightarrow> Q (f s) s"
  by (simp add: runs_def gets_def)

lemma runs_upd [wp]: "runs (upd f) s Q \<longleftrightarrow> Q () (f s)"
  by (simp add: runs_def upd_def)

lemma runs_pure [wp]: "runs (pure r) s Q \<longleftrightarrow> (\<exists>a. r = Inr a \<and> Q a s)"
  by (cases r) (simp_all add: runs_def pure_def)

lemma runs_require [wp]: "runs (require b e) s Q \<longleftrightarrow> b \<and> Q () s"
  by (simp add: require_def runs_ret runs_panic)

lemma runs_zoom [wp]:
  "runs (zoom get put m) t Q \<longleftrightarrow> runs m (get t) (\<lambda>a s. Q a (put s t))"
  by (auto simp: runs_def zoom_def split: sum.splits)

lemma runs_if [wp]:
  "runs (if b then m else n) s Q \<longleftrightarrow> (if b then runs m s Q else runs n s Q)"
  by simp

lemma runs_mono:
  assumes "runs m s P" and "\<And>a s'. P a s' \<Longrightarrow> Q a s'"
  shows "runs m s Q"
  using assms by (auto simp: runs_def split: sum.splits)

lemma runs_conj: "runs m s P \<Longrightarrow> runs m s Q \<Longrightarrow> runs m s (\<lambda>a s'. P a s' \<and> Q a s')"
  by (auto simp: runs_def split: sum.splits)

lemma runs_iff_result: "runs m s Q \<longleftrightarrow> (\<exists>a s'. m s = Inr (a, s') \<and> Q a s')"
  by (auto simp: runs_def split: sum.splits)

lemma runs_resultE:
  assumes "runs m s Q"
  obtains a s' where "m s = Inr (a, s')" and "Q a s'"
  using assms by (auto simp: runs_iff_result)

lemma bnd_runs_Inl:
  assumes "runs m s Q" and "\<And>a s'. Q a s' \<Longrightarrow> f a s' = Inl e"
  shows "bnd m f s = Inl e"
  using assms by (auto simp: runs_iff_result bnd_def)

text \<open>The loop rules: an invariant indexed by what is left to do.\<close>

lemma runs_for_each:
  assumes "I xs s"
    and "\<And>y ys t. I (y # ys) t \<Longrightarrow> runs (f y) t (\<lambda>_ t'. I ys t')"
    and "\<And>t. I [] t \<Longrightarrow> Q () t"
  shows "runs (for_each xs f) s Q"
  using assms(1)
proof (induction xs arbitrary: s)
  case Nil
  then show ?case using assms(3) by (simp add: wp)
next
  case (Cons x xs)
  from assms(2) [OF Cons.prems] show ?case
    by (simp add: wp) (erule runs_mono, rule Cons.IH)
qed

lemma runs_for_each_append: "runs (for_each (xs @ ys) f) s Q \<longleftrightarrow> runs (for_each xs f) s (\<lambda>_ s'. runs (for_each ys f) s' Q)"
  by (induction xs arbitrary: s) (simp_all add: wp)

lemma runs_repeat_each:
  assumes "I n [] s"
    and "\<And>k acc t. I (Suc k) acc t \<Longrightarrow> runs m t (\<lambda>y t'. I k (acc @ [y]) t')"
    and "\<And>acc t. I 0 acc t \<Longrightarrow> Q acc t"
  shows "runs (repeat_each n m) s Q"
proof -
  have "I n acc t \<Longrightarrow> runs (repeat_each n m) t (\<lambda>ys t'. I 0 (acc @ ys) t')" for acc t
  proof (induction n arbitrary: acc t)
    case 0
    then show ?case by (simp add: wp)
  next
    case (Suc n)
    from assms(2) [OF Suc.prems] show ?case
      by (simp add: wp) (erule runs_mono, drule Suc.IH, simp)
  qed
  from this [OF assms(1)] show ?thesis
    by (rule runs_mono) (use assms(3) in auto)
qed

section \<open>Checked machine arithmetic\<close>

text \<open>
  Block numbers, sizes and counts of the source are \<open>u64\<close> or \<open>usize\<close> on a 64-bit target.
  They are natural numbers below \<open>2 ^ 64\<close> here; an operation that leaves the range panics.
\<close>

definition U64_RANGE :: nat where
  "U64_RANGE = 2 ^ 64"

definition u64_add :: "nat \<Rightarrow> nat \<Rightarrow> rust_panic + nat" where
  "u64_add a b = (if a + b < U64_RANGE then Inr (a + b) else Inl ArithOverflow)"

definition u64_sub :: "nat \<Rightarrow> nat \<Rightarrow> rust_panic + nat" where
  "u64_sub a b = (if b \<le> a then Inr (a - b) else Inl ArithOverflow)"

text \<open>The idiom \<open>(a + b - 1) / b\<close>.\<close>

definition div_ceil :: "nat \<Rightarrow> nat \<Rightarrow> rust_panic + nat" where
  "div_ceil a b = (if a + b < U64_RANGE then Inr ((a + b - 1) div b) else Inl ArithOverflow)"

definition u64_mul :: "nat \<Rightarrow> nat \<Rightarrow> rust_panic + nat" where
  "u64_mul a b = (if a * b < U64_RANGE then Inr (a * b) else Inl ArithOverflow)"

text \<open>Sequencing of computations that have no state.\<close>

definition sbnd :: "rust_panic + 'a \<Rightarrow> ('a \<Rightarrow> rust_panic + 'b) \<Rightarrow> rust_panic + 'b" where
  "sbnd r f = (case r of Inl e \<Rightarrow> Inl e | Inr a \<Rightarrow> f a)"

lemma sbnd_simps [simp]: "sbnd (Inl e) f = Inl e" "sbnd (Inr a) f = f a"
  by (simp_all add: sbnd_def)

lemma sbnd_eq_Inr: "sbnd r f = Inr b \<longleftrightarrow> (\<exists>a. r = Inr a \<and> f a = Inr b)"
  by (cases r) simp_all

lemma u64_add_Inr [simp]: "u64_add a b = Inr c \<longleftrightarrow> c = a + b \<and> a + b < U64_RANGE"
  by (auto simp: u64_add_def)

lemma u64_sub_Inr [simp]: "u64_sub a b = Inr c \<longleftrightarrow> c = a - b \<and> b \<le> a"
  by (auto simp: u64_sub_def)

lemma div_ceil_Inr [simp]:
  "div_ceil a b = Inr c \<longleftrightarrow> c = (a + b - 1) div b \<and> a + b < U64_RANGE"
  by (auto simp: div_ceil_def)

lemma u64_mul_Inr [simp]: "u64_mul a b = Inr c \<longleftrightarrow> c = a * b \<and> a * b < U64_RANGE"
  by (auto simp: u64_mul_def)

text \<open>Rounding up: the Galois connection that every size computation rests on.\<close>

definition cdiv :: "nat \<Rightarrow> nat \<Rightarrow> nat" where
  "cdiv a b = (a + b - 1) div b"

lemma cdiv_le_iff: "0 < b \<Longrightarrow> cdiv a b \<le> c \<longleftrightarrow> a \<le> b * c"
proof -
  assume b: "0 < b"
  have "cdiv a b \<le> c \<longleftrightarrow> a + b - 1 < Suc c * b"
    unfolding cdiv_def using b by (metis div_less_iff_less_mult less_Suc_eq_le)
  also have "\<dots> \<longleftrightarrow> a \<le> b * c" using b by (auto simp: algebra_simps)
  finally show ?thesis .
qed

lemma cdiv_mono: "0 < b \<Longrightarrow> a \<le> a' \<Longrightarrow> cdiv a b \<le> cdiv a' b"
  by (simp add: cdiv_def div_le_mono)

lemma cdiv_ge: "0 < b \<Longrightarrow> a \<le> b * cdiv a b"
  using cdiv_le_iff [of b a "cdiv a b"] by simp

lemma cdiv_0 [simp]: "0 < b \<Longrightarrow> cdiv 0 b = 0"
  by (simp add: cdiv_def)

lemma cdiv_eq_0_iff: "0 < b \<Longrightarrow> cdiv a b = 0 \<longleftrightarrow> a = 0"
  using cdiv_le_iff [of b a 0] by simp

lemma cdiv_cdiv: "0 < b \<Longrightarrow> 0 < c \<Longrightarrow> cdiv (cdiv a b) c = cdiv a (b * c)"
proof (rule antisym)
  assume b: "0 < b" and c: "0 < c"
  have "a \<le> b * (c * cdiv a (b * c))" using b c cdiv_ge [of "b * c" a] by (simp add: mult.assoc)
  then show "cdiv (cdiv a b) c \<le> cdiv a (b * c)" using b c by (simp add: cdiv_le_iff)
  have "cdiv a b \<le> c * cdiv (cdiv a b) c" using c by (rule cdiv_ge)
  then show "cdiv a (b * c) \<le> cdiv (cdiv a b) c" using b c by (simp add: cdiv_le_iff mult.assoc)
qed

lemma cdiv_diff: "0 < b \<Longrightarrow> cdiv (a - b * k) b = cdiv a b - k"
proof (rule antisym)
  assume b: "0 < b"
  from b cdiv_ge [of b a] have "a - b * k \<le> b * (cdiv a b - k)"
    by (simp add: diff_mult_distrib2)
  with b show "cdiv (a - b * k) b \<le> cdiv a b - k" by (simp add: cdiv_le_iff)
  from b cdiv_ge [of b "a - b * k"] have "a \<le> b * (cdiv (a - b * k) b + k)"
    by (simp add: add_mult_distrib2)
  with b have "cdiv a b \<le> cdiv (a - b * k) b + k" by (simp add: cdiv_le_iff)
  then show "cdiv a b - k \<le> cdiv (a - b * k) b" by simp
qed

section \<open>Vectors\<close>

text \<open>\<open>xs[i]\<close> of the source: out of range is a panic.\<close>

definition index :: "'a list \<Rightarrow> nat \<Rightarrow> rust_panic + 'a" where
  "index xs i = (if i < length xs then Inr (xs ! i) else Inl IndexOutOfBounds)"

lemma index_Inr [simp]: "index xs i = Inr x \<longleftrightarrow> i < length xs \<and> xs ! i = x"
  by (auto simp: index_def)

text \<open>\<open>iter().chain(repeat(0)).take(n)\<close>: the first elements, padded with zeros.\<close>

definition take_pad :: "nat \<Rightarrow> nat list \<Rightarrow> nat list" where
  "take_pad n xs = take n xs @ replicate (n - length xs) 0"

text \<open>\<open>n\<close> times \<open>pop().unwrap()\<close>, the popped elements in the order they are popped.\<close>

primrec pop_n :: "nat \<Rightarrow> 'a list \<Rightarrow> rust_panic + ('a list \<times> 'a list)" where
  "pop_n 0 xs = Inr ([], xs)"
| "pop_n (Suc n) xs =
     (if xs = [] then Inl UnwrapNone
      else sbnd (pop_n n (butlast xs)) (\<lambda>(popped, rest). Inr (last xs # popped, rest)))"

lemma length_take_pad [simp, arr]: "length (take_pad n xs) = n"
  by (simp add: take_pad_def)

lemma take_pad_append [simp]: "n = length xs \<Longrightarrow> take_pad n (xs @ ys) = xs" "take_pad (length xs) xs = xs"
  by (simp_all add: take_pad_def)

lemma filter_take_pad: "0 \<notin> set xs \<Longrightarrow> filter (\<lambda>x. x \<noteq> 0) (take_pad n xs) = take n xs"
  by (auto simp: take_pad_def filter_id_conv intro!: gr0I dest: in_set_takeD)

lemma set_take_pad: "set (take_pad n xs) \<subseteq> insert 0 (set xs)"
  by (auto simp: take_pad_def dest: in_set_takeD)

lemma pop_n_eq:
  "k \<le> length xs \<Longrightarrow> pop_n k xs = Inr (rev (drop (length xs - k) xs), take (length xs - k) xs)"
proof (induction k arbitrary: xs)
  case 0
  then show ?case by simp
next
  case (Suc k)
  then obtain ys y where xs: "xs = ys @ [y]" by (cases xs rule: rev_cases) auto
  with Suc show ?case by simp
qed

text \<open>\<open>Vec::swap_remove\<close>: the last element takes the place of the removed one.\<close>

definition swap_remove :: "'a list \<Rightarrow> nat \<Rightarrow> 'a list" where
  "swap_remove xs i = (if Suc i = length xs then butlast xs else (butlast xs)[i := last xs])"

text \<open>\<open>iter().enumerate().find(p)\<close>: the first position that satisfies the predicate.\<close>

fun find_pos :: "('a \<Rightarrow> bool) \<Rightarrow> 'a list \<Rightarrow> nat option" where
  "find_pos p [] = None"
| "find_pos p (x # xs) = (if p x then Some 0 else map_option Suc (find_pos p xs))"

lemma find_pos_Some:
  "find_pos p xs = Some i \<longleftrightarrow> i < length xs \<and> p (xs ! i) \<and> (\<forall>j<i. \<not> p (xs ! j))"
proof (induction xs arbitrary: i)
  case Nil
  then show ?case by simp
next
  case (Cons x xs)
  show ?case
    by (cases i) (auto simp: Cons.IH less_Suc_eq_0_disj)
qed

lemma find_pos_None: "find_pos p xs = None \<longleftrightarrow> (\<forall>x \<in> set xs. \<not> p x)"
  by (induction xs) auto

lemma mset_swap_remove:
  assumes "i < length xs"
  shows "add_mset (xs ! i) (mset (swap_remove xs i)) = mset xs"
proof -
  from assms have ne: "xs \<noteq> []" by auto
  then have xs: "mset xs = add_mset (last xs) (mset (butlast xs))"
    by (metis add_mset_add_single append_butlast_last_id mset.simps mset_append)
  show ?thesis
  proof (cases "Suc i = length xs")
    case True
    with ne have "xs ! i = last xs" by (metis diff_Suc_1 last_conv_nth)
    with True xs show ?thesis by (simp add: swap_remove_def)
  next
    case False
    with assms have i: "i < length (butlast xs)" by simp
    then have "mset ((butlast xs)[i := last xs])
      = add_mset (last xs) (mset (butlast xs) - {#butlast xs ! i#})"
      by (rule mset_update)
    moreover have "butlast xs ! i \<in># mset (butlast xs)"
      using i by (metis nth_mem set_mset_mset)
    ultimately show ?thesis
      using False xs i by (simp add: swap_remove_def nth_butlast)
  qed
qed

lemma length_swap_remove [simp]: "length (swap_remove xs i) = length xs - 1"
  by (simp add: swap_remove_def)

lemma distinct_swap_remove:
  assumes "distinct xs" and "i < length xs"
  shows "distinct (swap_remove xs i)" and "set (swap_remove xs i) = set xs - {xs ! i}"
proof -
  have *: "mset (xs ! i # swap_remove xs i) = mset xs"
    using mset_swap_remove [OF assms(2)] by simp
  from mset_eq_imp_distinct_iff [OF *] assms(1) have d: "distinct (xs ! i # swap_remove xs i)"
    by simp
  then show "distinct (swap_remove xs i)" by simp
  from mset_eq_setD [OF *] d show "set (swap_remove xs i) = set xs - {xs ! i}"
    by auto
qed

lemma map_swap_remove: "xs \<noteq> [] \<Longrightarrow> map f (swap_remove xs i) = swap_remove (map f xs) i"
  by (simp add: swap_remove_def map_butlast map_update last_map)

end
