(* ===== verification/Bytes.thy ===== *)
theory Bytes
  imports Prelude
begin

text \<open>
  The bytes of a block and the typed views the code takes of them. A cached block is 512
  bytes; \<open>get_ref::<T>\<close> and \<open>get_mut::<T>\<close> of \<^verbatim>\<open>src/fs/src/cafs/cache.rs\<close> read and
  write a \<open>repr(C)\<close> struct in place. Here a view is a decoder and an in-place encoder, and
  the locale \<open>struct_view\<close> states the laws every such struct has to satisfy; each struct of
  the file system interprets it.
\<close>

section \<open>Little-endian integers\<close>

primrec to_le :: "nat \<Rightarrow> nat \<Rightarrow> u8 list" where
  "to_le 0 n = []"
| "to_le (Suc k) n = word_of_nat n # to_le k (n div 256)"

primrec of_le :: "u8 list \<Rightarrow> nat" where
  "of_le [] = 0"
| "of_le (b # bs) = unat b + 256 * of_le bs"

lemma length_to_le [simp, arr]: "length (to_le k n) = k"
  by (induction k arbitrary: n) auto

lemma of_le_to_le: "of_le (to_le k n) = n mod 256 ^ k"
proof (induction k arbitrary: n)
  case 0
  then show ?case by simp
next
  case (Suc k)
  have "unat (word_of_nat n :: u8) = n mod 256"
    by (simp add: unat_of_nat)
  then show ?case
    using Suc [of "n div 256"] by (simp add: mod_mult2_eq)
qed

lemma of_le_bound: "of_le bs < 256 ^ length bs"
proof (induction bs)
  case Nil
  then show ?case by simp
next
  case (Cons b bs)
  have "unat b < 256" using unsigned_less [of b] by simp
  with Cons show ?case by simp
qed

lemma to_le_of_le: "to_le (length bs) (of_le bs) = bs"
proof (induction bs)
  case Nil
  then show ?case by simp
next
  case (Cons b bs)
  have b: "unat b < 256" using unsigned_less [of b] by simp
  have "(word_of_nat (unat b + 256 * of_le bs) :: u8) = word_of_nat (unat b)"
    by (simp only: word_of_nat_eq_iff) (simp add: take_bit_eq_mod)
  then have "(word_of_nat (unat b + 256 * of_le bs) :: u8) = b"
    by (simp del: of_nat_add of_nat_mult)
  with b Cons show ?case by (simp del: of_nat_add of_nat_mult)
qed

lemma to_le_of_le_length [simp]: "length bs = k \<Longrightarrow> to_le k (of_le bs) = bs"
  using to_le_of_le [of bs] by simp

lemma of_le_to_le_u64 [simp]: "n < U64_RANGE \<Longrightarrow> of_le (to_le 8 n) = n"
  by (simp add: of_le_to_le U64_RANGE_def)

lemma of_le_u64 [simp]: "length bs = 8 \<Longrightarrow> of_le bs < U64_RANGE"
  using of_le_bound [of bs] by (simp add: U64_RANGE_def)

lemma of_le_replicate_0 [simp]: "of_le (replicate n 0) = 0"
  by (induction n) simp_all

section \<open>Arrays of u64\<close>

primrec dec_u64s :: "nat \<Rightarrow> u8 list \<Rightarrow> nat list" where
  "dec_u64s 0 bs = []"
| "dec_u64s (Suc n) bs = of_le (take 8 bs) # dec_u64s n (drop 8 bs)"

definition enc_u64s :: "nat list \<Rightarrow> u8 list" where
  "enc_u64s xs = concat (map (to_le 8) xs)"

lemma enc_u64s_simps [simp]:
  "enc_u64s [] = []" "enc_u64s (x # xs) = to_le 8 x @ enc_u64s xs"
  by (simp_all add: enc_u64s_def)

lemma length_enc_u64s [simp, arr]: "length (enc_u64s xs) = 8 * length xs"
  by (induction xs) simp_all

lemma length_dec_u64s [simp, arr]: "length (dec_u64s n bs) = n"
  by (induction n arbitrary: bs) simp_all

lemma dec_enc_u64s:
  "\<forall>x \<in> set xs. x < U64_RANGE \<Longrightarrow> dec_u64s (length xs) (enc_u64s xs @ bs) = xs"
  by (induction xs) simp_all

lemma dec_enc_u64s_length [simp]:
  "\<forall>x \<in> set xs. x < U64_RANGE \<Longrightarrow> length xs = n \<Longrightarrow> dec_u64s n (enc_u64s xs @ bs) = xs"
  "\<forall>x \<in> set xs. x < U64_RANGE \<Longrightarrow> length xs = n \<Longrightarrow> dec_u64s n (enc_u64s xs) = xs"
  using dec_enc_u64s [of xs bs] dec_enc_u64s [of xs "[]"] by auto

lemma enc_dec_u64s: "8 * n \<le> length bs \<Longrightarrow> enc_u64s (dec_u64s n bs) = take (8 * n) bs"
proof (induction n arbitrary: bs)
  case 0
  then show ?case by simp
next
  case (Suc n)
  then have "enc_u64s (dec_u64s (Suc n) bs) = take 8 bs @ take (8 * n) (drop 8 bs)"
    by simp
  also have "\<dots> = take (8 * Suc n) bs"
    by (simp add: take_add)
  finally show ?case .
qed

lemma dec_u64s_bound: "8 * n \<le> length bs \<Longrightarrow> x \<in> set (dec_u64s n bs) \<Longrightarrow> x < U64_RANGE"
proof (induction n arbitrary: bs)
  case 0
  then show ?case by simp
next
  case (Suc n)
  then show ?case using Suc.IH [of "drop 8 bs"] by auto
qed

lemma dec_u64s_replicate_0 [simp]: "8 * n \<le> m \<Longrightarrow> dec_u64s n (replicate m 0) = replicate n 0"
  by (induction n arbitrary: m) (simp_all add: min_def)

section \<open>Views\<close>

text \<open>
  \<open>vget\<close> decodes the bytes of a struct; \<open>vput x bs\<close> stores the fields of \<open>x\<close> over the
  bytes \<open>bs\<close> (padding bytes keep their value).
\<close>

record 'a view =
  vsize :: nat
  vget :: "u8 list \<Rightarrow> 'a"
  vput :: "'a \<Rightarrow> u8 list \<Rightarrow> u8 list"

text \<open>The struct at an offset of a block, and the block with the struct replaced.\<close>

definition view_at :: "'a view \<Rightarrow> nat \<Rightarrow> u8 list \<Rightarrow> 'a" where
  "view_at v off bs = vget v (take (vsize v) (drop off bs))"

definition view_set :: "'a view \<Rightarrow> nat \<Rightarrow> 'a \<Rightarrow> u8 list \<Rightarrow> u8 list" where
  "view_set v off x bs =
     take off bs @ vput v x (take (vsize v) (drop off bs)) @ drop (off + vsize v) bs"

locale struct_view =
  fixes v :: "'a view"
    and valid :: "'a \<Rightarrow> bool"
  assumes length_vput: "valid x \<Longrightarrow> length bs = vsize v \<Longrightarrow> length (vput v x bs) = vsize v"
    and vget_vput: "valid x \<Longrightarrow> length bs = vsize v \<Longrightarrow> vget v (vput v x bs) = x"
    and vput_vget: "length bs = vsize v \<Longrightarrow> vput v (vget v bs) bs = bs"
    and valid_vget: "length bs = vsize v \<Longrightarrow> valid (vget v bs)"
begin

lemma length_view_set:
  "valid x \<Longrightarrow> off + vsize v \<le> length bs \<Longrightarrow> length (view_set v off x bs) = length bs"
  by (simp add: view_set_def length_vput)

lemma view_at_set:
  "valid x \<Longrightarrow> off + vsize v \<le> length bs \<Longrightarrow> view_at v off (view_set v off x bs) = x"
  by (simp add: view_at_def view_set_def length_vput vget_vput)

lemma view_set_at:
  assumes "off + vsize v \<le> length bs"
  shows "view_set v off (view_at v off bs) bs = bs"
proof -
  have "bs = take off bs @ take (vsize v) (drop off bs) @ drop (off + vsize v) bs"
    by (simp add: append.assoc [symmetric] take_add [symmetric])
  with assms show ?thesis
    by (simp add: view_at_def view_set_def vput_vget)
qed

lemma valid_view_at: "off + vsize v \<le> length bs \<Longrightarrow> valid (view_at v off bs)"
  by (simp add: view_at_def valid_vget)

end

text \<open>Structs at disjoint offsets of one block do not disturb each other.\<close>

lemma view_at_set_disjoint:
  assumes "struct_view v V" and "V x"
    and "off + vsize v \<le> length bs" and "off' + vsize w \<le> length bs"
    and "off + vsize v \<le> off' \<or> off' + vsize w \<le> off"
  shows "view_at w off' (view_set v off x bs) = view_at w off' bs"
proof -
  from assms(1) have len: "length (vput v x (take (vsize v) (drop off bs))) = vsize v"
    using assms(2,3) by (simp add: struct_view.length_vput)
  from assms(5) show ?thesis
  proof
    assume a: "off + vsize v \<le> off'"
    then show ?thesis
      using assms(3) len by (simp add: view_at_def view_set_def)
  next
    assume a: "off' + vsize w \<le> off"
    then have "take (vsize w) (drop off' (take off bs)) = take (vsize w) (drop off' bs)"
      by (simp add: drop_take min_def)
    with a show ?thesis
      using assms(3) by (simp add: view_at_def view_set_def)
  qed
qed

end
