(* ===== verification/Block_Device.thy ===== *)
theory Block_Device
  imports Bytes
begin

text \<open>
  \<^verbatim>\<open>src/fs/src/lib.rs\<close>: the block size, the trait \<open>BlockDevice\<close> and the in-memory
  device \<open>fake::Disk\<close> the image tool writes to. A trait object is a state together with its
  method table. The locale \<open>block_device\<close> is the contract the file system relies on: blocks
  below the capacity read back what was last written and writes touch one block only. Every
  lemma on the block cache and on the file system is proved inside this locale, and
  \<open>fake::Disk\<close> interprets it.
\<close>

definition BLOCK_SIZE :: nat where
  "BLOCK_SIZE = 512"

definition BLOCK_BITS :: nat where
  "BLOCK_BITS = BLOCK_SIZE * 8"

lemma BLOCK_SIZE_pos [simp]: "0 < BLOCK_SIZE" "BLOCK_SIZE \<noteq> 0"
  by (simp_all add: BLOCK_SIZE_def)

lemma BLOCK_BITS_pos [simp]: "0 < BLOCK_BITS" "BLOCK_BITS \<noteq> 0"
  by (simp_all add: BLOCK_BITS_def BLOCK_SIZE_def)

section \<open>Trait objects\<close>

record 'd block_device_vtable =
  vt_read_block :: "'d \<Rightarrow> nat \<Rightarrow> u8 list \<Rightarrow> rust_panic + u8 list"
  vt_write_block :: "'d \<Rightarrow> nat \<Rightarrow> u8 list \<Rightarrow> rust_panic + 'd"

record 'd dyn_block_device =
  vtable :: "'d block_device_vtable"
  dev :: 'd

definition read_block :: "'d dyn_block_device \<Rightarrow> nat \<Rightarrow> u8 list \<Rightarrow> rust_panic + u8 list" where
  "read_block d block_id buf = vt_read_block (vtable d) (dev d) block_id buf"

definition write_block ::
    "'d dyn_block_device \<Rightarrow> nat \<Rightarrow> u8 list \<Rightarrow> rust_panic + 'd dyn_block_device" where
  "write_block d block_id buf =
     sbnd (vt_write_block (vtable d) (dev d) block_id buf) (\<lambda>s. Inr (d\<lparr>dev := s\<rparr>))"

section \<open>The in-memory device\<close>

record disk =
  total_blocks :: nat
  data :: "u8 list list"

definition Disk_new :: "nat \<Rightarrow> disk" where
  "Disk_new n = \<lparr>total_blocks = n, data = replicate n (replicate BLOCK_SIZE 0)\<rparr>"

definition Disk_read_block :: "disk \<Rightarrow> nat \<Rightarrow> u8 list \<Rightarrow> rust_panic + u8 list" where
  "Disk_read_block d block_id buf =
     (if \<not> block_id < total_blocks d then Inl AssertFailed
      else if length buf \<noteq> BLOCK_SIZE then Inl AssertFailed
      else index (data d) block_id)"

definition Disk_write_block :: "disk \<Rightarrow> nat \<Rightarrow> u8 list \<Rightarrow> rust_panic + disk" where
  "Disk_write_block d block_id buf =
     (if \<not> block_id < total_blocks d then Inl AssertFailed
      else if length buf \<noteq> BLOCK_SIZE then Inl AssertFailed
      else sbnd (index (data d) block_id) (\<lambda>_. Inr (d\<lparr>data := (data d)[block_id := buf]\<rparr>)))"

definition disk_vtable :: "disk block_device_vtable" where
  "disk_vtable = \<lparr>vt_read_block = Disk_read_block, vt_write_block = Disk_write_block\<rparr>"

text \<open>What the constructor establishes and every write keeps.\<close>

definition disk_inv :: "disk \<Rightarrow> bool" where
  "disk_inv d \<longleftrightarrow> length (data d) = total_blocks d \<and> total_blocks d < U64_RANGE \<and>
     list_all (\<lambda>b. length b = BLOCK_SIZE) (data d)"

definition disk_block :: "disk \<Rightarrow> nat \<Rightarrow> u8 list" where
  "disk_block d i = data d ! i"

section \<open>The contract of a block device\<close>

definition dev_ok ::
    "'d block_device_vtable \<Rightarrow> ('d \<Rightarrow> bool) \<Rightarrow> 'd dyn_block_device \<Rightarrow> bool" where
  "dev_ok vt dinv d \<longleftrightarrow> vtable d = vt \<and> dinv (dev d)"

locale block_device =
  fixes vt :: "'d block_device_vtable"
    and dinv :: "'d \<Rightarrow> bool"
    and cap :: "'d \<Rightarrow> nat"
    and blk :: "'d \<Rightarrow> nat \<Rightarrow> u8 list"
  assumes read_law:
      "dinv d \<Longrightarrow> i < cap d \<Longrightarrow> length buf = BLOCK_SIZE \<Longrightarrow> vt_read_block vt d i buf = Inr (blk d i)"
    and write_law:
      "dinv d \<Longrightarrow> i < cap d \<Longrightarrow> length buf = BLOCK_SIZE \<Longrightarrow>
       \<exists>d'. vt_write_block vt d i buf = Inr d' \<and> dinv d' \<and> cap d' = cap d \<and>
            (\<forall>j<cap d. blk d' j = (if j = i then buf else blk d j))"
    and blk_length: "dinv d \<Longrightarrow> i < cap d \<Longrightarrow> length (blk d i) = BLOCK_SIZE"
    and cap_bound: "dinv d \<Longrightarrow> cap d < U64_RANGE"
begin

text \<open>The same laws for the trait object.\<close>

lemma read_block_ok:
  "dev_ok vt dinv d \<Longrightarrow> i < cap (dev d) \<Longrightarrow> length buf = BLOCK_SIZE \<Longrightarrow>
   read_block d i buf = Inr (blk (dev d) i)"
  by (simp add: dev_ok_def read_block_def read_law)

lemma write_block_ok:
  assumes "dev_ok vt dinv d" and "i < cap (dev d)" and "length buf = BLOCK_SIZE"
  obtains d' where "write_block d i buf = Inr d'" and "dev_ok vt dinv d'"
    and "cap (dev d') = cap (dev d)"
    and "\<And>j. j < cap (dev d) \<Longrightarrow> blk (dev d') j = (if j = i then buf else blk (dev d) j)"
proof -
  from assms write_law [of "dev d" i buf] obtain s where
    "vt_write_block vt (dev d) i buf = Inr s" "dinv s" "cap s = cap (dev d)"
    "\<forall>j<cap (dev d). blk s j = (if j = i then buf else blk (dev d) j)"
    by (auto simp: dev_ok_def)
  with assms(1) show thesis
    by (intro that [of "d\<lparr>dev := s\<rparr>"]) (simp_all add: write_block_def dev_ok_def)
qed

end

interpretation disk_dev: block_device disk_vtable disk_inv total_blocks disk_block
proof unfold_locales
  fix d :: disk and i :: nat and buf :: "u8 list"
  assume d: "disk_inv d"
  then show "total_blocks d < U64_RANGE" by (simp add: disk_inv_def)
  assume i: "i < total_blocks d"
  from d i show "length (disk_block d i) = BLOCK_SIZE"
    by (auto simp: disk_inv_def disk_block_def list_all_length)
  assume buf: "length buf = BLOCK_SIZE"
  from d i buf show "vt_read_block disk_vtable d i buf = Inr (disk_block d i)"
    by (simp add: disk_vtable_def Disk_read_block_def disk_inv_def disk_block_def)
  from d i buf show "\<exists>d'. vt_write_block disk_vtable d i buf = Inr d' \<and> disk_inv d' \<and>
      total_blocks d' = total_blocks d \<and>
      (\<forall>j<total_blocks d. disk_block d' j = (if j = i then buf else disk_block d j))"
    by (auto simp: disk_vtable_def Disk_write_block_def disk_inv_def disk_block_def index_def
        list_all_length nth_list_update)
qed

lemma disk_inv_new [simp]:
  "n < U64_RANGE \<Longrightarrow> disk_inv (Disk_new n)" "total_blocks (Disk_new n) = n"
  by (simp_all add: disk_inv_def Disk_new_def list_all_length)

lemma disk_block_new [simp]: "i < n \<Longrightarrow> disk_block (Disk_new n) i = replicate BLOCK_SIZE 0"
  by (simp add: disk_block_def Disk_new_def)

text \<open>
  Outside the capacity, or with a buffer of another length, the device panics and nothing is
  read or written.
\<close>

lemma Disk_out_of_range:
  "total_blocks d \<le> i \<Longrightarrow> Disk_read_block d i buf = Inl AssertFailed"
  "total_blocks d \<le> i \<Longrightarrow> Disk_write_block d i buf = Inl AssertFailed"
  by (simp_all add: Disk_read_block_def Disk_write_block_def)

end
