(* ===== verification/Block_Cache.thy ===== *)
theory Block_Cache
  imports Block_Device
begin

text \<open>
  \<^verbatim>\<open>src/fs/src/cafs/cache.rs\<close>: the write-back cache of at most 32 blocks. A
  \<open>CacheManager\<close> is a queue of cached blocks over a block device; \<open>get\<close> finds a block,
  loads it, and when the queue is full replaces the first entry nobody holds (dropping a
  cache writes it back when it was modified).

  An \<open>Arc\<close> that \<open>get\<close> has handed out lives in the source exactly as long as the lock
  guard taken from it (every use has the form \<open>get(id).read()...\<close> or
  \<open>get(id).write()...\<close>), so the outstanding handles are the list \<open>held\<close> of locked
  blocks: it gives the strong count of an entry and the state of its \<open>RwLock\<close>. Taking a
  lock that the single thread of control already holds in a conflicting mode spins forever
  and is the panic \<open>Deadlock\<close>.

  The second half of the theory shows that the cache is transparent: whatever is cached,
  replaced or flushed, the clients see one store \<open>nat \<Rightarrow> u8 list\<close> of blocks. The predicate
  \<open>exec\<close> states the effect of an operation on that store, and its rules are all that the
  file system needs to know of the cache.
\<close>

section \<open>Cache\<close>

definition CACHE_SIZE :: nat where
  "CACHE_SIZE = 32"

record cache =
  bytes :: "u8 list"
  block_id :: nat
  modified :: bool

definition Cache_new :: "nat \<Rightarrow> 'd dyn_block_device \<Rightarrow> rust_panic + cache" where
  "Cache_new bid d =
     sbnd (read_block d bid (replicate BLOCK_SIZE 0))
       (\<lambda>buf. Inr \<lparr>bytes = buf, block_id = bid, modified = False\<rparr>)"

text \<open>The assertion and the bounds check of \<open>offset_addr\<close>, then the struct at the offset.\<close>

definition Cache_get_ref :: "'a view \<Rightarrow> nat \<Rightarrow> cache \<Rightarrow> rust_panic + 'a" where
  "Cache_get_ref v off c =
     (if \<not> off + vsize v \<le> BLOCK_SIZE then Inl AssertFailed
      else sbnd (index (bytes c) off) (\<lambda>_. Inr (view_at v off (bytes c))))"

definition Cache_get_mut :: "'a view \<Rightarrow> nat \<Rightarrow> cache \<Rightarrow> rust_panic + ('a \<times> cache)" where
  "Cache_get_mut v off c =
     (if \<not> off + vsize v \<le> BLOCK_SIZE then Inl AssertFailed
      else sbnd (index (bytes c) off) (\<lambda>_. Inr (view_at v off (bytes c), c\<lparr>modified := True\<rparr>)))"

definition Cache_sync ::
    "cache \<Rightarrow> 'd dyn_block_device \<Rightarrow> rust_panic + (cache \<times> 'd dyn_block_device)" where
  "Cache_sync c d =
     (if modified c
      then sbnd (write_block d (block_id c) (bytes c)) (\<lambda>d'. Inr (c\<lparr>modified := False\<rparr>, d'))
      else Inr (c, d))"

text \<open>\<open>Drop for Cache\<close>\<close>

definition Cache_drop :: "cache \<Rightarrow> 'd dyn_block_device \<Rightarrow> rust_panic + 'd dyn_block_device" where
  "Cache_drop c d = sbnd (Cache_sync c d) (\<lambda>(_, d'). Inr d')"

section \<open>CacheManager\<close>

datatype lock_mode = Read | Write

record 'd cache_manager =
  queue :: "(nat \<times> cache) list"
  device :: "'d dyn_block_device"
  held :: "(nat \<times> lock_mode) list"

definition CacheManager_new :: "'d dyn_block_device \<Rightarrow> 'd cache_manager" where
  "CacheManager_new d = \<lparr>queue = [], device = d, held = []\<rparr>"

text \<open>The reference in the queue and one per outstanding handle.\<close>

definition strong_count :: "'d cache_manager \<Rightarrow> nat \<Rightarrow> nat" where
  "strong_count cm bid = Suc (length (filter (\<lambda>h. fst h = bid) (held cm)))"

text \<open>The replacement step of \<open>get\<close>, taken when the queue is full.\<close>

definition substitute :: "('d cache_manager, unit) rust" where
  "substitute = (\<lambda>cm.
     if length (queue cm) = CACHE_SIZE then
       (case find_pos (\<lambda>e. strong_count cm (fst e) = 1) (queue cm) of
          Some idx \<Rightarrow>
            sbnd (Cache_drop (snd (queue cm ! idx)) (device cm))
              (\<lambda>d. Inr ((), cm\<lparr>queue := swap_remove (queue cm) idx, device := d\<rparr>))
        | None \<Rightarrow> Inl RunOutOfBlockCache)
     else Inr ((), cm))"

definition load :: "nat \<Rightarrow> ('d cache_manager, unit) rust" where
  "load bid = (\<lambda>cm.
     sbnd (Cache_new bid (device cm))
       (\<lambda>c. Inr ((), cm\<lparr>queue := queue cm @ [(bid, c)]\<rparr>)))"

definition CacheManager_get :: "nat \<Rightarrow> ('d cache_manager, unit) rust" where
  "CacheManager_get bid =
     bnd (gets (\<lambda>cm. find (\<lambda>e. fst e = bid) (queue cm))) (\<lambda>found.
       case found of
         Some _ \<Rightarrow> ret ()
       | None \<Rightarrow> bnd substitute (\<lambda>_. load bid))"

primrec sync_all ::
    "(nat \<times> cache) list \<Rightarrow> 'd dyn_block_device \<Rightarrow>
     rust_panic + ((nat \<times> cache) list \<times> 'd dyn_block_device)" where
  "sync_all [] d = Inr ([], d)"
| "sync_all (e # es) d =
     sbnd (Cache_sync (snd e) d) (\<lambda>(c, d').
       sbnd (sync_all es d') (\<lambda>(es', d''). Inr ((fst e, c) # es', d'')))"

text \<open>\<open>flush\<close> takes the write lock of every entry in turn.\<close>

definition CacheManager_flush :: "('d cache_manager, unit) rust" where
  "CacheManager_flush = (\<lambda>cm.
     if \<exists>e \<in> set (queue cm). fst e \<in> fst ` set (held cm) then Inl Deadlock
     else sbnd (sync_all (queue cm) (device cm))
            (\<lambda>(q, d). Inr ((), cm\<lparr>queue := q, device := d\<rparr>)))"

section \<open>Guards\<close>

definition can_lock :: "lock_mode \<Rightarrow> nat \<Rightarrow> (nat \<times> lock_mode) list \<Rightarrow> bool" where
  "can_lock mode bid hs =
     (case mode of
        Read \<Rightarrow> (bid, Write) \<notin> set hs
      | Write \<Rightarrow> bid \<notin> fst ` set hs)"

text \<open>\<open>get(bid).read()\<close> or \<open>get(bid).write()\<close> for the duration of a computation.\<close>

definition with_guard ::
    "lock_mode \<Rightarrow> nat \<Rightarrow> ('d cache_manager, 'r) rust \<Rightarrow> ('d cache_manager, 'r) rust" where
  "with_guard mode bid m =
     bnd (CacheManager_get bid) (\<lambda>_.
     bnd (gets held) (\<lambda>hs.
     bnd (require (can_lock mode bid hs) Deadlock) (\<lambda>_.
     bnd (upd (\<lambda>cm. cm\<lparr>held := (bid, mode) # held cm\<rparr>)) (\<lambda>_.
     bnd m (\<lambda>r.
     bnd (upd (\<lambda>cm. cm\<lparr>held := tl (held cm)\<rparr>)) (\<lambda>_.
     ret r))))))"

definition guarded :: "nat \<Rightarrow> ('d cache_manager, cache) rust" where
  "guarded bid =
     bnd (gets (\<lambda>cm. map_of (queue cm) bid)) (\<lambda>found.
       case found of Some c \<Rightarrow> ret c | None \<Rightarrow> panic UnwrapNone)"

definition store_cache :: "nat \<Rightarrow> cache \<Rightarrow> ('d cache_manager, unit) rust" where
  "store_cache bid c =
     upd (\<lambda>cm. cm\<lparr>queue := map (\<lambda>e. if fst e = bid then (bid, c) else e) (queue cm)\<rparr>)"

text \<open>\<open>Cache::read\<close> under a guard that is already held.\<close>

definition Cache_read ::
    "'a view \<Rightarrow> nat \<Rightarrow> nat \<Rightarrow> ('a \<Rightarrow> ('d cache_manager, 'r) rust) \<Rightarrow> ('d cache_manager, 'r) rust" where
  "Cache_read v off bid f =
     bnd (guarded bid) (\<lambda>c. bnd (pure (Cache_get_ref v off c)) f)"

text \<open>
  \<open>Cache::modify\<close> under a guard that is already held. The closure works on the struct in
  place; it is a function from the struct to a computation that yields the closure's result
  and the struct it leaves behind. Nobody can look at the block or at its flag while the
  write guard is out, so the bytes and the flag that \<open>get_mut\<close> sets are stored together
  when the closure is done.
\<close>

definition Cache_modify ::
    "'a view \<Rightarrow> nat \<Rightarrow> nat \<Rightarrow> ('a \<Rightarrow> ('d cache_manager, 'r \<times> 'a) rust) \<Rightarrow>
     ('d cache_manager, 'r) rust" where
  "Cache_modify v off bid f =
     bnd (guarded bid) (\<lambda>c.
     bnd (pure (Cache_get_mut v off c)) (\<lambda>(x, _).
     bnd (f x) (\<lambda>(r, x').
     bnd (guarded bid) (\<lambda>c'.
     bnd (store_cache bid (c'\<lparr>bytes := view_set v off x' (bytes c'), modified := True\<rparr>)) (\<lambda>_.
     ret r)))))"

text \<open>\<open>get(bid).read().read(off, f)\<close> and \<open>get(bid).write().modify(off, f)\<close>\<close>

definition read_at ::
    "'a view \<Rightarrow> nat \<Rightarrow> nat \<Rightarrow> ('a \<Rightarrow> ('d cache_manager, 'r) rust) \<Rightarrow> ('d cache_manager, 'r) rust" where
  "read_at v bid off f = with_guard Read bid (Cache_read v off bid f)"

definition modify_at ::
    "'a view \<Rightarrow> nat \<Rightarrow> nat \<Rightarrow> ('a \<Rightarrow> ('d cache_manager, 'r \<times> 'a) rust) \<Rightarrow>
     ('d cache_manager, 'r) rust" where
  "modify_at v bid off f = with_guard Write bid (Cache_modify v off bid f)"

section \<open>The store behind the cache\<close>

text \<open>
  The invariant of a manager: the entries are distinct, within the device, of block length,
  and an entry that is not marked modified agrees with the device; everything a caller holds
  is cached.
\<close>

definition cm_ok ::
    "'d block_device_vtable \<Rightarrow> ('d \<Rightarrow> bool) \<Rightarrow> ('d \<Rightarrow> nat) \<Rightarrow> ('d \<Rightarrow> nat \<Rightarrow> u8 list) \<Rightarrow>
     'd cache_manager \<Rightarrow> bool" where
  "cm_ok vt dinv cap blk cm \<longleftrightarrow>
     dev_ok vt dinv (device cm) \<and> distinct (map fst (queue cm)) \<and>
     length (queue cm) \<le> CACHE_SIZE \<and> fst ` set (held cm) \<subseteq> fst ` set (queue cm) \<and>
     (\<forall>(i, c) \<in> set (queue cm).
        i < cap (dev (device cm)) \<and> block_id c = i \<and> length (bytes c) = BLOCK_SIZE \<and>
        (modified c \<or> bytes c = blk (dev (device cm)) i))"

definition cview ::
    "('d \<Rightarrow> nat) \<Rightarrow> ('d \<Rightarrow> nat \<Rightarrow> u8 list) \<Rightarrow> 'd cache_manager \<Rightarrow> nat \<Rightarrow> u8 list" where
  "cview cap blk cm i =
     (case map_of (queue cm) i of
        Some c \<Rightarrow> bytes c
      | None \<Rightarrow> if i < cap (dev (device cm)) then blk (dev (device cm)) i else [])"

definition store_at ::
    "'d block_device_vtable \<Rightarrow> ('d \<Rightarrow> bool) \<Rightarrow> ('d \<Rightarrow> nat) \<Rightarrow> ('d \<Rightarrow> nat \<Rightarrow> u8 list) \<Rightarrow>
     nat \<Rightarrow> (nat \<times> lock_mode) list \<Rightarrow> (nat \<Rightarrow> u8 list) \<Rightarrow> 'd cache_manager \<Rightarrow> bool" where
  "store_at vt dinv cap blk n H V cm \<longleftrightarrow>
     cm_ok vt dinv cap blk cm \<and> cap (dev (device cm)) = n \<and> held cm = H \<and>
     cview cap blk cm = V"

context block_device
begin

abbreviation ok where "ok \<equiv> cm_ok vt dinv cap blk"
abbreviation vw where "vw \<equiv> cview cap blk"
abbreviation store where "store \<equiv> store_at vt dinv cap blk"

text \<open>Dropping an entry makes the device agree with it, whether it was modified or not.\<close>

lemma Cache_sync_ok:
  assumes "dev_ok vt dinv d" and "block_id c < cap (dev d)" and "length (bytes c) = BLOCK_SIZE"
    and "modified c \<or> bytes c = blk (dev d) (block_id c)"
  obtains d' where "Cache_sync c d = Inr (c\<lparr>modified := False\<rparr>, d')" and "dev_ok vt dinv d'"
    and "cap (dev d') = cap (dev d)"
    and "\<And>j. j < cap (dev d) \<Longrightarrow>
           blk (dev d') j = (if j = block_id c then bytes c else blk (dev d) j)"
proof (cases "modified c")
  case True
  from write_block_ok [OF assms(1-3)] obtain d' where
    "write_block d (block_id c) (bytes c) = Inr d'" "dev_ok vt dinv d'"
    "cap (dev d') = cap (dev d)"
    "\<And>j. j < cap (dev d) \<Longrightarrow>
       blk (dev d') j = (if j = block_id c then bytes c else blk (dev d) j)"
    by blast
  with True show thesis by (intro that [of d']) (simp_all add: Cache_sync_def)
next
  case False
  with assms show thesis by (intro that [of d]) (auto simp: Cache_sync_def)
qed

lemma ok_entry:
  assumes "ok cm" and "(i, c) \<in> set (queue cm)"
  shows "i < cap (dev (device cm))" "block_id c = i" "length (bytes c) = BLOCK_SIZE"
    "modified c \<or> bytes c = blk (dev (device cm)) i"
  using assms by (auto simp: cm_ok_def)

lemma vw_entry: "ok cm \<Longrightarrow> (i, c) \<in> set (queue cm) \<Longrightarrow> vw cm i = bytes c"
  by (simp add: cview_def cm_ok_def)

lemma vw_not_cached:
  "i \<notin> fst ` set (queue cm) \<Longrightarrow> i < cap (dev (device cm)) \<Longrightarrow> vw cm i = blk (dev (device cm)) i"
  by (simp add: cview_def map_of_eq_None_iff [THEN iffD2])

lemma vw_length: "ok cm \<Longrightarrow> i < cap (dev (device cm)) \<Longrightarrow> length (vw cm i) = BLOCK_SIZE"
  by (auto simp: cview_def cm_ok_def dev_ok_def blk_length dest!: map_of_SomeD split: option.split)

text \<open>
  Replacing an entry keeps what the clients see. The queue is full of distinct blocks and
  fewer than 32 handles are out, so some entry is free: the panic of the source cannot
  happen.
\<close>

lemma free_entry_exists:
  assumes "ok cm" and "length (queue cm) = CACHE_SIZE" and "length (held cm) < CACHE_SIZE"
  obtains idx where "find_pos (\<lambda>e. strong_count cm (fst e) = 1) (queue cm) = Some idx"
    and "idx < length (queue cm)" and "fst (queue cm ! idx) \<notin> fst ` set (held cm)"
proof -
  have "card (fst ` set (held cm)) \<le> length (held cm)"
    by (metis card_length list.set_map length_map)
  moreover have "card (fst ` set (queue cm)) = length (queue cm)"
    using assms(1) by (metis cm_ok_def distinct_card length_map list.set_map)
  ultimately have "\<not> fst ` set (queue cm) \<subseteq> fst ` set (held cm)"
    using assms(2,3) by (metis List.finite_set card_mono finite_imageI leD le_less_trans)
  then obtain e where "e \<in> set (queue cm)" "fst e \<notin> fst ` set (held cm)" by blast
  moreover have free: "strong_count cm i = 1 \<longleftrightarrow> i \<notin> fst ` set (held cm)" for i
    by (auto simp: strong_count_def filter_empty_conv)
  ultimately have "find_pos (\<lambda>e. strong_count cm (fst e) = 1) (queue cm) \<noteq> None"
    by (auto simp: find_pos_None)
  then obtain idx where "find_pos (\<lambda>e. strong_count cm (fst e) = 1) (queue cm) = Some idx"
    by blast
  then show thesis using that free by (auto simp: find_pos_Some)
qed

lemma swap_remove_queue:
  assumes "ok cm" and "idx < length (queue cm)" and "queue cm ! idx = (i, c)"
  shows "set (swap_remove (queue cm) idx) = set (queue cm) - {(i, c)}"
    and "fst ` set (swap_remove (queue cm) idx) = fst ` set (queue cm) - {i}"
    and "distinct (map fst (swap_remove (queue cm) idx))"
proof -
  have dist: "distinct (map fst (queue cm))" using assms(1) by (simp add: cm_ok_def)
  then show "set (swap_remove (queue cm) idx) = set (queue cm) - {(i, c)}"
    using distinct_swap_remove(2) [of "queue cm" idx] assms(2,3) by (simp add: distinct_map)
  have map_q: "map fst (swap_remove (queue cm) idx) = swap_remove (map fst (queue cm)) idx"
    using assms(2) by (intro map_swap_remove) auto
  show "fst ` set (swap_remove (queue cm) idx) = fst ` set (queue cm) - {i}"
    and "distinct (map fst (swap_remove (queue cm) idx))"
    using distinct_swap_remove [OF dist, of idx] assms(2,3) by (simp_all add: map_q [symmetric])
qed

text \<open>The cache after an entry left the queue for the device: it is in order and shows the same blocks.\<close>

lemma evicted_ok:
  assumes cm: "ok cm" and idx: "idx < length (queue cm)" and e: "queue cm ! idx = (i, c)"
    and free: "i \<notin> fst ` set (held cm)"
    and d: "dev_ok vt dinv d" "cap (dev d) = cap (dev (device cm))"
    and blk: "\<And>j. j < cap (dev (device cm)) \<Longrightarrow> blk (dev d) j = (if j = i then bytes c else blk (dev (device cm)) j)"
  shows "ok (cm\<lparr>queue := swap_remove (queue cm) idx, device := d\<rparr>)" (is "ok ?cm")
    and "vw (cm\<lparr>queue := swap_remove (queue cm) idx, device := d\<rparr>) = vw cm"
proof -
  let ?q = "swap_remove (queue cm) idx"
  have ic: "(i, c) \<in> set (queue cm)" using e idx by (metis nth_mem)
  note q = swap_remove_queue [OF cm idx e]
  have "\<forall>(j, c') \<in> set ?q. j < cap (dev d) \<and> block_id c' = j \<and>
      length (bytes c') = BLOCK_SIZE \<and> (modified c' \<or> bytes c' = blk (dev d) j)"
  proof clarify
    fix j c'
    assume j: "(j, c') \<in> set ?q"
    then have "j \<noteq> i" "(j, c') \<in> set (queue cm)" using q(1,2) by force+
    then show "j < cap (dev d) \<and> block_id c' = j \<and> length (bytes c') = BLOCK_SIZE \<and>
        (modified c' \<or> bytes c' = blk (dev d) j)"
      using ok_entry [OF cm, of j c'] blk [of j] d by simp
  qed
  moreover have "fst ` set (held cm) \<subseteq> fst ` set ?q" using cm free q(2) by (auto simp: cm_ok_def)
  ultimately show ok: "ok ?cm" using cm q(3) d by (simp add: cm_ok_def) linarith
  have "vw ?cm j = vw cm j" for j
  proof (cases "j \<in> fst ` set ?q")
    case True
    then obtain c' where jc: "(j, c') \<in> set ?q" by auto
    with ok have "vw ?cm j = bytes c'" by (intro vw_entry) simp_all
    with jc q(1) show ?thesis using vw_entry [OF cm, of j c'] by simp
  next
    case False
    then have "vw ?cm j = (if j < cap (dev (device cm)) then blk (dev d) j else [])"
      using d by (simp add: cview_def map_of_eq_None_iff [THEN iffD2])
    moreover have "j \<noteq> i \<Longrightarrow> j \<notin> fst ` set (queue cm)" using False q(2) by simp
    ultimately show ?thesis
      using blk [of j] ok_entry [OF cm ic] vw_entry [OF cm ic]
      by (cases "j = i") (simp_all add: cview_def map_of_eq_None_iff [THEN iffD2])
  qed
  then show "vw ?cm = vw cm" by (simp add: fun_eq_iff)
qed

lemma drop_entry_ok:
  assumes cm: "ok cm" and idx: "idx < length (queue cm)"
    and free: "fst (queue cm ! idx) \<notin> fst ` set (held cm)"
  obtains d where "Cache_drop (snd (queue cm ! idx)) (device cm) = Inr d"
    and "let cm' = cm\<lparr>queue := swap_remove (queue cm) idx, device := d\<rparr>
         in ok cm' \<and> cap (dev d) = cap (dev (device cm)) \<and> vw cm' = vw cm"
proof -
  obtain i c where e: "queue cm ! idx = (i, c)" by (cases "queue cm ! idx")
  with idx have ic: "(i, c) \<in> set (queue cm)" by (metis nth_mem)
  from cm have dev: "dev_ok vt dinv (device cm)" by (simp add: cm_ok_def)
  from Cache_sync_ok [OF dev, of c] ok_entry [OF cm ic] obtain d where
    sync: "Cache_sync c (device cm) = Inr (c\<lparr>modified := False\<rparr>, d)"
    and d: "dev_ok vt dinv d" "cap (dev d) = cap (dev (device cm))"
    and blk: "\<And>j. j < cap (dev (device cm)) \<Longrightarrow>
      blk (dev d) j = (if j = i then bytes c else blk (dev (device cm)) j)"
    by (metis (no_types, lifting))
  with evicted_ok [OF cm idx e _ d blk] free e show thesis
    using that [of d] by (simp add: Cache_drop_def)
qed

lemma substitute_ok:
  assumes "ok cm" and "length (held cm) < CACHE_SIZE"
  shows "runs substitute cm (\<lambda>_ cm'. ok cm' \<and> length (queue cm') < CACHE_SIZE \<and>
    held cm' = held cm \<and> cap (dev (device cm')) = cap (dev (device cm)) \<and> vw cm' = vw cm \<and>
    fst ` set (queue cm') \<subseteq> fst ` set (queue cm))"
proof (cases "length (queue cm) = CACHE_SIZE")
  case True
  from free_entry_exists [OF assms(1) True assms(2)] obtain idx where
    idx: "find_pos (\<lambda>e. strong_count cm (fst e) = 1) (queue cm) = Some idx"
    "idx < length (queue cm)" "fst (queue cm ! idx) \<notin> fst ` set (held cm)"
    by blast
  from drop_entry_ok [OF assms(1) idx(2,3)] obtain d where
    "Cache_drop (snd (queue cm ! idx)) (device cm) = Inr d"
    "ok (cm\<lparr>queue := swap_remove (queue cm) idx, device := d\<rparr>)"
    "cap (dev d) = cap (dev (device cm))"
    "vw (cm\<lparr>queue := swap_remove (queue cm) idx, device := d\<rparr>) = vw cm"
    by (auto simp: Let_def)
  moreover have "set (swap_remove (queue cm) idx) \<subseteq> set (queue cm)"
    using distinct_swap_remove(2) [of "queue cm" idx] idx(2) assms(1)
    by (auto simp: cm_ok_def distinct_map)
  ultimately show ?thesis
    using True idx by (auto simp: runs_def substitute_def CACHE_SIZE_def)
next
  case False
  with assms show ?thesis by (auto simp: runs_def substitute_def cm_ok_def)
qed

lemma load_ok:
  assumes cm: "ok cm" and len: "length (queue cm) < CACHE_SIZE"
    and new: "i \<notin> fst ` set (queue cm)" and i: "i < cap (dev (device cm))"
  shows "runs (load i) cm (\<lambda>_ cm'. ok cm' \<and> i \<in> fst ` set (queue cm') \<and> held cm' = held cm \<and>
    device cm' = device cm \<and> vw cm' = vw cm)"
proof -
  let ?c = "\<lparr>bytes = blk (dev (device cm)) i, block_id = i, modified = False\<rparr>"
  let ?cm = "cm\<lparr>queue := queue cm @ [(i, ?c)]\<rparr>"
  from cm have dev: "dev_ok vt dinv (device cm)" by (simp add: cm_ok_def)
  with i have "Cache_new i (device cm) = Inr ?c"
    by (simp add: Cache_new_def read_block_ok)
  moreover have "ok ?cm"
    using cm len new i dev by (auto simp: cm_ok_def dev_ok_def blk_length image_iff)
  moreover have "vw ?cm = vw cm"
    using new i by (auto simp: cview_def fun_eq_iff map_add_def map_of_eq_None_iff [THEN iffD2]
        split: option.split)
  ultimately show ?thesis by (simp add: runs_def load_def)
qed

lemma CacheManager_get_ok:
  assumes "ok cm" and "i < cap (dev (device cm))" and "length (held cm) < CACHE_SIZE"
  shows "runs (CacheManager_get i) cm (\<lambda>_ cm'. ok cm' \<and> i \<in> fst ` set (queue cm') \<and>
    held cm' = held cm \<and> cap (dev (device cm')) = cap (dev (device cm)) \<and> vw cm' = vw cm)"
proof (cases "find (\<lambda>e. fst e = i) (queue cm)")
  case None
  then have new: "i \<notin> fst ` set (queue cm)" by (auto simp: find_None_iff)
  have "runs (bnd substitute (\<lambda>_. load i)) cm (\<lambda>_ cm'. ok cm' \<and> i \<in> fst ` set (queue cm') \<and>
    held cm' = held cm \<and> cap (dev (device cm')) = cap (dev (device cm)) \<and> vw cm' = vw cm)"
    unfolding runs_bnd
  proof (rule runs_mono [OF substitute_ok [OF assms(1,3)]], elim conjE)
    fix u cm'
    assume *: "ok cm'" "length (queue cm') < CACHE_SIZE" "held cm' = held cm"
      "cap (dev (device cm')) = cap (dev (device cm))" "vw cm' = vw cm"
      "fst ` set (queue cm') \<subseteq> fst ` set (queue cm)"
    with new assms(2) have "i \<notin> fst ` set (queue cm')" "i < cap (dev (device cm'))" by auto
    from load_ok [OF *(1,2) this]
    show "runs (load i) cm' (\<lambda>_ cm'. ok cm' \<and> i \<in> fst ` set (queue cm') \<and>
      held cm' = held cm \<and> cap (dev (device cm')) = cap (dev (device cm)) \<and> vw cm' = vw cm)"
      by (rule runs_mono) (simp add: *)
  qed
  then show ?thesis by (simp add: CacheManager_get_def wp None)
next
  case (Some e)
  then have "i \<in> fst ` set (queue cm)" by (auto simp: find_Some_iff)
  with Some assms show ?thesis by (simp add: CacheManager_get_def wp)
qed

section \<open>The effect of an operation on the store\<close>

text \<open>
  \<open>exec n H V m P\<close>: with the blocks \<open>V\<close> on a device of \<open>n\<close> blocks and the guards \<open>H\<close> held,
  \<open>m\<close> returns, holds the same guards afterwards, and its result and the new blocks
  satisfy \<open>P\<close>. Nothing of the queue is left in this statement.
\<close>

definition exec ::
    "nat \<Rightarrow> (nat \<times> lock_mode) list \<Rightarrow> (nat \<Rightarrow> u8 list) \<Rightarrow> ('d cache_manager, 'r) rust \<Rightarrow>
     ('r \<Rightarrow> (nat \<Rightarrow> u8 list) \<Rightarrow> bool) \<Rightarrow> bool" where
  "exec n H V m P \<longleftrightarrow>
     (\<forall>cm. store n H V cm \<longrightarrow> runs m cm (\<lambda>r cm'. \<exists>V'. store n H V' cm' \<and> P r V'))"

lemma execI:
  "(\<And>cm. store n H V cm \<Longrightarrow> runs m cm (\<lambda>r cm'. \<exists>V'. store n H V' cm' \<and> P r V')) \<Longrightarrow> exec n H V m P"
  by (simp add: exec_def)

lemma execD: "exec n H V m P \<Longrightarrow> store n H V cm \<Longrightarrow> runs m cm (\<lambda>r cm'. \<exists>V'. store n H V' cm' \<and> P r V')"
  by (simp add: exec_def)

lemma exec_mono: "exec n H V m P \<Longrightarrow> (\<And>r V'. P r V' \<Longrightarrow> Q r V') \<Longrightarrow> exec n H V m Q"
  by (rule execI, drule execD, assumption, erule runs_mono) auto

lemma exec_ret: "P a V \<Longrightarrow> exec n H V (ret a) P"
  by (auto simp: exec_def wp)

lemma exec_pure: "r = Inr a \<Longrightarrow> P a V \<Longrightarrow> exec n H V (pure r) P"
  by (auto simp: exec_def wp)

lemma exec_require: "b \<Longrightarrow> P () V \<Longrightarrow> exec n H V (require b e) P"
  by (auto simp: exec_def wp)

lemma exec_bnd:
  assumes "exec n H V m (\<lambda>a V'. exec n H V' (f a) P)"
  shows "exec n H V (bnd m f) P"
proof (rule execI)
  fix cm
  assume "store n H V cm"
  from execD [OF assms this]
  show "runs (bnd m f) cm (\<lambda>r cm'. \<exists>V'. store n H V' cm' \<and> P r V')"
    unfolding runs_bnd by (rule runs_mono) (auto dest: execD)
qed

lemma exec_for_each:
  assumes "I xs V"
    and "\<And>y ys W. I (y # ys) W \<Longrightarrow> exec n H W (f y) (\<lambda>_ W'. I ys W')"
    and "\<And>W. I [] W \<Longrightarrow> P () W"
  shows "exec n H V (for_each xs f) P"
  using assms(1)
proof (induction xs arbitrary: V)
  case Nil
  then show ?case using assms(3) by (auto intro: exec_ret)
next
  case (Cons x xs)
  show ?case
    by simp (rule exec_bnd, rule exec_mono [OF assms(2) [OF Cons.prems]], rule Cons.IH)
qed

lemma exec_fold_each:
  assumes "\<And>x acc. x \<in> set xs \<Longrightarrow> exec n H V (f x acc) (\<lambda>r V'. V' = V \<and> r = g x acc)"
  shows "exec n H V (fold_each xs f acc) (\<lambda>r V'. V' = V \<and> r = fold g xs acc)"
  using assms
proof (induction xs arbitrary: acc)
  case Nil
  then show ?case by (simp add: exec_ret)
next
  case (Cons x xs)
  then have x: "exec n H V (f x acc) (\<lambda>r V'. V' = V \<and> r = g x acc)" by simp
  have "exec n H V (fold_each xs f acc) (\<lambda>r V'. V' = V \<and> r = fold g xs acc)" for acc
    using Cons by simp
  then show ?case by simp (rule exec_bnd, rule exec_mono [OF x], auto)
qed

lemma exec_repeat_each:
  assumes "I k [] V"
    and "\<And>j acc W. I (Suc j) acc W \<Longrightarrow> exec n H W m (\<lambda>y W'. I j (acc @ [y]) W')"
    and "\<And>acc W. I 0 acc W \<Longrightarrow> P acc W"
  shows "exec n H V (repeat_each k m) P"
proof -
  have "I k acc W \<Longrightarrow> exec n H W (repeat_each k m) (\<lambda>ys W'. I 0 (acc @ ys) W')" for acc W
  proof (induction k arbitrary: acc W)
    case 0
    then show ?case by (auto intro: exec_ret)
  next
    case (Suc k)
    show ?case
      by simp (rule exec_bnd, rule exec_mono [OF assms(2) [OF Suc.prems]], rule exec_bnd,
          drule Suc.IH, erule exec_mono, simp add: exec_ret)
  qed
  from this [OF assms(1)] show ?thesis
    by (rule exec_mono) (use assms(3) in auto)
qed

text \<open>Taking and releasing a guard.\<close>

lemma vw_held [simp]: "vw (cm\<lparr>held := hs\<rparr>) = vw cm"
  by (simp add: cview_def fun_eq_iff split: option.split)

lemma store_push:
  "store n H V cm \<Longrightarrow> i \<in> fst ` set (queue cm) \<Longrightarrow>
   store n ((i, mode) # H) V (cm\<lparr>held := (i, mode) # H\<rparr>)"
  by (auto simp: store_at_def cm_ok_def)

lemma store_pop: "store n (h # H) V cm \<Longrightarrow> store n H V (cm\<lparr>held := H\<rparr>)"
proof -
  assume a: "store n (h # H) V cm"
  then have "ok cm" and "held cm = h # H" by (simp_all add: store_at_def)
  then have "fst ` set H \<subseteq> fst ` set (queue cm)" by (simp add: cm_ok_def)
  with a show ?thesis by (auto simp: store_at_def cm_ok_def)
qed

lemma exec_with_guard:
  assumes i: "i < n" and H: "length H < CACHE_SIZE" and free: "can_lock mode i H"
    and body: "exec n ((i, mode) # H) V m P"
  shows "exec n H V (with_guard mode i m) P"
proof (rule execI)
  fix cm
  assume st: "store n H V cm"
  then have "ok cm" "i < cap (dev (device cm))" "length (held cm) < CACHE_SIZE"
    using i H by (auto simp: store_at_def)
  from CacheManager_get_ok [OF this]
  show "runs (with_guard mode i m) cm (\<lambda>r cm'. \<exists>V'. store n H V' cm' \<and> P r V')"
    unfolding with_guard_def runs_bnd
  proof (rule runs_mono, elim conjE)
    fix u cm'
    assume *: "ok cm'" "i \<in> fst ` set (queue cm')" "held cm' = held cm"
      "cap (dev (device cm')) = cap (dev (device cm))" "vw cm' = vw cm"
    with st have st': "store n H V cm'" by (auto simp: store_at_def)
    then have held: "held cm' = H" by (simp add: store_at_def)
    from execD [OF body store_push [OF st' *(2)]] held free
    show "runs (gets held) cm' (\<lambda>a s'. runs (require (can_lock mode i a) Deadlock) s'
      (\<lambda>a s'. runs (upd (\<lambda>cm. cm\<lparr>held := (i, mode) # held cm\<rparr>)) s'
      (\<lambda>a s'. runs m s' (\<lambda>a s'. runs (upd (\<lambda>cm. cm\<lparr>held := tl (held cm)\<rparr>)) s'
      (\<lambda>aa s'. runs (ret a) s' (\<lambda>r cm'. \<exists>V'. store n H V' cm' \<and> P r V'))))))"
    proof (simp add: wp, elim runs_mono exE conjE)
      fix r cm2 V'
      assume "store n ((i, mode) # H) V' cm2" and "P r V'"
      moreover from this have "held cm2 = (i, mode) # H" by (simp add: store_at_def)
      ultimately show "\<exists>V'. store n H V' (cm2\<lparr>held := tl (held cm2)\<rparr>) \<and> P r V'"
        by (auto dest: store_pop)
    qed
  qed
qed

text \<open>Reading and writing the guarded block.\<close>

lemma guarded_ok:
  assumes "store n H V cm" and "i \<in> fst ` set H"
  obtains c where "map_of (queue cm) i = Some c" and "(i, c) \<in> set (queue cm)"
    and "bytes c = V i" and "length (V i) = BLOCK_SIZE"
proof -
  from assms have "i \<in> fst ` set (queue cm)" by (auto simp: store_at_def cm_ok_def)
  then obtain c where c: "(i, c) \<in> set (queue cm)" by auto
  from assms(1) have ok: "ok cm" and V: "vw cm = V" by (simp_all add: store_at_def)
  from ok c have "map_of (queue cm) i = Some c" by (simp add: cm_ok_def)
  moreover from vw_entry [OF ok c] V have "bytes c = V i" by simp
  moreover from ok_entry(3) [OF ok c] calculation have "length (V i) = BLOCK_SIZE" by simp
  ultimately show thesis using that c by simp
qed

lemma exec_Cache_read:
  assumes "i \<in> fst ` set H" and "off + vsize v \<le> BLOCK_SIZE" and "off < BLOCK_SIZE"
    and "exec n H V (f (view_at v off (V i))) P"
  shows "exec n H V (Cache_read v off i f) P"
proof (rule execI)
  fix cm
  assume st: "store n H V cm"
  from guarded_ok [OF st assms(1)] obtain c where
    "map_of (queue cm) i = Some c" "bytes c = V i" "length (V i) = BLOCK_SIZE" by blast
  with assms(2,3) execD [OF assms(4) st]
  show "runs (Cache_read v off i f) cm (\<lambda>r cm'. \<exists>V'. store n H V' cm' \<and> P r V')"
    by (simp add: Cache_read_def guarded_def wp Cache_get_ref_def index_def)
qed

lemma map_of_replace:
  "i \<in> fst ` set q \<Longrightarrow> map_of (map (\<lambda>e. if fst e = i then (i, c) else e) q) = (map_of q)(i \<mapsto> c)"
proof (induction q)
  case Nil
  then show ?case by simp
next
  case (Cons e q)
  show ?case
  proof (cases "i \<in> fst ` set q")
    case True
    with Cons.IH show ?thesis by (cases e) (auto simp: fun_eq_iff)
  next
    case False
    then have "map (\<lambda>e. if fst e = i then (i, c) else e) q = q" by (intro map_idI) auto
    with Cons.prems False show ?thesis by (cases e) (auto simp: fun_eq_iff)
  qed
qed

lemma store_cache_ok:
  assumes st: "store n H V cm" and i: "i \<in> fst ` set H"
    and c: "block_id c = i" "length (bytes c) = BLOCK_SIZE" "modified c"
  shows "runs (store_cache i c) cm (\<lambda>_ cm'. store n H (V(i := bytes c)) cm')"
proof -
  let ?q = "map (\<lambda>e. if fst e = i then (i, c) else e) (queue cm)"
  let ?cm = "cm\<lparr>queue := ?q\<rparr>"
  from guarded_ok [OF st i] obtain c0 where c0: "(i, c0) \<in> set (queue cm)" by blast
  from st have ok: "ok cm" and V: "vw cm = V" and n: "cap (dev (device cm)) = n"
    and H: "held cm = H" by (simp_all add: store_at_def)
  have keys: "map fst ?q = map fst (queue cm)" by (induction "queue cm") auto
  then have fsts: "fst ` set ?q = fst ` set (queue cm)" by (metis list.set_map)
  have "\<forall>(j, c') \<in> set ?q. j < n \<and> block_id c' = j \<and> length (bytes c') = BLOCK_SIZE \<and>
      (modified c' \<or> bytes c' = blk (dev (device cm)) j)"
  proof clarify
    fix j c'
    assume "(j, c') \<in> set ?q"
    then consider "j = i" "c' = c" | "(j, c') \<in> set (queue cm)"
      by (auto split: if_splits)
    then show "j < n \<and> block_id c' = j \<and> length (bytes c') = BLOCK_SIZE \<and>
        (modified c' \<or> bytes c' = blk (dev (device cm)) j)"
    proof cases
      case 1
      then show ?thesis using ok_entry(1) [OF ok c0] c n by simp
    next
      case 2
      then show ?thesis using ok_entry [OF ok 2] n by simp
    qed
  qed
  with ok keys fsts n have "ok ?cm" by (simp add: cm_ok_def del: map_map)
  moreover have "vw ?cm = V(i := bytes c)"
  proof -
    have "i \<in> fst ` set (queue cm)" using c0 by force
    from map_of_replace [OF this] have "vw ?cm j = (V(i := bytes c)) j" for j
      using V [THEN fun_cong, of j] by (simp add: cview_def del: map_map split: option.split_asm if_split_asm)
    then show ?thesis by blast
  qed
  ultimately show ?thesis
    using n H by (simp add: store_cache_def wp store_at_def)
qed

lemma exec_Cache_modify:
  assumes i: "i \<in> fst ` set H" and off: "off + vsize v \<le> BLOCK_SIZE" "off < BLOCK_SIZE"
    and body: "exec n H V (f (view_at v off (V i)))
      (\<lambda>(r, x) V'. length (view_set v off x (V' i)) = BLOCK_SIZE \<and>
         P r (V'(i := view_set v off x (V' i))))"
  shows "exec n H V (Cache_modify v off i f) P"
proof (rule execI)
  fix cm
  assume st: "store n H V cm"
  from guarded_ok [OF st i] obtain c where c: "map_of (queue cm) i = Some c"
    "(i, c) \<in> set (queue cm)" "bytes c = V i" "length (V i) = BLOCK_SIZE" by blast
  from st c(2) have bid: "block_id c = i" by (auto simp: store_at_def dest: ok_entry(2))
  let ?Q = "\<lambda>r cm'. \<exists>V'. store n H V' cm' \<and> P r V'"
  have after: "runs (bnd (guarded i)
      (\<lambda>c. bnd (store_cache i (c\<lparr>bytes := view_set v off x (bytes c), modified := True\<rparr>))
      (\<lambda>_. ret r))) cm2 ?Q"
    if "store n H V' cm2" and "length (view_set v off x (V' i)) = BLOCK_SIZE"
      and "P r (V'(i := view_set v off x (V' i)))" for r x V' cm2
  proof -
    from guarded_ok [OF that(1) i] obtain c2 where c2: "map_of (queue cm2) i = Some c2"
      "(i, c2) \<in> set (queue cm2)" "bytes c2 = V' i" by blast
    from that(1) c2(2) have "block_id c2 = i" by (auto simp: store_at_def dest: ok_entry(2))
    with store_cache_ok [OF that(1) i,
        of "c2\<lparr>bytes := view_set v off x (bytes c2), modified := True\<rparr>"] that c2
    show ?thesis by (auto simp: wp guarded_def elim!: runs_mono)
  qed
  from execD [OF body st] c off
  show "runs (Cache_modify v off i f) cm ?Q"
    unfolding Cache_modify_def
    by (simp add: runs_bnd [of "guarded i"] runs_bnd [of "pure _"] runs_pure Cache_get_mut_def
        index_def)
      (auto simp: guarded_def wp elim!: runs_mono dest!: after)
qed

lemma exec_read_at:
  assumes "i < n" and "length H < CACHE_SIZE" and "(i, Write) \<notin> set H"
    and "off + vsize v \<le> BLOCK_SIZE" and "off < BLOCK_SIZE"
    and "exec n ((i, Read) # H) V (f (view_at v off (V i))) P"
  shows "exec n H V (read_at v i off f) P"
  unfolding read_at_def
  by (rule exec_with_guard, use assms in \<open>simp_all add: can_lock_def\<close>)
    (rule exec_Cache_read, simp_all)

lemma exec_modify_at:
  assumes "i < n" and "length H < CACHE_SIZE" and "i \<notin> fst ` set H"
    and "off + vsize v \<le> BLOCK_SIZE" and "off < BLOCK_SIZE"
    and "exec n ((i, Write) # H) V (f (view_at v off (V i)))
      (\<lambda>(r, x) V'. length (view_set v off x (V' i)) = BLOCK_SIZE \<and>
         P r (V'(i := view_set v off x (V' i))))"
  shows "exec n H V (modify_at v i off f) P"
  unfolding modify_at_def
  by (rule exec_with_guard, use assms in \<open>simp_all add: can_lock_def\<close>)
    (rule exec_Cache_modify, simp_all)

lemma store_length: "store n H V cm \<Longrightarrow> i < n \<Longrightarrow> length (V i) = BLOCK_SIZE"
  using vw_length by (auto simp: store_at_def)

lemma store_range: "store n H V cm \<Longrightarrow> n < U64_RANGE"
  using cap_bound by (auto simp: store_at_def cm_ok_def dev_ok_def)

text \<open>
  Every proof about a store may use that its blocks have the block length and that block
  numbers are machine integers.
\<close>

lemma exec_wf:
  assumes "(\<And>i. i < n \<Longrightarrow> length (V i) = BLOCK_SIZE) \<Longrightarrow> n < U64_RANGE \<Longrightarrow> exec n H V m P"
  shows "exec n H V m P"
  using assms store_length store_range unfolding exec_def by blast

section \<open>Operations that panic\<close>

text \<open>\<open>exec_fail n H V m e\<close>: with these blocks and guards, \<open>m\<close> stops with the panic \<open>e\<close>.\<close>

definition exec_fail ::
    "nat \<Rightarrow> (nat \<times> lock_mode) list \<Rightarrow> (nat \<Rightarrow> u8 list) \<Rightarrow> ('d cache_manager, 'r) rust \<Rightarrow>
     rust_panic \<Rightarrow> bool" where
  "exec_fail n H V m e \<longleftrightarrow> (\<forall>cm. store n H V cm \<longrightarrow> m cm = Inl e)"

lemma exec_failD: "exec_fail n H V m e \<Longrightarrow> store n H V cm \<Longrightarrow> m cm = Inl e"
  by (simp add: exec_fail_def)

lemma exec_fail_panic: "exec_fail n H V (panic e) e"
  by (simp add: exec_fail_def panic_def)

lemma exec_fail_require: "\<not> b \<Longrightarrow> exec_fail n H V (require b e) e"
  by (simp add: exec_fail_def require_def panic_def)

lemma exec_fail_pure: "r = Inl e \<Longrightarrow> exec_fail n H V (pure r) e"
  by (simp add: exec_fail_def pure_def)

lemma exec_fail_bnd1: "exec_fail n H V m e \<Longrightarrow> exec_fail n H V (bnd m f) e"
  by (simp add: exec_fail_def bnd_def)

lemma exec_fail_bnd2:
  assumes "exec n H V m (\<lambda>a V'. exec_fail n H V' (f a) e)"
  shows "exec_fail n H V (bnd m f) e"
  using assms unfolding exec_fail_def exec_def runs_iff_result by (fastforce simp: bnd_def)

lemma exec_fail_wf:
  assumes "(\<And>i. i < n \<Longrightarrow> length (V i) = BLOCK_SIZE) \<Longrightarrow> n < U64_RANGE \<Longrightarrow> exec_fail n H V m e"
  shows "exec_fail n H V m e"
  using assms store_length store_range unfolding exec_fail_def by blast

lemma exec_fail_with_guard:
  assumes i: "i < n" and H: "length H < CACHE_SIZE" and free: "can_lock mode i H"
    and body: "exec_fail n ((i, mode) # H) V m e"
  shows "exec_fail n H V (with_guard mode i m) e"
  unfolding exec_fail_def
proof (intro allI impI)
  fix cm
  assume st: "store n H V cm"
  then have "ok cm" "i < cap (dev (device cm))" "length (held cm) < CACHE_SIZE"
    using i H by (auto simp: store_at_def)
  from CacheManager_get_ok [OF this] obtain cm' where
    get: "CacheManager_get i cm = Inr ((), cm')" and *: "ok cm'" "i \<in> fst ` set (queue cm')"
      "held cm' = held cm" "cap (dev (device cm')) = cap (dev (device cm))" "vw cm' = vw cm"
    by (auto simp: runs_iff_result)
  with st have st': "store n H V cm'" by (auto simp: store_at_def)
  then have "held cm' = H" by (simp add: store_at_def)
  with get exec_failD [OF body store_push [OF st' *(2)]] free
  show "with_guard mode i m cm = Inl e"
    by (simp add: with_guard_def bnd_def gets_def require_def ret_def upd_def)
qed

lemma exec_fail_modify_at:
  assumes "i < n" and "length H < CACHE_SIZE" and "i \<notin> fst ` set H"
    and off: "off + vsize v \<le> BLOCK_SIZE" "off < BLOCK_SIZE"
    and body: "exec_fail n ((i, Write) # H) V (f (view_at v off (V i))) e"
  shows "exec_fail n H V (modify_at v i off f) e"
  unfolding modify_at_def
proof (rule exec_fail_with_guard [OF assms(1,2)])
  show "can_lock Write i H" using assms(3) by (simp add: can_lock_def)
  show "exec_fail n ((i, Write) # H) V (Cache_modify v off i f) e"
    unfolding exec_fail_def
  proof (intro allI impI)
    fix cm
    assume st: "store n ((i, Write) # H) V cm"
    from guarded_ok [OF st, of i] obtain c where
      "map_of (queue cm) i = Some c" "bytes c = V i" "length (V i) = BLOCK_SIZE" by auto
    with exec_failD [OF body st] off show "Cache_modify v off i f cm = Inl e"
      by (simp add: Cache_modify_def guarded_def bnd_def gets_def ret_def pure_def
          Cache_get_mut_def index_def)
  qed
qed

lemma exec_fail_read_at:
  assumes "i < n" and "length H < CACHE_SIZE" and "(i, Write) \<notin> set H"
    and off: "off + vsize v \<le> BLOCK_SIZE" "off < BLOCK_SIZE"
    and body: "exec_fail n ((i, Read) # H) V (f (view_at v off (V i))) e"
  shows "exec_fail n H V (read_at v i off f) e"
  unfolding read_at_def
proof (rule exec_fail_with_guard [OF assms(1,2)])
  show "can_lock Read i H" using assms(3) by (simp add: can_lock_def)
  show "exec_fail n ((i, Read) # H) V (Cache_read v off i f) e"
    unfolding exec_fail_def
  proof (intro allI impI)
    fix cm
    assume st: "store n ((i, Read) # H) V cm"
    from guarded_ok [OF st, of i] obtain c where
      "map_of (queue cm) i = Some c" "bytes c = V i" "length (V i) = BLOCK_SIZE" by auto
    with exec_failD [OF body st] off show "Cache_read v off i f cm = Inl e"
      by (simp add: Cache_read_def guarded_def bnd_def gets_def ret_def pure_def
          Cache_get_ref_def index_def)
  qed
qed

section \<open>Flushing\<close>

lemma sync_all_ok:
  assumes "dev_ok vt dinv d" and "distinct (map fst es)"
    and "\<forall>(i, c) \<in> set es. i < cap (dev d) \<and> block_id c = i \<and> length (bytes c) = BLOCK_SIZE \<and>
      (modified c \<or> bytes c = blk (dev d) i)"
  shows "\<exists>d'. sync_all es d = Inr (map (\<lambda>(i, c). (i, c\<lparr>modified := False\<rparr>)) es, d') \<and>
    dev_ok vt dinv d' \<and> cap (dev d') = cap (dev d) \<and>
    (\<forall>j<cap (dev d). blk (dev d') j =
      (case map_of es j of Some c \<Rightarrow> bytes c | None \<Rightarrow> blk (dev d) j))"
  using assms
proof (induction es arbitrary: d)
  case Nil
  then show ?case by simp
next
  case (Cons e es)
  obtain i c where e: "e = (i, c)" by (cases e)
  from Cons.prems(3) e have c: "i < cap (dev d)" "block_id c = i" "length (bytes c) = BLOCK_SIZE"
    "modified c \<or> bytes c = blk (dev d) i" by auto
  from Cache_sync_ok [OF Cons.prems(1), of c] c obtain d1 where
    sync: "Cache_sync c d = Inr (c\<lparr>modified := False\<rparr>, d1)" and d1: "dev_ok vt dinv d1"
    "cap (dev d1) = cap (dev d)"
    and blk1: "\<And>j. j < cap (dev d) \<Longrightarrow> blk (dev d1) j = (if j = i then bytes c else blk (dev d) j)"
    by (metis (no_types, lifting))
  have es: "\<forall>(j, c') \<in> set es. j < cap (dev d1) \<and> block_id c' = j \<and>
      length (bytes c') = BLOCK_SIZE \<and> (modified c' \<or> bytes c' = blk (dev d1) j)"
  proof clarify
    fix j c'
    assume j: "(j, c') \<in> set es"
    then have "j \<noteq> i" using Cons.prems(2) e by force
    with j Cons.prems(3) blk1 [of j] d1(2)
    show "j < cap (dev d1) \<and> block_id c' = j \<and> length (bytes c') = BLOCK_SIZE \<and>
      (modified c' \<or> bytes c' = blk (dev d1) j)" by auto
  qed
  from Cons.IH [OF d1(1) _ es] Cons.prems(2) obtain d' where d':
    "sync_all es d1 = Inr (map (\<lambda>(i, c). (i, c\<lparr>modified := False\<rparr>)) es, d')"
    "dev_ok vt dinv d'" "cap (dev d') = cap (dev d1)"
    "\<forall>j<cap (dev d1). blk (dev d') j =
       (case map_of es j of Some c \<Rightarrow> bytes c | None \<Rightarrow> blk (dev d1) j)"
    by auto
  have "map_of es i = None" using Cons.prems(2) e by (simp add: map_of_eq_None_iff)
  with d' d1 sync e blk1 show ?case
    by (auto split: option.split)
qed

lemma flush_ok:
  assumes st: "store n [] V cm"
  shows "runs CacheManager_flush cm (\<lambda>_ cm'. store n [] V cm' \<and>
    (\<forall>j<n. blk (dev (device cm')) j = V j))"
proof -
  from st have ok: "ok cm" and n: "cap (dev (device cm)) = n" and V: "vw cm = V"
    and held: "held cm = []" by (simp_all add: store_at_def)
  let ?q = "map (\<lambda>(i, c). (i, c\<lparr>modified := False\<rparr>)) (queue cm)"
  from ok have "dev_ok vt dinv (device cm)" "distinct (map fst (queue cm))"
    "\<forall>(i, c) \<in> set (queue cm). i < cap (dev (device cm)) \<and> block_id c = i \<and>
      length (bytes c) = BLOCK_SIZE \<and> (modified c \<or> bytes c = blk (dev (device cm)) i)"
    by (simp_all add: cm_ok_def)
  from sync_all_ok [OF this] n obtain d' where
    sync: "sync_all (queue cm) (device cm) = Inr (?q, d')"
    and d': "dev_ok vt dinv d'" "cap (dev d') = n"
    and blk0: "\<forall>j<n. blk (dev d') j =
      (case map_of (queue cm) j of Some c \<Rightarrow> bytes c | None \<Rightarrow> blk (dev (device cm)) j)"
    by auto
  have blk': "blk (dev d') j = V j" if "j < n" for j
    using blk0 that n V [THEN fun_cong, of j] by (simp add: cview_def split: option.split_asm)
  let ?cm = "cm\<lparr>queue := ?q, device := d'\<rparr>"
  have keys: "map fst ?q = map fst (queue cm)" by (simp add: case_prod_beta')
  have "\<forall>(i, c) \<in> set ?q. i < n \<and> block_id c = i \<and> length (bytes c) = BLOCK_SIZE \<and>
      (modified c \<or> bytes c = blk (dev d') i)"
    using ok_entry [OF ok] vw_entry [OF ok] blk' V n by fastforce
  with ok d' keys held have "ok ?cm"
    by (simp add: cm_ok_def del: map_map)
  moreover have "map_of ?q j = map_option (\<lambda>c. c\<lparr>modified := False\<rparr>) (map_of (queue cm) j)" for j
    by (simp add: map_of_map)
  then have "vw ?cm j = V j" for j
    using V [THEN fun_cong, of j] blk' [of j] d' n
    by (auto simp: cview_def split: option.split_asm if_split_asm)
  ultimately have "store n [] V ?cm" using d' held by (simp add: store_at_def fun_eq_iff)
  with sync held blk' show ?thesis by (simp add: runs_def CacheManager_flush_def)
qed

lemma store_new:
  "dev_ok vt dinv d \<Longrightarrow>
   store (cap (dev d)) [] (\<lambda>i. if i < cap (dev d) then blk (dev d) i else []) (CacheManager_new d)"
  by (simp add: store_at_def cm_ok_def CacheManager_new_def cview_def fun_eq_iff)

end


section \<open>The cache over the in-memory device\<close>

text \<open>The store of a manager over \<open>fake::Disk\<close>, and the manager of a new disk.\<close>

abbreviation disk_store ::
    "nat \<Rightarrow> (nat \<times> lock_mode) list \<Rightarrow> (nat \<Rightarrow> u8 list) \<Rightarrow> disk cache_manager \<Rightarrow> bool" where
  "disk_store \<equiv> store_at disk_vtable disk_inv total_blocks disk_block"

definition dyn_disk :: "disk \<Rightarrow> disk dyn_block_device" where
  "dyn_disk d = \<lparr>vtable = disk_vtable, dev = d\<rparr>"

definition zero_blocks :: "nat \<Rightarrow> nat \<Rightarrow> u8 list" where
  "zero_blocks n i = (if i < n then replicate BLOCK_SIZE 0 else [])"

lemma disk_store_new:
  assumes "n < U64_RANGE"
  shows "disk_store n [] (zero_blocks n) (CacheManager_new (dyn_disk (Disk_new n)))"
proof -
  have "dev_ok disk_vtable disk_inv (dyn_disk (Disk_new n))"
    using assms by (simp add: dev_ok_def dyn_disk_def)
  from disk_dev.store_new [OF this] show ?thesis
    by (auto simp: store_at_def dyn_disk_def zero_blocks_def)
qed

lemma disk_get_ok:
  assumes "disk_store n H V cm" and "i < n" and "length H < CACHE_SIZE"
  shows "runs (CacheManager_get i) cm (\<lambda>_ cm'. disk_store n H V cm' \<and> i \<in> fst ` set (queue cm'))"
proof -
  from assms have "cm_ok disk_vtable disk_inv total_blocks disk_block cm"
    "i < total_blocks (dev (device cm))" "length (held cm) < CACHE_SIZE"
    by (simp_all add: store_at_def)
  from disk_dev.CacheManager_get_ok [OF this] assms(1) show ?thesis
    by (elim runs_mono) (simp add: store_at_def)
qed

text \<open>
  C17: looking a block up never panics while fewer than 32 handles are out, whatever is
  cached and whatever has to be written back to make room; the block is cached afterwards and
  no client sees any block change.
\<close>

theorem cache_get_transparent:
  assumes "disk_store n H V cm" and "i < n" and "length H < CACHE_SIZE"
  shows "runs (CacheManager_get i) cm (\<lambda>_ cm'. disk_store n H V cm' \<and> i \<in> fst ` set (queue cm'))"
  by (rule disk_get_ok [OF assms])

theorem cache_get_transparent_witness:
  "runs (CacheManager_get 3) (CacheManager_new (dyn_disk (Disk_new 5)))
     (\<lambda>_ cm'. disk_store 5 [] (zero_blocks 5) cm' \<and> 3 \<in> fst ` set (queue cm'))"
  by (rule cache_get_transparent, rule disk_store_new) (simp_all add: U64_RANGE_def CACHE_SIZE_def)

text \<open>
  C18: after \<open>flush\<close> the device itself holds every block as the clients see it, and the
  clients still see the same blocks.
\<close>

theorem cache_flush_durable:
  assumes "disk_store n [] V cm"
  shows "runs CacheManager_flush cm (\<lambda>_ cm'. disk_store n [] V cm' \<and>
    (\<forall>j<n. disk_block (dev (device cm')) j = V j))"
  by (rule disk_dev.flush_ok [OF assms])

theorem cache_flush_durable_witness:
  "runs CacheManager_flush (CacheManager_new (dyn_disk (Disk_new 5)))
     (\<lambda>_ cm'. disk_store 5 [] (zero_blocks 5) cm' \<and>
       (\<forall>j<5. disk_block (dev (device cm')) j = zero_blocks 5 j))"
  by (rule cache_flush_durable, rule disk_store_new) (simp add: U64_RANGE_def)

text \<open>
  When all 32 entries are held by clients, asking for a block that is not cached
  panics with "Run out of BlockCache!"; the bound on the handles is sharp.
\<close>

theorem cache_exhausted:
  assumes "length (queue cm) = CACHE_SIZE" and "fst ` set (queue cm) \<subseteq> fst ` set (held cm)"
    and "i \<notin> fst ` set (queue cm)"
  shows "CacheManager_get i cm = Inl RunOutOfBlockCache"
proof -
  have "find (\<lambda>e. fst e = i) (queue cm) = None" using assms(3) by (force simp: find_None_iff)
  moreover have "strong_count cm (fst e) \<noteq> 1" if "e \<in> set (queue cm)" for e
    using that assms(2) by (force simp: strong_count_def filter_empty_conv)
  then have "find_pos (\<lambda>e. strong_count cm (fst e) = 1) (queue cm) = None"
    by (simp add: find_pos_None)
  ultimately show ?thesis
    using assms(1) by (simp add: CacheManager_get_def substitute_def bnd_def gets_def)
qed

definition full_cache :: "disk cache_manager" where
  "full_cache = \<lparr>queue = map (\<lambda>i. (i, \<lparr>bytes = replicate BLOCK_SIZE 0, block_id = i, modified = False\<rparr>))
     [0..<CACHE_SIZE], device = dyn_disk (Disk_new 40), held = map (\<lambda>i. (i, Read)) [0..<CACHE_SIZE]\<rparr>"

theorem cache_exhausted_witness: "CacheManager_get 32 full_cache = Inl RunOutOfBlockCache"
  by (rule cache_exhausted) (auto simp: full_cache_def CACHE_SIZE_def image_iff)

text \<open>
  A second guard on a block whose write guard is held is never granted: the single
  thread of control would spin on its own lock.
\<close>

theorem guard_not_reentrant:
  assumes "disk_store n H V cm" and "i < n" and "length H < CACHE_SIZE" and "(i, Write) \<in> set H"
  shows "with_guard mode i m cm = Inl Deadlock"
proof -
  from disk_get_ok [OF assms(1-3)] obtain cm' where
    get: "CacheManager_get i cm = Inr ((), cm')" and "disk_store n H V cm'"
    by (auto elim: runs_resultE)
  then have "held cm' = H" by (simp add: store_at_def)
  moreover have "\<not> can_lock mode i H" using assms(4) by (cases mode) (force simp: can_lock_def)+
  ultimately show ?thesis
    using get by (simp add: with_guard_def bnd_def gets_def require_def panic_def)
qed

definition locked_cache :: "disk cache_manager" where
  "locked_cache = \<lparr>queue = [(1, \<lparr>bytes = replicate BLOCK_SIZE 0, block_id = 1, modified = False\<rparr>)],
     device = dyn_disk (Disk_new 5), held = [(1, Write)]\<rparr>"

theorem guard_not_reentrant_witness: "with_guard Read 1 (ret ()) locked_cache = Inl Deadlock"
proof (rule guard_not_reentrant)
  show "disk_store 5 [(1, Write)] (zero_blocks 5) locked_cache"
    by (auto simp: store_at_def cm_ok_def locked_cache_def dev_ok_def dyn_disk_def cview_def
        zero_blocks_def U64_RANGE_def CACHE_SIZE_def fun_eq_iff)
qed (simp_all add: CACHE_SIZE_def)

end
