(* ===== verification/Bitmap.thy ===== *)
theory Bitmap
  imports Block_Cache
begin

text \<open>
  \<^verbatim>\<open>src/fs/src/cafs/bitmap.rs\<close>: allocation of inodes and data blocks in on-disk bitmaps.
  A bitmap block is an array of 64 words of 64 bits. The abstraction \<open>bitmap_set\<close> is the set
  of allocated numbers; the lemmas show that \<open>alloc\<close> takes the least free number, that
  \<open>dealloc\<close> frees exactly one, that \<open>free_count\<close> counts, and that nothing outside the
  blocks of the bitmap changes.
\<close>

section \<open>The model\<close>

record bitmap =
  start_block_id :: nat
  blocks :: nat

text \<open>\<open>type BitmapBlock = [u64; 64]\<close>\<close>

definition bitmap_block :: "u64 list view" where
  "bitmap_block = \<lparr>vsize = BLOCK_SIZE,
     vget = (\<lambda>bs. map word_of_nat (dec_u64s (BLOCK_SIZE div 8) bs)),
     vput = (\<lambda>ws bs. enc_u64s (map unat ws))\<rparr>"

definition Bitmap_new :: "nat \<Rightarrow> nat \<Rightarrow> bitmap" where
  "Bitmap_new start n = \<lparr>start_block_id = start, blocks = n\<rparr>"

definition total_count :: "bitmap \<Rightarrow> rust_panic + nat" where
  "total_count bm = u64_mul (blocks bm) BLOCK_BITS"

text \<open>The inner loop of \<open>free_count\<close>: shift the word right until it is zero.\<close>

function one_count :: "u64 \<Rightarrow> nat" where
  "one_count num =
     (if num = 0 then 0
      else (if num AND 1 = 1 then 1 else 0) + one_count (drop_bit 1 num))"
  by pat_completeness auto
termination
proof (relation "measure unat")
  fix num :: u64
  assume "num \<noteq> 0"
  then show "(drop_bit 1 num, num) \<in> measure unat"
    by (simp add: drop_bit_eq_div unat_div_distrib unat_gt_0)
qed simp

declare one_count.simps [simp del]

definition free_in_block :: "u64 list \<Rightarrow> rust_panic + nat" where
  "free_in_block ws =
     (if list_all (\<lambda>w. one_count w \<le> 64) ws
      then Inr (sum_list (map (\<lambda>w. 64 - one_count w) ws)) else Inl ArithOverflow)"

primrec free_count_loop :: "bitmap \<Rightarrow> nat list \<Rightarrow> nat \<Rightarrow> ('d cache_manager, nat) rust" where
  "free_count_loop bm [] = (\<lambda>count. ret count)"
| "free_count_loop bm (b # bs) = (\<lambda>count.
     bnd (pure (u64_add b (start_block_id bm))) (\<lambda>bid.
     bnd (read_at bitmap_block bid 0 (\<lambda>ws. pure (free_in_block ws))) (\<lambda>c.
     bnd (pure (u64_add count c)) (\<lambda>count.
     free_count_loop bm bs count))))"

definition free_count :: "bitmap \<Rightarrow> ('d cache_manager, nat) rust" where
  "free_count bm = free_count_loop bm [0..<blocks bm] 0"

text \<open>\<open>u64::trailing_ones\<close> and the word with all bits set.\<close>

definition trailing_ones :: "u64 \<Rightarrow> nat" where
  "trailing_ones w = length (takeWhile (bit w) [0..<64])"

definition U64_MAX :: u64 where
  "U64_MAX = - 1"

definition find_free :: "u64 list \<Rightarrow> (nat \<times> nat) option" where
  "find_free ws =
     map_option (\<lambda>pos. (pos, trailing_ones (ws ! pos))) (find_pos (\<lambda>w. w \<noteq> U64_MAX) ws)"

text \<open>One round of the loop of \<open>alloc\<close>, with the write guard of the block held throughout.\<close>

definition alloc_in :: "bitmap \<Rightarrow> nat \<Rightarrow> ('d cache_manager, nat option) rust" where
  "alloc_in bm b =
     bnd (pure (u64_add b (start_block_id bm))) (\<lambda>bid.
     with_guard Write bid (
       bnd (Cache_read bitmap_block 0 bid (\<lambda>ws. ret (find_free ws))) (\<lambda>found.
       case found of
         Some (bits64_pos, inner_pos) \<Rightarrow>
           bnd (Cache_modify bitmap_block 0 bid (\<lambda>ws.
             bnd (pure (index ws bits64_pos)) (\<lambda>w.
             ret ((), ws[bits64_pos := w OR push_bit inner_pos 1])))) (\<lambda>_.
           bnd (pure (u64_mul b BLOCK_BITS)) (\<lambda>base.
           bnd (pure (u64_add base (bits64_pos * 64 + inner_pos))) (\<lambda>pos.
           ret (Some pos))))
       | None \<Rightarrow> ret None)))"

primrec alloc_loop :: "bitmap \<Rightarrow> nat list \<Rightarrow> ('d cache_manager, nat option) rust" where
  "alloc_loop bm [] = ret None"
| "alloc_loop bm (b # bs) =
     bnd (alloc_in bm b) (\<lambda>pos.
       case pos of Some p \<Rightarrow> ret (Some p) | None \<Rightarrow> alloc_loop bm bs)"

definition alloc :: "bitmap \<Rightarrow> ('d cache_manager, nat option) rust" where
  "alloc bm = alloc_loop bm [0..<blocks bm]"

text \<open>\<open>(block_pos, bits64_pos, inner_pos)\<close>\<close>

definition decompose :: "nat \<Rightarrow> nat \<times> nat \<times> nat" where
  "decompose b =
     (let block_pos = b div BLOCK_BITS; b' = b mod BLOCK_BITS
      in (block_pos, b' div 64, b' mod 64))"

definition dealloc :: "bitmap \<Rightarrow> nat \<Rightarrow> ('d cache_manager, unit) rust" where
  "dealloc bm b =
     (case decompose b of (block_pos, bits64_pos, inner_pos) \<Rightarrow>
        bnd (pure (u64_add block_pos (start_block_id bm))) (\<lambda>bid.
        modify_at bitmap_block bid 0 (\<lambda>ws.
          bnd (pure (index ws bits64_pos)) (\<lambda>w.
          bnd (require (w AND push_bit inner_pos 1 > 0) AssertFailed) (\<lambda>_.
          ret ((), ws[bits64_pos := w - push_bit inner_pos 1]))))))"

section \<open>Words\<close>

declare push_bit_of_1 [simp del]

lemma one_count_popcount: "one_count w = card {i. bit w i}"
proof (induction w rule: one_count.induct)
  case (1 num)
  show ?case
  proof (cases "num = 0")
    case True
    then show ?thesis by (simp add: one_count.simps)
  next
    case False
    have "{i. bit num i} = {i. i = 0 \<and> odd num} \<union> Suc ` {i. bit (drop_bit 1 num) i}"
    proof (rule set_eqI)
      fix i
      show "i \<in> {i. bit num i} \<longleftrightarrow> i \<in> {i. i = 0 \<and> odd num} \<union> Suc ` {i. bit (drop_bit 1 num) i}"
        by (cases i) (auto simp: bit_0 bit_drop_bit_eq)
    qed
    moreover have "finite {i. bit (drop_bit 1 num) i}"
      by (rule finite_subset [of _ "{..<64}"]) (auto dest: bit_imp_le_length)
    ultimately have "card {i. bit num i} =
        (if odd num then 1 else 0) + card {i. bit (drop_bit 1 num) i}"
      by (simp add: card_image card_insert_if image_iff)
    moreover have "num AND 1 = 1 \<longleftrightarrow> odd num"
      by (simp add: and_one_eq odd_iff_mod_2_eq_one)
    ultimately show ?thesis
      using False 1 by (simp add: one_count.simps [of num])
  qed
qed

lemma one_count_le: "one_count w \<le> 64"
proof -
  have "{i. bit w i} \<subseteq> {..<64}" by (auto dest: bit_imp_le_length)
  from card_mono [OF _ this] show ?thesis by (simp add: one_count_popcount)
qed

lemma trailing_ones_bit:
  assumes "w \<noteq> U64_MAX"
  shows "trailing_ones w < 64" "\<not> bit w (trailing_ones w)" "\<And>j. j < trailing_ones w \<Longrightarrow> bit w j"
proof -
  let ?t = "length (takeWhile (bit w) [0..<64])"
  have "\<exists>i<64. \<not> bit w i"
  proof (rule ccontr)
    assume "\<not> (\<exists>i<64. \<not> bit w i)"
    then have "w = U64_MAX" by (auto intro!: bit_word_eqI simp: U64_MAX_def)
    with assms show False by simp
  qed
  then have "takeWhile (bit w) [0..<64] \<noteq> [0..<64]"
    by (auto simp: takeWhile_eq_all_conv)
  then have len: "?t < 64"
    by (metis diff_zero length_upt length_takeWhile_le nat_less_le takeWhile_eq_take
        take_all_iff)
  then show "trailing_ones w < 64" by (simp add: trailing_ones_def)
  show "\<not> bit w (trailing_ones w)"
    using nth_length_takeWhile [of "bit w" "[0..<64]"] len by (simp add: trailing_ones_def)
  show "bit w j" if "j < trailing_ones w" for j
    using that len nth_mem [of j "takeWhile (bit w) [0..<64]"] takeWhile_nth [of j "bit w" "[0..<64]"]
    by (auto simp: trailing_ones_def dest: set_takeWhileD)
qed

lemma bit_one_at: "t < 64 \<Longrightarrow> bit (push_bit t 1 :: u64) j \<longleftrightarrow> j = t"
  by (auto simp: bit_push_bit_iff bit_1_iff)

lemma bit_set_bit: "t < 64 \<Longrightarrow> bit (w OR push_bit t 1 :: u64) j \<longleftrightarrow> bit w j \<or> j = t"
  by (auto simp: bit_or_iff bit_one_at)

lemma test_bit: "t < 64 \<Longrightarrow> w AND push_bit t 1 > (0 :: u64) \<longleftrightarrow> bit w t"
proof -
  assume t: "t < 64"
  then have "bit (w AND push_bit t 1) j \<longleftrightarrow> bit w j \<and> j = t" for j
    by (auto simp: bit_and_iff bit_one_at)
  then have "w AND push_bit t 1 = 0 \<longleftrightarrow> \<not> bit w t"
    by (metis bit_0_eq bit_word_eqI bot_apply bot_bool_def)
  then show ?thesis by (simp add: word_gt_0)
qed

lemma bit_clear_bit:
  assumes "t < 64" and "bit w t"
  shows "bit (w - push_bit t 1 :: u64) j \<longleftrightarrow> bit w j \<and> j \<noteq> t"
proof -
  let ?c = "w AND NOT (push_bit t 1)"
  have "?c AND push_bit t 1 = 0" by (simp add: bit_eq_iff bit_and_iff bit_not_iff)
  then have "?c + push_bit t 1 = ?c OR push_bit t 1"
    by (rule disjunctive_add_eq_or)
  also have "\<dots> = w"
    using assms by (auto intro!: bit_word_eqI
        simp: bit_and_iff bit_or_iff bit_not_iff bit_one_at)
  finally have "w - push_bit t 1 = ?c" by (metis add_diff_cancel_right')
  with assms(1) show ?thesis
    by (auto simp: bit_and_iff bit_not_iff bit_one_at dest: bit_imp_le_length
       )
qed

section \<open>The set of allocated numbers\<close>

interpretation bitmap_view: struct_view bitmap_block "\<lambda>ws. length ws = 64"
proof unfold_locales
  fix ws :: "u64 list" and bs :: "u8 list"
  assume bs: "length bs = vsize bitmap_block"
  then have len: "length bs = 512" by (simp add: bitmap_block_def BLOCK_SIZE_def)
  have "map unat (map word_of_nat (dec_u64s 64 bs) :: u64 list) = dec_u64s 64 bs"
    using dec_u64s_bound [of 64 bs] len
    by (auto simp: U64_RANGE_def unat_of_nat intro!: map_idI)
  then show "vput bitmap_block (vget bitmap_block bs) bs = bs"
    using len by (simp add: bitmap_block_def BLOCK_SIZE_def enc_dec_u64s)
  show "length (vget bitmap_block bs) = 64"
    by (simp add: bitmap_block_def BLOCK_SIZE_def)
  assume ws: "length ws = 64"
  then show "length (vput bitmap_block ws bs) = vsize bitmap_block"
    by (simp add: bitmap_block_def BLOCK_SIZE_def)
  have "\<forall>x \<in> set (map unat ws). x < U64_RANGE"
    using unsigned_less [where ?'a = nat and ?'b = 64] by (auto simp: U64_RANGE_def)
  with ws show "vget bitmap_block (vput bitmap_block ws bs) = ws"
    by (simp add: bitmap_block_def BLOCK_SIZE_def comp_def)
qed

lemma vsize_bitmap_block [simp]: "vsize bitmap_block = BLOCK_SIZE"
  by (simp add: bitmap_block_def)

definition words_at :: "(nat \<Rightarrow> u8 list) \<Rightarrow> nat \<Rightarrow> u64 list" where
  "words_at V i = view_at bitmap_block 0 (V i)"

definition bitmap_bit :: "bitmap \<Rightarrow> (nat \<Rightarrow> u8 list) \<Rightarrow> nat \<Rightarrow> bool" where
  "bitmap_bit bm V k =
     bit (words_at V (start_block_id bm + k div BLOCK_BITS) ! (k mod BLOCK_BITS div 64)) (k mod 64)"

definition bitmap_set :: "bitmap \<Rightarrow> (nat \<Rightarrow> u8 list) \<Rightarrow> nat set" where
  "bitmap_set bm V = {k. k < blocks bm * BLOCK_BITS \<and> bitmap_bit bm V k}"

text \<open>The blocks the bitmap occupies, and that they fit the device.\<close>

definition bitmap_area :: "bitmap \<Rightarrow> nat set" where
  "bitmap_area bm = {start_block_id bm ..< start_block_id bm + blocks bm}"

definition bitmap_ok :: "nat \<Rightarrow> bitmap \<Rightarrow> bool" where
  "bitmap_ok n bm \<longleftrightarrow> start_block_id bm + blocks bm \<le> n \<and> blocks bm * BLOCK_BITS < U64_RANGE"

text \<open>Numbers and positions: number \<open>k\<close> is bit \<open>k mod 64\<close> of a word of a block.\<close>

definition bit_number :: "nat \<Rightarrow> nat \<Rightarrow> nat \<Rightarrow> nat" where
  "bit_number b p t = b * BLOCK_BITS + (p * 64 + t)"

lemma bit_number_decompose:
  assumes "p < 64" and "t < 64"
  shows "bit_number b p t div BLOCK_BITS = b" "bit_number b p t mod BLOCK_BITS div 64 = p"
    "bit_number b p t mod 64 = t"
proof -
  have lt: "p * 64 + t < BLOCK_BITS" using assms by (simp add: BLOCK_BITS_def BLOCK_SIZE_def)
  then show "bit_number b p t div BLOCK_BITS = b" by (simp add: bit_number_def)
  from lt assms show "bit_number b p t mod BLOCK_BITS div 64 = p" by (simp add: bit_number_def)
  have "bit_number b p t = t + 64 * (b * 64 + p)"
    by (simp add: bit_number_def BLOCK_BITS_def BLOCK_SIZE_def)
  then have "bit_number b p t mod 64 = t mod 64" by (simp only: mod_mult_self2)
  with assms show "bit_number b p t mod 64 = t" by simp
qed

lemma mod_BLOCK_BITS_mod_64 [simp]: "k mod BLOCK_BITS mod 64 = k mod 64"
  by (rule mod_mod_cancel) (simp add: BLOCK_BITS_def BLOCK_SIZE_def)

lemma bit_number_surj:
  "bit_number (k div BLOCK_BITS) (k mod BLOCK_BITS div 64) (k mod 64) = k"
proof -
  have "k mod BLOCK_BITS div 64 * 64 + k mod BLOCK_BITS mod 64 = k mod BLOCK_BITS"
    by (rule div_mult_mod_eq)
  then show ?thesis by (simp add: bit_number_def)
qed

lemma word_pos_less: "k mod BLOCK_BITS div 64 < 64"
  by (simp add: BLOCK_BITS_def BLOCK_SIZE_def less_mult_imp_div_less)

lemma decompose_eq: "decompose k = (k div BLOCK_BITS, k mod BLOCK_BITS div 64, k mod 64)"
  by (simp add: decompose_def Let_def)

lemma bitmap_bit_number:
  "p < 64 \<Longrightarrow> t < 64 \<Longrightarrow>
   bitmap_bit bm V (bit_number b p t) = bit (words_at V (start_block_id bm + b) ! p) t"
  by (simp add: bitmap_bit_def bit_number_decompose)

lemma bit_number_less: "b < n \<Longrightarrow> p < 64 \<Longrightarrow> t < 64 \<Longrightarrow> bit_number b p t < n * BLOCK_BITS"
proof -
  assume "b < n" "p < 64" "t < 64"
  then have "bit_number b p t < Suc b * BLOCK_BITS"
    by (simp add: bit_number_def BLOCK_BITS_def BLOCK_SIZE_def)
  also have "\<dots> \<le> n * BLOCK_BITS" using \<open>b < n\<close> by (intro mult_le_mono1) simp
  finally show ?thesis .
qed

lemma bit_U64_MAX: "t < 64 \<Longrightarrow> bit U64_MAX t"
  by (simp add: U64_MAX_def)

lemma find_free_Some:
  assumes "find_free ws = Some (p, t)"
  shows "p < length ws" "t < 64" "\<not> bit (ws ! p) t" "\<And>q j. q < p \<Longrightarrow> j < 64 \<Longrightarrow> bit (ws ! q) j"
    "\<And>j. j < t \<Longrightarrow> bit (ws ! p) j"
  using assms trailing_ones_bit [of "ws ! p"]
  by (auto simp: find_free_def find_pos_Some bit_U64_MAX)

lemma find_free_None:
  "find_free ws = None \<Longrightarrow> q < length ws \<Longrightarrow> j < 64 \<Longrightarrow> bit (ws ! q) j"
proof -
  assume "find_free ws = None" "q < length ws" "j < 64"
  then have "ws ! q = U64_MAX" by (auto simp: find_free_def find_pos_None)
  with \<open>j < 64\<close> show ?thesis by (simp add: bit_U64_MAX)
qed

text \<open>Storing words in one block of the bitmap.\<close>

definition put_words :: "nat \<Rightarrow> u64 list \<Rightarrow> (nat \<Rightarrow> u8 list) \<Rightarrow> nat \<Rightarrow> u8 list" where
  "put_words i ws V = V(i := view_set bitmap_block 0 ws (V i))"

lemma words_at_put:
  assumes "length ws = 64" and "length (V i) = BLOCK_SIZE"
  shows "words_at (put_words i ws V) j = (if j = i then ws else words_at V j)"
  using assms bitmap_view.view_at_set [of ws 0 "V i"] by (simp add: words_at_def put_words_def)

lemma length_put_words:
  "length ws = 64 \<Longrightarrow> length (V i) = BLOCK_SIZE \<Longrightarrow>
   length (view_set bitmap_block 0 ws (V i)) = BLOCK_SIZE"
  using bitmap_view.length_view_set [of ws 0 "V i"] by simp

lemma length_words_at: "length (V i) = BLOCK_SIZE \<Longrightarrow> length (words_at V i) = 64"
  using bitmap_view.valid_view_at [of 0 "V i"] by (simp add: words_at_def)

lemma bitmap_bit_put:
  assumes "length (V i) = BLOCK_SIZE" and "i = start_block_id bm + b" and "p < 64" and "t < 64"
    and w: "\<And>j. bit w j \<longleftrightarrow> (if j = t then v else bit (words_at V i ! p) j)"
  shows "bitmap_bit bm (put_words i ((words_at V i)[p := w]) V) k \<longleftrightarrow>
    (if k = bit_number b p t then v else bitmap_bit bm V k)"
proof -
  let ?V = "put_words i ((words_at V i)[p := w]) V"
  obtain b' p' t' where k: "k = bit_number b' p' t'" "p' < 64" "t' < 64"
    using bit_number_surj [of k] word_pos_less [of k] mod_less_divisor [of 64 k]
    by (metis zero_less_numeral)
  have inj: "bit_number b' p' t' = bit_number b p t \<longleftrightarrow> b' = b \<and> p' = p \<and> t' = t"
    using bit_number_decompose [OF k(2,3), of b'] bit_number_decompose [OF assms(3,4), of b]
    by metis
  have len: "length (words_at V i) = 64" using assms(1) by (rule length_words_at)
  then have "words_at ?V (start_block_id bm + b') =
      (if b' = b then (words_at V i)[p := w] else words_at V (start_block_id bm + b'))"
    using assms(1,2) by (simp add: words_at_put)
  then show ?thesis
    using k inj len assms(2,3) w by (auto simp: bitmap_bit_number nth_list_update)
qed

lemma bitmap_set_put:
  assumes "length (V i) = BLOCK_SIZE" and "i = start_block_id bm + b" and "b < blocks bm"
    and "p < 64" and "t < 64"
    and w: "\<And>j. bit w j \<longleftrightarrow> (if j = t then v else bit (words_at V i ! p) j)"
  shows "bitmap_set bm (put_words i ((words_at V i)[p := w]) V) =
    (if v then insert (bit_number b p t) (bitmap_set bm V)
     else bitmap_set bm V - {bit_number b p t})"
  using bitmap_bit_put [OF assms(1,2,4,5) w] bit_number_less [OF assms(3,4,5)]
  by (auto simp: bitmap_set_def)

section \<open>Allocation takes the least free number\<close>

text \<open>What one block offers, in terms of the numbers it holds.\<close>

lemma find_free_least:
  assumes len: "length (words_at V (start_block_id bm + b)) = 64"
    and ff: "find_free (words_at V (start_block_id bm + b)) = Some (p, t)"
  shows "\<not> bitmap_bit bm V (bit_number b p t)"
    and "\<And>k. k div BLOCK_BITS = b \<Longrightarrow> k < bit_number b p t \<Longrightarrow> bitmap_bit bm V k"
proof -
  note f = find_free_Some [OF ff]
  from f len show "\<not> bitmap_bit bm V (bit_number b p t)" by (simp add: bitmap_bit_number)
  fix k
  assume k: "k div BLOCK_BITS = b" "k < bit_number b p t"
  define q u where qu: "q = k mod BLOCK_BITS div 64" "u = k mod 64"
  then have u: "u < 64" by simp
  have k': "k = bit_number b q u" using bit_number_surj [of k] k qu by simp
  with k(2) have "q * 64 + u < p * 64 + t" by (simp add: bit_number_def)
  then have "q < p \<or> q = p \<and> u < t" using u f(2) by auto
  then have "bit (words_at V (start_block_id bm + b) ! q) u" using f u by auto
  with k(1) qu show "bitmap_bit bm V k" by (simp add: bitmap_bit_def)
qed

lemma find_free_full:
  assumes "length (words_at V (start_block_id bm + b)) = 64"
    and "find_free (words_at V (start_block_id bm + b)) = None" and "k div BLOCK_BITS = b"
  shows "bitmap_bit bm V k"
  using find_free_None [OF assms(2)] assms(1,3) word_pos_less [of k] by (simp add: bitmap_bit_def)

definition alloc_in_post ::
    "bitmap \<Rightarrow> nat \<Rightarrow> (nat \<Rightarrow> u8 list) \<Rightarrow> nat option \<Rightarrow> (nat \<Rightarrow> u8 list) \<Rightarrow> bool" where
  "alloc_in_post bm b V r V' \<longleftrightarrow>
     (case r of
        None \<Rightarrow> V' = V \<and> (\<forall>k. k div BLOCK_BITS = b \<longrightarrow> bitmap_bit bm V k)
      | Some k \<Rightarrow> k div BLOCK_BITS = b \<and> \<not> bitmap_bit bm V k \<and>
          (\<forall>j. j div BLOCK_BITS = b \<longrightarrow> j < k \<longrightarrow> bitmap_bit bm V j) \<and>
          bitmap_set bm V' = insert k (bitmap_set bm V) \<and>
          (\<forall>i. i \<noteq> start_block_id bm + b \<longrightarrow> V' i = V i))"

definition alloc_post ::
    "bitmap \<Rightarrow> (nat \<Rightarrow> u8 list) \<Rightarrow> nat option \<Rightarrow> (nat \<Rightarrow> u8 list) \<Rightarrow> bool" where
  "alloc_post bm V r V' \<longleftrightarrow>
     (case r of
        None \<Rightarrow> V' = V \<and> bitmap_set bm V = {..<blocks bm * BLOCK_BITS}
      | Some k \<Rightarrow> k < blocks bm * BLOCK_BITS \<and> k \<notin> bitmap_set bm V \<and>
          {..<k} \<subseteq> bitmap_set bm V \<and> bitmap_set bm V' = insert k (bitmap_set bm V) \<and>
          (\<forall>i. i \<notin> bitmap_area bm \<longrightarrow> V' i = V i))"

context block_device
begin

lemma exec_set_free:
  assumes b: "b < blocks bm" and i: "start_block_id bm + b < n" and len: "length (V (start_block_id bm + b)) = BLOCK_SIZE"
    and ff: "find_free (words_at V (start_block_id bm + b)) = Some (p, t)"
  shows "exec n ((start_block_id bm + b, Write) # H) V (Cache_modify bitmap_block 0 (start_block_id bm + b) (\<lambda>ws.
      bnd (pure (index ws p)) (\<lambda>w. ret ((), ws[p := w OR push_bit t 1]))))
      (\<lambda>_ V'. alloc_in_post bm b V (Some (bit_number b p t)) V')"
proof -
  let ?i = "start_block_id bm + b"
  have words: "length (words_at V ?i) = 64" using len by (rule length_words_at)
  note f = find_free_Some [OF ff]
  let ?w = "words_at V ?i ! p OR push_bit t 1"
  have "bitmap_set bm (put_words ?i ((words_at V ?i)[p := ?w]) V) = insert (bit_number b p t) (bitmap_set bm V)"
    using bitmap_set_put [where V = V and i = ?i and bm = bm and b = b and p = p and t = t
        and w = ?w and v = True] len b f words
    by (auto simp: bit_set_bit)
  then have "alloc_in_post bm b V (Some (bit_number b p t)) (put_words ?i ((words_at V ?i)[p := ?w]) V)"
    using find_free_least [OF words ff] f words
    by (auto simp: alloc_in_post_def bit_number_decompose put_words_def)
  moreover have "length (view_set bitmap_block 0 ((words_at V ?i)[p := ?w]) (V ?i)) = BLOCK_SIZE"
    using words len by (simp add: length_put_words)
  ultimately show ?thesis
    using f words i by (intro exec_Cache_modify exec_bnd exec_pure exec_ret) (simp_all add: words_at_def put_words_def)
qed

lemma exec_alloc_in:
  assumes bm: "bitmap_ok n bm" and b: "b < blocks bm" and H: "length H < CACHE_SIZE"
    and free: "start_block_id bm + b \<notin> fst ` set H"
  shows "exec n H V (alloc_in bm b) (alloc_in_post bm b V)"
proof (rule exec_wf)
  assume len: "\<And>i. i < n \<Longrightarrow> length (V i) = BLOCK_SIZE" and n: "n < U64_RANGE"
  let ?i = "start_block_id bm + b"
  let ?H = "(?i, Write) # H"
  from bm b have i: "?i < n" by (simp add: bitmap_ok_def)
  note leni = len [OF i]
  have words: "length (words_at V ?i) = 64" using leni by (rule length_words_at)
  note found = exec_set_free [where V = V and H = H, OF b i leni]
  have tail: "exec n ?H V' (bnd (pure (u64_mul b BLOCK_BITS)) (\<lambda>base.
      bnd (pure (u64_add base (p * 64 + t))) (\<lambda>pos. ret (Some pos)))) (alloc_in_post bm b V)"
    if "find_free (words_at V ?i) = Some (p, t)"
      and "alloc_in_post bm b V (Some (bit_number b p t)) V'" for p t V'
  proof -
    have "u64_mul b BLOCK_BITS = Inr (b * BLOCK_BITS)"
      "u64_add (b * BLOCK_BITS) (p * 64 + t) = Inr (bit_number b p t)"
      using bit_number_less [of b "blocks bm" p t] find_free_Some(1,2) [OF that(1)] words bm b
      by (auto simp: u64_mul_def u64_add_def bit_number_def bitmap_ok_def)
    with that(2) show ?thesis by (intro exec_bnd exec_pure exec_ret) auto
  qed
  have none: "find_free (words_at V ?i) = None \<Longrightarrow> alloc_in_post bm b V None V"
    using find_free_full [OF words] by (simp add: alloc_in_post_def)
  have add: "u64_add b (start_block_id bm) = Inr ?i" using i n by (simp add: u64_add_def)
  have "can_lock Write ?i H" using free by (simp add: can_lock_def)
  then show "exec n H V (alloc_in bm b) (alloc_in_post bm b V)"
    unfolding alloc_in_def
    by (intro exec_bnd exec_pure [OF add] exec_with_guard [OF i H] exec_Cache_read)
      (auto simp: words_at_def [symmetric] none intro!: exec_ret
        exec_bnd [OF exec_mono [OF found tail]] split: option.split)
qed

text \<open>The whole loop.\<close>

lemma exec_alloc:
  assumes bm: "bitmap_ok n bm" and H: "length H < CACHE_SIZE"
    and free: "bitmap_area bm \<inter> fst ` set H = {}"
  shows "exec n H V (alloc bm) (alloc_post bm V)"
proof -
  have "(\<forall>k<b * BLOCK_BITS. bitmap_bit bm V k) \<Longrightarrow>
      exec n H V (alloc_loop bm [b..<blocks bm]) (alloc_post bm V)" if "b \<le> blocks bm" for b
    using that
  proof (induction b rule: inc_induct)
    case base
    then have "alloc_post bm V None V" by (auto simp: alloc_post_def bitmap_set_def)
    then show ?case by (simp add: exec_ret)
  next
    case (step b)
    have "start_block_id bm + b \<in> bitmap_area bm" using step.hyps by (simp add: bitmap_area_def)
    with free have "start_block_id bm + b \<notin> fst ` set H" by blast
    note one = exec_alloc_in [OF bm step.hyps(2) H this, of V]
    have below: "bitmap_bit bm V k" if "k div BLOCK_BITS < b" for k
      using that step.prems by (simp add: div_less_iff_less_mult)
    have "exec n H V' (case r of None \<Rightarrow> alloc_loop bm [Suc b..<blocks bm] | Some p \<Rightarrow> ret (Some p))
        (alloc_post bm V)" if post: "alloc_in_post bm b V r V'" for r V'
    proof (cases r)
      case None
      with post have V': "V' = V" and full: "\<And>k. k div BLOCK_BITS = b \<Longrightarrow> bitmap_bit bm V k"
        by (auto simp: alloc_in_post_def)
      have "\<forall>k<Suc b * BLOCK_BITS. bitmap_bit bm V k"
        using below full by (metis less_Suc_eq less_mult_imp_div_less)
      with step.IH None V' show ?thesis by simp
    next
      case (Some k)
      with post have k: "k div BLOCK_BITS = b" "\<not> bitmap_bit bm V k"
        "\<And>j. j div BLOCK_BITS = b \<Longrightarrow> j < k \<Longrightarrow> bitmap_bit bm V j"
        "bitmap_set bm V' = insert k (bitmap_set bm V)"
        "\<And>i. i \<noteq> start_block_id bm + b \<Longrightarrow> V' i = V i"
        by (auto simp: alloc_in_post_def)
      have less: "j < blocks bm * BLOCK_BITS" if "j \<le> k" for j
        using that k(1) step.hyps div_le_mono [OF that, of BLOCK_BITS]
        by (simp add: div_less_iff_less_mult [symmetric])
      have "bitmap_bit bm V j" if "j < k" for j
        using below k(1,3) that div_le_mono [of j k BLOCK_BITS] by (metis le_neq_implies_less nat_less_le)
      with Some k less show ?thesis
        using step.hyps by (auto simp: alloc_post_def bitmap_set_def bitmap_area_def intro!: exec_ret)
    qed
    with step.hyps show ?case
      by (simp add: upt_conv_Cons) (rule exec_bnd, rule exec_mono [OF one], simp)
  qed
  from this [of 0] show ?thesis by (simp add: alloc_def)
qed

lemma exec_dealloc:
  assumes bm: "bitmap_ok n bm" and H: "length H < CACHE_SIZE"
    and free: "bitmap_area bm \<inter> fst ` set H = {}" and k: "k \<in> bitmap_set bm V"
  shows "exec n H V (dealloc bm k) (\<lambda>_ V'. bitmap_set bm V' = bitmap_set bm V - {k} \<and>
    (\<forall>i. i \<notin> bitmap_area bm \<longrightarrow> V' i = V i))"
proof (rule exec_wf)
  assume len: "\<And>i. i < n \<Longrightarrow> length (V i) = BLOCK_SIZE" and n: "n < U64_RANGE"
  let ?b = "k div BLOCK_BITS" and ?p = "k mod BLOCK_BITS div 64" and ?t = "k mod 64"
  let ?i = "start_block_id bm + ?b"
  have b: "?b < blocks bm" using k by (simp add: bitmap_set_def div_less_iff_less_mult)
  then have i: "?i < n" and area: "?i \<in> bitmap_area bm"
    using bm by (simp_all add: bitmap_ok_def bitmap_area_def)
  note leni = len [OF i]
  have words: "length (words_at V ?i) = 64" using leni by (rule length_words_at)
  let ?w = "words_at V ?i ! ?p"
  have bit: "bit ?w ?t" using k by (simp add: bitmap_set_def bitmap_bit_def)
  let ?ws = "(words_at V ?i)[?p := ?w - push_bit ?t 1]"
  have "bitmap_set bm (put_words ?i ?ws V) = bitmap_set bm V - {k}"
    using bitmap_set_put [where V = V and i = ?i and bm = bm and b = ?b and p = ?p and t = ?t
        and w = "?w - push_bit ?t 1" and v = False] leni b word_pos_less [of k]
    by (simp add: bit_clear_bit bit bit_number_surj)
  then have post: "bitmap_set bm (V(?i := view_set bitmap_block 0 ?ws (V ?i))) = bitmap_set bm V - {k} \<and>
      (\<forall>j. j \<notin> bitmap_area bm \<longrightarrow> (V(?i := view_set bitmap_block 0 ?ws (V ?i))) j = V j)"
    using area by (auto simp: put_words_def)
  have len': "length (view_set bitmap_block 0 ?ws (V ?i)) = BLOCK_SIZE"
    using words leni by (simp add: length_put_words)
  have add: "u64_add ?b (start_block_id bm) = Inr ?i" using i n by (simp add: u64_add_def)
  from free area have notin: "?i \<notin> fst ` set H" by blast
  show "exec n H V (dealloc bm k) (\<lambda>_ V'. bitmap_set bm V' = bitmap_set bm V - {k} \<and>
    (\<forall>i. i \<notin> bitmap_area bm \<longrightarrow> V' i = V i))"
    unfolding dealloc_def decompose_eq prod.case
    by (rule exec_bnd, rule exec_pure [OF add], rule exec_modify_at [OF i H notin],
        simp, simp, rule exec_bnd, rule exec_pure [of _ ?w], use words word_pos_less in
        \<open>simp add: words_at_def\<close>, rule exec_bnd, rule exec_require)
      (use bit post len' in \<open>auto simp: test_bit words_at_def intro!: exec_ret\<close>)
qed

text \<open>Freeing a number that is not allocated fails the assertion.\<close>

lemma exec_fail_dealloc:
  assumes bm: "bitmap_ok n bm" and H: "length H < CACHE_SIZE"
    and free: "bitmap_area bm \<inter> fst ` set H = {}"
    and k: "k < blocks bm * BLOCK_BITS" "k \<notin> bitmap_set bm V"
  shows "exec_fail n H V (dealloc bm k) AssertFailed"
proof (rule exec_fail_wf)
  assume len: "\<And>i. i < n \<Longrightarrow> length (V i) = BLOCK_SIZE" and n: "n < U64_RANGE"
  let ?i = "start_block_id bm + k div BLOCK_BITS"
  have "k div BLOCK_BITS < blocks bm" using k by (simp add: div_less_iff_less_mult)
  then have i: "?i < n" and area: "?i \<in> bitmap_area bm"
    using bm by (simp_all add: bitmap_ok_def bitmap_area_def)
  have words: "length (words_at V ?i) = 64" using len [OF i] by (rule length_words_at)
  have bit: "\<not> bit (words_at V ?i ! (k mod BLOCK_BITS div 64)) (k mod 64)"
    using k by (simp add: bitmap_set_def bitmap_bit_def)
  have add: "u64_add (k div BLOCK_BITS) (start_block_id bm) = Inr ?i"
    using i n by (simp add: u64_add_def)
  from free area have notin: "?i \<notin> fst ` set H" by blast
  show "exec_fail n H V (dealloc bm k) AssertFailed"
    unfolding dealloc_def decompose_eq prod.case
    by (rule exec_fail_bnd2, rule exec_pure [OF add], rule exec_fail_modify_at [OF i H notin],
        simp, simp, rule exec_fail_bnd2, rule exec_pure, use words word_pos_less in
        \<open>simp add: words_at_def\<close>, rule exec_fail_bnd1, rule exec_fail_require)
      (use bit in \<open>simp add: test_bit words_at_def\<close>)
qed

end

section \<open>Counting\<close>

lemma free_word: "64 - one_count w = card {t. t < 64 \<and> \<not> bit w t}"
proof -
  have "{t. t < 64 \<and> \<not> bit w t} = {..<64} - {t. bit w t}" by auto
  moreover have "{t. bit w t} \<subseteq> {..<64}" by (auto dest: bit_imp_le_length)
  ultimately show ?thesis by (simp add: card_Diff_subset finite_subset one_count_popcount)
qed

definition free_from :: "bitmap \<Rightarrow> (nat \<Rightarrow> u8 list) \<Rightarrow> nat \<Rightarrow> nat \<Rightarrow> nat set" where
  "free_from bm V b n = {k. b \<le> k div BLOCK_BITS \<and> k div BLOCK_BITS < n \<and> \<not> bitmap_bit bm V k}"

lemma finite_free_from [simp]: "finite (free_from bm V b n)"
proof (rule finite_subset)
  show "free_from bm V b n \<subseteq> {..<n * BLOCK_BITS}"
    by (auto simp: free_from_def div_less_iff_less_mult)
qed simp

lemma free_block:
  assumes len: "length (words_at V (start_block_id bm + b)) = 64"
  shows "sum_list (map (\<lambda>w. 64 - one_count w) (words_at V (start_block_id bm + b))) =
    card (free_from bm V b (Suc b))"
proof -
  let ?ws = "words_at V (start_block_id bm + b)"
  let ?S = "SIGMA p:{..<64}. {t. t < 64 \<and> \<not> bit (?ws ! p) t}"
  have inj: "inj_on (\<lambda>(p, t). bit_number b p t) ?S"
  proof (rule inj_onI, clarify)
    fix p t p' t' :: nat
    assume "p < 64" "t < 64" "p' < 64" "t' < 64" and "bit_number b p t = bit_number b p' t'"
    then show "p = p' \<and> t = t'" using bit_number_decompose(2,3) by metis
  qed
  have "(\<lambda>(p, t). bit_number b p t) ` ?S = free_from bm V b (Suc b)"
  proof (rule set_eqI, rule iffI)
    fix k
    assume "k \<in> (\<lambda>(p, t). bit_number b p t) ` ?S"
    then show "k \<in> free_from bm V b (Suc b)"
      by (auto simp: free_from_def bit_number_decompose bitmap_bit_number)
  next
    fix k
    assume k: "k \<in> free_from bm V b (Suc b)"
    then have "k div BLOCK_BITS = b" by (simp add: free_from_def)
    with k bit_number_surj [of k] word_pos_less [of k]
    show "k \<in> (\<lambda>(p, t). bit_number b p t) ` ?S"
      by (intro image_eqI [where x = "(k mod BLOCK_BITS div 64, k mod 64)"])
        (auto simp: free_from_def bitmap_bit_def)
  qed
  with card_image [OF inj] have "card (free_from bm V b (Suc b)) = card ?S" by simp
  also have "\<dots> = (\<Sum>p<64. 64 - one_count (?ws ! p))" by (simp add: free_word)
  finally show ?thesis using len by (simp add: sum_list_sum_nth atLeast0LessThan)
qed

lemma free_from_Suc:
  "card (free_from bm V 0 (Suc b)) = card (free_from bm V 0 b) + card (free_from bm V b (Suc b))"
proof -
  have "free_from bm V 0 (Suc b) = free_from bm V 0 b \<union> free_from bm V b (Suc b)"
    by (auto simp: free_from_def)
  moreover have "free_from bm V 0 b \<inter> free_from bm V b (Suc b) = {}"
    by (auto simp: free_from_def)
  ultimately show ?thesis by (simp add: card_Un_disjoint)
qed

lemma card_free_from: "card (free_from bm V 0 (blocks bm)) =
  blocks bm * BLOCK_BITS - card (bitmap_set bm V)"
proof -
  have "free_from bm V 0 (blocks bm) = {..<blocks bm * BLOCK_BITS} - bitmap_set bm V"
    by (auto simp: free_from_def bitmap_set_def div_less_iff_less_mult)
  moreover have "bitmap_set bm V \<subseteq> {..<blocks bm * BLOCK_BITS}" by (auto simp: bitmap_set_def)
  ultimately show ?thesis by (simp add: card_Diff_subset finite_subset)
qed

context block_device
begin

lemma exec_free_count:
  assumes bm: "bitmap_ok n bm" and H: "length H < CACHE_SIZE"
    and free: "\<forall>i \<in> bitmap_area bm. (i, Write) \<notin> set H"
  shows "exec n H V (free_count bm)
    (\<lambda>r V'. V' = V \<and> r = blocks bm * BLOCK_BITS - card (bitmap_set bm V))"
proof (rule exec_wf)
  assume len: "\<And>i. i < n \<Longrightarrow> length (V i) = BLOCK_SIZE" and n: "n < U64_RANGE"
  have bound: "card (free_from bm V 0 b) < U64_RANGE" if "b \<le> blocks bm" for b
  proof -
    have "free_from bm V 0 b \<subseteq> {..<blocks bm * BLOCK_BITS}"
      using that by (auto simp: free_from_def div_less_iff_less_mult [symmetric])
    from card_mono [OF _ this] show ?thesis using bm by (simp add: bitmap_ok_def)
  qed
  have "exec n H V (free_count_loop bm [b..<blocks bm] (card (free_from bm V 0 b)))
      (\<lambda>r V'. V' = V \<and> r = card (free_from bm V 0 (blocks bm)))" if "b \<le> blocks bm" for b
    using that
  proof (induction b rule: inc_induct)
    case base
    then show ?case by (simp add: exec_ret)
  next
    case (step b)
    let ?i = "start_block_id bm + b"
    have i: "?i < n" using bm step.hyps by (simp add: bitmap_ok_def)
    have lock: "(?i, Write) \<notin> set H" using free step.hyps by (simp add: bitmap_area_def)
    have add: "u64_add b (start_block_id bm) = Inr ?i" using i n by (simp add: u64_add_def)
    have words: "length (words_at V ?i) = 64" using len [OF i] by (rule length_words_at)
    have block: "free_in_block (view_at bitmap_block 0 (V ?i)) =
        Inr (card (free_from bm V b (Suc b)))"
      using free_block [OF words] by (simp add: free_in_block_def one_count_le list_all_length
          words_at_def)
    have sum: "u64_add (card (free_from bm V 0 b)) (card (free_from bm V b (Suc b))) =
        Inr (card (free_from bm V 0 (Suc b)))"
      using free_from_Suc [of bm V b] bound [of "Suc b"] step.hyps by (simp add: u64_add_def)
    from step.hyps have "[b..<blocks bm] = b # [Suc b..<blocks bm]" by (simp add: upt_conv_Cons)
    then show ?case
      by (simp only: free_count_loop.simps) (rule exec_bnd, rule exec_pure [OF add], rule exec_bnd,
          rule exec_read_at [OF i H lock], simp, simp, rule exec_pure [OF block], rule exec_bnd,
          rule exec_pure [OF sum], rule step.IH)
  qed
  moreover have "free_from bm V 0 0 = {}" by (simp add: free_from_def)
  ultimately show "exec n H V (free_count bm)
    (\<lambda>r V'. V' = V \<and> r = blocks bm * BLOCK_BITS - card (bitmap_set bm V))"
    unfolding free_count_def using card_free_from [of bm V] by (metis card.empty le0)
qed

end

section \<open>Allocation on the in-memory device\<close>

text \<open>
  C31: \<open>alloc\<close> returns the least number that is not allocated, marks exactly that number and
  touches no block outside the bitmap; it returns nothing exactly when all numbers are taken.
\<close>

theorem bitmap_alloc_least:
  assumes "disk_store n H V cm" and "bitmap_ok n bm" and "length H < CACHE_SIZE"
    and "bitmap_area bm \<inter> fst ` set H = {}"
  shows "runs (alloc bm) cm (\<lambda>r cm'. \<exists>V'. disk_store n H V' cm' \<and>
    (case r of
       None \<Rightarrow> V' = V \<and> bitmap_set bm V = {..<blocks bm * BLOCK_BITS}
     | Some k \<Rightarrow> k < blocks bm * BLOCK_BITS \<and> k \<notin> bitmap_set bm V \<and>
         {..<k} \<subseteq> bitmap_set bm V \<and> bitmap_set bm V' = insert k (bitmap_set bm V) \<and>
         (\<forall>i. i \<notin> bitmap_area bm \<longrightarrow> V' i = V i)))"
  using disk_dev.execD [OF disk_dev.exec_alloc [OF assms(2-4), of V] assms(1)]
  by (simp add: alloc_post_def)

definition two_block_bitmap :: bitmap where
  "two_block_bitmap = Bitmap_new 1 2"

lemma two_block_bitmap_ok: "bitmap_ok 5 two_block_bitmap"
  by (simp add: two_block_bitmap_def Bitmap_new_def bitmap_ok_def BLOCK_BITS_def BLOCK_SIZE_def
      U64_RANGE_def)

lemma blocks_two_block_bitmap [simp]: "blocks two_block_bitmap = 2"
  by (simp add: two_block_bitmap_def Bitmap_new_def)

lemma bitmap_set_zero:
  assumes "bitmap_ok n bm"
  shows "bitmap_set bm (zero_blocks n) = {}"
proof -
  have "words_at (zero_blocks n) (start_block_id bm + k div BLOCK_BITS) = replicate 64 0"
    if "k < blocks bm * BLOCK_BITS" for k
  proof -
    have "k div BLOCK_BITS < blocks bm" using that by (simp add: div_less_iff_less_mult)
    then have "start_block_id bm + k div BLOCK_BITS < n" using assms by (simp add: bitmap_ok_def)
    then show ?thesis
      by (simp add: words_at_def zero_blocks_def view_at_def bitmap_block_def BLOCK_SIZE_def
          dec_u64s_replicate_0 del: dec_u64s.simps)
  qed
  then show ?thesis using word_pos_less by (auto simp: bitmap_set_def bitmap_bit_def)
qed

theorem bitmap_alloc_least_witness:
  "runs (alloc two_block_bitmap) (CacheManager_new (dyn_disk (Disk_new 5))) (\<lambda>r cm'. r = Some 0)"
proof (rule runs_mono [OF bitmap_alloc_least])
  show "disk_store 5 [] (zero_blocks 5) (CacheManager_new (dyn_disk (Disk_new 5)))"
    by (rule disk_store_new) (simp add: U64_RANGE_def)
  show "bitmap_ok 5 two_block_bitmap" by (rule two_block_bitmap_ok)
qed (auto simp: bitmap_set_zero [OF two_block_bitmap_ok] BLOCK_BITS_def BLOCK_SIZE_def
    CACHE_SIZE_def lessThan_empty_iff eq_commute [of "{}"] split: option.splits)

text \<open>
  \<open>dealloc\<close> of an allocated number makes exactly that number free again and touches no
  block outside the bitmap; the subtraction on the word clears one bit and borrows from none.
\<close>

theorem bitmap_dealloc_frees:
  assumes "disk_store n H V cm" and "bitmap_ok n bm" and "length H < CACHE_SIZE"
    and "bitmap_area bm \<inter> fst ` set H = {}" and "k \<in> bitmap_set bm V"
  shows "runs (dealloc bm k) cm (\<lambda>_ cm'. \<exists>V'. disk_store n H V' cm' \<and>
    bitmap_set bm V' = bitmap_set bm V - {k} \<and> (\<forall>i. i \<notin> bitmap_area bm \<longrightarrow> V' i = V i))"
  by (rule disk_dev.execD [OF disk_dev.exec_dealloc [OF assms(2-5)] assms(1)])

lemma alloc_first:
  "runs (alloc two_block_bitmap) (CacheManager_new (dyn_disk (Disk_new 5)))
     (\<lambda>r cm'. \<exists>V'. disk_store 5 [] V' cm' \<and> r = Some 0 \<and> bitmap_set two_block_bitmap V' = {0})"
proof -
  have "disk_store 5 [] (zero_blocks 5) (CacheManager_new (dyn_disk (Disk_new 5)))"
    by (rule disk_store_new) (simp add: U64_RANGE_def)
  from disk_dev.execD [OF disk_dev.exec_alloc [OF two_block_bitmap_ok] this] show ?thesis
    by (rule runs_mono) (auto simp: alloc_post_def bitmap_set_zero [OF two_block_bitmap_ok]
        BLOCK_BITS_def BLOCK_SIZE_def CACHE_SIZE_def lessThan_empty_iff eq_commute [of "{}"] split: option.splits)
qed

theorem bitmap_dealloc_frees_witness:
  "runs (bnd (alloc two_block_bitmap) (\<lambda>r. dealloc two_block_bitmap (the r)))
     (CacheManager_new (dyn_disk (Disk_new 5)))
     (\<lambda>_ cm'. \<exists>V'. disk_store 5 [] V' cm' \<and> bitmap_set two_block_bitmap V' = {})"
  unfolding runs_bnd
proof (rule runs_mono [OF alloc_first], elim exE conjE)
  fix r :: "nat option" and cm' V'
  assume "disk_store 5 [] V' cm'" and "r = Some 0" and "bitmap_set two_block_bitmap V' = {0}"
  with bitmap_dealloc_frees [OF this(1) two_block_bitmap_ok, of 0]
  show "runs (dealloc two_block_bitmap (the r)) cm'
      (\<lambda>_ cm'. \<exists>V'. disk_store 5 [] V' cm' \<and> bitmap_set two_block_bitmap V' = {})"
    by (auto simp: CACHE_SIZE_def elim!: runs_mono)
qed

text \<open>
  Freeing a number that is not allocated is caught by the assertion, so a block is never
  freed twice.
\<close>

theorem bitmap_double_free_panics:
  assumes "disk_store n H V cm" and "bitmap_ok n bm" and "length H < CACHE_SIZE"
    and "bitmap_area bm \<inter> fst ` set H = {}" and "k < blocks bm * BLOCK_BITS" and "k \<notin> bitmap_set bm V"
  shows "dealloc bm k cm = Inl AssertFailed"
  by (rule disk_dev.exec_failD [OF disk_dev.exec_fail_dealloc [OF assms(2-6)] assms(1)])

theorem bitmap_double_free_panics_witness:
  "dealloc two_block_bitmap 70 (CacheManager_new (dyn_disk (Disk_new 5))) = Inl AssertFailed"
proof (rule bitmap_double_free_panics)
  show "disk_store 5 [] (zero_blocks 5) (CacheManager_new (dyn_disk (Disk_new 5)))"
    by (rule disk_store_new) (simp add: U64_RANGE_def)
qed (simp_all add: two_block_bitmap_ok bitmap_set_zero [OF two_block_bitmap_ok] CACHE_SIZE_def
    BLOCK_BITS_def BLOCK_SIZE_def)

text \<open>
  \<open>free_count\<close> terminates, changes nothing and counts the numbers that are not allocated.
\<close>

theorem bitmap_free_count:
  assumes "disk_store n H V cm" and "bitmap_ok n bm" and "length H < CACHE_SIZE"
    and "\<forall>i \<in> bitmap_area bm. (i, Write) \<notin> set H"
  shows "runs (free_count bm) cm (\<lambda>r cm'. disk_store n H V cm' \<and>
    r = card ({..<blocks bm * BLOCK_BITS} - bitmap_set bm V))"
proof -
  have "bitmap_set bm V \<subseteq> {..<blocks bm * BLOCK_BITS}" by (auto simp: bitmap_set_def)
  with disk_dev.execD [OF disk_dev.exec_free_count [OF assms(2-4)] assms(1)]
  show ?thesis by (elim runs_mono) (auto simp: card_Diff_subset finite_subset)
qed

theorem bitmap_free_count_witness:
  "runs (free_count two_block_bitmap) (CacheManager_new (dyn_disk (Disk_new 5))) (\<lambda>r cm'. r = 8192)"
proof (rule runs_mono [OF bitmap_free_count])
  show "disk_store 5 [] (zero_blocks 5) (CacheManager_new (dyn_disk (Disk_new 5)))"
    by (rule disk_store_new) (simp add: U64_RANGE_def)
qed (auto simp: two_block_bitmap_ok bitmap_set_zero [OF two_block_bitmap_ok] CACHE_SIZE_def
    BLOCK_BITS_def BLOCK_SIZE_def)

end
