(* ===== verification/Layout.thy ===== *)
theory Layout
  imports Bitmap
begin

text \<open>
  \<^verbatim>\<open>src/fs/src/cafs/layout.rs\<close> and the inode type of \<^verbatim>\<open>src/fs/src/fs.rs\<close>: the structs
  stored on the device (super block, inode meta data, indirect block), the number of blocks
  a file size needs, and the operations that map a file to its blocks. A file has 36 direct
  blocks; the others hang in a tree of indirect blocks whose root is a block table, a block
  directory, an L3 or an L4 block as the size demands. \<open>forward\<close> lays the tree out anew for
  given index and data blocks, \<open>blocks\<close> reads it back.

  An \<open>enum\<close> stored on the device is its discriminant, a \<open>u64\<close>; reading a discriminant that
  no constructor has is the panic \<open>InvalidEnum\<close>. The recursion over indirect blocks takes a
  fuel argument: every level of the recursion keeps one more block pinned in the cache, so a
  recursion deeper than \<open>CACHE_SIZE + 1\<close> either runs out of cache entries or meets a block
  again and never returns.
\<close>

section \<open>Super block\<close>

definition FS_MAGIC :: nat where
  "FS_MAGIC = 0x5138"

record super_block =
  magic :: nat
  sb_total_blocks :: nat
  sb_inode_bitmap_blocks :: nat
  sb_inode_area_blocks :: nat
  sb_data_bitmap_blocks :: nat
  sb_data_area_blocks :: nat

text \<open>Four bytes of magic number, four of padding, five words.\<close>

definition super_block_view :: "super_block view" where
  "super_block_view = \<lparr>vsize = 48,
     vget = (\<lambda>bs. let ws = dec_u64s 5 (drop 8 bs) in
       \<lparr>magic = of_le (take 4 bs), sb_total_blocks = ws ! 0, sb_inode_bitmap_blocks = ws ! 1,
        sb_inode_area_blocks = ws ! 2, sb_data_bitmap_blocks = ws ! 3,
        sb_data_area_blocks = ws ! 4\<rparr>),
     vput = (\<lambda>sb bs. to_le 4 (magic sb) @ take 4 (drop 4 bs) @
       enc_u64s [sb_total_blocks sb, sb_inode_bitmap_blocks sb, sb_inode_area_blocks sb,
         sb_data_bitmap_blocks sb, sb_data_area_blocks sb])\<rparr>"

definition SuperBlock_initialize :: "nat \<Rightarrow> nat \<Rightarrow> nat \<Rightarrow> nat \<Rightarrow> nat \<Rightarrow> super_block" where
  "SuperBlock_initialize total_blks inode_bitmap inode_area data_bitmap data_area =
     \<lparr>magic = FS_MAGIC, sb_total_blocks = total_blks, sb_inode_bitmap_blocks = inode_bitmap,
      sb_inode_area_blocks = inode_area, sb_data_bitmap_blocks = data_bitmap,
      sb_data_area_blocks = data_area\<rparr>"

definition is_valid :: "super_block \<Rightarrow> bool" where
  "is_valid sb \<longleftrightarrow> magic sb = FS_MAGIC"

section \<open>Constants\<close>

definition DIRECT_COUNT :: nat where
  "DIRECT_COUNT = 36"

definition INDIRECT_LEN :: nat where
  "INDIRECT_LEN = BLOCK_SIZE div 8 - 1"

definition DIRECT_MAX :: nat where
  "DIRECT_MAX = DIRECT_COUNT * BLOCK_SIZE"

definition BLOCK_TABLE_INDIRECT_MAX :: nat where
  "BLOCK_TABLE_INDIRECT_MAX = INDIRECT_LEN * BLOCK_SIZE"

definition BLOCK_TABLE_MAX :: nat where
  "BLOCK_TABLE_MAX = DIRECT_MAX + BLOCK_TABLE_INDIRECT_MAX"

definition BLOCK_DIRECTORY_INDIRECT_MAX :: nat where
  "BLOCK_DIRECTORY_INDIRECT_MAX = INDIRECT_LEN * INDIRECT_LEN * BLOCK_SIZE"

definition BLOCK_DIRECTORY_MAX :: nat where
  "BLOCK_DIRECTORY_MAX = DIRECT_MAX + BLOCK_DIRECTORY_INDIRECT_MAX"

definition L3_INDIRECT_MAX :: nat where
  "L3_INDIRECT_MAX = INDIRECT_LEN * INDIRECT_LEN * INDIRECT_LEN * BLOCK_SIZE"

definition L3_MAX :: nat where
  "L3_MAX = DIRECT_MAX + L3_INDIRECT_MAX"

definition L4_INDIRECT_MAX :: nat where
  "L4_INDIRECT_MAX = INDIRECT_LEN * INDIRECT_LEN * INDIRECT_LEN * INDIRECT_LEN * BLOCK_SIZE"

definition L4_MAX :: nat where
  "L4_MAX = DIRECT_MAX + L4_INDIRECT_MAX"

lemmas layout_consts =
  BLOCK_SIZE_def DIRECT_COUNT_def INDIRECT_LEN_def DIRECT_MAX_def BLOCK_TABLE_INDIRECT_MAX_def
  BLOCK_TABLE_MAX_def BLOCK_DIRECTORY_INDIRECT_MAX_def BLOCK_DIRECTORY_MAX_def
  L3_INDIRECT_MAX_def L3_MAX_def L4_INDIRECT_MAX_def L4_MAX_def

section \<open>Levels\<close>

record level_info =
  li_l4 :: nat
  li_l3 :: nat
  li_block_directory :: nat
  li_block_table :: nat
  li_direct :: nat

datatype indirect_block_type = BlockTable | BlockDirectory | L3 | L4

fun block_type_disc :: "indirect_block_type \<Rightarrow> nat" where
  "block_type_disc BlockTable = 0"
| "block_type_disc BlockDirectory = 1"
| "block_type_disc L3 = 2"
| "block_type_disc L4 = 3"

text \<open>Reading a stored discriminant.\<close>

definition as_block_type :: "nat \<Rightarrow> rust_panic + indirect_block_type" where
  "as_block_type d =
     (if d = 0 then Inr BlockTable else if d = 1 then Inr BlockDirectory
      else if d = 2 then Inr L3 else if d = 3 then Inr L4 else Inl InvalidEnum)"

text \<open>The neighbouring types; the transmuted discriminant is always in range.\<close>

definition block_type_add :: "indirect_block_type \<Rightarrow> rust_panic + indirect_block_type" where
  "block_type_add t =
     (if block_type_disc t = block_type_disc L4 then Inr L4
      else as_block_type (block_type_disc t + 1))"

definition block_type_decrease :: "indirect_block_type \<Rightarrow> rust_panic + indirect_block_type" where
  "block_type_decrease t =
     (if block_type_disc t = block_type_disc BlockTable then Inr BlockTable
      else as_block_type (block_type_disc t - 1))"

definition root_level :: "level_info \<Rightarrow> indirect_block_type option" where
  "root_level li =
     (if li_l4 li = 1 then Some L4
      else if li_l3 li = 1 then Some L3
      else if li_block_directory li = 1 then Some BlockDirectory
      else if li_block_table li = 1 then Some BlockTable
      else None)"

fun type_count :: "level_info \<Rightarrow> indirect_block_type \<Rightarrow> nat" where
  "type_count li BlockTable = li_block_table li"
| "type_count li BlockDirectory = li_block_directory li"
| "type_count li L3 = li_l3 li"
| "type_count li L4 = li_l4 li"

definition index_block_count :: "level_info \<Rightarrow> rust_panic + nat" where
  "index_block_count li =
     sbnd (u64_add (li_l4 li) (li_l3 li)) (\<lambda>a.
     sbnd (u64_add a (li_block_directory li)) (\<lambda>b.
     u64_add b (li_block_table li)))"

text \<open>\<open>Meta::_data_blocks\<close>\<close>

definition data_blocks_of :: "nat \<Rightarrow> rust_panic + nat" where
  "data_blocks_of sz = div_ceil sz BLOCK_SIZE"

definition indirect_size_of :: "nat \<Rightarrow> nat" where
  "indirect_size_of sz = (if sz \<ge> DIRECT_MAX then sz - DIRECT_MAX else 0)"

definition index_blocks :: "nat \<Rightarrow> rust_panic + level_info" where
  "index_blocks sz =
     (let indirect_size = indirect_size_of sz in
      sbnd (div_ceil indirect_size BLOCK_TABLE_INDIRECT_MAX) (\<lambda>block_table_len.
      sbnd (div_ceil indirect_size BLOCK_DIRECTORY_INDIRECT_MAX) (\<lambda>block_directory_len.
      sbnd (div_ceil indirect_size L3_INDIRECT_MAX) (\<lambda>l3_len.
      if sz > L3_MAX then
        Inr \<lparr>li_l4 = 1, li_l3 = l3_len, li_block_directory = block_directory_len,
             li_block_table = block_table_len, li_direct = DIRECT_COUNT\<rparr>
      else if sz > BLOCK_DIRECTORY_MAX then
        Inr \<lparr>li_l4 = 0, li_l3 = 1, li_block_directory = block_directory_len,
             li_block_table = block_table_len, li_direct = DIRECT_COUNT\<rparr>
      else if sz > BLOCK_TABLE_MAX then
        Inr \<lparr>li_l4 = 0, li_l3 = 0, li_block_directory = 1,
             li_block_table = block_table_len, li_direct = DIRECT_COUNT\<rparr>
      else if sz > DIRECT_MAX then
        Inr \<lparr>li_l4 = 0, li_l3 = 0, li_block_directory = 0,
             li_block_table = 1, li_direct = DIRECT_COUNT\<rparr>
      else
        sbnd (div_ceil sz BLOCK_SIZE) (\<lambda>d.
        Inr \<lparr>li_l4 = 0, li_l3 = 0, li_block_directory = 0, li_block_table = 0, li_direct = d\<rparr>)))))"

section \<open>Inode types, meta data and indirect blocks\<close>

datatype inode_type = File | Dir

fun inode_type_disc :: "inode_type \<Rightarrow> nat" where
  "inode_type_disc File = 0"
| "inode_type_disc Dir = 1"

definition as_inode_type :: "nat \<Rightarrow> rust_panic + inode_type" where
  "as_inode_type d = (if d = 0 then Inr File else if d = 1 then Inr Dir else Inl InvalidEnum)"

record meta =
  meta_size :: nat
  direct :: "nat list"
  indirect :: nat
  meta_type :: nat
  meta_name :: "u8 list"

definition meta_view :: "meta view" where
  "meta_view = \<lparr>vsize = 512,
     vget = (\<lambda>bs. \<lparr>meta_size = of_le (take 8 bs), direct = dec_u64s DIRECT_COUNT (drop 8 bs),
       indirect = of_le (take 8 (drop 296 bs)), meta_type = of_le (take 8 (drop 304 bs)),
       meta_name = drop 312 bs\<rparr>),
     vput = (\<lambda>m bs. to_le 8 (meta_size m) @ enc_u64s (direct m) @ to_le 8 (indirect m) @
       to_le 8 (meta_type m) @ meta_name m)\<rparr>"

record indirect_block =
  entries :: "nat list"
  ib_type :: nat

definition indirect_view :: "indirect_block view" where
  "indirect_view = \<lparr>vsize = BLOCK_SIZE,
     vget = (\<lambda>bs. \<lparr>entries = dec_u64s INDIRECT_LEN bs, ib_type = of_le (drop 504 bs)\<rparr>),
     vput = (\<lambda>b bs. enc_u64s (entries b) @ to_le 8 (ib_type b))\<rparr>"

text \<open>\<open>type DataBlock = [u8; BLOCK_SIZE]\<close>\<close>

definition data_block :: "u8 list view" where
  "data_block = \<lparr>vsize = BLOCK_SIZE, vget = (\<lambda>bs. bs), vput = (\<lambda>x bs. x)\<rparr>"

definition Meta_init :: "nat \<Rightarrow> u8 list \<Rightarrow> meta \<Rightarrow> meta" where
  "Meta_init ty nm m =
     m\<lparr>meta_size := 0, direct := map (\<lambda>_. 0) (direct m), indirect := 0,
       meta_type := ty, meta_name := nm\<rparr>"

definition Meta_is_dir :: "meta \<Rightarrow> rust_panic + bool" where
  "Meta_is_dir m = sbnd (as_inode_type (meta_type m)) (\<lambda>t. Inr (t = Dir))"

definition Meta_is_file :: "meta \<Rightarrow> rust_panic + bool" where
  "Meta_is_file m = sbnd (as_inode_type (meta_type m)) (\<lambda>t. Inr (t = File))"

definition Meta_data_blocks :: "meta \<Rightarrow> rust_panic + nat" where
  "Meta_data_blocks m = data_blocks_of (meta_size m)"

section \<open>Reading the tree\<close>

definition TREE_FUEL :: nat where
  "TREE_FUEL = CACHE_SIZE + 2"

text \<open>\<open>IndirectBlock::get_block_id\<close>\<close>

primrec IndirectBlock_get_block_id ::
    "nat \<Rightarrow> indirect_block \<Rightarrow> nat \<Rightarrow> ('d cache_manager, nat) rust" where
  "IndirectBlock_get_block_id 0 = (\<lambda>b inner_id. panic StackOverflow)"
| "IndirectBlock_get_block_id (Suc fuel) = (\<lambda>b inner_id.
     bnd (pure (as_block_type (ib_type b))) (\<lambda>ty.
       case ty of
         BlockTable \<Rightarrow> pure (index (entries b) inner_id)
       | dir \<Rightarrow>
           (let divisor =
              (case dir of
                 BlockTable \<Rightarrow> 1
               | BlockDirectory \<Rightarrow> INDIRECT_LEN
               | L3 \<Rightarrow> INDIRECT_LEN * INDIRECT_LEN
               | L4 \<Rightarrow> INDIRECT_LEN * INDIRECT_LEN * INDIRECT_LEN);
              idx = inner_id div divisor; off = inner_id mod divisor
            in bnd (pure (index (entries b) idx)) (\<lambda>child.
               read_at indirect_view child 0 (\<lambda>b'. IndirectBlock_get_block_id fuel b' off)))))"

text \<open>\<open>Meta::get_block_id\<close>\<close>

definition Meta_get_block_id :: "meta \<Rightarrow> nat \<Rightarrow> ('d cache_manager, nat option) rust" where
  "Meta_get_block_id m inner_id =
     bnd (pure (div_ceil (meta_size m) BLOCK_SIZE)) (\<lambda>count.
     if count \<le> inner_id then ret None
     else if inner_id < DIRECT_COUNT then
       bnd (pure (index (direct m) inner_id)) (\<lambda>i. ret (Some i))
     else
       read_at indirect_view (indirect m) 0 (\<lambda>b.
         bnd (IndirectBlock_get_block_id TREE_FUEL b (inner_id - DIRECT_COUNT)) (\<lambda>i.
         ret (Some i))))"

definition keep_entry :: "nat list option \<Rightarrow> nat \<Rightarrow> bool" where
  "keep_entry flt x \<longleftrightarrow> x \<noteq> 0 \<and> (case flt of None \<Rightarrow> True | Some xs \<Rightarrow> x \<notin> set xs)"

text \<open>\<open>IndirectBlock::_to_vec\<close>; the accumulators are \<open>data_ids\<close> and \<open>index_ids\<close>.\<close>

primrec to_vec_acc ::
    "nat \<Rightarrow> nat list option \<Rightarrow> indirect_block \<Rightarrow> nat list \<times> nat list \<Rightarrow>
     ('d cache_manager, nat list \<times> nat list) rust" where
  "to_vec_acc 0 = (\<lambda>flt b acc. panic StackOverflow)"
| "to_vec_acc (Suc fuel) = (\<lambda>flt b acc.
     bnd (pure (as_block_type (ib_type b))) (\<lambda>ty.
       case ty of
         BlockTable \<Rightarrow> ret (fst acc @ filter (keep_entry flt) (entries b), snd acc)
       | _ \<Rightarrow>
           fold_each (filter (keep_entry flt) (entries b)) (\<lambda>i (data_ids, index_ids).
             read_at indirect_view i 0 (\<lambda>b'.
               to_vec_acc fuel flt b' (data_ids, index_ids @ [i]))) acc))"

text \<open>\<open>IndirectBlock::to_vec\<close> yields \<open>(index_ids, data_ids)\<close>.\<close>

definition to_vec ::
    "nat list option \<Rightarrow> indirect_block \<Rightarrow> ('d cache_manager, nat list \<times> nat list) rust" where
  "to_vec flt b =
     bnd (to_vec_acc TREE_FUEL flt b ([], [])) (\<lambda>(data_ids, index_ids).
     ret (index_ids, data_ids))"

text \<open>\<open>Meta::blocks\<close> yields \<open>(index, blocks)\<close>.\<close>

definition Meta_blocks :: "meta \<Rightarrow> ('d cache_manager, nat list \<times> nat list) rust" where
  "Meta_blocks m =
     (let blks = filter (\<lambda>x. x \<noteq> 0) (direct m) in
      if indirect m \<noteq> 0 then
        bnd (read_at indirect_view (indirect m) 0 (to_vec None)) (\<lambda>(index_ids, data_ids).
        ret (sort (indirect m # index_ids), blks @ data_ids))
      else ret (sort [], blks))"

section \<open>Laying the tree out\<close>

text \<open>The loop over the blocks of one level; each takes the next 63 entries.\<close>

primrec write_level ::
    "indirect_block_type \<Rightarrow> nat list \<Rightarrow> nat list \<Rightarrow> ('d cache_manager, unit) rust" where
  "write_level ty [] es = ret ()"
| "write_level ty (i # is) es =
     bnd (modify_at indirect_view i 0 (\<lambda>b.
       ret ((), b\<lparr>ib_type := block_type_disc ty, entries := take_pad INDIRECT_LEN es\<rparr>))) (\<lambda>_.
     write_level ty is (drop INDIRECT_LEN es))"

definition first_or_zero :: "nat list \<Rightarrow> nat" where
  "first_or_zero xs = (case xs of [] \<Rightarrow> 0 | x # _ \<Rightarrow> x)"

definition forward ::
    "level_info \<Rightarrow> nat list \<Rightarrow> nat list \<Rightarrow> meta \<Rightarrow> ('d cache_manager, meta) rust" where
  "forward li idx dat m =
     (let m = m\<lparr>direct := take_pad DIRECT_COUNT dat\<rparr>; dat = drop DIRECT_COUNT dat in
      if indirect_size_of (meta_size m) \<noteq> 0 then
        (let l4_id = (if li_l4 li \<noteq> 0 then first_or_zero idx else 0);
             idx = (if li_l4 li \<noteq> 0 then drop 1 idx else idx);
             l3_ids = take_pad (li_l3 li) idx; idx = drop (li_l3 li) idx;
             l2_ids = take_pad (li_block_directory li) idx; idx = drop (li_block_directory li) idx;
             l1_ids = take_pad (li_block_table li) idx
         in bnd (if l4_id \<noteq> 0 then write_level L4 [l4_id] l3_ids else ret ()) (\<lambda>_.
            bnd (write_level L3 l3_ids l2_ids) (\<lambda>_.
            bnd (write_level BlockDirectory l2_ids l1_ids) (\<lambda>_.
            bnd (write_level BlockTable l1_ids dat) (\<lambda>_.
            ret (if li_l4 li = 1 then m\<lparr>indirect := l4_id\<rparr>
                 else if li_l3 li = 1 then m\<lparr>indirect := first_or_zero l3_ids\<rparr>
                 else if li_block_directory li = 1 then m\<lparr>indirect := first_or_zero l2_ids\<rparr>
                 else if li_block_table li = 1 then m\<lparr>indirect := first_or_zero l1_ids\<rparr>
                 else m))))))
      else ret (m\<lparr>indirect := 0\<rparr>))"

definition Meta_extend ::
    "nat \<Rightarrow> level_info \<Rightarrow> nat list \<Rightarrow> nat list \<Rightarrow> meta \<Rightarrow> ('d cache_manager, meta) rust" where
  "Meta_extend new_size new_info new_data new_index m =
     bnd (require (new_size \<ge> meta_size m) AssertFailed) (\<lambda>_.
     bnd (Meta_blocks (m\<lparr>meta_size := new_size\<rparr>)) (\<lambda>(idx, dat).
     forward new_info (idx @ new_index) (dat @ new_data) (m\<lparr>meta_size := new_size\<rparr>)))"

text \<open>\<open>Meta::shrink\<close> yields the index and data blocks it no longer needs and the new struct.\<close>

definition Meta_shrink ::
    "nat \<Rightarrow> meta \<Rightarrow> ('d cache_manager, (nat list \<times> nat list) \<times> meta) rust" where
  "Meta_shrink new_size m =
     bnd (require (new_size \<le> meta_size m) AssertFailed) (\<lambda>_.
     bnd (pure (Meta_data_blocks m)) (\<lambda>prev_data_blocks.
     bnd (pure (index_blocks (meta_size m))) (\<lambda>curr_info.
     bnd (pure (index_blocks new_size)) (\<lambda>new_info.
     bnd (Meta_blocks (m\<lparr>meta_size := new_size\<rparr>)) (\<lambda>(idx, dat).
     bnd (pure (index_block_count curr_info)) (\<lambda>curr_count.
     bnd (pure (index_block_count new_info)) (\<lambda>new_count.
     bnd (pure (u64_sub curr_count new_count)) (\<lambda>index_surplus.
     bnd (pure (pop_n index_surplus idx)) (\<lambda>(collected_index_ids, idx).
     bnd (pure (data_blocks_of new_size)) (\<lambda>new_data_blocks.
     bnd (pure (u64_sub prev_data_blocks new_data_blocks)) (\<lambda>data_surplus.
     bnd (pure (pop_n data_surplus dat)) (\<lambda>(collected_data_ids, dat).
     bnd (forward new_info idx dat (m\<lparr>meta_size := new_size\<rparr>)) (\<lambda>m'.
     ret ((collected_index_ids, collected_data_ids), m'))))))))))))))"

definition Meta_clear_size :: "meta \<Rightarrow> ('d cache_manager, nat list \<times> meta) rust" where
  "Meta_clear_size m =
     bnd (Meta_blocks m) (\<lambda>(idx, dat).
     ret (idx @ dat, Meta_init (meta_type m) (meta_name m) m))"

section \<open>The structs are views\<close>

definition meta_ok :: "meta \<Rightarrow> bool" where
  "meta_ok m \<longleftrightarrow> meta_size m < U64_RANGE \<and> length (direct m) = DIRECT_COUNT \<and>
     (\<forall>x \<in> set (direct m). x < U64_RANGE) \<and> indirect m < U64_RANGE \<and>
     meta_type m < U64_RANGE \<and> length (meta_name m) = 200"

definition indirect_ok :: "indirect_block \<Rightarrow> bool" where
  "indirect_ok b \<longleftrightarrow> length (entries b) = INDIRECT_LEN \<and> (\<forall>x \<in> set (entries b). x < U64_RANGE) \<and>
     ib_type b < U64_RANGE"

definition super_block_ok :: "super_block \<Rightarrow> bool" where
  "super_block_ok sb \<longleftrightarrow> magic sb < 2 ^ 32 \<and> sb_total_blocks sb < U64_RANGE \<and>
     sb_inode_bitmap_blocks sb < U64_RANGE \<and> sb_inode_area_blocks sb < U64_RANGE \<and>
     sb_data_bitmap_blocks sb < U64_RANGE \<and> sb_data_area_blocks sb < U64_RANGE"

lemma vsize_views [simp]:
  "vsize meta_view = 512" "vsize indirect_view = BLOCK_SIZE" "vsize data_block = BLOCK_SIZE"
  "vsize super_block_view = 48"
  by (simp_all add: meta_view_def indirect_view_def data_block_def super_block_view_def)

interpretation meta_struct: struct_view meta_view meta_ok
proof unfold_locales
  fix m and bs :: "u8 list"
  assume "length bs = vsize meta_view"
  then have bs: "length bs = 512" by simp
  have split: "bs = take 8 bs @ take 288 (drop 8 bs) @ take 8 (drop 296 bs) @
      take 8 (drop 304 bs) @ drop 312 bs"
  proof -
    have "drop 8 bs = take 288 (drop 8 bs) @ drop 296 bs"
      "drop 296 bs = take 8 (drop 296 bs) @ drop 304 bs"
      "drop 304 bs = take 8 (drop 304 bs) @ drop 312 bs"
      using append_take_drop_id [of 288 "drop 8 bs"] append_take_drop_id [of 8 "drop 296 bs"]
        append_take_drop_id [of 8 "drop 304 bs"]
      by simp_all
    then show ?thesis using append_take_drop_id [of 8 bs] by simp
  qed
  have enc: "enc_u64s (dec_u64s 36 (drop 8 bs)) = take 288 (drop 8 bs)"
    using enc_dec_u64s [of 36 "drop 8 bs"] bs by simp
  show "vput meta_view (vget meta_view bs) bs = bs"
    using split by (simp add: meta_view_def DIRECT_COUNT_def enc bs)
  show "meta_ok (vget meta_view bs)"
    using bs dec_u64s_bound [of 36 "drop 8 bs"] by (auto simp: meta_view_def meta_ok_def DIRECT_COUNT_def)
  assume m: "meta_ok m"
  then show "length (vput meta_view m bs) = vsize meta_view"
    by (simp add: meta_view_def meta_ok_def DIRECT_COUNT_def)
  from m show "vget meta_view (vput meta_view m bs) = m"
    by (simp add: meta_view_def meta_ok_def DIRECT_COUNT_def)
qed

interpretation indirect_struct: struct_view indirect_view indirect_ok
proof unfold_locales
  fix b and bs :: "u8 list"
  assume "length bs = vsize indirect_view"
  then have bs: "length bs = 512" by (simp add: BLOCK_SIZE_def)
  have enc: "enc_u64s (dec_u64s 63 bs) = take 504 bs"
    using enc_dec_u64s [of 63 bs] bs by simp
  show "vput indirect_view (vget indirect_view bs) bs = bs"
    using bs by (simp add: indirect_view_def INDIRECT_LEN_def BLOCK_SIZE_def enc)
  show "indirect_ok (vget indirect_view bs)"
    using bs dec_u64s_bound [of 63 bs]
    by (auto simp: indirect_view_def indirect_ok_def INDIRECT_LEN_def BLOCK_SIZE_def)
  assume b: "indirect_ok b"
  then show "length (vput indirect_view b bs) = vsize indirect_view"
    by (simp add: indirect_view_def indirect_ok_def INDIRECT_LEN_def BLOCK_SIZE_def)
  from b show "vget indirect_view (vput indirect_view b bs) = b"
    by (simp add: indirect_view_def indirect_ok_def INDIRECT_LEN_def BLOCK_SIZE_def)
qed

interpretation data_struct: struct_view data_block "\<lambda>x. length x = BLOCK_SIZE"
  by unfold_locales (simp_all add: data_block_def)

interpretation super_struct: struct_view super_block_view super_block_ok
proof unfold_locales
  fix sb and bs :: "u8 list"
  assume "length bs = vsize super_block_view"
  then have bs: "length bs = 48" by simp
  let ?ws = "dec_u64s 5 (drop 8 bs)"
  have ws: "[?ws ! 0, ?ws ! 1, ?ws ! 2, ?ws ! 3, ?ws ! 4] = ?ws"
    by (simp add: list_eq_iff_nth_eq less_Suc_eq numeral_eq_Suc)
  have enc: "enc_u64s [?ws ! 0, ?ws ! Suc 0, ?ws ! 2, ?ws ! 3, ?ws ! 4] = drop 8 bs"
    unfolding ws [unfolded One_nat_def] using enc_dec_u64s [of 5 "drop 8 bs"] bs by simp
  have "take 4 bs @ take 4 (drop 4 bs) @ drop 8 bs = bs"
    using append_take_drop_id [of 4 "drop 4 bs"] by simp
  then show "vput super_block_view (vget super_block_view bs) bs = bs"
    using bs by (simp add: super_block_view_def Let_def enc del: enc_u64s_simps dec_u64s.simps)
  have "of_le (take 4 bs) < 2 ^ 32" using of_le_bound [of "take 4 bs"] bs by simp
  moreover have "?ws ! i < U64_RANGE" if "i < 5" for i
    using dec_u64s_bound [of 5 "drop 8 bs" "?ws ! i"] bs that by (simp del: dec_u64s.simps)
  ultimately show "super_block_ok (vget super_block_view bs)"
    by (simp add: super_block_view_def Let_def super_block_ok_def del: dec_u64s.simps)
  assume sb: "super_block_ok sb"
  then show "length (vput super_block_view sb bs) = vsize super_block_view"
    using bs by (simp add: super_block_view_def)
  from sb bs show "vget super_block_view (vput super_block_view sb bs) = sb"
    by (simp add: super_block_view_def super_block_ok_def Let_def of_le_to_le
        del: enc_u64s_simps)
qed

end
