(* ===== verification/Block_Map.thy ===== *)
theory Block_Map
  imports Layout
begin

text \<open>
  Correctness of the block map of \<^verbatim>\<open>src/fs/src/cafs/layout.rs\<close>. The number of blocks per
  level is the iterated rounding-up of the level below, until one block is left
  (\<open>level1\<close> to \<open>level4\<close>); \<open>index_blocks\<close> computes it in one go. The representation
  predicate \<open>meta_rep\<close> says that an inode stands for a list of index blocks and a list of
  data blocks. \<open>blocks\<close> returns exactly these lists, \<open>extend\<close> appends to them and
  \<open>shrink\<close> cuts them, for every file size up to the maximum of an L4 tree.
\<close>

section \<open>The number of blocks per level\<close>

definition data_count :: "nat \<Rightarrow> nat" where
  "data_count sz = cdiv sz BLOCK_SIZE"

definition level1 :: "nat \<Rightarrow> nat" where
  "level1 sz = cdiv (data_count sz - DIRECT_COUNT) INDIRECT_LEN"

definition next_level :: "nat \<Rightarrow> nat" where
  "next_level k = (if k \<le> 1 then 0 else cdiv k INDIRECT_LEN)"

definition level2 :: "nat \<Rightarrow> nat" where
  "level2 sz = next_level (level1 sz)"

definition level3 :: "nat \<Rightarrow> nat" where
  "level3 sz = next_level (level2 sz)"

definition level4 :: "nat \<Rightarrow> nat" where
  "level4 sz = next_level (level3 sz)"

definition index_count :: "nat \<Rightarrow> nat" where
  "index_count sz = level4 sz + level3 sz + level2 sz + level1 sz"

lemma INDIRECT_LEN_pos [simp]: "0 < INDIRECT_LEN" "INDIRECT_LEN \<noteq> 0" "INDIRECT_LEN \<noteq> Suc 0"
  by (simp_all add: layout_consts)

lemma data_blocks_of_eq: "sz + BLOCK_SIZE < U64_RANGE \<Longrightarrow> data_blocks_of sz = Inr (data_count sz)"
  by (simp add: data_blocks_of_def data_count_def div_ceil_def cdiv_def)

lemma data_beyond: "data_count sz - DIRECT_COUNT = cdiv (indirect_size_of sz) BLOCK_SIZE"
proof -
  have "indirect_size_of sz = sz - BLOCK_SIZE * DIRECT_COUNT"
    by (simp add: indirect_size_of_def DIRECT_MAX_def mult.commute)
  then show ?thesis by (simp add: data_count_def cdiv_diff)
qed

lemma level1_eq: "level1 sz = cdiv (indirect_size_of sz) BLOCK_TABLE_INDIRECT_MAX"
  by (simp add: level1_def data_beyond cdiv_cdiv BLOCK_TABLE_INDIRECT_MAX_def mult.commute)

lemma next_level_cdiv:
  assumes "0 < b"
  shows "next_level (cdiv a b) = (if a \<le> b then 0 else cdiv a (b * INDIRECT_LEN))"
  using assms cdiv_le_iff [of b a 1] by (simp add: next_level_def cdiv_cdiv)

lemma next_level_0 [simp]: "next_level 0 = 0"
  by (simp add: next_level_def)

lemma indirect_size_le_iff: "indirect_size_of sz \<le> k \<longleftrightarrow> sz \<le> DIRECT_MAX + k"
  by (auto simp: indirect_size_of_def)

lemma level2_eq:
  "level2 sz = (if sz \<le> BLOCK_TABLE_MAX then 0
    else cdiv (indirect_size_of sz) BLOCK_DIRECTORY_INDIRECT_MAX)"
proof -
  have "BLOCK_TABLE_INDIRECT_MAX * INDIRECT_LEN = BLOCK_DIRECTORY_INDIRECT_MAX"
    by (simp add: layout_consts)
  moreover have "0 < BLOCK_TABLE_INDIRECT_MAX" by (simp add: layout_consts)
  ultimately show ?thesis
    by (simp add: level2_def level1_eq next_level_cdiv indirect_size_le_iff BLOCK_TABLE_MAX_def)
qed

lemma level3_eq:
  "level3 sz = (if sz \<le> BLOCK_DIRECTORY_MAX then 0
    else cdiv (indirect_size_of sz) L3_INDIRECT_MAX)"
proof -
  have "BLOCK_DIRECTORY_INDIRECT_MAX * INDIRECT_LEN = L3_INDIRECT_MAX"
    by (simp add: layout_consts)
  moreover have "0 < BLOCK_DIRECTORY_INDIRECT_MAX" "BLOCK_TABLE_MAX \<le> BLOCK_DIRECTORY_MAX"
    by (simp_all add: layout_consts)
  ultimately show ?thesis
    by (auto simp: level3_def level2_eq next_level_cdiv indirect_size_le_iff BLOCK_DIRECTORY_MAX_def)
qed

lemma level4_eq:
  "level4 sz = (if sz \<le> L3_MAX then 0 else cdiv (indirect_size_of sz) L4_INDIRECT_MAX)"
proof -
  have "L3_INDIRECT_MAX * INDIRECT_LEN = L4_INDIRECT_MAX"
    by (simp add: layout_consts)
  moreover have "0 < L3_INDIRECT_MAX" "BLOCK_DIRECTORY_MAX \<le> L3_MAX"
    by (simp_all add: layout_consts)
  ultimately show ?thesis
    by (auto simp: level4_def level3_eq next_level_cdiv indirect_size_le_iff L3_MAX_def)
qed

lemma cdiv_one: "0 < a \<Longrightarrow> a \<le> b \<Longrightarrow> cdiv a b = 1"
  using cdiv_le_iff [of b a 1] cdiv_eq_0_iff [of b a] by linarith

text \<open>\<open>index_blocks\<close> computes the level counts, and nothing overflows up to the L4 maximum.\<close>

lemma index_blocks_eq:
  assumes "sz \<le> L4_MAX"
  shows "index_blocks sz = Inr \<lparr>li_l4 = level4 sz, li_l3 = level3 sz, li_block_directory = level2 sz,
    li_block_table = level1 sz, li_direct = min DIRECT_COUNT (data_count sz)\<rparr>"
proof -
  let ?i = "indirect_size_of sz"
  have i: "?i \<le> L4_INDIRECT_MAX" using assms by (simp add: indirect_size_le_iff L4_MAX_def)
  then have "?i + L3_INDIRECT_MAX < U64_RANGE" "?i + BLOCK_DIRECTORY_INDIRECT_MAX < U64_RANGE"
    "?i + BLOCK_TABLE_INDIRECT_MAX < U64_RANGE" "sz + BLOCK_SIZE < U64_RANGE"
    using assms by (auto simp: layout_consts U64_RANGE_def)
  note div = this [THEN div_ceil_Inr [THEN iffD2, OF conjI, OF refl]]
  have order: "DIRECT_MAX < BLOCK_TABLE_MAX" "BLOCK_TABLE_MAX < BLOCK_DIRECTORY_MAX"
    "BLOCK_DIRECTORY_MAX < L3_MAX" by (simp_all add: layout_consts)
  have pos: "DIRECT_MAX < sz \<Longrightarrow> 0 < ?i" by (simp add: indirect_size_of_def)
  have d: "min DIRECT_COUNT (data_count sz) = (if sz \<le> DIRECT_MAX then data_count sz else DIRECT_COUNT)"
    using cdiv_le_iff [of BLOCK_SIZE sz DIRECT_COUNT]
    by (auto simp: data_count_def DIRECT_MAX_def mult.commute min_def)
  have one: "L3_MAX < sz \<Longrightarrow> cdiv ?i L4_INDIRECT_MAX = 1"
    "BLOCK_DIRECTORY_MAX < sz \<Longrightarrow> sz \<le> L3_MAX \<Longrightarrow> cdiv ?i L3_INDIRECT_MAX = 1"
    "BLOCK_TABLE_MAX < sz \<Longrightarrow> sz \<le> BLOCK_DIRECTORY_MAX \<Longrightarrow> cdiv ?i BLOCK_DIRECTORY_INDIRECT_MAX = 1"
    "DIRECT_MAX < sz \<Longrightarrow> sz \<le> BLOCK_TABLE_MAX \<Longrightarrow> cdiv ?i BLOCK_TABLE_INDIRECT_MAX = 1"
    using i pos order
    by (intro cdiv_one; simp add: indirect_size_le_iff L3_MAX_def BLOCK_DIRECTORY_MAX_def
        BLOCK_TABLE_MAX_def)+
  have zero: "sz \<le> DIRECT_MAX \<Longrightarrow> cdiv ?i BLOCK_TABLE_INDIRECT_MAX = 0"
    by (simp add: indirect_size_of_def cdiv_eq_0_iff layout_consts)
  show ?thesis
    unfolding index_blocks_def Let_def div sbnd_simps
    using order one zero d
    by (auto simp: level4_eq level3_eq level2_eq level1_eq cdiv_def data_count_def)
qed

lemma cdiv_bound: "0 < b \<Longrightarrow> cdiv a b \<le> a"
  by (simp add: cdiv_le_iff)

lemma level_bounds:
  "level1 sz \<le> data_count sz" "level2 sz \<le> level1 sz" "level3 sz \<le> level2 sz" "level4 sz \<le> level3 sz"
  by (auto simp: level1_def level2_def level3_def level4_def next_level_def
      intro!: order_trans [OF cdiv_bound])

lemma data_count_bound: "data_count sz \<le> sz"
  by (simp add: data_count_def cdiv_bound)

lemma index_block_count_eq:
  assumes "sz \<le> L4_MAX" and "index_blocks sz = Inr li"
  shows "index_block_count li = Inr (index_count sz)"
proof -
  have "index_count sz \<le> 4 * sz"
    using level_bounds [of sz] data_count_bound [of sz] by (simp add: index_count_def)
  also have "\<dots> < U64_RANGE" using assms(1) by (simp add: layout_consts U64_RANGE_def)
  finally show ?thesis
    using assms(2) [symmetric]
    by (simp add: index_blocks_eq [OF assms(1)] index_count_def index_block_count_def u64_add_def)
qed

lemma next_level_mono: "a \<le> b \<Longrightarrow> next_level a \<le> next_level b"
  by (simp add: next_level_def cdiv_mono)

lemma level_mono:
  assumes "a \<le> b"
  shows "data_count a \<le> data_count b" "level1 a \<le> level1 b" "level2 a \<le> level2 b"
    "level3 a \<le> level3 b" "level4 a \<le> level4 b"
proof -
  show "data_count a \<le> data_count b" using assms by (simp add: data_count_def cdiv_mono)
  then show 1: "level1 a \<le> level1 b" by (simp add: level1_def cdiv_mono diff_le_mono)
  then show 2: "level2 a \<le> level2 b" unfolding level2_def by (rule next_level_mono)
  then show 3: "level3 a \<le> level3 b" unfolding level3_def by (rule next_level_mono)
  then show "level4 a \<le> level4 b" unfolding level4_def by (rule next_level_mono)
qed

lemma index_count_mono: "a \<le> b \<Longrightarrow> index_count a \<le> index_count b"
  using level_mono [of a b] by (simp add: index_count_def)

lemma index_count_data: "data_count a \<le> data_count b \<Longrightarrow> index_count a \<le> index_count b"
  unfolding index_count_def level4_def level3_def level2_def
  by (intro add_mono next_level_mono) (simp_all add: level1_def cdiv_mono diff_le_mono)

lemma index_count_cong: "data_count a = data_count b \<Longrightarrow> index_count a = index_count b"
  by (simp add: index_count_def level4_def level3_def level2_def level1_def)

lemma level4_le_1: "sz \<le> L4_MAX \<Longrightarrow> level4 sz \<le> 1"
proof -
  assume "sz \<le> L4_MAX"
  then have "cdiv (indirect_size_of sz) L4_INDIRECT_MAX \<le> 1"
    by (subst cdiv_le_iff) (auto simp: indirect_size_le_iff L4_MAX_def layout_consts)
  then show ?thesis by (simp add: level4_eq)
qed

section \<open>Chunks\<close>

text \<open>The \<open>j\<close>-th run of \<open>b\<close> elements.\<close>

definition chunk :: "nat \<Rightarrow> nat \<Rightarrow> 'a list \<Rightarrow> 'a list" where
  "chunk b j xs = take b (drop (j * b) xs)"

lemma length_chunk: "length (chunk b j xs) = min b (length xs - j * b)"
  by (simp add: chunk_def min.commute)

lemma set_chunk: "set (chunk b j xs) \<subseteq> set xs"
  by (auto simp: chunk_def dest: in_set_takeD in_set_dropD)

lemma chunk_chunk: "p < c \<Longrightarrow> chunk b p (chunk (c * b) j xs) = chunk b (c * j + p) xs"
proof -
  assume "p < c"
  then have "p * b + b \<le> c * b" using mult_le_mono1 [of "Suc p" c b] by simp
  then have m: "min b (c * b - p * b) = b" by simp
  have o: "p * b + j * (c * b) = (c * j + p) * b" by (simp add: algebra_simps)
  show ?thesis unfolding chunk_def drop_take drop_drop take_take m o ..
qed

lemma nth_chunk: "p < length (chunk b j xs) \<Longrightarrow> chunk b j xs ! p = xs ! (j * b + p)"
  by (auto simp: chunk_def nth_drop min_def split: if_splits)

lemma concat_chunks:
  assumes "length xs \<le> m * b"
  shows "concat (map (\<lambda>j. chunk b j xs) [0..<m]) = xs"
proof -
  have "concat (map (\<lambda>j. chunk b j xs) [0..<m]) = take (m * b) xs"
  proof (induction m)
    case (Suc m)
    have "take (m * b + b) xs = take (m * b) xs @ take b (drop (m * b) xs)" by (rule take_add)
    with Suc show ?case by (simp add: chunk_def add.commute)
  qed simp
  with assms show ?thesis by simp
qed

lemma concat_chunks_nth:
  assumes "length xs \<le> length cs * b" and "\<And>j. j < length cs \<Longrightarrow> f (cs ! j) = chunk b j xs"
  shows "concat (map f cs) = xs"
proof -
  have "map f cs = map (\<lambda>j. chunk b j xs) [0..<length cs]"
    using assms(2) by (intro nth_equalityI) simp_all
  with concat_chunks [OF assms(1)] show ?thesis by simp
qed

lemma nz_take_pad: "0 \<notin> set xs \<Longrightarrow> length xs \<le> n \<Longrightarrow> filter (\<lambda>x. x \<noteq> 0) (take_pad n xs) = xs"
  using filter_take_pad [of xs n] by simp

lemma take_pad_chunk: "take_pad n (chunk n j xs) = take_pad n (drop (j * n) xs)"
  by (auto simp: take_pad_def chunk_def min_def)

section \<open>Trees of indirect blocks\<close>

definition ib :: "(nat \<Rightarrow> u8 list) \<Rightarrow> nat \<Rightarrow> indirect_block" where
  "ib V i = view_at indirect_view 0 (V i)"

definition kids :: "(nat \<Rightarrow> u8 list) \<Rightarrow> nat \<Rightarrow> nat list" where
  "kids V i = filter (\<lambda>x. x \<noteq> 0) (entries (ib V i))"

text \<open>The number of data blocks below a block whose type has the discriminant \<open>k\<close>.\<close>

definition span :: "nat \<Rightarrow> nat" where
  "span k = INDIRECT_LEN ^ Suc k"

text \<open>
  \<open>tree_at n V k i es\<close>: block \<open>i\<close> is the root of a tree of type \<open>k\<close> that lists the data
  blocks \<open>es\<close> in order, every subtree but the last being full.
\<close>

primrec tree_at :: "nat \<Rightarrow> (nat \<Rightarrow> u8 list) \<Rightarrow> nat \<Rightarrow> nat \<Rightarrow> nat list \<Rightarrow> bool" where
  "tree_at n V 0 i es \<longleftrightarrow> i < n \<and> ib_type (ib V i) = 0 \<and>
     entries (ib V i) = take_pad INDIRECT_LEN es \<and> 0 \<notin> set es \<and> length es \<le> INDIRECT_LEN"
| "tree_at n V (Suc k) i es \<longleftrightarrow> i < n \<and> ib_type (ib V i) = Suc k \<and>
     entries (ib V i) = take_pad INDIRECT_LEN (kids V i) \<and>
     length es \<le> length (kids V i) * span k \<and>
     (\<forall>j<length (kids V i). tree_at n V k (kids V i ! j) (chunk (span k) j es))"

text \<open>The indirect blocks below the root, in the order of the traversal.\<close>

primrec tree_index :: "(nat \<Rightarrow> u8 list) \<Rightarrow> nat \<Rightarrow> nat \<Rightarrow> nat list" where
  "tree_index V 0 i = []"
| "tree_index V (Suc k) i = concat (map (\<lambda>c. c # tree_index V k c) (kids V i))"

definition forest_index :: "(nat \<Rightarrow> u8 list) \<Rightarrow> nat \<Rightarrow> nat list \<Rightarrow> nat list" where
  "forest_index V k is = concat (map (\<lambda>c. c # tree_index V k c) is)"

definition forest_at :: "nat \<Rightarrow> (nat \<Rightarrow> u8 list) \<Rightarrow> nat \<Rightarrow> nat list \<Rightarrow> nat list \<Rightarrow> bool" where
  "forest_at n V k is es \<longleftrightarrow> length es \<le> length is * span k \<and>
     (\<forall>j<length is. tree_at n V k (is ! j) (chunk (span k) j es))"

lemma kids_tree_0: "tree_at n V 0 i es \<Longrightarrow> kids V i = es"
  using nz_take_pad [of es INDIRECT_LEN] by (simp add: kids_def)

lemma nz_nonzero: "0 \<notin> set (kids V i)"
  by (simp add: kids_def)

lemma length_kids: "tree_at n V k i es \<Longrightarrow> length (kids V i) \<le> INDIRECT_LEN"
  by (cases k) (metis kids_def length_filter_le length_take_pad tree_at.simps)+

lemma ib_cong: "V i = W i \<Longrightarrow> ib V i = ib W i" "V i = W i \<Longrightarrow> kids V i = kids W i"
  by (simp_all add: ib_def kids_def)

text \<open>A tree only depends on its own indirect blocks.\<close>

lemma tree_cong:
  assumes "\<And>j. j \<in> insert i (set (tree_index V k i)) \<Longrightarrow> W j = V j"
  shows "tree_index W k i = tree_index V k i" "tree_at n W k i es \<longleftrightarrow> tree_at n V k i es"
  using assms
proof (induction k arbitrary: i es)
  case 0
  case 1
  then show ?case by simp
next
  case 0
  case 2
  then show ?case by (simp add: ib_def)
next
  case (Suc k)
  case 1
  have kids: "kids W i = kids V i" using 1 by (intro ib_cong) simp
  have "tree_index W k c = tree_index V k c" if "c \<in> set (kids V i)" for c
    using that 1 by (intro Suc.IH(1)) auto
  then show ?case by (simp add: kids cong: map_cong)
next
  case (Suc k)
  case 2
  have kids: "kids W i = kids V i" "ib W i = ib V i" using 2 by (auto intro!: ib_cong)
  have "tree_at n W k (kids V i ! j) (chunk (span k) j es) \<longleftrightarrow>
      tree_at n V k (kids V i ! j) (chunk (span k) j es)" if "j < length (kids V i)" for j
    using 2 nth_mem [OF that] by (intro Suc.IH(2)) force
  then show ?case by (simp add: kids cong: conj_cong)
qed

text \<open>The data blocks below a root, in the order of the traversal.\<close>

primrec tree_data :: "(nat \<Rightarrow> u8 list) \<Rightarrow> nat \<Rightarrow> nat \<Rightarrow> nat list" where
  "tree_data V 0 i = kids V i"
| "tree_data V (Suc k) i = concat (map (tree_data V k) (kids V i))"

lemma tree_data_eq: "tree_at n V k i es \<Longrightarrow> tree_data V k i = es"
proof (induction k arbitrary: i es)
  case 0
  then show ?case by (simp add: kids_tree_0 [OF 0])
next
  case (Suc k)
  then show ?case by simp (rule concat_chunks_nth [of _ _ "span k"], auto)
qed

lemma tree_child: "tree_at n V (Suc k) i es \<Longrightarrow> c \<in> set (kids V i) \<Longrightarrow> \<exists>ds. tree_at n V k c ds"
  by (auto simp: in_set_conv_nth)

lemma tree_in_range: "tree_at n V k i es \<Longrightarrow> i < n"
  by (cases k) simp_all

section \<open>Reading a tree\<close>

lemma block_type_cases:
  "k < 4 \<Longrightarrow> as_block_type k = Inr (if k = 0 then BlockTable else if k = 1 then BlockDirectory
     else if k = 2 then L3 else L4)"
  by (simp add: as_block_type_def)

lemma keep_None: "filter (keep_entry None) xs = filter (\<lambda>x. x \<noteq> 0) xs"
  by (simp add: keep_entry_def cong: filter_cong)

lemma to_vec_dir:
  assumes "as_block_type (ib_type b) = Inr t" and "t \<noteq> BlockTable"
  shows "to_vec_acc (Suc fuel) flt b acc =
    fold_each (filter (keep_entry flt) (entries b)) (\<lambda>i (data_ids, index_ids).
      read_at indirect_view i 0 (\<lambda>b'. to_vec_acc fuel flt b' (data_ids, index_ids @ [i]))) acc"
  using assms by (cases t) (simp_all add: bnd_def pure_def fun_eq_iff)

definition divisor :: "nat \<Rightarrow> nat" where
  "divisor k = INDIRECT_LEN ^ k"

lemma get_block_id_dir:
  assumes "ib_type b = Suc k" and "k < 3"
  shows "IndirectBlock_get_block_id (Suc fuel) b p =
    bnd (pure (index (entries b) (p div span k))) (\<lambda>child.
      read_at indirect_view child 0 (\<lambda>b'. IndirectBlock_get_block_id fuel b' (p mod span k)))"
proof -
  from assms(2) consider "k = 0" | "k = 1" | "k = 2" by linarith
  then show ?thesis
    using assms(1)
    by cases (simp_all add: as_block_type_def pure_def bnd_def fun_eq_iff span_def Let_def
        power_Suc eval_nat_numeral algebra_simps)
qed

context block_device
begin

text \<open>
  Nothing on the way is locked for writing, and the recursion needs one more guard per level.
\<close>

lemma exec_to_vec_acc:
  assumes "tree_at n V k i es" and "k < 4" and "k < fuel" and "length H + k \<le> CACHE_SIZE"
    and "\<forall>c \<in> set (tree_index V k i). (c, Write) \<notin> set H"
  shows "exec n H V (to_vec_acc fuel None (ib V i) (d, x))
    (\<lambda>r V'. V' = V \<and> r = (d @ tree_data V k i, x @ tree_index V k i))"
  using assms
proof (induction k arbitrary: i es fuel H d x)
  case 0
  from 0(3) obtain f where f: "fuel = Suc f" by (cases fuel) auto
  from 0(1) show ?case
    unfolding f to_vec_acc.simps
    by (intro exec_bnd exec_pure [of _ BlockTable])
      (simp_all add: exec_ret keep_None kids_def as_block_type_def del: neq0_conv)
next
  case (Suc k)
  from Suc.prems(3) obtain f where f: "fuel = Suc f" and kf: "k < f" by (cases fuel) auto
  from Suc.prems(1,2) have ty: "as_block_type (ib_type (ib V i)) = Inr (if k = 0 then BlockDirectory
      else if k = 1 then L3 else L4)" by (auto simp: block_type_cases)
  let ?g = "\<lambda>c (d, x). (d @ tree_data V k c, x @ c # tree_index V k c)"
  have child: "exec n H V (read_at indirect_view c 0 (\<lambda>b'. to_vec_acc f None b' (fst acc, snd acc @ [c])))
      (\<lambda>r V'. V' = V \<and> r = ?g c acc)" if c: "c \<in> set (kids V i)" for c acc
  proof -
    from tree_child [OF Suc.prems(1) c] obtain ds where t: "tree_at n V k c ds" ..
    have lock: "(c, Write) \<notin> set H" "\<forall>c' \<in> set (tree_index V k c). (c', Write) \<notin> set ((c, Read) # H)"
      using Suc.prems(5) c by auto
    have "exec n ((c, Read) # H) V (to_vec_acc f None (ib V c) (fst acc, snd acc @ [c]))
        (\<lambda>r V'. V' = V \<and> r = (fst acc @ tree_data V k c, (snd acc @ [c]) @ tree_index V k c))"
      using Suc.prems(2,4) kf lock(2) by (intro Suc.IH [OF t]) auto
    then show ?thesis
      using Suc.prems(4) by (intro exec_read_at [OF tree_in_range [OF t] _ lock(1)])
        (auto simp: ib_def case_prod_beta)
  qed
  have fold: "fold ?g cs (d, x) = (d @ concat (map (tree_data V k) cs),
      x @ concat (map (\<lambda>c. c # tree_index V k c) cs))" for cs
    by (induction cs arbitrary: d x) simp_all
  have "exec n H V (fold_each (kids V i) (\<lambda>c (d, x). read_at indirect_view c 0
      (\<lambda>b'. to_vec_acc f None b' (d, x @ [c]))) (d, x)) (\<lambda>r V'. V' = V \<and> r = fold ?g (kids V i) (d, x))"
    using child by (intro exec_fold_each) (simp add: case_prod_beta)
  with fold show ?case
    unfolding f by (subst to_vec_dir [OF ty]) (simp_all add: keep_None kids_def [symmetric] del: neq0_conv)
qed

lemma exec_get_block_id_tree:
  assumes "tree_at n V k i es" and "k < 4" and "k < fuel" and "length H + k \<le> CACHE_SIZE"
    and "\<forall>c \<in> set (tree_index V k i). (c, Write) \<notin> set H" and "p < length es"
  shows "exec n H V (IndirectBlock_get_block_id fuel (ib V i) p) (\<lambda>r V'. V' = V \<and> r = es ! p)"
  using assms
proof (induction k arbitrary: i es fuel H p)
  case 0
  from 0(3) obtain f where f: "fuel = Suc f" by (cases fuel) auto
  have "index (entries (ib V i)) p = Inr (es ! p)"
    using 0(1,6) by (auto simp: take_pad_def nth_append)
  with 0(1) show ?case
    unfolding f IndirectBlock_get_block_id.simps
    by (intro exec_bnd exec_pure [of _ BlockTable]) (simp_all add: exec_pure as_block_type_def)
next
  case (Suc k)
  from Suc.prems(3) obtain f where f: "fuel = Suc f" and kf: "k < f" by (cases fuel) auto
  let ?j = "p div span k" and ?q = "p mod span k"
  have sp: "0 < span k" by (simp add: span_def)
  have j: "?j < length (kids V i)"
    using Suc.prems(1,6) sp by (simp add: div_less_iff_less_mult)
  let ?c = "kids V i ! ?j"
  from Suc.prems(1) j have t: "tree_at n V k ?c (chunk (span k) ?j es)" by simp
  have c: "?c \<in> set (kids V i)" using j by simp
  have lock: "(?c, Write) \<notin> set H"
    "\<forall>c' \<in> set (tree_index V k ?c). (c', Write) \<notin> set ((?c, Read) # H)"
    using Suc.prems(5) c by auto
  have q: "?q < length (chunk (span k) ?j es)"
    using Suc.prems(6) sp by (simp add: length_chunk)
      (metis add.commute div_mult_mod_eq less_diff_conv)
  have "index (entries (ib V i)) ?j = Inr ?c"
    using Suc.prems(1) j length_kids [OF Suc.prems(1)] by (auto simp: take_pad_def nth_append)
  moreover have "exec n ((?c, Read) # H) V (IndirectBlock_get_block_id f (ib V ?c) ?q)
      (\<lambda>r V'. V' = V \<and> r = chunk (span k) ?j es ! ?q)"
    using Suc.prems(2,4) kf lock(2) q by (intro Suc.IH [OF t]) auto
  ultimately show ?case
    unfolding f using Suc.prems(1,2,4)
    by (subst get_block_id_dir [of _ k])
      (auto intro!: exec_bnd exec_pure exec_read_at [OF tree_in_range [OF t] _ lock(1)]
        simp: ib_def nth_chunk [OF q])
qed

end

section \<open>Layers\<close>

text \<open>Blocks \<open>is\<close> of type \<open>t\<close> that together list \<open>es\<close>, 63 entries each.\<close>

definition layer :: "(nat \<Rightarrow> u8 list) \<Rightarrow> nat \<Rightarrow> nat list \<Rightarrow> nat list \<Rightarrow> bool" where
  "layer V t is es \<longleftrightarrow> (\<forall>j<length is. ib V (is ! j) =
     \<lparr>entries = take_pad INDIRECT_LEN (chunk INDIRECT_LEN j es), ib_type = t\<rparr>)"

lemma layer_Nil [simp]: "layer V t [] es"
  by (simp add: layer_def)

lemma layer_Cons: "layer V t (i # is) es \<longleftrightarrow>
  ib V i = \<lparr>entries = take_pad INDIRECT_LEN es, ib_type = t\<rparr> \<and> layer V t is (drop INDIRECT_LEN es)"
  by (auto simp: layer_def take_pad_chunk less_Suc_eq_0_disj add.commute)

lemma layer_cong: "(\<And>i. i \<in> set is \<Longrightarrow> W i = V i) \<Longrightarrow> layer W t is es \<longleftrightarrow> layer V t is es"
  by (simp add: layer_def ib_def cong: conj_cong)

lemma layer_kids:
  assumes "layer V t is es" and "0 \<notin> set es" and "j < length is"
  shows "kids V (is ! j) = chunk INDIRECT_LEN j es"
proof -
  have "0 \<notin> set (chunk INDIRECT_LEN j es)" using assms(2) set_chunk by fastforce
  with nz_take_pad [OF this, of INDIRECT_LEN] assms(1,3) show ?thesis
    by (simp add: layer_def kids_def length_chunk del: neq0_conv)
qed

lemma layer_concat_kids:
  assumes "layer V t is es" and "0 \<notin> set es" and "length es \<le> length is * INDIRECT_LEN"
  shows "concat (map (kids V) is) = es"
  by (rule concat_chunks_nth [OF assms(3)]) (rule layer_kids [OF assms(1,2)])

lemma forest_base:
  assumes "layer V 0 is es" and "0 \<notin> set es" and "\<forall>i \<in> set is. i < n"
    and "length es \<le> length is * INDIRECT_LEN"
  shows "forest_at n V 0 is es"
  using assms set_chunk by (fastforce simp: forest_at_def span_def layer_def length_chunk)

lemma forest_step:
  assumes "layer V (Suc k) is cs" and "forest_at n V k cs es" and "0 \<notin> set cs"
    and "\<forall>i \<in> set is. i < n" and "length cs \<le> length is * INDIRECT_LEN"
  shows "forest_at n V (Suc k) is es"
  unfolding forest_at_def
proof (intro conjI allI impI)
  have span: "span (Suc k) = INDIRECT_LEN * span k" by (simp add: span_def)
  have "length es \<le> length cs * span k" using assms(2) by (simp add: forest_at_def)
  also have "\<dots> \<le> length is * span (Suc k)"
    using mult_le_mono1 [OF assms(5), of "span k"] by (simp add: span mult.assoc)
  finally show "length es \<le> length is * span (Suc k)" .
  fix j
  assume j: "j < length is"
  let ?cs = "chunk INDIRECT_LEN j cs" and ?es = "chunk (span (Suc k)) j es"
  have kids: "kids V (is ! j) = ?cs" by (rule layer_kids [OF assms(1,3) j])
  have child: "tree_at n V k (?cs ! p) (chunk (span k) p ?es)" if p: "p < length ?cs" for p
  proof -
    have "p < INDIRECT_LEN" "j * INDIRECT_LEN + p < length cs"
      using p by (auto simp: length_chunk)
    with assms(2) p show ?thesis
      by (simp add: forest_at_def nth_chunk span chunk_chunk mult.commute)
  qed
  have "length ?es \<le> length ?cs * span k"
  proof (cases "INDIRECT_LEN \<le> length cs - j * INDIRECT_LEN")
    case True
    then show ?thesis by (simp add: length_chunk span)
  next
    case False
    then have "length ?cs = length cs - j * INDIRECT_LEN" by (simp add: length_chunk)
    moreover have "length ?es \<le> length cs * span k - j * span (Suc k)"
      using \<open>length es \<le> length cs * span k\<close> by (simp add: length_chunk diff_le_mono)
    ultimately show ?thesis by (simp add: span diff_mult_distrib mult.assoc)
  qed
  with assms(1,4) j child kids show "tree_at n V (Suc k) (is ! j) ?es"
    by (simp add: layer_def)
qed

lemma forest_single: "forest_at n V k [a] es \<Longrightarrow> tree_at n V k a es"
  by (auto simp: forest_at_def chunk_def)

lemma forest_index_single: "forest_index V k [a] = a # tree_index V k a"
  by (simp add: forest_index_def)

lemma mset_forest_index:
  "mset (forest_index V (Suc k) is) = mset is + mset (forest_index V k (concat (map (kids V) is)))"
  by (induction "is") (simp_all add: forest_index_def)

lemma mset_forest_step:
  assumes "layer V t is cs" and "0 \<notin> set cs" and "length cs \<le> length is * INDIRECT_LEN"
  shows "mset (forest_index V (Suc k) is) = mset is + mset (forest_index V k cs)"
  by (simp add: mset_forest_index layer_concat_kids [OF assms])

lemma forest_index_0: "forest_index V 0 is = is"
  by (induction "is") (simp_all add: forest_index_def)

text \<open>The blocks \<open>up\<close> of a level hold the level below; one block needs no level above.\<close>

definition fits :: "nat list \<Rightarrow> nat list \<Rightarrow> bool" where
  "fits up down \<longleftrightarrow>
     (if up = [] then length down \<le> 1 else length down \<le> length up * INDIRECT_LEN)"

definition layers ::
    "(nat \<Rightarrow> u8 list) \<Rightarrow> nat list \<Rightarrow> nat list \<Rightarrow> nat list \<Rightarrow> nat list \<Rightarrow> nat list \<Rightarrow> bool" where
  "layers V l4 l3 l2 l1 es \<longleftrightarrow>
     layer V 3 l4 l3 \<and> layer V 2 l3 l2 \<and> layer V 1 l2 l1 \<and> layer V 0 l1 es"

lemma climb:
  assumes "layer V (Suc k) up down" and "fits up down" and "up \<noteq> []" and "0 \<notin> set down"
    and "\<forall>i \<in> set up. i < n"
    and "forest_at n V k down es \<and> mset (forest_index V k down) = M"
  shows "forest_at n V (Suc k) up es \<and> mset (forest_index V (Suc k) up) = mset up + M"
proof -
  have "length down \<le> length up * INDIRECT_LEN" using assms(2,3) by (simp add: fits_def)
  with assms show ?thesis by (simp add: forest_step mset_forest_step)
qed

lemma fits_top: "fits [] down \<Longrightarrow> down \<noteq> [] \<Longrightarrow> \<exists>a. down = [a]"
  by (cases down) (auto simp: fits_def)

lemma layers_tree:
  assumes lay: "layers V l4 l3 l2 l1 es" and range: "\<forall>i \<in> set (l4 @ l3 @ l2 @ l1). i < n"
    and nz: "0 \<notin> set (l4 @ l3 @ l2 @ l1 @ es)" and es: "length es \<le> length l1 * INDIRECT_LEN"
    and f: "fits l2 l1" "fits l3 l2" "fits l4 l3" "fits [] l4"
    and top: "l1 \<noteq> []" "l3 \<noteq> [] \<longrightarrow> l2 \<noteq> []" "l4 \<noteq> [] \<longrightarrow> l3 \<noteq> []"
  shows "\<exists>k<4. let r = hd (l4 @ l3 @ l2 @ l1) in tree_at n V k r es \<and>
    mset (r # tree_index V k r) = mset (l4 @ l3 @ l2 @ l1)"
proof -
  note lay = lay [unfolded layers_def]
  have 1: "forest_at n V 0 l1 es \<and> mset (forest_index V 0 l1) = mset l1"
    using lay range nz es by (auto intro!: forest_base simp: forest_index_0)
  have 2: "forest_at n V 1 l2 es \<and> mset (forest_index V 1 l2) = mset l2 + mset l1" if "l2 \<noteq> []"
    using climb [OF _ f(1) that _ _ 1] lay range nz by simp
  have 3: "forest_at n V 2 l3 es \<and> mset (forest_index V 2 l3) = mset l3 + (mset l2 + mset l1)"
    if "l3 \<noteq> []" "l2 \<noteq> []"
    using climb [OF _ f(2) that(1) _ _ 2] that lay range nz by (simp add: numeral_2_eq_2)
  have 4: "forest_at n V 3 l4 es \<and> mset (forest_index V 3 l4) = mset l4 + (mset l3 + (mset l2 + mset l1))"
    if "l4 \<noteq> []" "l3 \<noteq> []" "l2 \<noteq> []"
    using climb [OF _ f(3) that(1) _ _ 3] that lay range nz by (simp add: numeral_3_eq_3)
  consider "l4 = []" "l3 = []" "l2 = []" | "l4 = []" "l3 = []" "l2 \<noteq> []"
    | "l4 = []" "l3 \<noteq> []" "l2 \<noteq> []" | "l4 \<noteq> []" "l3 \<noteq> []" "l2 \<noteq> []"
    using top by blast
  then show ?thesis
  proof cases
    case 1
    with f top obtain a where "l1 = [a]" by (auto dest: fits_top)
    with 1 \<open>forest_at n V 0 l1 es \<and> _\<close> show ?thesis
      by (intro exI [of _ 0]) (auto simp: Let_def simp del: tree_at.simps dest: forest_single)
  next
    case 2
    with f obtain a where "l2 = [a]" by (auto dest: fits_top)
    with 2 \<open>l2 \<noteq> [] \<Longrightarrow> _\<close> show ?thesis
      by (intro exI [of _ 1]) (auto simp: Let_def forest_index_single simp del: tree_at.simps tree_index.simps
          dest: forest_single)
  next
    case 3
    with f obtain a where "l3 = [a]" by (auto dest: fits_top)
    with 3 \<open>l3 \<noteq> [] \<Longrightarrow> l2 \<noteq> [] \<Longrightarrow> _\<close> show ?thesis
      by (intro exI [of _ 2]) (auto simp: Let_def forest_index_single simp del: tree_at.simps tree_index.simps
          dest: forest_single)
  next
    case 4
    with f obtain a where "l4 = [a]" by (auto dest: fits_top)
    with 4 \<open>l4 \<noteq> [] \<Longrightarrow> l3 \<noteq> [] \<Longrightarrow> l2 \<noteq> [] \<Longrightarrow> _\<close> show ?thesis
      by (intro exI [of _ 3]) (auto simp: Let_def forest_index_single simp del: tree_at.simps tree_index.simps
          dest: forest_single)
  qed
qed

context block_device
begin

lemma exec_write_level:
  assumes "length H < CACHE_SIZE" and "distinct is" and "\<forall>i \<in> set is. i < n \<and> i \<notin> fst ` set H"
    and "\<forall>x \<in> set es. x < n"
  shows "exec n H V (write_level ty is es)
    (\<lambda>_ V'. layer V' (block_type_disc ty) is es \<and> (\<forall>i. i \<notin> set is \<longrightarrow> V' i = V i))"
  using assms(2-4)
proof (induction "is" arbitrary: es V)
  case Nil
  then show ?case by (simp add: exec_ret)
next
  case (Cons i "is")
  let ?b = "\<lparr>entries = take_pad INDIRECT_LEN es, ib_type = block_type_disc ty\<rparr>"
  let ?V = "V(i := view_set indirect_view 0 ?b (V i))"
  show ?case
  proof (rule exec_wf)
    assume len: "\<And>i. i < n \<Longrightarrow> length (V i) = BLOCK_SIZE" and n: "n < U64_RANGE"
    from Cons.prems have i: "i < n" "i \<notin> fst ` set H" by auto
    have ok: "indirect_ok ?b"
      using Cons.prems(3) n set_take_pad [of INDIRECT_LEN es]
      by (cases ty) (fastforce simp: indirect_ok_def U64_RANGE_def)+
    have leni: "0 + vsize indirect_view \<le> length (V i)" using len [OF i(1)] by simp
    have b: "ib ?V i = ?b" by (simp add: ib_def indirect_struct.view_at_set [OF ok leni])
    have l: "length (view_set indirect_view 0 ?b (V i)) = BLOCK_SIZE"
      using indirect_struct.length_view_set [OF ok leni] len [OF i(1)] by simp
    have upd: "(view_at indirect_view 0 (V i))\<lparr>ib_type := block_type_disc ty,
        entries := take_pad INDIRECT_LEN es\<rparr> = ?b" by simp
    have rest: "exec n H ?V (write_level ty is (drop INDIRECT_LEN es))
      (\<lambda>_ V'. layer V' (block_type_disc ty) (i # is) es \<and> (\<forall>j. j \<notin> set (i # is) \<longrightarrow> V' j = V j))"
      by (rule exec_mono [OF Cons.IH])
        (use Cons.prems b in \<open>auto simp: layer_Cons ib_def dest: in_set_dropD\<close>)
    show "exec n H V (write_level ty (i # is) es)
      (\<lambda>_ V'. layer V' (block_type_disc ty) (i # is) es \<and> (\<forall>j. j \<notin> set (i # is) \<longrightarrow> V' j = V j))"
      unfolding write_level.simps
      by (rule exec_bnd, rule exec_modify_at [OF i(1) assms(1) i(2)], simp, simp, rule exec_ret)
        (use l rest in \<open>simp add: upd\<close>)
  qed
qed

end

section \<open>Laying a file out\<close>

lemma next_level_eq_0: "next_level k = 0 \<longleftrightarrow> k \<le> 1"
  by (simp add: next_level_def cdiv_eq_0_iff)

lemma fits_next_level: "length up = next_level (length down) \<Longrightarrow> fits up down"
  using cdiv_ge [of INDIRECT_LEN "length down"]
  by (auto simp: fits_def next_level_def cdiv_eq_0_iff mult.commute split: if_splits)

lemma level1_eq_0: "level1 sz = 0 \<longleftrightarrow> indirect_size_of sz = 0"
  by (simp add: level1_eq cdiv_eq_0_iff layout_consts)

lemma level_split:
  assumes "length idx = index_count sz"
  obtains l4 l3 l2 l1 where "idx = l4 @ l3 @ l2 @ l1" and "length l4 = level4 sz"
    and "length l3 = level3 sz" and "length l2 = level2 sz" and "length l1 = level1 sz"
proof
  let ?a = "drop (level4 sz) idx"
  let ?b = "drop (level3 sz) ?a"
  show "idx = take (level4 sz) idx @ take (level3 sz) ?a @ take (level2 sz) ?b @ drop (level2 sz) ?b"
    unfolding append_take_drop_id ..
qed (use assms in \<open>simp_all add: index_count_def\<close>)

lemma first_or_zero_append: "first_or_zero (xs @ ys) = (if xs = [] then first_or_zero ys else hd xs)"
  by (cases xs) (simp_all add: first_or_zero_def)

lemma forward_eq:
  assumes sz: "meta_size m \<le> L4_MAX" and li: "index_blocks (meta_size m) = Inr li"
    and idx: "idx = l4 @ l3 @ l2 @ l1" "0 \<notin> set idx"
    and len: "length l4 = level4 (meta_size m)" "length l3 = level3 (meta_size m)"
      "length l2 = level2 (meta_size m)" "length l1 = level1 (meta_size m)"
  shows "forward li idx dat m =
    bnd (write_level L4 l4 l3) (\<lambda>_.
    bnd (write_level L3 l3 l2) (\<lambda>_.
    bnd (write_level BlockDirectory l2 l1) (\<lambda>_.
    bnd (write_level BlockTable l1 (drop DIRECT_COUNT dat)) (\<lambda>_.
    ret (m\<lparr>direct := take_pad DIRECT_COUNT dat, indirect := first_or_zero idx\<rparr>)))))"
proof -
  let ?sz = "meta_size m"
  have li': "li_l4 li = length l4" "li_l3 li = length l3" "li_block_directory li = length l2"
    "li_block_table li = length l1"
    using li [symmetric] index_blocks_eq [OF sz] len by simp_all
  have up: "length l4 = next_level (length l3)" "length l3 = next_level (length l2)"
    "length l2 = next_level (length l1)"
    using len by (simp_all add: level4_def level3_def level2_def)
  have l4: "length l4 \<le> 1" using level4_le_1 [OF sz] len by simp
  show ?thesis
  proof (cases "l1 = []")
    case True
    then have "indirect_size_of ?sz = 0" "l4 = []" "l3 = []" "l2 = []"
      using len level1_eq_0 [of ?sz] up by auto
    with True idx show ?thesis by (simp add: forward_def first_or_zero_def)
  next
    case False
    then have ind: "indirect_size_of ?sz \<noteq> 0" using len level1_eq_0 [of ?sz] by auto
    have l3: "l4 = [] \<Longrightarrow> length l3 \<le> 1" and l2: "l3 = [] \<Longrightarrow> length l2 \<le> 1"
      and l1: "l2 = [] \<Longrightarrow> length l1 \<le> 1"
      using up next_level_eq_0 by auto
    have ids: "take_pad (length l3) (drop (length l4) idx) = l3"
      "take_pad (length l2) (drop (length l3) (drop (length l4) idx)) = l2"
      "take_pad (length l1) (drop (length l2) (drop (length l3) (drop (length l4) idx))) = l1"
      using idx(1) by simp_all
    have top: "(if length l4 \<noteq> 0 then first_or_zero idx else 0) = first_or_zero l4"
      "(if length l4 \<noteq> 0 then drop 1 idx else idx) = drop (length l4) idx"
      using l4 idx(1) by (cases l4; auto simp: first_or_zero_def)+
    have w4: "(if first_or_zero l4 \<noteq> 0 then write_level L4 [first_or_zero l4] l3 else ret ()) =
        write_level L4 l4 l3"
      using l4 idx by (cases l4) (auto simp: first_or_zero_def)
    have root: "(if length l4 = 1 then m\<lparr>indirect := first_or_zero l4\<rparr>
        else if length l3 = 1 then m\<lparr>indirect := first_or_zero l3\<rparr>
        else if length l2 = 1 then m\<lparr>indirect := first_or_zero l2\<rparr>
        else if length l1 = 1 then m\<lparr>indirect := first_or_zero l1\<rparr> else m) =
        m\<lparr>indirect := first_or_zero idx\<rparr>" for m
    proof -
      have "length l4 = 1 \<or> l4 = [] \<and> (length l3 = 1 \<or> l3 = [] \<and> (length l2 = 1 \<or> l2 = [] \<and> length l1 = 1))"
        using l4 l3 l2 l1 False by (cases l4; cases l3; cases l2; cases l1; simp)
      then show ?thesis using idx(1) by (auto simp: first_or_zero_append first_or_zero_def split: list.split)
    qed
    have szd: "meta_size (m\<lparr>direct := d\<rparr>) = meta_size m" for d by simp
    from ind show ?thesis
      unfolding forward_def Let_def szd li' top ids w4 root by (rule if_P)
  qed
qed

section \<open>What an inode stands for\<close>

text \<open>
  \<open>meta_rep n V m idx dat\<close>: with the blocks \<open>V\<close>, the inode \<open>m\<close> has the data blocks
  \<open>dat\<close>, in this order, and the index blocks \<open>idx\<close>, sorted; all are distinct, and there
  are exactly as many as the size of the file needs.
\<close>

definition meta_rep ::
    "nat \<Rightarrow> (nat \<Rightarrow> u8 list) \<Rightarrow> meta \<Rightarrow> nat list \<Rightarrow> nat list \<Rightarrow> bool" where
  "meta_rep n V m idx dat \<longleftrightarrow>
     meta_size m \<le> L4_MAX \<and> sorted idx \<and> distinct (idx @ dat) \<and>
     (\<forall>i \<in> set (idx @ dat). 0 < i \<and> i < n) \<and>
     length dat = data_count (meta_size m) \<and> length idx = index_count (meta_size m) \<and>
     direct m = take_pad DIRECT_COUNT dat \<and>
     (if idx = [] then indirect m = 0
      else \<exists>k<4. tree_at n V k (indirect m) (drop DIRECT_COUNT dat) \<and>
        mset (indirect m # tree_index V k (indirect m)) = mset idx)"

lemma index_count_0: "index_count sz = 0 \<longleftrightarrow> level1 sz = 0"
  by (auto simp: index_count_def level4_def level3_def level2_def)

lemma level1_0_direct: "level1 sz = 0 \<Longrightarrow> data_count sz \<le> DIRECT_COUNT"
  by (simp add: level1_def cdiv_eq_0_iff)

lemma meta_rep_no_index: "meta_rep n V m [] dat \<Longrightarrow> length dat \<le> DIRECT_COUNT"
  unfolding meta_rep_def using index_count_0 level1_0_direct by (metis list.size(3))

lemma meta_rep_cong:
  assumes "meta_rep n V m idx dat" and "\<And>i. i \<in> set idx \<Longrightarrow> W i = V i"
  shows "meta_rep n W m idx dat"
proof (cases "idx = []")
  case True
  with assms show ?thesis by (simp add: meta_rep_def)
next
  case False
  with assms(1) obtain k where k: "k < 4" "tree_at n V k (indirect m) (drop DIRECT_COUNT dat)"
    "mset (indirect m # tree_index V k (indirect m)) = mset idx" by (auto simp: meta_rep_def)
  from mset_eq_setD [OF k(3)] have "\<And>j. j \<in> insert (indirect m) (set (tree_index V k (indirect m))) \<Longrightarrow> W j = V j"
    using assms(2) by auto
  from tree_cong [OF this] k have "tree_at n W k (indirect m) (drop DIRECT_COUNT dat)"
    "mset (indirect m # tree_index W k (indirect m)) = mset idx" by simp_all
  with k(1) False assms(1) show ?thesis unfolding meta_rep_def by auto
qed

lemma meta_rep_empty: "meta_size m = 0 \<Longrightarrow> direct m = replicate DIRECT_COUNT 0 \<Longrightarrow> indirect m = 0 \<Longrightarrow>
  meta_rep n V m [] []"
  by (simp add: meta_rep_def data_count_def index_count_def level4_def level3_def level2_def level1_def
      take_pad_def)

text \<open>Layers written one after the other, from the top down, do not disturb each other.\<close>

lemma layers_frame:
  assumes d: "distinct (l4 @ l3 @ l2 @ l1)"
    and "layer V4 3 l4 l3 \<and> (\<forall>i. i \<notin> set l4 \<longrightarrow> V4 i = V i)"
    and "layer V3 2 l3 l2 \<and> (\<forall>i. i \<notin> set l3 \<longrightarrow> V3 i = V4 i)"
    and "layer V2 1 l2 l1 \<and> (\<forall>i. i \<notin> set l2 \<longrightarrow> V2 i = V3 i)"
    and "layer V1 0 l1 es \<and> (\<forall>i. i \<notin> set l1 \<longrightarrow> V1 i = V2 i)"
  shows "layers V1 l4 l3 l2 l1 es \<and> (\<forall>i. i \<notin> set (l4 @ l3 @ l2 @ l1) \<longrightarrow> V1 i = V i)"
proof -
  have "i \<in> set l4 \<Longrightarrow> i \<notin> set l3 \<and> i \<notin> set l2 \<and> i \<notin> set l1"
    "i \<in> set l3 \<Longrightarrow> i \<notin> set l2 \<and> i \<notin> set l1" "i \<in> set l2 \<Longrightarrow> i \<notin> set l1" for i
    using d by auto
  then have "V1 i = V4 i" if "i \<in> set l4" for i using that assms(3-5) by metis
  moreover have "V1 i = V3 i" if "i \<in> set l3" for i
    using that assms(4,5) \<open>\<And>i. i \<in> set l3 \<Longrightarrow> _ i\<close> by metis
  moreover have "V1 i = V2 i" if "i \<in> set l2" for i
    using that assms(5) \<open>\<And>i. i \<in> set l2 \<Longrightarrow> _ i\<close> by metis
  ultimately show ?thesis
    using assms(2-5) by (auto simp: layers_def cong: layer_cong)
qed

lemma layers_meta_rep:
  assumes lay: "layers V l4 l3 l2 l1 (drop DIRECT_COUNT dat)" and idx: "idx = l4 @ l3 @ l2 @ l1"
    and l: "length l4 = level4 (meta_size m)" "length l3 = level3 (meta_size m)"
      "length l2 = level2 (meta_size m)" "length l1 = level1 (meta_size m)"
    and sz: "meta_size m \<le> L4_MAX"
    and blocks: "distinct (idx @ dat)" "\<forall>i \<in> set (idx @ dat). 0 < i \<and> i < n"
    and len: "length dat = data_count (meta_size m)" "length idx = index_count (meta_size m)"
    and m: "direct m = take_pad DIRECT_COUNT dat" "indirect m = first_or_zero idx"
  shows "meta_rep n V m (sort idx) dat"
proof (cases "idx = []")
  case True
  then show ?thesis using sz len blocks m by (simp add: meta_rep_def first_or_zero_def)
next
  case False
  let ?es = "drop DIRECT_COUNT dat"
  have l1: "l1 \<noteq> []" using False len(2) index_count_0 [of "meta_size m"] l(4) by auto
  have "length ?es \<le> length l1 * INDIRECT_LEN"
    using cdiv_ge [of INDIRECT_LEN "length ?es"] by (simp add: l(4) level1_def len(1) mult.commute)
  moreover have "fits l2 l1" "fits l3 l2" "fits l4 l3"
    using l by (simp_all add: fits_next_level level4_def level3_def level2_def)
  moreover have "fits [] l4" using level4_le_1 [OF sz] l by (simp add: fits_def)
  moreover have "l3 \<noteq> [] \<longrightarrow> l2 \<noteq> []" "l4 \<noteq> [] \<longrightarrow> l3 \<noteq> []"
    using l by (auto simp: level4_def level3_def)
  moreover have "0 \<notin> set (l4 @ l3 @ l2 @ l1 @ ?es)" "\<forall>i \<in> set (l4 @ l3 @ l2 @ l1). i < n"
    using blocks(2) idx by (auto dest: in_set_dropD)
  ultimately obtain k where "k < 4" "tree_at n V k (hd idx) ?es"
    "mset (hd idx # tree_index V k (hd idx)) = mset idx"
    using layers_tree [OF lay, of n] l1 unfolding Let_def idx by blast
  moreover have "first_or_zero idx = hd idx" using False by (cases idx) (simp_all add: first_or_zero_def)
  moreover have "sort idx \<noteq> []" using False by (metis length_0_conv length_sort)
  ultimately show ?thesis using sz len blocks m by (auto simp: meta_rep_def)
qed

context block_device
begin

text \<open>\<open>blocks\<close> reads the representation back; it does not look at the size.\<close>

lemma exec_Meta_blocks:
  assumes rep: "meta_rep n V m idx dat" and H: "length H + 4 \<le> CACHE_SIZE"
    and free: "\<forall>i \<in> set idx. (i, Write) \<notin> set H"
    and m': "direct m' = direct m" "indirect m' = indirect m"
  shows "exec n H V (Meta_blocks m') (\<lambda>r V'. V' = V \<and> r = (idx, dat))"
proof -
  have nz: "0 \<notin> set dat" "0 \<notin> set idx" using rep by (auto simp: meta_rep_def)
  have dir: "filter (\<lambda>x. x \<noteq> 0) (direct m') = take DIRECT_COUNT dat"
    using rep m' filter_take_pad [OF nz(1), of DIRECT_COUNT] by (simp add: meta_rep_def del: neq0_conv)
  show ?thesis
  proof (cases "idx = []")
    case True
    with rep m' have "indirect m' = 0" by (simp add: meta_rep_def)
    with True dir meta_rep_no_index [of n V m dat] rep show ?thesis
      by (simp add: Meta_blocks_def exec_ret del: neq0_conv)
  next
    case False
    with rep obtain k where k: "k < 4" "tree_at n V k (indirect m) (drop DIRECT_COUNT dat)"
      "mset (indirect m # tree_index V k (indirect m)) = mset idx" by (auto simp: meta_rep_def)
    let ?r = "indirect m"
    from mset_eq_setD [OF k(3)] have set: "insert ?r (set (tree_index V k ?r)) = set idx" by simp
    then have r: "?r \<noteq> 0" "(?r, Write) \<notin> set H" using nz free by auto
    have "sorted idx" using rep by (simp add: meta_rep_def)
    with k(3) have srt: "sort (?r # tree_index V k ?r) = idx" by (metis properties_for_sort)
    have "exec n ((?r, Read) # H) V (to_vec_acc TREE_FUEL None (ib V ?r) ([], []))
        (\<lambda>r V'. V' = V \<and> r = (drop DIRECT_COUNT dat, tree_index V k ?r))"
      using exec_to_vec_acc [OF k(2,1), of TREE_FUEL "(?r, Read) # H" "[]" "[]"] k(1) H free set
        tree_data_eq [OF k(2)] by (auto simp: TREE_FUEL_def CACHE_SIZE_def)
    then have "exec n H V (read_at indirect_view ?r 0 (to_vec None))
        (\<lambda>r V'. V' = V \<and> r = (tree_index V k ?r, drop DIRECT_COUNT dat))"
      using H by (intro exec_read_at [OF tree_in_range [OF k(2)] _ r(2)])
        (auto simp: to_vec_def ib_def intro!: exec_bnd exec_ret elim!: exec_mono)
    with r(1) m' dir srt show ?thesis
      by (auto simp: Meta_blocks_def simp del: neq0_conv sort_key_simps intro!: exec_bnd exec_ret
          elim!: exec_mono)
  qed
qed


text \<open>\<open>forward\<close> establishes the representation for the blocks it is given.\<close>

lemma exec_forward:
  assumes sz: "meta_size m \<le> L4_MAX" and li: "index_blocks (meta_size m) = Inr li"
    and blocks: "distinct (idx @ dat)" "\<forall>i \<in> set (idx @ dat). 0 < i \<and> i < n"
    and len: "length dat = data_count (meta_size m)" "length idx = index_count (meta_size m)"
    and H: "length H < CACHE_SIZE" "set idx \<inter> fst ` set H = {}"
  shows "exec n H V (forward li idx dat m) (\<lambda>m' V'. meta_rep n V' m' (sort idx) dat \<and>
    meta_size m' = meta_size m \<and> meta_type m' = meta_type m \<and> meta_name m' = meta_name m \<and>
    (\<forall>i. i \<notin> set idx \<longrightarrow> V' i = V i))"
proof -
  obtain l4 l3 l2 l1 where idx: "idx = l4 @ l3 @ l2 @ l1" and
    l: "length l4 = level4 (meta_size m)" "length l3 = level3 (meta_size m)"
      "length l2 = level2 (meta_size m)" "length l1 = level1 (meta_size m)"
    using level_split [OF len(2)] by metis
  let ?m = "m\<lparr>direct := take_pad DIRECT_COUNT dat, indirect := first_or_zero idx\<rparr>"
  have nz: "0 \<notin> set idx" using blocks(2) by auto
  have d: "distinct (l4 @ l3 @ l2 @ l1)" using blocks(1) idx distinct_append by blast
  have lvl: "exec n H V (write_level ty is es)
      (\<lambda>_ V'. layer V' (block_type_disc ty) is es \<and> (\<forall>i. i \<notin> set is \<longrightarrow> V' i = V i))"
    if "set is \<subseteq> set idx" "distinct is" "set es \<subseteq> set (idx @ dat)" for ty "is" es V
    using that blocks(2) H by (intro exec_write_level) auto
  show ?thesis
    unfolding forward_eq [OF sz li idx nz l]
  proof (rule exec_bnd, rule exec_mono [OF lvl], goal_cases)
    case 4: (4 _ V4)
    show ?case
    proof (rule exec_bnd, rule exec_mono [OF lvl], goal_cases)
      case 3: (4 _ V3)
      show ?case
      proof (rule exec_bnd, rule exec_mono [OF lvl], goal_cases)
        case 2: (4 _ V2)
        show ?case
        proof (rule exec_bnd, rule exec_mono [OF lvl], goal_cases)
          case 1: (4 _ V1)
          from layers_frame [OF d, of V4 V V3 V2 V1 "drop DIRECT_COUNT dat"] 1 2 3 4
          have lay: "layers V1 l4 l3 l2 l1 (drop DIRECT_COUNT dat)"
            and frame: "\<forall>i. i \<notin> set idx \<longrightarrow> V1 i = V i" by (simp_all add: idx)
          have "meta_rep n V1 ?m (sort idx) dat"
            by (rule layers_meta_rep [OF lay idx]) (use l sz blocks len in simp_all)
          with frame show ?case by (intro exec_ret) simp
        qed (use idx d in \<open>auto dest: in_set_dropD\<close>)
      qed (use idx d in auto)
    qed (use idx d in auto)
  qed (use idx d in auto)
qed


lemma exec_Meta_extend:
  assumes rep: "meta_rep n V m idx dat" and sz: "meta_size m \<le> new_size" "new_size \<le> L4_MAX"
    and li: "index_blocks new_size = Inr li"
    and new: "distinct (idx @ new_index @ dat @ new_data)"
      "\<forall>i \<in> set (new_index @ new_data). 0 < i \<and> i < n"
    and len: "length (dat @ new_data) = data_count new_size" "length (idx @ new_index) = index_count new_size"
    and H: "length H + 4 \<le> CACHE_SIZE" "set (idx @ new_index) \<inter> fst ` set H = {}"
  shows "exec n H V (Meta_extend new_size li new_data new_index m)
    (\<lambda>m' V'. meta_rep n V' m' (sort (idx @ new_index)) (dat @ new_data) \<and>
      meta_size m' = new_size \<and> meta_type m' = meta_type m \<and> meta_name m' = meta_name m \<and>
      (\<forall>i. i \<notin> set (idx @ new_index) \<longrightarrow> V' i = V i))"
proof -
  have lock: "\<forall>i \<in> set idx. (i, Write) \<notin> set H" using H(2) by force
  have old: "\<forall>i \<in> set (idx @ dat). 0 < i \<and> i < n" using rep by (simp add: meta_rep_def)
  have fwd: "exec n H V (forward li (idx @ new_index) (dat @ new_data) (m\<lparr>meta_size := new_size\<rparr>))
    (\<lambda>m' V'. meta_rep n V' m' (sort (idx @ new_index)) (dat @ new_data) \<and>
      meta_size m' = new_size \<and> meta_type m' = meta_type m \<and> meta_name m' = meta_name m \<and>
      (\<forall>i. i \<notin> set (idx @ new_index) \<longrightarrow> V' i = V i))"
    by (rule exec_mono [OF exec_forward]) (use sz li new len H old in auto)
  show ?thesis
    unfolding Meta_extend_def
    by (rule exec_bnd, rule exec_require [OF sz(1)], rule exec_bnd,
        rule exec_mono [OF exec_Meta_blocks [OF rep H(1) lock]]) (use fwd in auto)
qed

lemma meta_rep_take:
  assumes "meta_rep n V m idx dat"
  shows "distinct (take a idx @ take b dat)" "\<forall>i \<in> set (take a idx @ take b dat). 0 < i \<and> i < n"
proof -
  have "distinct (idx @ dat)" using assms by (simp add: meta_rep_def)
  then show "distinct (take a idx @ take b dat)" by (auto dest: in_set_takeD)
  show "\<forall>i \<in> set (take a idx @ take b dat). 0 < i \<and> i < n"
    using assms by (auto simp: meta_rep_def dest: in_set_takeD)
qed

text \<open>\<open>shrink\<close> keeps the first blocks and hands back the others, the last one first.\<close>

lemma exec_Meta_shrink:
  assumes rep: "meta_rep n V m idx dat" and sz: "new_size \<le> meta_size m"
    and H: "length H + 4 \<le> CACHE_SIZE" "set idx \<inter> fst ` set H = {}"
  shows "exec n H V (Meta_shrink new_size m) (\<lambda>((xi, xd), m') V'.
    xi = rev (drop (index_count new_size) idx) \<and> xd = rev (drop (data_count new_size) dat) \<and>
    meta_rep n V' m' (take (index_count new_size) idx) (take (data_count new_size) dat) \<and>
    meta_size m' = new_size \<and> meta_type m' = meta_type m \<and> meta_name m' = meta_name m \<and>
    (\<forall>i. i \<notin> set idx \<longrightarrow> V' i = V i))"
proof -
  let ?a = "index_count new_size" and ?b = "data_count new_size"
  have max: "meta_size m \<le> L4_MAX" "new_size \<le> L4_MAX" using rep sz by (auto simp: meta_rep_def)
  then have r: "meta_size m + BLOCK_SIZE < U64_RANGE" "new_size + BLOCK_SIZE < U64_RANGE"
    by (simp_all add: layout_consts U64_RANGE_def)
  obtain cur new where li: "index_blocks (meta_size m) = Inr cur" "index_blocks new_size = Inr new"
    using index_blocks_eq max by blast
  have len: "length idx = index_count (meta_size m)" "length dat = data_count (meta_size m)"
    "sorted idx" using rep by (simp_all add: meta_rep_def)
  have le: "?a \<le> length idx" "?b \<le> length dat"
    using len index_count_mono [OF sz] level_mono(1) [OF sz] by simp_all
  have lock: "\<forall>i \<in> set idx. (i, Write) \<notin> set H" using H(2) by force
  have pops: "pop_n (length idx - ?a) idx = Inr (rev (drop ?a idx), take ?a idx)"
    "pop_n (length dat - ?b) dat = Inr (rev (drop ?b dat), take ?b dat)"
    using le pop_n_eq [of "length idx - ?a" idx] pop_n_eq [of "length dat - ?b" dat] by simp_all
  have fwd: "exec n H V (forward new (take ?a idx) (take ?b dat) (m\<lparr>meta_size := new_size\<rparr>))
    (\<lambda>m' V'. meta_rep n V' m' (take ?a idx) (take ?b dat) \<and>
      meta_size m' = new_size \<and> meta_type m' = meta_type m \<and> meta_name m' = meta_name m \<and>
      (\<forall>i. i \<notin> set idx \<longrightarrow> V' i = V i))"
    by (rule exec_mono [OF exec_forward])
      (use max li meta_rep_take [OF rep] le len H in
        \<open>auto simp: sorted_sort_id sorted_wrt_take dest: in_set_takeD\<close>)
  have sub: "u64_sub (index_count (meta_size m)) ?a = Inr (length idx - ?a)"
    "u64_sub (data_count (meta_size m)) ?b = Inr (length dat - ?b)"
    using le len by simp_all
  show ?thesis
    unfolding Meta_shrink_def Meta_data_blocks_def
    by (simp add: sz data_blocks_of_eq r li index_block_count_eq [OF max(1) li(1)]
        index_block_count_eq [OF max(2) li(2)] sub)
      (rule exec_bnd, rule exec_mono [OF exec_Meta_blocks [OF rep H(1) lock]],
        auto simp: pops intro!: exec_bnd exec_ret exec_mono [OF fwd])
qed

lemma exec_Meta_get_block_id:
  assumes rep: "meta_rep n V m idx dat" and H: "length H + 4 \<le> CACHE_SIZE"
    and free: "\<forall>i \<in> set idx. (i, Write) \<notin> set H"
  shows "exec n H V (Meta_get_block_id m p)
    (\<lambda>r V'. V' = V \<and> r = (if p < length dat then Some (dat ! p) else None))"
proof -
  have "meta_size m + BLOCK_SIZE < U64_RANGE"
    using rep by (simp add: meta_rep_def layout_consts U64_RANGE_def)
  then have cnt: "div_ceil (meta_size m) BLOCK_SIZE = Inr (length dat)"
    using rep data_blocks_of_eq by (simp add: meta_rep_def data_blocks_of_def)
  have dir: "direct m = take_pad DIRECT_COUNT dat" using rep by (simp add: meta_rep_def)
  have deep: "exec n H V (read_at indirect_view (indirect m) 0 (\<lambda>b.
      bnd (IndirectBlock_get_block_id TREE_FUEL b (p - DIRECT_COUNT)) (\<lambda>i. ret (Some i))))
      (\<lambda>r V'. V' = V \<and> r = Some (dat ! p))" if p: "DIRECT_COUNT \<le> p" "p < length dat"
  proof -
    have "idx \<noteq> []" using p meta_rep_no_index [of n V m dat] rep by auto
    with rep obtain k where k: "k < 4" "tree_at n V k (indirect m) (drop DIRECT_COUNT dat)"
      "mset (indirect m # tree_index V k (indirect m)) = mset idx" by (auto simp: meta_rep_def)
    from mset_eq_setD [OF k(3)] free have lock: "(indirect m, Write) \<notin> set H"
      "\<forall>c \<in> set (tree_index V k (indirect m)). (c, Write) \<notin> set ((indirect m, Read) # H)" by auto
    have "exec n ((indirect m, Read) # H) V
        (IndirectBlock_get_block_id TREE_FUEL (ib V (indirect m)) (p - DIRECT_COUNT))
        (\<lambda>r V'. V' = V \<and> r = drop DIRECT_COUNT dat ! (p - DIRECT_COUNT))"
      using k(1) H p lock by (intro exec_get_block_id_tree [OF k(2)]) (auto simp: TREE_FUEL_def CACHE_SIZE_def)
    with p H show ?thesis
      by (intro exec_read_at [OF tree_in_range [OF k(2)] _ lock(1)])
        (auto simp: ib_def intro!: exec_bnd exec_ret elim!: exec_mono)
  qed
  show ?thesis
    unfolding Meta_get_block_id_def
    by (rule exec_bnd, rule exec_pure [OF cnt])
      (use deep dir in \<open>auto simp: take_pad_def nth_append intro!: exec_ret exec_bnd exec_pure\<close>)
qed


lemma exec_Meta_clear_size:
  assumes rep: "meta_rep n V m idx dat" and H: "length H + 4 \<le> CACHE_SIZE"
    and free: "\<forall>i \<in> set idx. (i, Write) \<notin> set H"
  shows "exec n H V (Meta_clear_size m) (\<lambda>(freed, m') V'. V' = V \<and> freed = idx @ dat \<and>
    meta_rep n V m' [] [] \<and> meta_type m' = meta_type m \<and> meta_name m' = meta_name m)"
proof -
  have "length (direct m) = DIRECT_COUNT" using rep by (simp add: meta_rep_def)
  then have "direct (Meta_init (meta_type m) (meta_name m) m) = replicate DIRECT_COUNT 0"
    by (simp add: Meta_init_def map_replicate_const)
  then show ?thesis
    unfolding Meta_clear_size_def
    by (intro exec_bnd exec_mono [OF exec_Meta_blocks [OF rep H free]])
      (auto intro!: exec_ret meta_rep_empty simp: Meta_init_def)
qed

end

section \<open>Files on the in-memory device\<close>

text \<open>
  C23: for every size up to the maximum of an L4 tree, \<open>index_blocks\<close> returns the number of
  blocks per level (63 entries a block, levels added until a single root is left) and none of
  its additions overflows.
\<close>

theorem index_blocks_levels:
  assumes "sz \<le> L4_MAX"
  shows "index_blocks sz = Inr \<lparr>li_l4 = level4 sz, li_l3 = level3 sz, li_block_directory = level2 sz,
    li_block_table = level1 sz, li_direct = min DIRECT_COUNT (data_count sz)\<rparr>"
  by (rule index_blocks_eq [OF assms])

theorem index_blocks_levels_witness:
  "index_blocks 100000 = Inr \<lparr>li_l4 = 0, li_l3 = 0, li_block_directory = 1, li_block_table = 3,
     li_direct = 36\<rparr>"
  using index_blocks_levels [of 100000]
  by (simp add: layout_consts level4_def level3_def level2_def level1_def next_level_def data_count_def
      cdiv_def)

text \<open>
  C20: \<open>blocks\<close> returns the index blocks of an inode in ascending order and its data blocks in
  file order, for trees of every height, and writes nothing.
\<close>

theorem meta_blocks_reads_back:
  assumes "disk_store n H V cm" and "meta_rep n V m idx dat" and "length H + 4 \<le> CACHE_SIZE"
    and "\<forall>i \<in> set idx. (i, Write) \<notin> set H"
  shows "runs (Meta_blocks m) cm (\<lambda>r cm'. r = (idx, dat) \<and> disk_store n H V cm')"
  using disk_dev.execD [OF disk_dev.exec_Meta_blocks [OF assms(2-4) refl refl] assms(1)]
  by (rule runs_mono) auto

text \<open>
  C19: \<open>extend\<close> with as many fresh blocks as the new size needs appends the data blocks,
  merges the index blocks, and writes to index blocks of the file only.
\<close>

theorem meta_extend_appends:
  assumes "disk_store n H V cm" and "meta_rep n V m idx dat"
    and "meta_size m \<le> new_size" "new_size \<le> L4_MAX" "index_blocks new_size = Inr li"
    and "distinct (idx @ new_index @ dat @ new_data)"
      "\<forall>i \<in> set (new_index @ new_data). 0 < i \<and> i < n"
    and "length (dat @ new_data) = data_count new_size"
      "length (idx @ new_index) = index_count new_size"
    and "length H + 4 \<le> CACHE_SIZE" "set (idx @ new_index) \<inter> fst ` set H = {}"
  shows "runs (Meta_extend new_size li new_data new_index m) cm (\<lambda>m' cm'. \<exists>V'.
    disk_store n H V' cm' \<and> meta_rep n V' m' (sort (idx @ new_index)) (dat @ new_data) \<and>
    meta_size m' = new_size \<and> meta_type m' = meta_type m \<and> meta_name m' = meta_name m \<and>
    (\<forall>i. i \<notin> set (idx @ new_index) \<longrightarrow> V' i = V i))"
  by (rule disk_dev.execD [OF disk_dev.exec_Meta_extend [OF assms(2-11)] assms(1)])

definition empty_file :: meta where
  "empty_file = \<lparr>meta_size = 0, direct = replicate DIRECT_COUNT 0, indirect = 0, meta_type = 1,
     meta_name = replicate 200 0\<rparr>"

definition table_info :: level_info where
  "table_info = \<lparr>li_l4 = 0, li_l3 = 0, li_block_directory = 0, li_block_table = 1, li_direct = 36\<rparr>"

definition extend_file :: "(disk cache_manager, meta) rust" where
  "extend_file = Meta_extend 20000 table_info [1..<41] [50] empty_file"

lemma count_20000: "data_count 20000 = 40" "index_count 20000 = 1" "index_blocks 20000 = Inr table_info"
  "20000 \<le> L4_MAX"
  using index_blocks_eq [of 20000]
  by (simp_all add: layout_consts level4_def level3_def level2_def level1_def next_level_def
      data_count_def cdiv_def index_count_def table_info_def)

lemma empty_file_rep: "meta_rep n V empty_file [] []"
  by (rule meta_rep_empty) (simp_all add: empty_file_def)

lemma extend_file_ok:
  "runs extend_file (CacheManager_new (dyn_disk (Disk_new 64))) (\<lambda>m' cm'. \<exists>V'.
    disk_store 64 [] V' cm' \<and> meta_rep 64 V' m' [50] [1..<41] \<and> meta_size m' = 20000)"
proof -
  have st: "disk_store 64 [] (zero_blocks 64) (CacheManager_new (dyn_disk (Disk_new 64)))"
    by (rule disk_store_new) (simp add: U64_RANGE_def)
  have "disk_dev.exec 64 [] (zero_blocks 64) extend_file
      (\<lambda>m' V'. meta_rep 64 V' m' [50] [1..<41] \<and> meta_size m' = 20000)"
    unfolding extend_file_def
    by (rule disk_dev.exec_mono [OF disk_dev.exec_Meta_extend [OF empty_file_rep]])
      (auto simp: count_20000 CACHE_SIZE_def empty_file_def)
  from disk_dev.execD [OF this st] show ?thesis .
qed

theorem meta_extend_appends_witness:
  "runs (Meta_extend 20000 table_info [1..<41] [50] empty_file) (CacheManager_new (dyn_disk (Disk_new 64)))
     (\<lambda>m' cm'. \<exists>V'. disk_store 64 [] V' cm' \<and> meta_rep 64 V' m' [50] [1..<41])"
proof (rule runs_mono [OF meta_extend_appends])
  show "disk_store 64 [] (zero_blocks 64) (CacheManager_new (dyn_disk (Disk_new 64)))"
    by (rule disk_store_new) (simp add: U64_RANGE_def)
qed (use empty_file_rep in \<open>auto simp: count_20000 CACHE_SIZE_def empty_file_def\<close>)

theorem meta_blocks_reads_back_witness:
  "runs (bnd extend_file Meta_blocks) (CacheManager_new (dyn_disk (Disk_new 64)))
     (\<lambda>r cm'. r = ([50], [1..<41]))"
  unfolding runs_bnd
proof (rule runs_mono [OF extend_file_ok], elim exE conjE)
  fix m' cm' V'
  assume "disk_store 64 [] V' cm'" and "meta_rep 64 V' m' [50] [1..<41]"
  from meta_blocks_reads_back [OF this]
  show "runs (Meta_blocks m') cm' (\<lambda>r cm'. r = ([50], [1..<41]))"
    by (auto simp: CACHE_SIZE_def elim!: runs_mono)
qed

text \<open>
  C21: \<open>shrink\<close> keeps the first blocks of the file, returns exactly the blocks the new size does
  not need, and leaves a well-formed file.
\<close>

theorem meta_shrink_cuts:
  assumes "disk_store n H V cm" and "meta_rep n V m idx dat" and "new_size \<le> meta_size m"
    and "length H + 4 \<le> CACHE_SIZE" "set idx \<inter> fst ` set H = {}"
  shows "runs (Meta_shrink new_size m) cm (\<lambda>((xi, xd), m') cm'. \<exists>V'. disk_store n H V' cm' \<and>
    xi = rev (drop (index_count new_size) idx) \<and> xd = rev (drop (data_count new_size) dat) \<and>
    meta_rep n V' m' (take (index_count new_size) idx) (take (data_count new_size) dat) \<and>
    meta_size m' = new_size \<and> meta_type m' = meta_type m \<and> meta_name m' = meta_name m \<and>
    (\<forall>i. i \<notin> set idx \<longrightarrow> V' i = V i))"
  using disk_dev.execD [OF disk_dev.exec_Meta_shrink [OF assms(2-5)] assms(1)]
  by (rule runs_mono) auto

theorem meta_shrink_cuts_witness:
  "runs (bnd extend_file (Meta_shrink 1000)) (CacheManager_new (dyn_disk (Disk_new 64)))
     (\<lambda>((xi, xd), m') cm'. xi = [50] \<and> xd = rev [3..<41])"
  unfolding runs_bnd
proof (rule runs_mono [OF extend_file_ok], elim exE conjE)
  fix m' cm' V'
  assume "disk_store 64 [] V' cm'" and "meta_rep 64 V' m' [50] [1..<41]" and "meta_size m' = 20000"
  from meta_shrink_cuts [OF this(1,2), of 1000] this(3)
  show "runs (Meta_shrink 1000 m') cm' (\<lambda>((xi, xd), m') cm'. xi = [50] \<and> xd = rev [3..<41])"
    by (auto simp: CACHE_SIZE_def data_count_def index_count_def level4_def level3_def level2_def
        level1_def next_level_def cdiv_def layout_consts numeral_3_eq_3 [symmetric] elim!: runs_mono)
qed

text \<open>
  C22: \<open>get_block_id\<close> finds the block of every block number of the file, through trees of every
  height, and returns \<open>None\<close> beyond the end.
\<close>

theorem meta_get_block_id_nth:
  assumes "disk_store n H V cm" and "meta_rep n V m idx dat" and "length H + 4 \<le> CACHE_SIZE"
    and "\<forall>i \<in> set idx. (i, Write) \<notin> set H"
  shows "runs (Meta_get_block_id m p) cm (\<lambda>r cm'. disk_store n H V cm' \<and>
    r = (if p < length dat then Some (dat ! p) else None))"
  using disk_dev.execD [OF disk_dev.exec_Meta_get_block_id [OF assms(2-4), of p] assms(1)]
  by (rule runs_mono) auto

theorem meta_get_block_id_nth_witness:
  "runs (bnd extend_file (\<lambda>m. Meta_get_block_id m 39)) (CacheManager_new (dyn_disk (Disk_new 64)))
     (\<lambda>r cm'. r = Some 40)"
  unfolding runs_bnd
proof (rule runs_mono [OF extend_file_ok], elim exE conjE)
  fix m' cm' V'
  assume "disk_store 64 [] V' cm'" and "meta_rep 64 V' m' [50] [1..<41]"
  from meta_get_block_id_nth [OF this, of 39]
  show "runs (Meta_get_block_id m' 39) cm' (\<lambda>r cm'. r = Some 40)"
    by (auto simp: CACHE_SIZE_def elim!: runs_mono)
qed

end
