(* ===== verification/Inode_Number.thy ===== *)
theory Inode_Number
  imports Bytes
begin

text \<open>
  \<^verbatim>\<open>src/fs/src/cafs/mod.rs\<close>, \<open>inode_number_binary\<close> and \<open>inode_number_from\<close>: a directory
  stores inode numbers as ten bytes, none of which is zero, so that zero can separate them.
  The eight little-endian bytes come first with every zero replaced by 255, then a byte that
  flags the replaced positions and a byte that tells an empty flag from a full one.
\<close>

definition u8_add :: "u8 \<Rightarrow> u8 \<Rightarrow> rust_panic + u8" where
  "u8_add a b = (if unat a + unat b < 2 ^ 8 then Inr (a + b) else Inl ArithOverflow)"

text \<open>The loop over the bytes; the state is \<open>(repre, flag)\<close>.\<close>

fun binary_loop :: "(nat \<times> u8) list \<Rightarrow> u8 list \<times> u8 \<Rightarrow> rust_panic + (u8 list \<times> u8)" where
  "binary_loop [] st = Inr st"
| "binary_loop ((i, byte) # rest) (repre, flag) =
     (if byte = 0
      then sbnd (u8_add flag (push_bit i 1)) (\<lambda>flag. binary_loop rest (repre[i := 255], flag))
      else binary_loop rest (repre[i := byte], flag))"

definition inode_number_binary :: "nat \<Rightarrow> rust_panic + u8 list" where
  "inode_number_binary inode_number =
     sbnd (binary_loop (enumerate 0 (to_le 8 inode_number)) (replicate 10 0, 0)) (\<lambda>(repre, flag).
       let (flag, meta_flag) = (if flag = 0 then (255, 20) else (flag, 10))
       in Inr (repre[8 := flag, 9 := meta_flag]))"

fun from_loop :: "u8 \<Rightarrow> (nat \<times> u8) list \<Rightarrow> u8 list \<Rightarrow> u8 list" where
  "from_loop flag [] bytes = bytes"
| "from_loop flag ((i, byte) # rest) bytes =
     from_loop flag rest (if drop_bit i (flag AND push_bit i 1) = 0 then bytes[i := byte] else bytes)"

definition inode_number_from :: "u8 list \<Rightarrow> nat" where
  "inode_number_from arr =
     (let meta_flag = arr ! 9; flag = (if meta_flag = 20 then 0 else arr ! 8)
      in of_le (from_loop flag (enumerate 0 (take 8 arr)) (replicate 8 0)))"

section \<open>Flags\<close>

lemma bit_below: "unat (w :: u8) < 2 ^ j \<Longrightarrow> bit w i \<Longrightarrow> i < j"
proof -
  assume "unat w < 2 ^ j" and "bit w i"
  then have "take_bit j (unat w) = unat w" by (simp add: take_bit_nat_eq_self)
  then have "bit (take_bit j (unat w)) i" using \<open>bit w i\<close> by (simp add: bit_unsigned_iff)
  then show "i < j" by (simp add: bit_take_bit_iff)
qed

lemma flag_add:
  fixes flag :: u8
  assumes "unat flag < 2 ^ j" and "j < 8"
  shows "u8_add flag (push_bit j 1) = Inr (flag OR push_bit j 1)"
    and "unat (flag OR push_bit j 1) < 2 ^ Suc j"
proof -
  have "(2::nat) ^ j < 2 ^ 8" using assms(2) by (intro power_strict_increasing) auto
  then have "unat (word_of_nat (2 ^ j) :: u8) = 2 ^ j"
    by (simp add: unat_of_nat del: of_nat_power)
  then have p: "unat (push_bit j 1 :: u8) = 2 ^ j" by (simp add: push_bit_eq_mult)
  have "flag AND push_bit j 1 = 0"
    using assms(1) by (intro bit_word_eqI) (auto simp: bit_simps dest: bit_below)
  then have o: "flag + push_bit j 1 = flag OR push_bit j 1" by (rule disjunctive_add_eq_or)
  have s: "unat flag + unat (push_bit j 1 :: u8) < 2 ^ Suc j" using assms(1) p by simp
  also have "(2::nat) ^ Suc j \<le> 2 ^ 8" using assms(2) by (intro power_increasing) auto
  finally have lt: "unat flag + unat (push_bit j 1 :: u8) < 2 ^ 8" .
  then show "u8_add flag (push_bit j 1) = Inr (flag OR push_bit j 1)" by (simp add: u8_add_def o del: push_bit_of_1)
  from lt s show "unat (flag OR push_bit j 1) < 2 ^ Suc j"
    unfolding o [symmetric] by (simp add: unat_add_lem [THEN iffD1])
qed

text \<open>What the loop computes: the replaced bytes, and one flag bit per zero byte.\<close>

lemma binary_loop_eq:
  assumes "unat flag < 2 ^ j" and "j + length bs \<le> 8" and "length pre = j" and "length bs \<le> length post"
  shows "\<exists>flag'. binary_loop (enumerate j bs) (pre @ post, flag) =
      Inr (pre @ map (\<lambda>b. if b = 0 then 255 else b) bs @ drop (length bs) post, flag') \<and>
    (\<forall>i. bit flag' i \<longleftrightarrow> (if i < j then bit flag i else i < j + length bs \<and> bs ! (i - j) = 0))"
  using assms
proof (induction bs arbitrary: j flag pre post)
  case Nil
  then show ?case by (auto dest: bit_below)
next
  case (Cons b bs)
  obtain p post' where post: "post = p # post'" using Cons.prems(4) by (cases post) auto
  have j: "j < 8" using Cons.prems(2) by simp
  let ?b = "if b = 0 then 255 else b"
  let ?flag = "if b = 0 then flag OR push_bit j 1 else flag"
  have step: "binary_loop (enumerate j (b # bs)) (pre @ post, flag) =
      binary_loop (enumerate (Suc j) bs) ((pre @ [?b]) @ post', ?flag)"
    using flag_add(1) [OF Cons.prems(1) j] Cons.prems(3) post by (simp add: list_update_append)
  have "unat ?flag < 2 ^ Suc j"
    using flag_add(2) [OF Cons.prems(1) j] Cons.prems(1) by simp
  from Cons.IH [OF this, of "pre @ [?b]" post'] Cons.prems post obtain flag' where
    f: "binary_loop (enumerate (Suc j) bs) ((pre @ [?b]) @ post', ?flag) =
      Inr ((pre @ [?b]) @ map (\<lambda>b. if b = 0 then 255 else b) bs @ drop (length bs) post', flag')"
    "\<forall>i. bit flag' i \<longleftrightarrow> (if i < Suc j then bit ?flag i else i < Suc j + length bs \<and> bs ! (i - Suc j) = 0)"
    by auto
  have "bit flag' i \<longleftrightarrow> (if i < j then bit flag i else i < j + length (b # bs) \<and> (b # bs) ! (i - j) = 0)" for i
    using f(2) bit_below [OF Cons.prems(1), of i] j
    by (auto simp: bit_simps nth_Cons' less_Suc_eq)
  with step f(1) post show ?case by auto
qed

lemma flag_test: "i < 8 \<Longrightarrow> drop_bit i ((flag :: u8) AND push_bit i 1) = 0 \<longleftrightarrow> \<not> bit flag i"
proof -
  assume i: "i < 8"
  have "drop_bit i (flag AND push_bit i 1) = of_bool (bit flag i)"
    using i by (intro bit_word_eqI) (auto simp: bit_simps)
  then show ?thesis by simp
qed

lemma from_loop_eq:
  assumes "j + length rs \<le> 8" and "length pre = j" and "length bs = length rs"
    and "\<And>i. i < length rs \<Longrightarrow> (if bit flag (j + i) then bs ! i = 0 else bs ! i = rs ! i)"
  shows "from_loop flag (enumerate j rs) (pre @ replicate (length rs) 0) = pre @ bs"
  using assms
proof (induction rs arbitrary: j pre bs)
  case Nil
  then show ?case by simp
next
  case (Cons r rs)
  obtain b bs' where bs: "bs = b # bs'" using Cons.prems(3) by (cases bs) auto
  have b: "b = (if bit flag j then 0 else r)" using Cons.prems(4) [of 0] bs by (simp split: if_splits)
  have rest: "if bit flag (Suc j + i) then bs' ! i = 0 else bs' ! i = rs ! i" if "i < length rs" for i
    using Cons.prems(4) [of "Suc i"] bs that by (simp split: if_splits)
  have "j < 8" using Cons.prems(1) by simp
  then have "from_loop flag (enumerate j (r # rs)) (pre @ replicate (length (r # rs)) 0) =
      from_loop flag (enumerate (Suc j) rs) ((pre @ [b]) @ replicate (length rs) 0)"
    using Cons.prems(2) by (simp add: flag_test b list_update_append del: push_bit_of_1 drop_bit_and)
  also have "\<dots> = (pre @ [b]) @ bs'"
    using Cons.prems bs rest by (intro Cons.IH) simp_all
  finally show ?case using bs by simp
qed

lemma inode_number_binary_form:
  obtains rs flag where "inode_number_binary n = Inr (rs @ [if flag = 0 then 255 else flag, if flag = 0 then 20 else 10])"
    and "rs = map (\<lambda>b. if b = 0 then 255 else b) (to_le 8 n)"
    and "\<And>i. bit flag i \<longleftrightarrow> i < 8 \<and> to_le 8 n ! i = 0"
proof -
  let ?rs = "map (\<lambda>b. if b = 0 then 255 else b) (to_le 8 n)"
  from binary_loop_eq [of 0 0 "to_le 8 n" "[]" "replicate 10 0"] obtain flag where
    "binary_loop (enumerate 0 (to_le 8 n)) (replicate 10 0, 0) = Inr (?rs @ replicate 2 0, flag)"
    and bit: "\<forall>i. bit flag i \<longleftrightarrow> i < 8 \<and> to_le 8 n ! i = 0" by auto
  moreover have "(?rs @ replicate 2 0)[8 := a, 9 := b] = ?rs @ [a, b]" for a b
    by (simp add: list_update_append numeral_2_eq_2)
  ultimately have "inode_number_binary n = Inr (?rs @ [if flag = 0 then 255 else flag, if flag = 0 then 20 else 10])"
    by (simp add: inode_number_binary_def Let_def)
  then show thesis using that bit by blast
qed

lemma inode_number_total:
  assumes "n < U64_RANGE"
  shows "\<exists>bs. inode_number_binary n = Inr bs \<and> length bs = 10 \<and> 0 \<notin> set bs \<and> inode_number_from bs = n"
proof -
  obtain rs flag where bin: "inode_number_binary n = Inr (rs @ [if flag = 0 then 255 else flag, if flag = 0 then 20 else 10])"
    and rs: "rs = map (\<lambda>b. if b = 0 then 255 else b) (to_le 8 n)"
    and bit: "\<And>i. bit flag i \<longleftrightarrow> i < 8 \<and> to_le 8 n ! i = 0"
    by (rule inode_number_binary_form [of n]) (rule that)
  have len: "length rs = 8" by (simp add: rs)
  have "from_loop flag (enumerate 0 rs) ([] @ replicate (length rs) 0) = [] @ to_le 8 n"
    by (rule from_loop_eq) (auto simp: rs bit)
  then have from_eq: "of_le (from_loop flag (enumerate 0 rs) (replicate 8 0)) = n"
    using assms len by simp
  have "inode_number_from (rs @ [if flag = 0 then 255 else flag, if flag = 0 then 20 else 10]) = n"
    using from_eq len by (auto simp: inode_number_from_def nth_append)
  with bin len show ?thesis by (auto simp: rs)
qed

text \<open>
  C30: every inode number survives being stored in a directory: \<open>inode_number_binary\<close> never
  panics, yields ten bytes none of which is the separator 0, and \<open>inode_number_from\<close> reads
  the number back.
\<close>

theorem inode_number_round_trip:
  assumes "n < U64_RANGE"
  shows "\<exists>bs. inode_number_binary n = Inr bs \<and> length bs = 10 \<and> 0 \<notin> set bs \<and> inode_number_from bs = n"
  by (rule inode_number_total [OF assms])

theorem inode_number_round_trip_witness:
  "\<exists>bs. inode_number_binary 256 = Inr bs \<and> length bs = 10 \<and> 0 \<notin> set bs \<and> inode_number_from bs = 256"
  by (rule inode_number_round_trip) (simp add: U64_RANGE_def)

end
