(* ===== verification/Cafs.thy ===== *)
theory Cafs
  imports Block_Map Inode_Number
begin

text \<open>
  \<^verbatim>\<open>src/fs/src/cafs/mod.rs\<close> and the traits of \<^verbatim>\<open>src/fs/src/fs.rs\<close>: inodes in memory
  (\<open>CaInode\<close>) and the file system (\<open>CAFS\<close>).

  The fields of \<open>CAFS\<close> that never change are the record \<open>cafs\<close>; what changes behind shared
  references is the record \<open>cafs_state\<close>: the block cache, the heap of inodes in memory and
  the queue of cached inodes. An \<open>Arc\<close> is an address of that heap. The strong count of an
  inode is the number of its occurrences in the queue plus the number of references clients
  and local variables hold (\<open>refs\<close>); a local reference that goes out of scope is released
  where the scope ends. The locks around single inodes are taken for one expression, or by
  \<open>write\<close> for its duration, which takes no other inode lock, so they never block.

  A \<open>String\<close> is the list of its UTF-8 bytes.
\<close>

section \<open>CaInode\<close>

definition NAME_LENGTH_LIMIT :: nat where
  "NAME_LENGTH_LIMIT = 199"

record ca_inode =
  inode_number :: nat
  ci_type :: inode_type
  ci_size :: nat
  ci_block_id :: nat
  ci_offset :: nat
  ci_name :: "u8 list"
  ci_blocks :: "nat list"

definition CaInode_new ::
    "nat \<Rightarrow> inode_type \<Rightarrow> nat \<Rightarrow> nat \<Rightarrow> u8 list \<Rightarrow> ('d cache_manager, ca_inode) rust" where
  "CaInode_new num ty bid off name =
     bnd (require (length name \<le> NAME_LENGTH_LIMIT) AssertFailed) (\<lambda>_.
     let name_bytes = name @ replicate (NAME_LENGTH_LIMIT + 1 - length name) 0 in
     bnd (modify_at meta_view bid off (\<lambda>m. ret ((), Meta_init (inode_type_disc ty) name_bytes m))) (\<lambda>_.
     ret \<lparr>inode_number = num, ci_type = ty, ci_size = 0, ci_block_id = bid, ci_offset = off,
       ci_name = name_bytes, ci_blocks = []\<rparr>))"

definition CaInode_from :: "nat \<Rightarrow> nat \<Rightarrow> nat \<Rightarrow> ('d cache_manager, ca_inode) rust" where
  "CaInode_from num bid off =
     read_at meta_view bid off (\<lambda>m.
       bnd (pure (as_inode_type (meta_type m))) (\<lambda>ty.
       bnd (Meta_blocks m) (\<lambda>(_, blks).
       ret \<lparr>inode_number = num, ci_type = ty, ci_size = meta_size m, ci_block_id = bid,
         ci_offset = off, ci_name = meta_name m, ci_blocks = blks\<rparr>)))"

definition CaInode_is_file :: "ca_inode \<Rightarrow> bool" where
  "CaInode_is_file ci \<longleftrightarrow> ci_type ci = File"

definition CaInode_data :: "ca_inode \<Rightarrow> ('d cache_manager, u8 list) rust" where
  "CaInode_data ci =
     (if ci_blocks ci \<noteq> [] then
        fold_each (ci_blocks ci) (\<lambda>i dat.
          read_at data_block i 0 (\<lambda>block.
            ret (dat @
              (if i = last (ci_blocks ci)
               then take (if ci_size ci mod BLOCK_SIZE \<noteq> 0 then ci_size ci mod BLOCK_SIZE
                          else BLOCK_SIZE) block
               else block)))) []
      else ret [])"

definition CaInode_name :: "ca_inode \<Rightarrow> u8 list" where
  "CaInode_name ci =
     take (case find_pos (\<lambda>x. x = 0) (ci_name ci) of Some i \<Rightarrow> i | None \<Rightarrow> length (ci_name ci))
       (ci_name ci)"

section \<open>CAFS\<close>

definition INODE_CACHE_SIZE :: nat where
  "INODE_CACHE_SIZE = 32"

record cafs =
  inode_bitmap :: bitmap
  data_bitmap :: bitmap
  inode_area_start_block :: nat
  data_area_start_block :: nat

record 'd cafs_state =
  blk_cache :: "'d cache_manager"
  inode_cache :: "nat list"
  arcs :: "nat \<Rightarrow> ca_inode option"
  next_arc :: nat
  refs :: "nat list"

text \<open>A computation on the block cache.\<close>

definition on_cache :: "('d cache_manager, 'a) rust \<Rightarrow> ('d cafs_state, 'a) rust" where
  "on_cache m = zoom blk_cache (\<lambda>c st. st\<lparr>blk_cache := c\<rparr>) m"

text \<open>\<open>Arc::new\<close>, \<open>Arc::clone\<close>, the end of a reference, and access through a reference.\<close>

definition Arc_new :: "ca_inode \<Rightarrow> ('d cafs_state, nat) rust" where
  "Arc_new ci =
     bnd (gets next_arc) (\<lambda>h.
     bnd (upd (\<lambda>st. st\<lparr>arcs := (arcs st)(h \<mapsto> ci), next_arc := Suc h, refs := h # refs st\<rparr>)) (\<lambda>_.
     ret h))"

definition Arc_clone :: "nat \<Rightarrow> ('d cafs_state, nat) rust" where
  "Arc_clone h = bnd (upd (\<lambda>st. st\<lparr>refs := h # refs st\<rparr>)) (\<lambda>_. ret h)"

definition Arc_drop :: "nat \<Rightarrow> ('d cafs_state, unit) rust" where
  "Arc_drop h = upd (\<lambda>st. st\<lparr>refs := remove1 h (refs st)\<rparr>)"

definition Arc_deref :: "nat \<Rightarrow> ('d cafs_state, ca_inode) rust" where
  "Arc_deref h =
     bnd (gets arcs) (\<lambda>m. case m h of Some ci \<Rightarrow> ret ci | None \<Rightarrow> panic UnwrapNone)"

definition Arc_strong_count :: "'d cafs_state \<Rightarrow> nat \<Rightarrow> nat" where
  "Arc_strong_count st h = count_list (inode_cache st) h + count_list (refs st) h"

definition inode_pos_of :: "cafs \<Rightarrow> nat \<Rightarrow> rust_panic + (nat \<times> nat)" where
  "inode_pos_of fs num =
     (let inode_size = vsize meta_view; inodes_per_block = BLOCK_SIZE div inode_size in
      sbnd (u64_add (inode_area_start_block fs) (num div inodes_per_block)) (\<lambda>bid.
      Inr (bid, (num mod inodes_per_block) * inode_size)))"

definition alloc_data :: "cafs \<Rightarrow> ('d cache_manager, nat) rust" where
  "alloc_data fs =
     bnd (alloc (data_bitmap fs)) (\<lambda>r.
       case r of
         Some i \<Rightarrow> pure (u64_add i (data_area_start_block fs))
       | None \<Rightarrow> panic RunOutOfDataBlock)"

definition CAFS_flush :: "('d cafs_state, unit) rust" where
  "CAFS_flush = on_cache CacheManager_flush"

text \<open>The replacement step shared by \<open>add_inode_cache\<close> and \<open>cainode\<close>.\<close>

definition substitute_inode :: "('d cafs_state, unit) rust" where
  "substitute_inode = (\<lambda>st.
     if length (inode_cache st) = INODE_CACHE_SIZE then
       (case find_pos (\<lambda>h. Arc_strong_count st h = 1) (inode_cache st) of
          Some idx \<Rightarrow> Inr ((), st\<lparr>inode_cache := swap_remove (inode_cache st) idx\<rparr>)
        | None \<Rightarrow> Inl RunOutOfInodeCache)
     else Inr ((), st))"

definition add_inode_cache :: "nat \<Rightarrow> ('d cafs_state, unit) rust" where
  "add_inode_cache h =
     bnd substitute_inode (\<lambda>_.
     upd (\<lambda>st. st\<lparr>inode_cache := inode_cache st @ [h]\<rparr>))"

definition alloc_inode_meta ::
    "cafs \<Rightarrow> inode_type \<Rightarrow> u8 list \<Rightarrow> ('d cafs_state, nat) rust" where
  "alloc_inode_meta fs ty name =
     bnd (on_cache (alloc (inode_bitmap fs))) (\<lambda>r.
       case r of
         None \<Rightarrow> panic RunOutOfInodeBlock
       | Some num \<Rightarrow>
           bnd (pure (inode_pos_of fs num)) (\<lambda>(bid, off).
           bnd (on_cache (CaInode_new num ty bid off name)) (\<lambda>ci.
           bnd (Arc_new ci) (\<lambda>h.
           bnd (add_inode_cache h) (\<lambda>_.
           ret h)))))"

text \<open>The search of the queue: \<open>iter().find(|cache| cache.read().inode_number == inode_number)\<close>.\<close>

definition find_inode :: "nat \<Rightarrow> 'd cafs_state \<Rightarrow> nat option" where
  "find_inode num st =
     find (\<lambda>h. case arcs st h of Some ci \<Rightarrow> inode_number ci = num | None \<Rightarrow> False) (inode_cache st)"

definition cainode :: "cafs \<Rightarrow> nat \<Rightarrow> ('d cafs_state, nat) rust" where
  "cainode fs num =
     bnd (gets (find_inode num)) (\<lambda>found.
       case found of
         Some h \<Rightarrow> Arc_clone h
       | None \<Rightarrow>
           bnd substitute_inode (\<lambda>_.
           bnd (pure (inode_pos_of fs num)) (\<lambda>(bid, off).
           bnd (on_cache (CaInode_from num bid off)) (\<lambda>ci.
           bnd (Arc_new ci) (\<lambda>h.
           bnd (upd (\<lambda>st. st\<lparr>inode_cache := inode_cache st @ [h]\<rparr>)) (\<lambda>_.
           ret h))))))"

section \<open>impl FS for CAFS\<close>

text \<open>The closure of \<open>write\<close> that works on the inode on the device; it yields the data blocks.\<close>

definition write_meta ::
    "cafs \<Rightarrow> nat \<Rightarrow> meta \<Rightarrow> ('d cache_manager, nat list \<times> meta) rust" where
  "write_meta fs new_size m =
     bnd (pure (index_blocks (meta_size m))) (\<lambda>curr_info.
     bnd (pure (index_blocks new_size)) (\<lambda>new_info.
     bnd (if meta_size m < new_size then
            bnd (pure (data_blocks_of new_size)) (\<lambda>new_blocks.
            bnd (pure (Meta_data_blocks m)) (\<lambda>old_blocks.
            bnd (pure (u64_sub new_blocks old_blocks)) (\<lambda>data_growth.
            bnd (repeat_each data_growth (alloc_data fs)) (\<lambda>new_data.
            bnd (pure (index_block_count new_info)) (\<lambda>new_count.
            bnd (pure (index_block_count curr_info)) (\<lambda>curr_count.
            bnd (pure (u64_sub new_count curr_count)) (\<lambda>index_growth.
            bnd (repeat_each index_growth (alloc_data fs)) (\<lambda>new_index.
            Meta_extend new_size new_info new_data new_index m))))))))
          else if meta_size m > new_size then
            bnd (Meta_shrink new_size m) (\<lambda>((index_ids, data_ids), m').
            bnd (for_each index_ids (dealloc (data_bitmap fs))) (\<lambda>_.
            bnd (for_each data_ids (dealloc (data_bitmap fs))) (\<lambda>_.
            ret m')))
          else ret m) (\<lambda>m'.
     bnd (Meta_blocks m') (\<lambda>(_, blks).
     ret (blks, m')))))"

text \<open>The loop of \<open>write\<close> over the data blocks; each takes the next bytes, then zeros.\<close>

definition take_bytes :: "nat \<Rightarrow> u8 list \<Rightarrow> u8 list" where
  "take_bytes n bs = take n bs @ replicate (n - length bs) 0"

primrec write_blocks :: "nat list \<Rightarrow> u8 list \<Rightarrow> ('d cache_manager, unit) rust" where
  "write_blocks [] contents = ret ()"
| "write_blocks (i # is) contents =
     bnd (modify_at data_block i 0 (\<lambda>block. ret ((), take_bytes (length block) contents))) (\<lambda>_.
     write_blocks is (drop BLOCK_SIZE contents))"

definition CAFS_write :: "cafs \<Rightarrow> nat \<Rightarrow> u8 list \<Rightarrow> ('d cafs_state, unit) rust" where
  "CAFS_write fs num contents =
     (let new_size = length contents in
      bnd (cainode fs num) (\<lambda>h.
      bnd (pure (inode_pos_of fs num)) (\<lambda>(bid, off).
      bnd (on_cache (modify_at meta_view bid off (write_meta fs new_size))) (\<lambda>blks.
      bnd (on_cache (write_blocks blks contents)) (\<lambda>_.
      bnd (upd (\<lambda>st. st\<lparr>arcs := (arcs st)(h := map_option
        (\<lambda>ci. ci\<lparr>ci_size := new_size, ci_blocks := blks\<rparr>) (arcs st h))\<rparr>)) (\<lambda>_.
      Arc_drop h))))))"

definition CAFS_inode :: "cafs \<Rightarrow> nat \<Rightarrow> ('d cafs_state, nat) rust" where
  "CAFS_inode fs num = cainode fs num"

definition CAFS_create :: "cafs \<Rightarrow> nat \<Rightarrow> u8 list \<Rightarrow> ('d cafs_state, nat) rust" where
  "CAFS_create fs parent name =
     bnd (alloc_inode_meta fs File name) (\<lambda>h.
     bnd (CAFS_inode fs parent) (\<lambda>p.
     bnd (Arc_deref p) (\<lambda>pi.
     bnd (on_cache (CaInode_data pi)) (\<lambda>contents.
     bnd (Arc_deref h) (\<lambda>ci.
     bnd (pure (inode_number_binary (inode_number ci))) (\<lambda>bin.
     bnd (CAFS_write fs (inode_number pi) ((if contents \<noteq> [] then contents @ [0] else contents) @ bin)) (\<lambda>_.
     bnd (add_inode_cache h) (\<lambda>_.
     bnd (Arc_drop p) (\<lambda>_.
     ret h)))))))))"

definition CAFS_df :: "cafs \<Rightarrow> ('d cafs_state, nat \<times> nat) rust" where
  "CAFS_df fs =
     bnd (on_cache (free_count (data_bitmap fs))) (\<lambda>free.
     bnd (pure (total_count (data_bitmap fs))) (\<lambda>total.
     bnd (pure (u64_mul free BLOCK_SIZE)) (\<lambda>free_bytes.
     bnd (pure (u64_mul total BLOCK_SIZE)) (\<lambda>total_bytes.
     ret (free_bytes, total_bytes)))))"

text \<open>\<open>slice::split(|num| *num == 0)\<close>\<close>

fun split_zero :: "u8 list \<Rightarrow> u8 list list" where
  "split_zero [] = [[]]"
| "split_zero (b # bs) =
     (if b = 0 then [] # split_zero bs
      else (case split_zero bs of [] \<Rightarrow> [[b]] | p # ps \<Rightarrow> (b # p) # ps))"

primrec decode_entries :: "u8 list list \<Rightarrow> rust_panic + nat list" where
  "decode_entries [] = Inr []"
| "decode_entries (e # es) =
     (if length e < 10 then Inl IndexOutOfBounds
      else sbnd (decode_entries es) (\<lambda>nums. Inr (inode_number_from (take 10 e) # nums)))"

definition CAFS_sub_inodes :: "cafs \<Rightarrow> nat \<Rightarrow> ('d cafs_state, nat list) rust" where
  "CAFS_sub_inodes fs num =
     bnd (CAFS_inode fs num) (\<lambda>p.
     bnd (Arc_deref p) (\<lambda>pi.
     bnd (if CaInode_is_file pi then ret []
          else bnd (on_cache (CaInode_data pi)) (\<lambda>dat.
               if dat = [] then ret [] else pure (decode_entries (split_zero dat)))) (\<lambda>nums.
     bnd (Arc_drop p) (\<lambda>_.
     ret nums))))"

section \<open>Making and opening a file system\<close>

definition new_state :: "'d dyn_block_device \<Rightarrow> 'd cafs_state" where
  "new_state d = \<lparr>blk_cache = CacheManager_new d, inode_cache = [], arcs = Map.empty,
     next_arc = 0, refs = []\<rparr>"

text \<open>The arithmetic of \<open>init\<close>: the fields of \<open>CAFS\<close> and the super block.\<close>

definition plan :: "nat \<Rightarrow> nat \<Rightarrow> rust_panic + (cafs \<times> super_block)" where
  "plan total_blks inode_bitmap_blks =
     (let ibm = Bitmap_new 1 inode_bitmap_blks in
      sbnd (total_count ibm) (\<lambda>inode_num.
      sbnd (u64_mul inode_num (vsize meta_view)) (\<lambda>inode_bytes.
      sbnd (div_ceil inode_bytes BLOCK_SIZE) (\<lambda>inode_area_blks.
      sbnd (u64_add inode_bitmap_blks inode_area_blks) (\<lambda>inode_total_blks.
      sbnd (u64_sub total_blks 1) (\<lambda>rest.
      sbnd (u64_sub rest inode_total_blks) (\<lambda>data_total_blks.
      let data_bitmap_blks = data_total_blks div (BLOCK_BITS + 1);
          data_area_blks = data_total_blks - data_bitmap_blks in
      sbnd (u64_add 1 inode_total_blks) (\<lambda>data_bitmap_start.
      sbnd (u64_add 1 inode_bitmap_blks) (\<lambda>inode_area_start.
      sbnd (u64_add data_bitmap_start data_bitmap_blks) (\<lambda>data_area_start.
      Inr (\<lparr>inode_bitmap = ibm, data_bitmap = Bitmap_new data_bitmap_start data_bitmap_blks,
            inode_area_start_block = inode_area_start, data_area_start_block = data_area_start\<rparr>,
           SuperBlock_initialize total_blks inode_bitmap_blks inode_area_blks data_bitmap_blks
             data_area_blks)))))))))))"

definition clear_blocks :: "nat \<Rightarrow> ('d cache_manager, unit) rust" where
  "clear_blocks total_blks =
     for_each [0..<total_blks] (\<lambda>i.
       modify_at data_block i 0 (\<lambda>block. ret ((), map (\<lambda>_. 0) block)))"

definition CAFS_init :: "'d dyn_block_device \<Rightarrow> nat \<Rightarrow> nat \<Rightarrow> rust_panic + (cafs \<times> 'd cafs_state)" where
  "CAFS_init d total_blks inode_bitmap_blks =
     (if vsize meta_view mod 8 \<noteq> 0 then Inl AssertFailed
      else sbnd (plan total_blks inode_bitmap_blks) (\<lambda>(fs, sb).
        bnd (on_cache (clear_blocks total_blks)) (\<lambda>_.
        bnd (on_cache (modify_at super_block_view 0 0 (\<lambda>_. ret ((), sb)))) (\<lambda>_.
        bnd (alloc_inode_meta fs Dir [47]) (\<lambda>h.
        bnd (Arc_deref h) (\<lambda>ci.
        bnd (require (inode_number ci = 0) AssertFailed) (\<lambda>_.
        bnd (Arc_drop h) (\<lambda>_.
        bnd CAFS_flush (\<lambda>_.
        ret fs))))))) (new_state d)))"

text \<open>The closure of \<open>open\<close> that reads the areas off the super block.\<close>

definition load_areas :: "super_block \<Rightarrow> rust_panic + cafs" where
  "load_areas sb =
     (if \<not> is_valid sb then Inl ErrorLoadingCAFS
      else sbnd (u64_add (sb_inode_bitmap_blocks sb) (sb_inode_area_blocks sb)) (\<lambda>inode_total_blks.
      sbnd (u64_add 1 inode_total_blks) (\<lambda>data_bitmap_start.
      sbnd (u64_add 1 (sb_inode_bitmap_blocks sb)) (\<lambda>inode_area_start.
      sbnd (u64_add data_bitmap_start (sb_data_bitmap_blocks sb)) (\<lambda>data_area_start.
      Inr \<lparr>inode_bitmap = Bitmap_new 1 (sb_inode_bitmap_blocks sb),
           data_bitmap = Bitmap_new data_bitmap_start (sb_data_bitmap_blocks sb),
           inode_area_start_block = inode_area_start,
           data_area_start_block = data_area_start\<rparr>)))))"

definition CAFS_open :: "'d dyn_block_device \<Rightarrow> rust_panic + (cafs \<times> 'd cafs_state)" where
  "CAFS_open d = on_cache (read_at super_block_view 0 0 (\<lambda>sb. pure (load_areas sb))) (new_state d)"

end
