(* ===== verification/Cafs_Blocks.thy ===== *)
theory Cafs_Blocks
  imports Cafs
begin

text \<open>
  What the operations of \<^verbatim>\<open>src/fs/src/cafs/mod.rs\<close> do to the blocks of the device: where the
  areas lie (\<open>geometry\<close>), allocating data blocks, the closure of \<open>write\<close> that grows an inode,
  writing and reading the data blocks. The statements are about one file; the next theory
  puts the files together.
\<close>

section \<open>Areas\<close>

definition geometry :: "cafs \<Rightarrow> nat \<Rightarrow> bool" where
  "geometry fs n \<longleftrightarrow>
     start_block_id (inode_bitmap fs) = 1 \<and>
     inode_area_start_block fs = 1 + blocks (inode_bitmap fs) \<and>
     start_block_id (data_bitmap fs) = inode_area_start_block fs + blocks (inode_bitmap fs) * BLOCK_BITS \<and>
     data_area_start_block fs = start_block_id (data_bitmap fs) + blocks (data_bitmap fs) \<and>
     data_area_start_block fs + blocks (data_bitmap fs) * BLOCK_BITS \<le> n"

definition inode_block :: "cafs \<Rightarrow> nat \<Rightarrow> nat" where
  "inode_block fs num = inode_area_start_block fs + num"

definition data_area :: "cafs \<Rightarrow> nat set" where
  "data_area fs =
     {data_area_start_block fs ..< data_area_start_block fs + blocks (data_bitmap fs) * BLOCK_BITS}"

definition inode_range :: "cafs \<Rightarrow> nat set" where
  "inode_range fs = {..<blocks (inode_bitmap fs) * BLOCK_BITS}"

text \<open>The data blocks marked as taken, as block numbers of the device, and how many are left.\<close>

definition used :: "cafs \<Rightarrow> (nat \<Rightarrow> u8 list) \<Rightarrow> nat set" where
  "used fs V = (+) (data_area_start_block fs) ` bitmap_set (data_bitmap fs) V"

definition free_blocks :: "cafs \<Rightarrow> (nat \<Rightarrow> u8 list) \<Rightarrow> nat" where
  "free_blocks fs V = blocks (data_bitmap fs) * BLOCK_BITS - card (used fs V)"

lemma geometry_bitmaps:
  assumes "geometry fs n" and "n < U64_RANGE"
  shows "bitmap_ok n (inode_bitmap fs)" "bitmap_ok n (data_bitmap fs)"
  using assms by (auto simp: geometry_def bitmap_ok_def)

lemma geometry_disjoint:
  assumes "geometry fs n"
  shows "bitmap_area (inode_bitmap fs) \<inter> bitmap_area (data_bitmap fs) = {}"
    "bitmap_area (inode_bitmap fs) \<inter> data_area fs = {}" "bitmap_area (data_bitmap fs) \<inter> data_area fs = {}"
    "num \<in> inode_range fs \<Longrightarrow> inode_block fs num \<notin> bitmap_area (inode_bitmap fs)"
    "num \<in> inode_range fs \<Longrightarrow> inode_block fs num \<notin> bitmap_area (data_bitmap fs)"
    "num \<in> inode_range fs \<Longrightarrow> inode_block fs num \<notin> data_area fs"
    "num \<in> inode_range fs \<Longrightarrow> inode_block fs num < n"
    "i \<in> data_area fs \<Longrightarrow> 0 < i \<and> i < n"
    "i \<in> bitmap_area (data_bitmap fs) \<Longrightarrow> 0 < i" "i \<in> bitmap_area (inode_bitmap fs) \<Longrightarrow> 0 < i"
    "0 < inode_block fs num"
  using assms by (auto simp: geometry_def bitmap_area_def data_area_def inode_block_def inode_range_def)

lemma used_subset: "used fs V \<subseteq> data_area fs"
  by (auto simp: used_def data_area_def bitmap_set_def)

lemma finite_used [simp]: "finite (used fs V)"
  by (rule finite_subset [OF used_subset]) (simp add: data_area_def)

lemma card_used: "card (used fs V) = card (bitmap_set (data_bitmap fs) V)"
  by (simp add: used_def card_image)

lemma bitmap_set_cong:
  assumes "\<And>i. i \<in> bitmap_area bm \<Longrightarrow> W i = V i"
  shows "bitmap_set bm W = bitmap_set bm V"
proof -
  have "bitmap_bit bm W k = bitmap_bit bm V k" if "k < blocks bm * BLOCK_BITS" for k
  proof -
    have "k div BLOCK_BITS < blocks bm" using that by (simp add: div_less_iff_less_mult)
    then have "start_block_id bm + k div BLOCK_BITS \<in> bitmap_area bm" by (simp add: bitmap_area_def)
    from assms [OF this] show ?thesis by (simp add: bitmap_bit_def words_at_def)
  qed
  then show ?thesis by (auto simp: bitmap_set_def)
qed

lemma used_cong: "(\<And>i. i \<in> bitmap_area (data_bitmap fs) \<Longrightarrow> W i = V i) \<Longrightarrow> used fs W = used fs V"
  using bitmap_set_cong [of "data_bitmap fs" W V] by (simp add: used_def)

text \<open>One inode per block.\<close>

lemma inode_pos_of_eq:
  assumes "geometry fs n" and "n < U64_RANGE" and "num \<in> inode_range fs"
  shows "inode_pos_of fs num = Inr (inode_block fs num, 0)"
proof -
  have "inode_block fs num < U64_RANGE"
    using geometry_disjoint(7) [OF assms(1,3)] assms(2) by simp
  then show ?thesis
    by (simp add: inode_pos_of_def inode_block_def BLOCK_SIZE_def u64_add_def)
qed

section \<open>Allocating data blocks\<close>

text \<open>\<open>X\<close> extends the used blocks without leaving a gap below a new block.\<close>

definition first_fit :: "cafs \<Rightarrow> (nat \<Rightarrow> u8 list) \<Rightarrow> nat set \<Rightarrow> bool" where
  "first_fit fs V X \<longleftrightarrow> (\<forall>x \<in> X. {data_area_start_block fs..<x} \<subseteq> used fs V \<union> X)"

context block_device
begin

text \<open>Blocks are taken lowest first.\<close>

lemma exec_alloc_data:
  assumes geo: "geometry fs n" and H: "length H < CACHE_SIZE"
    and free: "bitmap_area (data_bitmap fs) \<inter> fst ` set H = {}" and room: "0 < free_blocks fs V"
  shows "exec n H V (alloc_data fs) (\<lambda>i V'. i \<in> data_area fs \<and> i \<notin> used fs V \<and>
    {data_area_start_block fs..<i} \<subseteq> used fs V \<and> used fs V' = insert i (used fs V) \<and> (\<forall>j. j \<notin> bitmap_area (data_bitmap fs) \<longrightarrow> V' j = V j))"
proof (rule exec_wf)
  assume n: "n < U64_RANGE"
  let ?bm = "data_bitmap fs"
  have ok: "bitmap_ok n ?bm" by (rule geometry_bitmaps [OF geo n])
  have full: "bitmap_set ?bm V \<noteq> {..<blocks ?bm * BLOCK_BITS}"
  proof
    assume "bitmap_set ?bm V = {..<blocks ?bm * BLOCK_BITS}"
    then have "card (used fs V) = blocks ?bm * BLOCK_BITS" by (simp only: card_used card_lessThan)
    with room show False by (simp add: free_blocks_def)
  qed
  have range: "u64_add k (data_area_start_block fs) = Inr (data_area_start_block fs + k)"
    if "k < blocks ?bm * BLOCK_BITS" for k
    using that geo n by (simp add: u64_add_def geometry_def)
  let ?P = "\<lambda>i V'. i \<in> data_area fs \<and> i \<notin> used fs V \<and> {data_area_start_block fs..<i} \<subseteq> used fs V \<and>
    used fs V' = insert i (used fs V) \<and> (\<forall>j. j \<notin> bitmap_area ?bm \<longrightarrow> V' j = V j)"
  show "exec n H V (alloc_data fs) ?P"
    unfolding alloc_data_def
  proof (rule exec_bnd, rule exec_mono [OF exec_alloc [OF ok H free]])
    fix r V'
    assume post: "alloc_post ?bm V r V'"
    with full obtain k where k: "r = Some k" by (cases r) (auto simp: alloc_post_def)
    with post have post: "k < blocks ?bm * BLOCK_BITS" "k \<notin> bitmap_set ?bm V" "{..<k} \<subseteq> bitmap_set ?bm V"
      "bitmap_set ?bm V' = insert k (bitmap_set ?bm V)" "\<forall>j. j \<notin> bitmap_area ?bm \<longrightarrow> V' j = V j"
      by (simp_all add: alloc_post_def)
    have "{data_area_start_block fs..<data_area_start_block fs + k} = (+) (data_area_start_block fs) ` {..<k}"
      by (simp add: image_add_atLeastLessThan lessThan_atLeast0 add.commute)
    also have "\<dots> \<subseteq> used fs V" using post(3) by (auto simp: used_def)
    finally have "?P (data_area_start_block fs + k) V'" using post by (auto simp: used_def data_area_def)
    with k range [OF post(1)] show "exec n H V' (case r of None \<Rightarrow> panic RunOutOfDataBlock
        | Some i \<Rightarrow> pure (u64_add i (data_area_start_block fs))) ?P"
      by (auto intro!: exec_pure simp: add.commute)
  qed
qed

lemma exec_alloc_data_n:
  assumes geo: "geometry fs n" and H: "length H < CACHE_SIZE"
    and free: "bitmap_area (data_bitmap fs) \<inter> fst ` set H = {}" and room: "c \<le> free_blocks fs V"
  shows "exec n H V (repeat_each c (alloc_data fs)) (\<lambda>is V'. length is = c \<and> distinct is \<and>
    set is \<subseteq> data_area fs - used fs V \<and> used fs V' = used fs V \<union> set is \<and> first_fit fs V (set is) \<and>
    (\<forall>j. j \<notin> bitmap_area (data_bitmap fs) \<longrightarrow> V' j = V j))"
proof (rule exec_repeat_each [where I = "\<lambda>k is W. k + length is = c \<and> distinct is \<and>
    set is \<subseteq> data_area fs - used fs V \<and> used fs W = used fs V \<union> set is \<and> first_fit fs V (set is) \<and>
    (\<forall>j. j \<notin> bitmap_area (data_bitmap fs) \<longrightarrow> W j = V j)"])
  fix k "is" W
  assume I: "Suc k + length is = c \<and> distinct is \<and> set is \<subseteq> data_area fs - used fs V \<and>
    used fs W = used fs V \<union> set is \<and> first_fit fs V (set is) \<and> (\<forall>j. j \<notin> bitmap_area (data_bitmap fs) \<longrightarrow> W j = V j)"
  have "card (used fs W) = card (used fs V) + length is"
    using I by (subst distinct_card [symmetric]) (auto intro!: card_Un_disjoint)
  then have "0 < free_blocks fs W" using I room by (auto simp: free_blocks_def)
  from exec_alloc_data [OF geo H free this]
  show "exec n H W (alloc_data fs) (\<lambda>i W'. k + length (is @ [i]) = c \<and> distinct (is @ [i]) \<and>
      set (is @ [i]) \<subseteq> data_area fs - used fs V \<and> used fs W' = used fs V \<union> set (is @ [i]) \<and>
      first_fit fs V (set (is @ [i])) \<and> (\<forall>j. j \<notin> bitmap_area (data_bitmap fs) \<longrightarrow> W' j = V j))"
    by (rule exec_mono) (use I in \<open>auto simp: first_fit_def\<close>)
qed (auto simp: first_fit_def)

end

section \<open>Growing an inode\<close>

lemma take_bytes_add: "take_bytes (a + b) bs = take_bytes a bs @ take_bytes b (drop a bs)"
  by (cases "length bs \<le> a") (auto simp: take_bytes_def take_add replicate_add [symmetric])

definition growth :: "nat \<Rightarrow> nat \<Rightarrow> nat" where
  "growth old_size new_size =
     (data_count new_size - data_count old_size) + (index_count new_size - index_count old_size)"

text \<open>The file after a growing write: the old blocks and \<open>new\<close> ones that were free.\<close>

definition grown ::
    "cafs \<Rightarrow> nat \<Rightarrow> (nat \<Rightarrow> u8 list) \<Rightarrow> meta \<Rightarrow> nat list \<Rightarrow> nat list \<Rightarrow> nat \<Rightarrow>
     nat list \<Rightarrow> nat list \<Rightarrow> meta \<Rightarrow> (nat \<Rightarrow> u8 list) \<Rightarrow> bool" where
  "grown fs n V m idx dat new_size idx' dat' m' V' \<longleftrightarrow>
     meta_rep n V' m' idx' dat' \<and> meta_size m' = new_size \<and>
     meta_type m' = meta_type m \<and> meta_name m' = meta_name m \<and>
     set (idx @ dat) \<subseteq> set (idx' @ dat') \<and>
     set (idx' @ dat') - set (idx @ dat) \<subseteq> data_area fs - used fs V \<and>
     used fs V' = used fs V \<union> set (idx' @ dat') \<and>
     first_fit fs V (set (idx' @ dat') - set (idx @ dat)) \<and>
     (\<forall>j. j \<notin> bitmap_area (data_bitmap fs) \<longrightarrow> j \<notin> set idx' \<longrightarrow> V' j = V j)"

lemma grown_same:
  "meta_rep n V m idx dat \<Longrightarrow> set (idx @ dat) \<subseteq> used fs V \<Longrightarrow>
   grown fs n V m idx dat (meta_size m) idx dat m V"
  by (auto simp: grown_def first_fit_def)

lemma grown_intro:
  assumes geo: "geometry fs n" and own: "set (idx @ dat) \<subseteq> used fs V"
    and nd: "set nd \<subseteq> data_area fs - used fs V" "used fs V1 = used fs V \<union> set nd" "first_fit fs V (set nd)"
      "\<forall>j. j \<notin> bitmap_area (data_bitmap fs) \<longrightarrow> V1 j = V j"
    and ni: "set ni \<subseteq> data_area fs - used fs V1" "used fs V2 = used fs V1 \<union> set ni" "first_fit fs V1 (set ni)"
      "\<forall>j. j \<notin> bitmap_area (data_bitmap fs) \<longrightarrow> V2 j = V1 j"
    and m': "meta_rep n V' m' (sort (idx @ ni)) (dat @ nd) \<and> meta_size m' = new_size \<and>
      meta_type m' = meta_type m \<and> meta_name m' = meta_name m \<and>
      (\<forall>i. i \<notin> set (idx @ ni) \<longrightarrow> V' i = V2 i)"
  shows "grown fs n V m idx dat new_size (sort (idx @ ni)) (dat @ nd) m' V'"
proof -
  have "i \<notin> set (idx @ ni)" if "i \<in> bitmap_area (data_bitmap fs)" for i
    using that geometry_disjoint(3) [OF geo] own used_subset [of fs V] ni(1) by auto
  then have "used fs V' = used fs V2" using m' by (intro used_cong) simp
  moreover have "set (sort (idx @ ni) @ dat @ nd) - set (idx @ dat) = set nd \<union> set ni"
    using nd ni own by auto
  moreover have "first_fit fs V (set nd \<union> set ni)" using nd(2,3) ni(3) by (force simp: first_fit_def)
  ultimately show ?thesis using m' nd ni own unfolding grown_def by auto
qed

context block_device
begin

lemma exec_grow:
  assumes geo: "geometry fs n" and rep: "meta_rep n V m idx dat" and own: "set (idx @ dat) \<subseteq> used fs V"
    and sz: "meta_size m \<le> new_size" "new_size \<le> L4_MAX" and li: "index_blocks new_size = Inr li"
    and room: "growth (meta_size m) new_size \<le> free_blocks fs V"
    and H: "length H + 4 \<le> CACHE_SIZE" "fst ` set H \<inter> (bitmap_area (data_bitmap fs) \<union> data_area fs) = {}"
  shows "exec n H V
    (bnd (repeat_each (data_count new_size - data_count (meta_size m)) (alloc_data fs)) (\<lambda>new_data.
     bnd (repeat_each (index_count new_size - index_count (meta_size m)) (alloc_data fs)) (\<lambda>new_index.
     Meta_extend new_size li new_data new_index m)))
    (\<lambda>m' V'. \<exists>idx' dat'. grown fs n V m idx dat new_size idx' dat' m' V')"
proof -
  have Hl: "length H < CACHE_SIZE" and Hb: "bitmap_area (data_bitmap fs) \<inter> fst ` set H = {}"
    using H by auto
  have len: "length dat = data_count (meta_size m)" "length idx = index_count (meta_size m)"
    using rep by (simp_all add: meta_rep_def)
  have le: "data_count (meta_size m) \<le> data_count new_size" "index_count (meta_size m) \<le> index_count new_size"
    using level_mono(1) [OF sz(1)] index_count_mono [OF sz(1)] by simp_all
  have pos: "\<forall>i \<in> data_area fs. 0 < i \<and> i < n" using geometry_disjoint(8) [OF geo] by blast
  have sub: "set (idx @ dat) \<subseteq> data_area fs" using own used_subset by blast
  have dis: "bitmap_area (data_bitmap fs) \<inter> data_area fs = {}" by (rule geometry_disjoint(3) [OF geo])
  have d0: "distinct (idx @ dat)" using rep by (simp add: meta_rep_def)
  show ?thesis
  proof (rule exec_bnd, rule exec_mono [OF exec_alloc_data_n [OF geo Hl Hb]])
    show "data_count new_size - data_count (meta_size m) \<le> free_blocks fs V"
      using room by (simp add: growth_def)
    fix nd V1
    assume nd: "length nd = data_count new_size - data_count (meta_size m) \<and> distinct nd \<and>
      set nd \<subseteq> data_area fs - used fs V \<and> used fs V1 = used fs V \<union> set nd \<and> first_fit fs V (set nd) \<and>
      (\<forall>j. j \<notin> bitmap_area (data_bitmap fs) \<longrightarrow> V1 j = V j)"
    have "card (used fs V1) = card (used fs V) + length nd"
      using nd by (subst distinct_card [symmetric]) (auto intro!: card_Un_disjoint)
    then have room1: "index_count new_size - index_count (meta_size m) \<le> free_blocks fs V1"
      using room nd by (simp add: growth_def free_blocks_def)
    show "exec n H V1 (bnd (repeat_each (index_count new_size - index_count (meta_size m)) (alloc_data fs))
        (\<lambda>new_index. Meta_extend new_size li nd new_index m))
        (\<lambda>m' V'. \<exists>idx' dat'. grown fs n V m idx dat new_size idx' dat' m' V')"
    proof (rule exec_bnd, rule exec_mono [OF exec_alloc_data_n [OF geo Hl Hb room1]])
      fix ni V2
      assume ni: "length ni = index_count new_size - index_count (meta_size m) \<and> distinct ni \<and>
        set ni \<subseteq> data_area fs - used fs V1 \<and> used fs V2 = used fs V1 \<union> set ni \<and> first_fit fs V1 (set ni) \<and>
        (\<forall>j. j \<notin> bitmap_area (data_bitmap fs) \<longrightarrow> V2 j = V1 j)"
      have same: "V2 j = V j" if "j \<in> set idx" for j using that nd ni sub dis by auto
      have rep2: "meta_rep n V2 m idx dat" by (rule meta_rep_cong [OF rep same])
      have dist: "distinct (idx @ ni @ dat @ nd)" using d0 nd ni own by auto
      have "exec n H V2 (Meta_extend new_size li nd ni m)
        (\<lambda>m' V'. meta_rep n V' m' (sort (idx @ ni)) (dat @ nd) \<and> meta_size m' = new_size \<and>
          meta_type m' = meta_type m \<and> meta_name m' = meta_name m \<and>
          (\<forall>i. i \<notin> set (idx @ ni) \<longrightarrow> V' i = V2 i))"
        by (rule exec_Meta_extend [OF rep2 sz li dist])
          (use pos nd ni len le H sub in \<open>auto 4 3\<close>)
      then show "exec n H V2 (Meta_extend new_size li nd ni m)
          (\<lambda>m' V'. \<exists>idx' dat'. grown fs n V m idx dat new_size idx' dat' m' V')"
        by (rule exec_mono) (use grown_intro [OF geo own, of nd V1 ni V2] nd ni in blast)
    qed
  qed
qed

text \<open>A shorter file that needs as many blocks as before keeps them all.\<close>

lemma exec_cut_inside:
  assumes geo: "geometry fs n" and rep: "meta_rep n V m idx dat" and own: "set (idx @ dat) \<subseteq> used fs V"
    and sz: "new_size \<le> meta_size m" "data_count new_size = data_count (meta_size m)"
    and H: "length H + 4 \<le> CACHE_SIZE" "fst ` set H \<inter> (bitmap_area (data_bitmap fs) \<union> data_area fs) = {}"
  shows "exec n H V (Meta_shrink new_size m)
    (\<lambda>((xi, xd), m') V'. xi = [] \<and> xd = [] \<and> grown fs n V m idx dat new_size idx dat m' V')"
proof -
  have len: "length dat = data_count new_size" "length idx = index_count new_size"
    using rep sz(2) index_count_cong [OF sz(2)] by (simp_all add: meta_rep_def)
  have sub: "set (idx @ dat) \<subseteq> data_area fs" using own used_subset by blast
  then have H': "set idx \<inter> fst ` set H = {}" using H(2) by auto
  have bm: "bitmap_area (data_bitmap fs) \<inter> set idx = {}" using geometry_disjoint(3) [OF geo] sub by auto
  have "grown fs n V m idx dat new_size idx dat m' V'"
    if "meta_rep n V' m' idx dat \<and> meta_size m' = new_size \<and> meta_type m' = meta_type m \<and>
      meta_name m' = meta_name m \<and> (\<forall>i. i \<notin> set idx \<longrightarrow> V' i = V i)" for m' V'
  proof -
    have "used fs V' = used fs V" using that bm by (intro used_cong) auto
    then show ?thesis using that own by (auto simp: grown_def first_fit_def)
  qed
  with len show ?thesis
    by (intro exec_mono [OF exec_Meta_shrink [OF rep sz(1) H(1) H']]) auto
qed

lemma exec_write_meta:
  assumes geo: "geometry fs n" and rep: "meta_rep n V m idx dat" and own: "set (idx @ dat) \<subseteq> used fs V"
    and sz: "data_count (meta_size m) \<le> data_count new_size" "new_size \<le> L4_MAX"
    and room: "growth (meta_size m) new_size \<le> free_blocks fs V"
    and H: "length H + 4 \<le> CACHE_SIZE" "fst ` set H \<inter> (bitmap_area (data_bitmap fs) \<union> data_area fs) = {}"
  shows "exec n H V (write_meta fs new_size m)
    (\<lambda>(blks, m') V'. \<exists>idx'. grown fs n V m idx dat new_size idx' blks m' V')"
proof -
  have max: "meta_size m \<le> L4_MAX" using rep by (simp add: meta_rep_def)
  then have r: "meta_size m + BLOCK_SIZE < U64_RANGE" "new_size + BLOCK_SIZE < U64_RANGE"
    using sz by (simp_all add: layout_consts U64_RANGE_def)
  obtain cur new where li: "index_blocks (meta_size m) = Inr cur" "index_blocks new_size = Inr new"
    using index_blocks_eq max sz(2) by blast
  have finish: "exec n H V' (bnd (Meta_blocks m') (\<lambda>(_, blks). ret (blks, m')))
      (\<lambda>(blks, m') V'. \<exists>idx'. grown fs n V m idx dat new_size idx' blks m' V')"
    if g: "grown fs n V m idx dat new_size idx' dat' m' V'" for idx' dat' m' V'
  proof -
    have rep': "meta_rep n V' m' idx' dat'" using g by (simp add: grown_def)
    have "set idx' \<subseteq> data_area fs" using g used_subset [of fs V'] unfolding grown_def by auto
    then have lock: "\<forall>i \<in> set idx'. (i, Write) \<notin> set H" using H(2) by force
    show ?thesis
      by (rule exec_bnd, rule exec_mono [OF exec_Meta_blocks [OF rep' H(1) lock refl refl]])
        (use g in \<open>auto intro!: exec_ret\<close>)
  qed
  consider "meta_size m = new_size" | "meta_size m < new_size" | "new_size < meta_size m" by linarith
  then show ?thesis
  proof cases
    case 1
    from grown_same [OF rep own] finish [of idx dat m V] li 1 show ?thesis
      by (simp add: write_meta_def)
  next
    case 2
    then have le: "meta_size m \<le> new_size" by simp
    note mono = level_mono(1) [OF le] index_count_mono [OF le]
    from 2 show ?thesis
      unfolding write_meta_def Meta_data_blocks_def
      by (simp add: li data_blocks_of_eq r index_block_count_eq [OF max li(1)]
          index_block_count_eq [OF sz(2) li(2)] u64_sub_def mono)
        (rule exec_bnd, rule exec_mono [OF exec_grow [OF geo rep own le sz(2) li(2) room H]],
          use finish in blast)
  next
    case 3
    then have le: "new_size \<le> meta_size m" by simp
    have eq: "data_count new_size = data_count (meta_size m)" using level_mono(1) [OF le] sz(1) by simp
    have g: "exec n H V (bnd (Meta_shrink new_size m) (\<lambda>((index_ids, data_ids), m').
        bnd (for_each index_ids (dealloc (data_bitmap fs))) (\<lambda>_.
        bnd (for_each data_ids (dealloc (data_bitmap fs))) (\<lambda>_. ret m'))))
        (\<lambda>m' V'. grown fs n V m idx dat new_size idx dat m' V')"
      by (rule exec_bnd, rule exec_mono [OF exec_cut_inside [OF geo rep own le eq H]])
        (auto intro: exec_ret)
    from 3 show ?thesis
      unfolding write_meta_def by (simp add: li) (rule exec_bnd, rule exec_mono [OF g], use finish in blast)
  qed
qed

section \<open>Data blocks\<close>

lemma exec_write_blocks:
  assumes "length H < CACHE_SIZE" and "distinct is" and "\<forall>i \<in> set is. i < n \<and> i \<notin> fst ` set H"
  shows "exec n H V (write_blocks is contents) (\<lambda>_ V'.
    concat (map V' is) = take_bytes (length is * BLOCK_SIZE) contents \<and> (\<forall>i. i \<notin> set is \<longrightarrow> V' i = V i))"
  using assms(2,3)
proof (induction "is" arbitrary: V contents)
  case Nil
  then show ?case by (simp add: exec_ret take_bytes_def)
next
  case (Cons i "is")
  let ?b = "take_bytes BLOCK_SIZE contents"
  have "length ?b = BLOCK_SIZE" by (simp add: take_bytes_def)
  have split: "take_bytes (length (i # is) * BLOCK_SIZE) contents =
      ?b @ take_bytes (length is * BLOCK_SIZE) (drop BLOCK_SIZE contents)"
    by (simp add: take_bytes_add)
  show ?case
  proof (rule exec_wf)
    assume len: "\<And>i. i < n \<Longrightarrow> length (V i) = BLOCK_SIZE"
    from Cons.prems have i: "i < n" "i \<notin> fst ` set H" by auto
    have v: "view_set data_block 0 ?b (V i) = ?b" "view_at data_block 0 (V i) = V i"
      using len [OF i(1)] by (simp_all add: view_set_def view_at_def data_block_def)
    show "exec n H V (write_blocks (i # is) contents) (\<lambda>_ V'.
      concat (map V' (i # is)) = take_bytes (length (i # is) * BLOCK_SIZE) contents \<and>
      (\<forall>j. j \<notin> set (i # is) \<longrightarrow> V' j = V j))"
      unfolding write_blocks.simps split
      by (rule exec_bnd, rule exec_modify_at [OF i(1) assms(1) i(2)], simp, simp, rule exec_ret)
        (use Cons.prems \<open>length ?b = BLOCK_SIZE\<close> len [OF i(1)] in
          \<open>auto simp: v intro!: exec_mono [OF Cons.IH]\<close>)
  qed
qed

end

lemma last_block_size:
  assumes "data_count sz = Suc k"
  shows "sz - k * BLOCK_SIZE = (if sz mod BLOCK_SIZE \<noteq> 0 then sz mod BLOCK_SIZE else BLOCK_SIZE)"
    and "k * BLOCK_SIZE < sz"
proof -
  have "sz \<le> BLOCK_SIZE * Suc k" "\<not> sz \<le> BLOCK_SIZE * k"
    using assms cdiv_le_iff [of BLOCK_SIZE sz "Suc k"] cdiv_le_iff [of BLOCK_SIZE sz k]
    by (simp_all add: data_count_def)
  then obtain r where r: "sz = k * BLOCK_SIZE + r" "0 < r" "r \<le> BLOCK_SIZE"
    by (metis add.commute add_diff_cancel_left' le_add_diff_inverse less_imp_le mult.commute
        mult_Suc_right nat_add_left_cancel_le not_le zero_less_diff)
  then show "k * BLOCK_SIZE < sz" by simp
  show "sz - k * BLOCK_SIZE = (if sz mod BLOCK_SIZE \<noteq> 0 then sz mod BLOCK_SIZE else BLOCK_SIZE)"
    using r by (cases "r = BLOCK_SIZE") simp_all
qed

lemma concat_data:
  assumes "distinct dat" and "length dat = data_count sz" and "\<And>i. i \<in> set dat \<Longrightarrow> length (V i) = BLOCK_SIZE"
    and "dat \<noteq> []" and r: "r = (if sz mod BLOCK_SIZE \<noteq> 0 then sz mod BLOCK_SIZE else BLOCK_SIZE)"
  shows "concat (map (\<lambda>i. if i = last dat then take r (V i) else V i) dat) = take sz (concat (map V dat))"
proof -
  obtain xs l where dat: "dat = xs @ [l]" using assms(4) by (cases dat rule: rev_cases) auto
  have "\<forall>i \<in> set xs. length (V i) = BLOCK_SIZE" using assms(3) dat by simp
  then have "length (concat (map V xs)) = length xs * BLOCK_SIZE" by (induction xs) auto
  moreover have "concat (map (\<lambda>i. if i = l then take r (V i) else V i) xs) = concat (map V xs)"
    using assms(1) dat by (intro arg_cong [where f = concat] map_cong) auto
  moreover have "sz - length xs * BLOCK_SIZE = r" "length xs * BLOCK_SIZE < sz"
    using last_block_size [of sz "length xs"] assms(2) dat r by simp_all
  ultimately show ?thesis by (simp add: dat)
qed

context block_device
begin

lemma exec_CaInode_data:
  assumes "distinct (ci_blocks ci)" and "length (ci_blocks ci) = data_count (ci_size ci)"
    and "\<forall>i \<in> set (ci_blocks ci). i < n \<and> (i, Write) \<notin> set H" and "length H < CACHE_SIZE"
  shows "exec n H V (CaInode_data ci)
    (\<lambda>r V'. V' = V \<and> r = take (ci_size ci) (concat (map V (ci_blocks ci))))"
proof (rule exec_wf)
  assume len: "\<And>i. i < n \<Longrightarrow> length (V i) = BLOCK_SIZE"
  let ?dat = "ci_blocks ci"
  have whole: "view_at data_block 0 (V i) = V i" if "i < n" for i
    using len [OF that] by (simp add: view_at_def data_block_def)
  define r where "r = (if ci_size ci mod BLOCK_SIZE \<noteq> 0 then ci_size ci mod BLOCK_SIZE else BLOCK_SIZE)"
  show "exec n H V (CaInode_data ci)
    (\<lambda>r V'. V' = V \<and> r = take (ci_size ci) (concat (map V (ci_blocks ci))))"
  proof (cases "?dat = []")
    case True
    then show ?thesis by (simp add: CaInode_data_def exec_ret)
  next
    case False
    let ?g = "\<lambda>i. if i = last ?dat then take r (V i) else V i"
    have run: "exec n H V (fold_each ?dat (\<lambda>i dat. read_at data_block i 0 (\<lambda>block.
        ret (dat @ (if i = last ?dat then take r block else block)))) [])
        (\<lambda>r V'. V' = V \<and> r = fold (\<lambda>i acc. acc @ ?g i) ?dat [])"
      using assms(3,4) by (intro exec_fold_each exec_read_at exec_ret) (auto simp: whole)
    have fold: "fold (\<lambda>i acc. acc @ g i) is acc = acc @ concat (map g is)" for g "is" and acc :: "u8 list"
      by (induction "is" arbitrary: acc) simp_all
    have "concat (map ?g ?dat) = take (ci_size ci) (concat (map V ?dat))"
      using assms(3) len by (intro concat_data [OF assms(1,2) _ False r_def]) simp
    then have "fold (\<lambda>i acc. acc @ ?g i) ?dat [] = take (ci_size ci) (concat (map V ?dat))"
      unfolding fold by simp
    with run False show ?thesis
      unfolding CaInode_data_def r_def [symmetric] by simp
  qed
qed

text \<open>A new inode is empty and touches its own block only; an inode read from the device has what is stored.\<close>

lemma exec_CaInode_new:
  assumes "length name \<le> NAME_LENGTH_LIMIT" and i: "i < n" "i \<notin> fst ` set H" and H: "length H < CACHE_SIZE"
  shows "exec n H V (CaInode_new num ty i 0 name) (\<lambda>ci V'.
    let m = view_at meta_view 0 (V' i); bs = name @ replicate (200 - length name) 0 in
    ci = \<lparr>inode_number = num, ci_type = ty, ci_size = 0, ci_block_id = i, ci_offset = 0,
      ci_name = bs, ci_blocks = []\<rparr> \<and>
    meta_rep n V' m [] [] \<and> meta_size m = 0 \<and> meta_type m = inode_type_disc ty \<and> meta_name m = bs \<and>
    (\<forall>j. j \<noteq> i \<longrightarrow> V' j = V j))"
proof (rule exec_wf)
  assume len: "\<And>i. i < n \<Longrightarrow> length (V i) = BLOCK_SIZE"
  let ?bs = "name @ replicate (200 - length name) 0"
  let ?old = "view_at meta_view 0 (V i)"
  let ?m = "Meta_init (inode_type_disc ty) ?bs ?old"
  have leni: "0 + vsize meta_view \<le> length (V i)" using len [OF i(1)] by (simp add: BLOCK_SIZE_def)
  have "meta_ok ?old" using meta_struct.valid_view_at [OF leni] by simp
  moreover have "length ?bs = 200" "inode_type_disc ty < U64_RANGE"
    using assms(1) by (cases ty; simp add: NAME_LENGTH_LIMIT_def U64_RANGE_def)+
  ultimately have ok: "meta_ok ?m" and dir: "direct ?m = replicate DIRECT_COUNT 0"
    by (auto simp: meta_ok_def Meta_init_def U64_RANGE_def map_replicate_const)
  have v: "view_at meta_view 0 (view_set meta_view 0 ?m (V i)) = ?m"
    "length (view_set meta_view 0 ?m (V i)) = BLOCK_SIZE"
    using meta_struct.view_at_set [OF ok leni] meta_struct.length_view_set [OF ok leni] len [OF i(1)]
    by simp_all
  show "exec n H V (CaInode_new num ty i 0 name) (\<lambda>ci V'.
    let m = view_at meta_view 0 (V' i); bs = name @ replicate (200 - length name) 0 in
    ci = \<lparr>inode_number = num, ci_type = ty, ci_size = 0, ci_block_id = i, ci_offset = 0,
      ci_name = bs, ci_blocks = []\<rparr> \<and>
    meta_rep n V' m [] [] \<and> meta_size m = 0 \<and> meta_type m = inode_type_disc ty \<and> meta_name m = bs \<and>
    (\<forall>j. j \<noteq> i \<longrightarrow> V' j = V j))"
    unfolding CaInode_new_def Let_def
    by (rule exec_bnd, rule exec_require [OF assms(1)], rule exec_bnd,
        rule exec_modify_at [OF i(1) H i(2)], simp add: BLOCK_SIZE_def, simp, rule exec_ret)
      (use v dir in \<open>auto simp: NAME_LENGTH_LIMIT_def intro!: exec_ret meta_rep_empty\<close>,
        simp_all add: Meta_init_def)
qed

lemma exec_CaInode_from:
  assumes i: "i < n" "(i, Write) \<notin> set H" and H: "length H + 5 \<le> CACHE_SIZE"
    and rep: "meta_rep n V m idx dat" and m: "m = view_at meta_view 0 (V i)"
    and ty: "meta_type m = inode_type_disc ty" and free: "\<forall>j \<in> set idx. (j, Write) \<notin> set H"
  shows "exec n H V (CaInode_from num i 0) (\<lambda>ci V'. V' = V \<and>
    ci = \<lparr>inode_number = num, ci_type = ty, ci_size = meta_size m, ci_block_id = i, ci_offset = 0,
      ci_name = meta_name m, ci_blocks = dat\<rparr>)"
proof -
  have "as_inode_type (meta_type m) = Inr ty" by (cases ty) (simp_all add: ty as_inode_type_def)
  moreover have "exec n ((i, Read) # H) V (Meta_blocks m) (\<lambda>r V'. V' = V \<and> r = (idx, dat))"
    by (rule exec_Meta_blocks [OF rep]) (use H free in auto)
  ultimately show ?thesis
    unfolding CaInode_from_def using i H
    by (intro exec_read_at) (auto simp: m BLOCK_SIZE_def intro!: exec_bnd exec_ret elim!: exec_mono)
qed

end

end
