(* ===== verification/Cafs_Files.thy ===== *)
theory Cafs_Files
  imports Cafs_Blocks
begin

text \<open>
  The files behind the blocks. \<open>files_at fs n V F own\<close> says that the blocks \<open>V\<close> of a
  device of \<open>n\<close> blocks hold exactly the files \<open>F\<close> (a map from inode numbers to type, name and
  contents), where \<open>own\<close> lists the index and data blocks of each file: the inode bitmap marks
  the inodes in use, the data bitmap marks exactly the blocks some file owns, and no block has
  two owners. The lemmas show what creating and writing a file does to this picture.
\<close>

record file_node =
  ftype :: inode_type
  fname :: "u8 list"
  fdata :: "u8 list"

type_synonym ownership = "nat \<Rightarrow> nat list \<times> nat list"

definition inode_meta :: "cafs \<Rightarrow> (nat \<Rightarrow> u8 list) \<Rightarrow> nat \<Rightarrow> meta" where
  "inode_meta fs V k = view_at meta_view 0 (V (inode_block fs k))"

definition file_at ::
    "cafs \<Rightarrow> nat \<Rightarrow> (nat \<Rightarrow> u8 list) \<Rightarrow> nat \<Rightarrow> file_node \<Rightarrow> nat list \<Rightarrow> nat list \<Rightarrow> bool" where
  "file_at fs n V k f idx dat \<longleftrightarrow>
     (let m = inode_meta fs V k in
      meta_rep n V m idx dat \<and> meta_size m = length (fdata f) \<and>
      meta_type m = inode_type_disc (ftype f) \<and> meta_name m = fname f \<and>
      take (length (fdata f)) (concat (map V dat)) = fdata f)"

definition blocks_of :: "ownership \<Rightarrow> nat \<Rightarrow> nat set" where
  "blocks_of own k = set (fst (own k)) \<union> set (snd (own k))"

text \<open>The super block describes the areas.\<close>

definition super_ok :: "cafs \<Rightarrow> (nat \<Rightarrow> u8 list) \<Rightarrow> bool" where
  "super_ok fs V \<longleftrightarrow>
     (let sb = view_at super_block_view 0 (V 0) in
      is_valid sb \<and> sb_inode_bitmap_blocks sb = blocks (inode_bitmap fs) \<and>
      sb_inode_area_blocks sb = blocks (inode_bitmap fs) * BLOCK_BITS \<and>
      sb_data_bitmap_blocks sb = blocks (data_bitmap fs))"

definition files_at ::
    "cafs \<Rightarrow> nat \<Rightarrow> (nat \<Rightarrow> u8 list) \<Rightarrow> (nat \<Rightarrow> file_node option) \<Rightarrow> ownership \<Rightarrow> bool" where
  "files_at fs n V F own \<longleftrightarrow>
     geometry fs n \<and> super_ok fs V \<and> dom F = bitmap_set (inode_bitmap fs) V \<and>
     (\<forall>k f. F k = Some f \<longrightarrow> file_at fs n V k f (fst (own k)) (snd (own k))) \<and>
     used fs V = (\<Union>k \<in> dom F. blocks_of own k) \<and>
     (\<forall>j \<in> dom F. \<forall>k \<in> dom F. j \<noteq> k \<longrightarrow> blocks_of own j \<inter> blocks_of own k = {})"

lemma files_at_geometry: "files_at fs n V F own \<Longrightarrow> geometry fs n"
  by (simp add: files_at_def)

lemma files_at_file:
  "files_at fs n V F own \<Longrightarrow> F k = Some f \<Longrightarrow> file_at fs n V k f (fst (own k)) (snd (own k))"
  by (simp add: files_at_def)

lemma files_at_used_eq: "files_at fs n V F own \<Longrightarrow> used fs V = (\<Union>k \<in> dom F. blocks_of own k)"
  by (simp add: files_at_def)

lemma files_at_range: "files_at fs n V F own \<Longrightarrow> F k = Some f \<Longrightarrow> k \<in> inode_range fs"
  by (auto simp: files_at_def bitmap_set_def inode_range_def)

lemma files_at_used: "files_at fs n V F own \<Longrightarrow> F k = Some f \<Longrightarrow> blocks_of own k \<subseteq> used fs V"
  unfolding files_at_def by blast

lemma file_at_cong:
  assumes "file_at fs n V k f idx dat" and "W (inode_block fs k) = V (inode_block fs k)"
    and "\<And>i. i \<in> set idx \<union> set dat \<Longrightarrow> W i = V i"
  shows "file_at fs n W k f idx dat"
proof -
  have m: "inode_meta fs W k = inode_meta fs V k" using assms(2) by (simp add: inode_meta_def)
  have "concat (map W dat) = concat (map V dat)" using assms(3) by (simp cong: map_cong)
  moreover have "meta_rep n W (inode_meta fs V k) idx dat"
  proof (rule meta_rep_cong)
    show "meta_rep n V (inode_meta fs V k) idx dat" using assms(1) by (simp add: file_at_def Let_def)
  qed (rule assms(3), simp)
  ultimately show ?thesis using assms(1) by (simp add: file_at_def Let_def m)
qed

lemma inode_block_inj: "inode_block fs j = inode_block fs k \<longleftrightarrow> j = k"
  by (simp add: inode_block_def)

lemma meta_rep_ok:
  assumes "meta_rep n V m idx dat" and "n < U64_RANGE" and "meta_type m < U64_RANGE"
    and "length (meta_name m) = 200"
  shows "meta_ok m"
proof -
  have ids: "\<forall>i \<in> set idx \<union> set dat. i < n" and dir: "direct m = take_pad DIRECT_COUNT dat"
    and sz: "meta_size m \<le> L4_MAX" using assms(1) by (auto simp: meta_rep_def)
  have "indirect m < U64_RANGE"
  proof (cases "idx = []")
    case True
    then show ?thesis using assms(1) by (simp add: meta_rep_def U64_RANGE_def)
  next
    case False
    with assms(1) obtain k where "tree_at n V k (indirect m) (drop DIRECT_COUNT dat)"
      by (auto simp: meta_rep_def)
    from tree_in_range [OF this] assms(2) show ?thesis by simp
  qed
  moreover have "\<forall>x \<in> set (direct m). x < U64_RANGE"
  proof
    fix x
    assume "x \<in> set (direct m)"
    then have "x = 0 \<or> x \<in> set dat" using dir set_take_pad [of DIRECT_COUNT dat] by auto
    then show "x < U64_RANGE"
    proof
      assume "x \<in> set dat"
      then have "x < n" using ids by simp
      with assms(2) show ?thesis by simp
    qed (simp add: U64_RANGE_def)
  qed
  moreover have "meta_size m < U64_RANGE" using sz by (simp add: layout_consts U64_RANGE_def)
  ultimately show ?thesis using assms(3,4) dir by (simp add: meta_ok_def)
qed

text \<open>Blocks of one file lie outside the bitmaps, the inodes and the other files.\<close>

lemma files_at_frame:
  assumes "files_at fs n V F own" and "F j = Some g" and "j \<noteq> k"
    and "X \<subseteq> blocks_of own k \<union> (data_area fs - used fs V)" and "k \<in> dom F \<or> blocks_of own k = {}"
  shows "blocks_of own j \<inter> X = {}" "inode_block fs j \<notin> X" "inode_block fs j \<notin> bitmap_area (data_bitmap fs)"
    "blocks_of own j \<inter> bitmap_area (data_bitmap fs) = {}"
proof -
  have geo: "geometry fs n" using assms(1) by (rule files_at_geometry)
  have j: "j \<in> inode_range fs" "blocks_of own j \<subseteq> used fs V"
    using files_at_range [OF assms(1,2)] files_at_used [OF assms(1,2)] by auto
  have "\<forall>j \<in> dom F. \<forall>k \<in> dom F. j \<noteq> k \<longrightarrow> blocks_of own j \<inter> blocks_of own k = {}"
    using assms(1) by (simp add: files_at_def)
  then have "blocks_of own j \<inter> blocks_of own k = {}" using assms(2,3,5) by blast
  with j assms(4) show "blocks_of own j \<inter> X = {}" by blast
  have "blocks_of own k \<subseteq> used fs V" using assms(1,5) files_at_used by blast
  then have "X \<subseteq> data_area fs" using assms(4) used_subset [of fs V] by blast
  then show "inode_block fs j \<notin> X" using geometry_disjoint(6) [OF geo j(1)] by blast
  show "inode_block fs j \<notin> bitmap_area (data_bitmap fs)" by (rule geometry_disjoint(5) [OF geo j(1)])
  show "blocks_of own j \<inter> bitmap_area (data_bitmap fs) = {}"
    using geometry_disjoint(3) [OF geo] j(2) used_subset [of fs V] by blast
qed

section \<open>Writing a file\<close>

lemma take_take_bytes: "length bs \<le> n \<Longrightarrow> take (length bs) (take_bytes n bs) = bs"
  by (simp add: take_bytes_def)

lemma data_count_ge: "sz \<le> data_count sz * BLOCK_SIZE"
  using cdiv_ge [of BLOCK_SIZE sz] by (simp add: data_count_def mult.commute)

text \<open>
  \<open>V1\<close> are the blocks after the inode was grown, \<open>W\<close> the blocks after the inode and the data
  were written back.
\<close>

lemma file_at_written:
  assumes g: "grown fs n V m idx dat (length contents) idx' blks m' V1"
    and ib: "inode_block fs k \<notin> set idx'" "inode_block fs k \<notin> set blks"
    and m: "meta_type m = inode_type_disc (ftype f)" "meta_name m = fname f"
    and W: "inode_meta fs W k = m'"
      "\<forall>j. j \<notin> set blks \<longrightarrow> j \<noteq> inode_block fs k \<longrightarrow> W j = V1 j"
      "concat (map W blks) = take_bytes (length blks * BLOCK_SIZE) contents"
  shows "file_at fs n W k (f\<lparr>fdata := contents\<rparr>) idx' blks"
proof -
  have rep: "meta_rep n V1 m' idx' blks" and sz: "meta_size m' = length contents"
    using g by (simp_all add: grown_def)
  have "meta_rep n W m' idx' blks"
  proof (rule meta_rep_cong [OF rep])
    fix i
    assume "i \<in> set idx'"
    moreover have "set idx' \<inter> set blks = {}" using rep by (simp add: meta_rep_def)
    ultimately show "W i = V1 i" using W(2) ib(1) by (metis disjoint_iff)
  qed
  moreover have "length contents \<le> length blks * BLOCK_SIZE"
    using rep sz data_count_ge [of "length contents"] by (simp add: meta_rep_def)
  ultimately show ?thesis
    using g sz m W(1,3) by (simp add: file_at_def Let_def inode_meta_def grown_def take_take_bytes)
qed

text \<open>Putting one file in the place of another, or adding one.\<close>

lemma files_at_update:
  assumes fa: "files_at fs n V F own" and k: "k \<in> dom F \<or> blocks_of own k = {}"
    and f': "file_at fs n W k f' idx' dat'"
    and X: "set (idx' @ dat') \<subseteq> blocks_of own k \<union> (data_area fs - used fs V)"
      "blocks_of own k \<subseteq> set (idx' @ dat')"
    and ibm: "bitmap_set (inode_bitmap fs) W = insert k (bitmap_set (inode_bitmap fs) V)"
    and used: "used fs W = used fs V \<union> set (idx' @ dat')"
    and super: "W 0 = V 0"
    and same: "\<And>j h i. F j = Some h \<Longrightarrow> j \<noteq> k \<Longrightarrow> i = inode_block fs j \<or> i \<in> blocks_of own j \<Longrightarrow> W i = V i"
  shows "files_at fs n W (F(k \<mapsto> f')) (own(k := (idx', dat')))"
proof -
  let ?own = "own(k := (idx', dat'))"
  have own': "blocks_of ?own j = (if j = k then set (idx' @ dat') else blocks_of own j)" for j
    by (simp add: blocks_of_def)
  have old: "blocks_of own i \<inter> blocks_of own j = {}" if "i \<in> dom F" "j \<in> dom F" "i \<noteq> j" for i j
    using fa that by (simp add: files_at_def)
  have new: "blocks_of own j \<inter> set (idx' @ dat') = {}" if "j \<in> dom F" "j \<noteq> k" for j
    using files_at_frame(1) [OF fa _ that(2) X(1) k] that(1) by blast
  show ?thesis
    unfolding files_at_def
  proof (intro conjI allI impI ballI)
    show "geometry fs n" by (rule files_at_geometry [OF fa])
    show "super_ok fs W" using fa super by (simp add: files_at_def super_ok_def)
    show "dom (F(k \<mapsto> f')) = bitmap_set (inode_bitmap fs) W" using fa ibm by (simp add: files_at_def)
    show "used fs W = (\<Union>j \<in> dom (F(k \<mapsto> f')). blocks_of ?own j)"
      using fa k X(2) used unfolding files_at_def own' by (auto split: if_splits)
    show "file_at fs n W j h (fst (?own j)) (snd (?own j))" if "(F(k \<mapsto> f')) j = Some h" for j h
    proof (cases "j = k")
      case False
      with that have j: "F j = Some h" by simp
      with False show ?thesis
        by (simp, intro file_at_cong [OF files_at_file [OF fa j]])
          (use same [OF j False] in \<open>auto simp: blocks_of_def\<close>)
    qed (use that f' in simp)
    show "blocks_of ?own i \<inter> blocks_of ?own j = {}"
      if "i \<in> dom (F(k \<mapsto> f'))" "j \<in> dom (F(k \<mapsto> f'))" "i \<noteq> j" for i j
      using that old [of i j] new [of i] new [of j] unfolding own' by (auto split: if_splits)
  qed
qed

lemma files_at_written:
  assumes fa: "files_at fs n V F own" and k: "F k = Some f"
    and g: "grown fs n V (inode_meta fs V k) (fst (own k)) (snd (own k)) (length contents) idx' blks m' V1"
    and W: "inode_meta fs W k = m'"
      "\<forall>j. j \<notin> set blks \<longrightarrow> j \<noteq> inode_block fs k \<longrightarrow> W j = V1 j"
      "concat (map W blks) = take_bytes (length blks * BLOCK_SIZE) contents"
  shows "files_at fs n W (F(k \<mapsto> f\<lparr>fdata := contents\<rparr>)) (own(k := (idx', blks)))"
proof (rule files_at_update [OF fa])
  let ?X = "set (idx' @ blks)" and ?ib = "inode_block fs k"
  note geo = files_at_geometry [OF fa]
  have kr: "k \<in> inode_range fs" by (rule files_at_range [OF fa k])
  show X: "?X \<subseteq> blocks_of own k \<union> (data_area fs - used fs V)" "blocks_of own k \<subseteq> ?X"
    using g unfolding grown_def blocks_of_def by auto
  have used1: "used fs V1 = used fs V \<union> ?X"
    and frame1: "\<And>j. j \<notin> bitmap_area (data_bitmap fs) \<Longrightarrow> j \<notin> ?X \<Longrightarrow> V1 j = V j"
    using g unfolding grown_def blocks_of_def by auto
  have Xd: "?X \<subseteq> data_area fs" using used1 used_subset [of fs V1] by blast
  have ibX: "?ib \<notin> ?X" using geometry_disjoint(6) [OF geo kr] Xd by blast
  have same: "W j = V j" if "j \<notin> bitmap_area (data_bitmap fs)" "j \<notin> ?X" "j \<noteq> ?ib" for j
    using that W(2) frame1 [of j] by simp
  show kd: "k \<in> dom F \<or> blocks_of own k = {}" using k by blast
  have m: "meta_type (inode_meta fs V k) = inode_type_disc (ftype f)" "meta_name (inode_meta fs V k) = fname f"
    using files_at_file [OF fa k] by (simp_all add: file_at_def Let_def)
  show "file_at fs n W k (f\<lparr>fdata := contents\<rparr>) idx' blks"
    by (rule file_at_written [OF g _ _ m W]) (use ibX in auto)
  have "bitmap_set (inode_bitmap fs) W = bitmap_set (inode_bitmap fs) V"
    using geometry_disjoint(1,2,4) [OF geo] kr Xd by (intro bitmap_set_cong same) blast+
  moreover have "k \<in> bitmap_set (inode_bitmap fs) V" using fa k by (auto simp: files_at_def)
  ultimately show "bitmap_set (inode_bitmap fs) W = insert k (bitmap_set (inode_bitmap fs) V)" by blast
  have "W i = V1 i" if "i \<in> bitmap_area (data_bitmap fs)" for i
  proof -
    have "i \<noteq> ?ib" "i \<notin> set blks"
      using that geometry_disjoint(3,5) [OF geo] kr Xd by auto
    then show ?thesis using W(2) by blast
  qed
  then show "used fs W = used fs V \<union> ?X" using used_cong used1 by metis
  show "W 0 = V 0"
    using geometry_disjoint(8,9,11) [OF geo] Xd by (intro same) (metis less_irrefl subsetD)+
  fix j h i
  assume j: "F j = Some h" "j \<noteq> k" and i: "i = inode_block fs j \<or> i \<in> blocks_of own j"
  note fr = files_at_frame [OF fa j X(1) kd]
  have "blocks_of own j \<subseteq> data_area fs" using files_at_used [OF fa j(1)] used_subset by blast
  then have "i \<noteq> ?ib" using i j(2) geometry_disjoint(6) [OF geo kr] inode_block_inj [of fs j k] by auto
  moreover have "i \<notin> ?X" "i \<notin> bitmap_area (data_bitmap fs)" using i fr by blast+
  ultimately show "W i = V i" by (intro same)
qed

context block_device
begin

text \<open>The two steps of \<open>write\<close>: grow the inode, then fill its blocks.\<close>

lemma exec_write_inode:
  assumes fa: "files_at fs n V F own" and k: "F k = Some f"
    and sz: "data_count (length (fdata f)) \<le> data_count new_size" "new_size \<le> L4_MAX"
    and room: "growth (length (fdata f)) new_size \<le> free_blocks fs V"
  shows "exec n [] V (modify_at meta_view (inode_block fs k) 0 (write_meta fs new_size)) (\<lambda>blks V'.
    \<exists>idx' m' V1. grown fs n V (inode_meta fs V k) (fst (own k)) (snd (own k)) new_size idx' blks m' V1 \<and>
      inode_meta fs V' k = m' \<and> (\<forall>j. j \<noteq> inode_block fs k \<longrightarrow> V' j = V1 j))"
proof (rule exec_wf)
  assume len: "\<And>i. i < n \<Longrightarrow> length (V i) = BLOCK_SIZE" and n: "n < U64_RANGE"
  let ?i = "inode_block fs k" and ?m = "inode_meta fs V k"
  note geo = files_at_geometry [OF fa]
  have kr: "k \<in> inode_range fs" by (rule files_at_range [OF fa k])
  have i: "?i < n" "?i \<notin> bitmap_area (data_bitmap fs)" "?i \<notin> data_area fs"
    using geometry_disjoint(5-7) [OF geo kr] by auto
  have at: "meta_rep n V ?m (fst (own k)) (snd (own k))" "meta_size ?m = length (fdata f)"
    using files_at_file [OF fa k] by (simp_all add: file_at_def Let_def)
  have own: "set (fst (own k) @ snd (own k)) \<subseteq> used fs V"
    using files_at_used [OF fa k] by (simp add: blocks_of_def)
  have fit: "0 + vsize meta_view \<le> BLOCK_SIZE" by (simp add: BLOCK_SIZE_def)
  have mok: "meta_ok ?m" unfolding inode_meta_def
    using meta_struct.valid_view_at [of 0 "V ?i"] len [OF i(1)] fit by simp
  have stored: "length (view_set meta_view 0 m' (V1 ?i)) = BLOCK_SIZE"
    "view_at meta_view 0 (view_set meta_view 0 m' (V1 ?i)) = m'"
    if g: "grown fs n V ?m (fst (own k)) (snd (own k)) new_size idx' blks m' V1" for idx' blks m' V1
  proof -
    have "set idx' \<subseteq> data_area fs" using g used_subset [of fs V1] by (auto simp: grown_def)
    then have "V1 ?i = V ?i" using g i by (auto simp: grown_def)
    then have l: "0 + vsize meta_view \<le> length (V1 ?i)" "length (V1 ?i) = BLOCK_SIZE"
      using len [OF i(1)] fit by simp_all
    have "meta_ok m'" using g mok n meta_rep_ok [of n V1 m' idx' blks] by (auto simp: grown_def meta_ok_def)
    from meta_struct.view_at_set [OF this l(1)] meta_struct.length_view_set [OF this l(1)] l(2)
    show "length (view_set meta_view 0 m' (V1 ?i)) = BLOCK_SIZE"
      "view_at meta_view 0 (view_set meta_view 0 m' (V1 ?i)) = m'" by simp_all
  qed
  have "exec n [(?i, Write)] V (write_meta fs new_size ?m)
      (\<lambda>(blks, m') V1. \<exists>idx'. grown fs n V ?m (fst (own k)) (snd (own k)) new_size idx' blks m' V1)"
    by (rule exec_write_meta [OF geo at(1) own _ sz(2)]) (use sz room at(2) i in \<open>auto simp: CACHE_SIZE_def\<close>)
  note run = this
  let ?P = "\<lambda>blks V'. \<exists>idx' m' V1. grown fs n V ?m (fst (own k)) (snd (own k)) new_size idx' blks m' V1 \<and>
      inode_meta fs V' k = m' \<and> (\<forall>j. j \<noteq> ?i \<longrightarrow> V' j = V1 j)"
  have fin: "?P blks (V1(?i := view_set meta_view 0 m' (V1 ?i)))"
    if "grown fs n V ?m (fst (own k)) (snd (own k)) new_size idx' blks m' V1" for idx' blks m' V1
    using that stored(2) [OF that] by (intro exI [of _ idx'] exI [of _ m'] exI [of _ V1])
      (simp add: inode_meta_def)
  show "exec n [] V (modify_at meta_view ?i 0 (write_meta fs new_size)) ?P"
  proof (rule exec_modify_at [OF i(1)])
    show "exec n [(?i, Write)] V (write_meta fs new_size (view_at meta_view 0 (V ?i)))
      (\<lambda>(blks, m') V1. length (view_set meta_view 0 m' (V1 ?i)) = BLOCK_SIZE \<and>
        ?P blks (V1(?i := view_set meta_view 0 m' (V1 ?i))))"
      unfolding inode_meta_def [symmetric]
      by (rule exec_mono [OF run]) (use stored(1) fin in \<open>auto simp del: fun_upd_apply\<close>)
  qed (use fit in \<open>simp_all add: CACHE_SIZE_def\<close>)
qed

lemma exec_fill_blocks:
  assumes fa: "files_at fs n V F own" and k: "F k = Some f"
    and g: "grown fs n V (inode_meta fs V k) (fst (own k)) (snd (own k)) (length contents) idx' blks m' V1"
    and V2: "inode_meta fs V2 k = m'" "\<forall>j. j \<noteq> inode_block fs k \<longrightarrow> V2 j = V1 j"
  shows "exec n [] V2 (write_blocks blks contents)
    (\<lambda>_ W. files_at fs n W (F(k \<mapsto> f\<lparr>fdata := contents\<rparr>)) (own(k := (idx', blks))))"
proof -
  note geo = files_at_geometry [OF fa]
  have kr: "k \<in> inode_range fs" by (rule files_at_range [OF fa k])
  have rep: "meta_rep n V1 m' idx' blks" and "set blks \<subseteq> used fs V1" using g by (auto simp: grown_def)
  then have ib: "inode_block fs k \<notin> set blks"
    using geometry_disjoint(6) [OF geo kr] used_subset [of fs V1] by blast
  have "exec n [] V2 (write_blocks blks contents) (\<lambda>_ W.
      concat (map W blks) = take_bytes (length blks * BLOCK_SIZE) contents \<and> (\<forall>i. i \<notin> set blks \<longrightarrow> W i = V2 i))"
    using rep by (intro exec_write_blocks) (auto simp: meta_rep_def CACHE_SIZE_def)
  then show ?thesis
    by (rule exec_mono) (use ib V2 in \<open>intro files_at_written [OF fa k g], auto simp: inode_meta_def\<close>)
qed

end

section \<open>New files and inodes in memory\<close>

lemma files_at_not_owned:
  assumes "files_at fs n V F own" and "F k = None"
  shows "files_at fs n V F (own(k := ([], [])))"
proof -
  have "j \<in> dom F \<Longrightarrow> blocks_of (own(k := ([], []))) j = blocks_of own j" for j
    using assms(2) by (auto simp: blocks_of_def)
  then show ?thesis using assms unfolding files_at_def by (auto 4 3)
qed

definition new_file :: "inode_type \<Rightarrow> u8 list \<Rightarrow> file_node" where
  "new_file ty name = \<lparr>ftype = ty, fname = name @ replicate (200 - length name) 0, fdata = []\<rparr>"

lemma files_at_new:
  assumes fa: "files_at fs n V F own" and k: "F k = None" "k \<in> inode_range fs"
    and ibm: "bitmap_set (inode_bitmap fs) V1 = insert k (bitmap_set (inode_bitmap fs) V)"
      "\<forall>i. i \<notin> bitmap_area (inode_bitmap fs) \<longrightarrow> V1 i = V i"
    and m: "meta_rep n W m [] []" "m = inode_meta fs W k" "meta_size m = 0"
      "meta_type m = inode_type_disc ty" "meta_name m = fname (new_file ty name)"
    and W: "\<forall>i. i \<noteq> inode_block fs k \<longrightarrow> W i = V1 i"
  shows "files_at fs n W (F(k \<mapsto> new_file ty name)) (own(k := ([], [])))"
proof -
  let ?own = "own(k := ([], []))"
  note geo = files_at_geometry [OF fa]
  have fa': "files_at fs n V F ?own" by (rule files_at_not_owned [OF fa k(1)])
  have db: "i \<notin> bitmap_area (inode_bitmap fs)" "i \<noteq> inode_block fs k"
    if "i \<in> bitmap_area (data_bitmap fs) \<or> i \<in> data_area fs" for i
    using that geometry_disjoint(1,2) [OF geo] geometry_disjoint(5,6) [OF geo k(2)] by auto
  have "files_at fs n W (F(k \<mapsto> new_file ty name)) (?own(k := ([], [])))"
  proof (rule files_at_update [OF fa'])
    show "file_at fs n W k (new_file ty name) [] []"
      using m by (simp add: file_at_def new_file_def)
    have "bitmap_set (inode_bitmap fs) W = bitmap_set (inode_bitmap fs) V1"
      using W geometry_disjoint(4) [OF geo k(2)] by (intro bitmap_set_cong) metis
    with ibm(1) show "bitmap_set (inode_bitmap fs) W = insert k (bitmap_set (inode_bitmap fs) V)" by simp
    have "used fs W = used fs V" using W ibm(2) db by (intro used_cong) auto
    then show "used fs W = used fs V \<union> set ([] @ [])" by simp
    have "0 \<notin> bitmap_area (inode_bitmap fs)" "0 \<noteq> inode_block fs k"
      using geometry_disjoint(10,11) [OF geo] by (metis less_irrefl)+
    then show "W 0 = V 0" using W ibm(2) by simp
    fix j h i
    assume j: "F j = Some h" "j \<noteq> k" and i: "i = inode_block fs j \<or> i \<in> blocks_of ?own j"
    have jr: "j \<in> inode_range fs" by (rule files_at_range [OF fa j(1)])
    have "blocks_of ?own j \<subseteq> data_area fs" using files_at_used [OF fa' j(1)] used_subset by blast
    then have "i \<notin> bitmap_area (inode_bitmap fs) \<and> i \<noteq> inode_block fs k"
      using i db [of i] j(2) inode_block_inj [of fs j k] geometry_disjoint(4) [OF geo jr] by auto
    then show "W i = V i" using W ibm(2) by simp
  qed (simp_all add: blocks_of_def)
  then show ?thesis by simp
qed

text \<open>The inode in memory that mirrors a file.\<close>

definition mirror :: "cafs \<Rightarrow> file_node \<Rightarrow> nat \<Rightarrow> nat list \<Rightarrow> ca_inode" where
  "mirror fs f k dat = \<lparr>inode_number = k, ci_type = ftype f, ci_size = length (fdata f),
     ci_block_id = inode_block fs k, ci_offset = 0, ci_name = fname f, ci_blocks = dat\<rparr>"

context block_device
begin

lemma exec_new_inode:
  assumes fa: "files_at fs n V F own" and k: "F k = None" "k \<in> inode_range fs"
    and ibm: "bitmap_set (inode_bitmap fs) V1 = insert k (bitmap_set (inode_bitmap fs) V)"
      "\<forall>i. i \<notin> bitmap_area (inode_bitmap fs) \<longrightarrow> V1 i = V i"
    and name: "length name \<le> NAME_LENGTH_LIMIT"
  shows "exec n [] V1 (CaInode_new k ty (inode_block fs k) 0 name) (\<lambda>ci W.
    ci = mirror fs (new_file ty name) k [] \<and>
    files_at fs n W (F(k \<mapsto> new_file ty name)) (own(k := ([], []))) \<and> free_blocks fs W = free_blocks fs V)"
proof -
  note geo = files_at_geometry [OF fa]
  have i: "inode_block fs k < n" by (rule geometry_disjoint(7) [OF geo k(2)])
  have keep: "free_blocks fs W = free_blocks fs V" if "\<forall>j. j \<noteq> inode_block fs k \<longrightarrow> W j = V1 j" for W
  proof -
    have "used fs W = used fs V"
      using that ibm(2) geometry_disjoint(1) [OF geo] geometry_disjoint(5) [OF geo k(2)]
      by (intro used_cong) (metis disjoint_iff)
    then show ?thesis by (simp add: free_blocks_def)
  qed
  show ?thesis
    by (rule exec_mono [OF exec_CaInode_new [OF name i]])
      (auto simp: Let_def mirror_def new_file_def CACHE_SIZE_def inode_meta_def
        intro!: files_at_new [OF fa k ibm, unfolded new_file_def] keep)
qed

lemma exec_load_inode:
  assumes fa: "files_at fs n V F own" and k: "F k = Some f"
  shows "exec n [] V (CaInode_from k (inode_block fs k) 0)
    (\<lambda>ci V'. V' = V \<and> ci = mirror fs f k (snd (own k)))"
proof -
  have i: "inode_block fs k < n"
    by (rule geometry_disjoint(7) [OF files_at_geometry [OF fa] files_at_range [OF fa k]])
  have at: "meta_rep n V (inode_meta fs V k) (fst (own k)) (snd (own k))"
    "meta_type (inode_meta fs V k) = inode_type_disc (ftype f)"
    "meta_size (inode_meta fs V k) = length (fdata f)" "meta_name (inode_meta fs V k) = fname f"
    using files_at_file [OF fa k] by (simp_all add: file_at_def Let_def)
  show ?thesis
    by (rule exec_mono [OF exec_CaInode_from [OF i _ _ at(1) _ at(2)]])
      (use at(3,4) in \<open>simp_all add: inode_meta_def CACHE_SIZE_def mirror_def\<close>)
qed

lemma exec_file_data:
  assumes fa: "files_at fs n V F own" and k: "F k = Some f"
  shows "exec n [] V (CaInode_data (mirror fs f k (snd (own k)))) (\<lambda>r V'. V' = V \<and> r = fdata f)"
proof -
  have rep: "meta_rep n V (inode_meta fs V k) (fst (own k)) (snd (own k))"
    "meta_size (inode_meta fs V k) = length (fdata f)"
    "take (length (fdata f)) (concat (map V (snd (own k)))) = fdata f"
    using files_at_file [OF fa k] by (simp_all add: file_at_def Let_def)
  then show ?thesis
    using exec_CaInode_data [of "mirror fs f k (snd (own k))" n "[]" V]
    by (auto simp: mirror_def meta_rep_def CACHE_SIZE_def elim!: exec_mono)
qed

end

end
