(* ===== verification/Inode_Cache.thy ===== *)
theory Inode_Cache
  imports Cafs_Files
begin

text \<open>
  The queue of cached inodes of \<^verbatim>\<open>src/fs/src/cafs/mod.rs\<close> and its reference counts. The
  invariant \<open>handles_ok\<close> says that every cached inode mirrors a file, that no file is cached
  under two addresses and that every reference somebody holds points to a cached inode: a
  reference never goes stale. \<open>room\<close> counts how many more inodes can be pinned before the
  queue panics.
\<close>

section \<open>Room in the queue\<close>

definition unpinned :: "nat multiset \<Rightarrow> nat multiset \<Rightarrow> nat multiset" where
  "unpinned Q R = {#h \<in># Q. count Q h + count R h = 1#}"

definition free_slots :: "nat multiset \<Rightarrow> nat multiset \<Rightarrow> nat" where
  "free_slots Q R = (INODE_CACHE_SIZE - size Q) + size (unpinned Q R)"

definition room :: "'d cafs_state \<Rightarrow> nat" where
  "room st = free_slots (mset (inode_cache st)) (mset (refs st))"

lemma unpinned_add_free: "h \<notin># Q \<Longrightarrow> h \<notin># R \<Longrightarrow> unpinned (add_mset h Q) R = add_mset h (unpinned Q R)"
  by (rule multiset_eqI) (auto simp: unpinned_def not_in_iff)

lemma unpinned_add_pinned: "h \<in># R \<Longrightarrow> unpinned (add_mset h Q) R = unpinned Q R"
proof (rule multiset_eqI)
  fix x
  assume "h \<in># R"
  then have "0 < count R h" by simp
  then show "count (unpinned (add_mset h Q) R) x = count (unpinned Q R) x"
    by (auto simp: unpinned_def simp del: count_greater_zero_iff)
qed

text \<open>Replacing an unpinned entry keeps the room; so does caching an inode nobody keeps.\<close>

lemma free_slots_evict:
  assumes "count Q h + count R h = 1" and "h \<in># Q" and "size Q = INODE_CACHE_SIZE"
  shows "free_slots (Q - {#h#}) R = free_slots Q R"
proof -
  obtain P where Q: "Q = add_mset h P" using assms(2) by (metis insert_DiffM)
  then have "h \<notin># P" "h \<notin># R" using assms(1) by (auto simp: not_in_iff)
  then show ?thesis using assms(3) by (auto simp: free_slots_def Q unpinned_add_free)
qed

lemma free_slots_add_free:
  "h \<notin># Q \<Longrightarrow> h \<notin># R \<Longrightarrow> size Q < INODE_CACHE_SIZE \<Longrightarrow> free_slots (add_mset h Q) R = free_slots Q R"
  by (simp add: free_slots_def unpinned_add_free)

text \<open>A pinned entry costs one place.\<close>

lemma free_slots_add_pinned:
  "h \<in># R \<Longrightarrow> size Q < INODE_CACHE_SIZE \<Longrightarrow> free_slots (add_mset h Q) R + 1 = free_slots Q R"
  by (simp add: free_slots_def unpinned_add_pinned)

lemma free_slots_add_ref: "free_slots Q R \<le> free_slots Q (add_mset h R) + 1"
proof -
  have "unpinned Q R \<subseteq># add_mset h (unpinned Q (add_mset h R))"
    by (rule mset_subset_eqI) (auto simp: unpinned_def)
  from size_mset_mono [OF this] show ?thesis by (simp add: free_slots_def)
qed

lemma free_slots_ref_other: "h \<notin># Q \<Longrightarrow> free_slots Q (add_mset h R) = free_slots Q R"
proof -
  assume "h \<notin># Q"
  then have "unpinned Q (add_mset h R) = unpinned Q R"
    unfolding unpinned_def by (intro filter_mset_cong) auto
  then show ?thesis by (simp add: free_slots_def)
qed

lemma free_slots_mono_refs: "R \<subseteq># R' \<Longrightarrow> free_slots Q R' \<le> free_slots Q R"
proof -
  assume sub: "R \<subseteq># R'"
  have "unpinned Q R' \<subseteq># unpinned Q R"
  proof (rule mset_subset_eqI)
    fix x
    have "count R x \<le> count R' x" using sub by (rule mset_subset_eq_count)
    then show "count (unpinned Q R') x \<le> count (unpinned Q R) x" by (auto simp: unpinned_def)
  qed
  from size_mset_mono [OF this] show ?thesis by (simp add: free_slots_def)
qed

lemma room_find:
  assumes "0 < room st" and "length (inode_cache st) = INODE_CACHE_SIZE"
  obtains i where "find_pos (\<lambda>h. Arc_strong_count st h = 1) (inode_cache st) = Some i"
proof -
  have cnt: "Arc_strong_count st h = count (mset (inode_cache st)) h + count (mset (refs st)) h" for h
    by (simp add: Arc_strong_count_def count_mset)
  have "size (unpinned (mset (inode_cache st)) (mset (refs st))) \<noteq> 0"
    using assms by (auto simp: room_def free_slots_def)
  then have "{#h \<in># mset (inode_cache st). Arc_strong_count st h = 1#} \<noteq> {#}"
    unfolding cnt unpinned_def by (metis size_empty)
  then have "find_pos (\<lambda>h. Arc_strong_count st h = 1) (inode_cache st) \<noteq> None"
    by (auto simp: find_pos_None elim!: multiset_nonemptyE)
  then show thesis using that by blast
qed

section \<open>The invariant\<close>

definition handle_ok :: "cafs \<Rightarrow> (nat \<Rightarrow> file_node option) \<Rightarrow> ownership \<Rightarrow> 'd cafs_state \<Rightarrow> nat \<Rightarrow> bool" where
  "handle_ok fs F own st h \<longleftrightarrow> h < next_arc st \<and>
     (\<exists>k f. F k = Some f \<and> arcs st h = Some (mirror fs f k (snd (own k))))"

definition number_of :: "'d cafs_state \<Rightarrow> nat \<Rightarrow> nat option" where
  "number_of st h = map_option inode_number (arcs st h)"

definition cache_ok :: "cafs \<Rightarrow> (nat \<Rightarrow> file_node option) \<Rightarrow> ownership \<Rightarrow> 'd cafs_state \<Rightarrow> bool" where
  "cache_ok fs F own st \<longleftrightarrow>
     length (inode_cache st) \<le> INODE_CACHE_SIZE \<and>
     (\<forall>h \<in> set (inode_cache st). handle_ok fs F own st h) \<and> inj_on (number_of st) (set (inode_cache st))"

definition handles_ok :: "cafs \<Rightarrow> (nat \<Rightarrow> file_node option) \<Rightarrow> ownership \<Rightarrow> 'd cafs_state \<Rightarrow> bool" where
  "handles_ok fs F own st \<longleftrightarrow> cache_ok fs F own st \<and> set (refs st) \<subseteq> set (inode_cache st)"

lemma mirror_simps [simp]:
  "inode_number (mirror fs f k dat) = k" "ci_type (mirror fs f k dat) = ftype f"
  "ci_size (mirror fs f k dat) = length (fdata f)" "ci_name (mirror fs f k dat) = fname f"
  "ci_blocks (mirror fs f k dat) = dat"
  by (simp_all add: mirror_def)

lemma number_of_update [simp]:
  "number_of (st\<lparr>inode_cache := q\<rparr>) = number_of st" "number_of (st\<lparr>refs := r\<rparr>) = number_of st"
  "number_of (st\<lparr>blk_cache := c\<rparr>) = number_of st" "number_of (st\<lparr>next_arc := i\<rparr>) = number_of st"
  by (simp_all add: number_of_def fun_eq_iff)

lemma handle_ok_update [simp]:
  "handle_ok fs F own (st\<lparr>inode_cache := q\<rparr>) h = handle_ok fs F own st h"
  "handle_ok fs F own (st\<lparr>refs := r\<rparr>) h = handle_ok fs F own st h"
  "handle_ok fs F own (st\<lparr>blk_cache := c\<rparr>) h = handle_ok fs F own st h"
  by (simp_all add: handle_ok_def)

lemma cache_ok_update [simp]:
  "cache_ok fs F own (st\<lparr>refs := r\<rparr>) = cache_ok fs F own st"
  "cache_ok fs F own (st\<lparr>blk_cache := c\<rparr>) = cache_ok fs F own st"
  by (simp_all add: cache_ok_def)

lemma cache_ok_cong:
  "inode_cache st' = inode_cache st \<Longrightarrow> arcs st' = arcs st \<Longrightarrow> next_arc st' = next_arc st \<Longrightarrow>
   cache_ok fs F own st' \<Longrightarrow> cache_ok fs F own st"
  by (simp add: cache_ok_def handle_ok_def number_of_def [abs_def])

lemma room_blk_cache [simp]: "room (st\<lparr>blk_cache := c\<rparr>) = room st"
  by (simp add: room_def)

lemma handle_ok_cong:
  "arcs st' h = arcs st h \<Longrightarrow> next_arc st \<le> next_arc st' \<Longrightarrow> handle_ok fs F own st h \<Longrightarrow>
   handle_ok fs F own st' h"
  by (auto simp: handle_ok_def)

lemma find_inode_Some:
  assumes "cache_ok fs F own st" and "find_inode k st = Some h"
  shows "h \<in> set (inode_cache st)" "\<exists>f. F k = Some f \<and> arcs st h = Some (mirror fs f k (snd (own k)))"
proof -
  from assms(2) show h: "h \<in> set (inode_cache st)" by (auto simp: find_inode_def find_Some_iff)
  then have "handle_ok fs F own st h" using assms(1) by (simp add: cache_ok_def)
  then obtain k' f where "F k' = Some f" "arcs st h = Some (mirror fs f k' (snd (own k')))"
    by (auto simp: handle_ok_def)
  moreover from this assms(2) have "k' = k"
    by (auto simp: find_inode_def find_Some_iff split: option.splits)
  ultimately show "\<exists>f. F k = Some f \<and> arcs st h = Some (mirror fs f k (snd (own k)))" by blast
qed

lemma find_inode_None:
  "find_inode k st = None \<Longrightarrow> h \<in> set (inode_cache st) \<Longrightarrow> number_of st h \<noteq> Some k"
  by (auto simp: find_inode_def find_None_iff number_of_def split: option.splits)

lemma find_inode_cached:
  "h \<in> set (inode_cache st) \<Longrightarrow> number_of st h = Some k \<Longrightarrow> find_inode k st \<noteq> None"
  using find_inode_None by blast

lemma substitute_inode_ok:
  assumes ok: "cache_ok fs F own st" and room: "0 < room st"
  shows "runs substitute_inode st (\<lambda>_ st'. \<exists>q. st' = st\<lparr>inode_cache := q\<rparr> \<and> cache_ok fs F own st' \<and>
    length q < INODE_CACHE_SIZE \<and> room st' = room st \<and> set q \<subseteq> set (inode_cache st) \<and>
    set (inode_cache st) \<inter> set (refs st) \<subseteq> set q)"
proof (cases "length (inode_cache st) = INODE_CACHE_SIZE")
  case True
  let ?Q = "inode_cache st"
  from room_find [OF room True] obtain i where i: "find_pos (\<lambda>h. Arc_strong_count st h = 1) ?Q = Some i" .
  then have il: "i < length ?Q" and one: "Arc_strong_count st (?Q ! i) = 1" by (simp_all add: find_pos_Some)
  let ?q = "swap_remove ?Q i" and ?h = "?Q ! i"
  have mq: "mset ?q = mset ?Q - {#?h#}" using mset_swap_remove [OF il] by (metis add_mset_remove_trivial)
  have cnt: "count (mset ?Q) ?h + count (mset (refs st)) ?h = 1"
    using one by (simp add: Arc_strong_count_def count_mset)
  have hQ: "?h \<in># mset ?Q" using il by simp
  then have "0 < count (mset ?Q) ?h" by simp
  then have "count (mset (refs st)) ?h = 0" using cnt by linarith
  then have nr: "?h \<notin> set (refs st)" by (simp add: count_eq_zero_iff)
  have "insert ?h (set ?q) = set ?Q"
    using arg_cong [OF mset_swap_remove [OF il], of set_mset] by simp
  then have sub: "set ?q \<subseteq> set ?Q" "set ?Q \<subseteq> insert ?h (set ?q)" by blast+
  have len: "length ?q < INODE_CACHE_SIZE" using il True by simp
  have "cache_ok fs F own (st\<lparr>inode_cache := ?q\<rparr>)"
    using ok sub(1) len by (auto simp: cache_ok_def intro: inj_on_subset)
  moreover have "room (st\<lparr>inode_cache := ?q\<rparr>) = room st"
    using free_slots_evict [OF cnt hQ] True by (simp add: room_def mq)
  ultimately show ?thesis
    using i True len sub nr by (auto simp: runs_def substitute_inode_def)
next
  case False
  with ok have "length (inode_cache st) < INODE_CACHE_SIZE" by (simp add: cache_ok_def)
  with False ok show ?thesis
    by (auto simp: runs_def substitute_inode_def intro!: exI [of _ "inode_cache st"])
qed

section \<open>Pinning inodes\<close>

lemma cache_ok_append:
  assumes "cache_ok fs F own st" and "length (inode_cache st) < INODE_CACHE_SIZE" and "handle_ok fs F own st h"
    and "\<forall>h' \<in> set (inode_cache st). number_of st h' = number_of st h \<longrightarrow> h' = h"
  shows "cache_ok fs F own (st\<lparr>inode_cache := inode_cache st @ [h]\<rparr>)"
  using assms by (fastforce simp: cache_ok_def inj_on_def)

text \<open>A new inode goes to the end of the queue; \<open>k\<close> must not be cached yet.\<close>

lemma cache_ok_push:
  assumes ok: "cache_ok fs F own st" and len: "length (inode_cache st) < INODE_CACHE_SIZE"
    and k: "F k = Some f" "\<forall>h \<in> set (inode_cache st). number_of st h \<noteq> Some k"
  shows "cache_ok fs F own (st\<lparr>arcs := (arcs st)(next_arc st \<mapsto> mirror fs f k (snd (own k))),
    next_arc := Suc (next_arc st), refs := r, inode_cache := inode_cache st @ [next_arc st]\<rparr>)"
proof -
  let ?h = "next_arc st"
  let ?st = "st\<lparr>arcs := (arcs st)(?h \<mapsto> mirror fs f k (snd (own k))), next_arc := Suc ?h, refs := r,
    inode_cache := inode_cache st @ [?h]\<rparr>"
  have old: "h < ?h" if "h \<in> set (inode_cache st)" for h
    using ok that by (auto simp: cache_ok_def handle_ok_def)
  have num: "number_of ?st h = (if h = ?h then Some k else number_of st h)" for h
    by (simp add: number_of_def)
  have "handle_ok fs F own ?st h" if "h \<in> set (inode_cache ?st)" for h
  proof (cases "h = ?h")
    case False
    then have "h \<in> set (inode_cache st)" using that by simp
    then have "handle_ok fs F own st h" using ok by (simp add: cache_ok_def)
    then show ?thesis by (rule handle_ok_cong [rotated 2]) (use False in auto)
  qed (use k in \<open>auto simp: handle_ok_def\<close>)
  moreover have "inj_on (number_of ?st) (set (inode_cache ?st))"
    using ok k(2) old num by (fastforce simp: inj_on_def cache_ok_def)
  ultimately show ?thesis using len by (simp add: cache_ok_def)
qed

context block_device
begin

definition fs_state ::
    "cafs \<Rightarrow> nat \<Rightarrow> (nat \<Rightarrow> file_node option) \<Rightarrow> ownership \<Rightarrow> (nat \<Rightarrow> u8 list) \<Rightarrow> 'd cafs_state \<Rightarrow> bool" where
  "fs_state fs n F own V st \<longleftrightarrow>
     store n [] V (blk_cache st) \<and> files_at fs n V F own \<and> handles_ok fs F own st"

lemma on_cache_run:
  assumes "store n [] V (blk_cache st)" and "exec n [] V m P"
    and "\<And>r c V'. store n [] V' c \<Longrightarrow> P r V' \<Longrightarrow> Q r (st\<lparr>blk_cache := c\<rparr>)"
  shows "runs (on_cache m) st Q"
  unfolding on_cache_def runs_zoom
  by (rule runs_mono [OF execD [OF assms(2,1)]]) (use assms(3) in blast)

lemma cainode_ok:
  assumes st: "fs_state fs n F own V st" and k: "F k = Some f"
    and room: "0 < room st \<or> find_inode k st \<noteq> None"
  shows "runs (cainode fs k) st (\<lambda>h st'. fs_state fs n F own V st' \<and>
    arcs st' h = Some (mirror fs f k (snd (own k))) \<and> h \<in> set (inode_cache st') \<and> refs st' = h # refs st \<and>
    room (st'\<lparr>refs := refs st\<rparr>) = room st \<and> (\<forall>h' \<in> set (refs st). number_of st' h' = number_of st h'))"
proof (cases "find_inode k st")
  case (Some h)
  from st have ok: "cache_ok fs F own st" by (simp add: fs_state_def handles_ok_def)
  from find_inode_Some [OF ok Some] k have h: "h \<in> set (inode_cache st)"
    "arcs st h = Some (mirror fs f k (snd (own k)))" by auto
  with st Some show ?thesis
    by (simp add: cainode_def wp Arc_clone_def fs_state_def handles_ok_def)
next
  case None
  with room have room: "0 < room st" by simp
  from st have sto: "store n [] V (blk_cache st)" and fa: "files_at fs n V F own"
    and ok: "cache_ok fs F own st" and rf: "set (refs st) \<subseteq> set (inode_cache st)"
    by (simp_all add: fs_state_def handles_ok_def)
  from store_range [OF sto] have n: "n < U64_RANGE" .
  have pos: "inode_pos_of fs k = Inr (inode_block fs k, 0)"
    by (rule inode_pos_of_eq [OF files_at_geometry [OF fa] n files_at_range [OF fa k]])
  let ?Q = "\<lambda>h st'. fs_state fs n F own V st' \<and>
    arcs st' h = Some (mirror fs f k (snd (own k))) \<and> h \<in> set (inode_cache st') \<and> refs st' = h # refs st \<and>
    room (st'\<lparr>refs := refs st\<rparr>) = room st \<and> (\<forall>h' \<in> set (refs st). number_of st' h' = number_of st h')"
  let ?h = "next_arc st"
  have old: "h < ?h" if "h \<in> set (inode_cache st)" for h
    using ok that by (auto simp: cache_ok_def handle_ok_def)
  let ?S = "\<lambda>q c. st\<lparr>blk_cache := c, arcs := (arcs st)(?h \<mapsto> mirror fs f k (snd (own k))),
      next_arc := Suc ?h, refs := ?h # refs st, inode_cache := q @ [?h]\<rparr>"
  have final: "?Q ?h (?S q c)"
    if q: "cache_ok fs F own (st\<lparr>inode_cache := q\<rparr>)" "length q < INODE_CACHE_SIZE"
      "room (st\<lparr>inode_cache := q\<rparr>) = room st" "set q \<subseteq> set (inode_cache st)"
      "set (inode_cache st) \<inter> set (refs st) \<subseteq> set q" and c: "store n [] V c" for q c
  proof -
    have nk: "\<forall>h \<in> set q. number_of (st\<lparr>inode_cache := q\<rparr>) h \<noteq> Some k"
      using find_inode_None [OF None] q(4) by auto
    have "cache_ok fs F own (?S q c)"
      by (rule cache_ok_cong [OF _ _ _ cache_ok_push [OF q(1) _ k]]) (use q(2) nk in auto)
    moreover have "free_slots (add_mset ?h (mset q)) (mset (refs st)) = free_slots (mset q) (mset (refs st))"
      using old q(2,4) rf by (intro free_slots_add_free) auto
    ultimately show ?thesis
      using q c fa rf old by (auto simp: fs_state_def handles_ok_def room_def number_of_def)
  qed
  show ?thesis
    unfolding cainode_def
  proof (simp add: wp None, rule runs_mono [OF substitute_inode_ok [OF ok room]], elim exE conjE, simp add: pos wp,
      rule on_cache_run [OF _ exec_load_inode [OF fa k]], goal_cases)
    case 1
    then show ?case using sto by simp
  next
    case (2 st1 q ci c V')
    then show ?case using final [of q c] old [of ?h] rf by (auto simp: Arc_new_def wp number_of_def)
  qed
qed

end

end
