(* ===== verification/Cafs_Ops.thy ===== *)
theory Cafs_Ops
  imports Inode_Cache
begin

text \<open>
  The operations of \<open>impl FS for CAFS\<close> against the files they implement. \<open>fs_state fs n F
  own V st\<close> ties the whole state to the map \<open>F\<close> of files; each lemma says that an operation
  returns and what it does to \<open>F\<close>: \<open>write\<close> replaces the contents of one file, \<open>create\<close> adds an
  empty file and appends its number to the directory, \<open>data\<close> and \<open>sub_inodes\<close> read.
\<close>

section \<open>Writing\<close>

lemma grown_free:
  assumes g: "grown fs n V m idx dat new_size idx' dat' m' V1" and rep: "meta_rep n V m idx dat"
    and own: "set (idx @ dat) \<subseteq> used fs V" and sz: "data_count (meta_size m) \<le> data_count new_size"
    and room: "growth (meta_size m) new_size \<le> free_blocks fs V"
  shows "free_blocks fs V1 + growth (meta_size m) new_size = free_blocks fs V"
proof -
  let ?new = "set (idx' @ dat') - set (idx @ dat)"
  have rep': "meta_rep n V1 m' idx' dat'" "meta_size m' = new_size" using g by (simp_all add: grown_def)
  have "distinct (idx' @ dat')" "distinct (idx @ dat)" using rep rep' by (simp_all add: meta_rep_def)
  then have c: "card (set (idx' @ dat')) = index_count new_size + data_count new_size"
    "card (set (idx @ dat)) = index_count (meta_size m) + data_count (meta_size m)"
    using rep rep' distinct_card [of "idx' @ dat'"] distinct_card [of "idx @ dat"]
    by (simp_all add: meta_rep_def)
  have "card ?new = card (set (idx' @ dat')) - card (set (idx @ dat))"
    using g by (intro card_Diff_subset) (simp_all add: grown_def)
  then have new: "card ?new = growth (meta_size m) new_size"
    using c sz index_count_data [OF sz] by (simp add: growth_def)
  have "used fs V1 = used fs V \<union> ?new" "used fs V \<inter> ?new = {}" using g own by (auto simp: grown_def)
  then have "card (used fs V1) = card (used fs V) + card ?new" by (simp add: card_Un_disjoint)
  with new room show ?thesis by (simp add: free_blocks_def)
qed

text \<open>Updating the inode in memory keeps all the others mirrored: none has the same number.\<close>

lemma handles_written:
  assumes ok: "cache_ok fs F own st" and h: "h \<in> set (inode_cache st)"
    and a: "arcs st h = Some (mirror fs f k (snd (own k)))"
  shows "cache_ok fs (F(k \<mapsto> f\<lparr>fdata := contents\<rparr>)) (own(k := (idx', blks)))
    (st\<lparr>arcs := (arcs st)(h \<mapsto> (mirror fs f k (snd (own k)))\<lparr>ci_size := length contents, ci_blocks := blks\<rparr>)\<rparr>)"
proof -
  let ?st = "st\<lparr>arcs := (arcs st)(h \<mapsto> (mirror fs f k (snd (own k)))\<lparr>ci_size := length contents, ci_blocks := blks\<rparr>)\<rparr>"
  have num: "number_of ?st = number_of st" using a by (simp add: number_of_def fun_eq_iff)
  have "handle_ok fs (F(k \<mapsto> f\<lparr>fdata := contents\<rparr>)) (own(k := (idx', blks))) ?st h'"
    if h': "h' \<in> set (inode_cache st)" for h'
  proof (cases "h' = h")
    case True
    have "h < next_arc st" using ok h by (auto simp: cache_ok_def handle_ok_def)
    then show ?thesis
      using True by (auto simp: handle_ok_def mirror_def intro!: exI [of _ k])
  next
    case False
    from ok h' obtain j g where j: "F j = Some g" "arcs st h' = Some (mirror fs g j (snd (own j)))"
      "h' < next_arc st" by (auto simp: cache_ok_def handle_ok_def)
    have "number_of st h' \<noteq> number_of st h"
      using ok h h' False by (auto simp: cache_ok_def inj_on_def)
    then have "j \<noteq> k" using a j by (auto simp: number_of_def)
    with j False show ?thesis by (auto simp: handle_ok_def intro!: exI [of _ j])
  qed
  then show ?thesis using ok by (simp add: cache_ok_def num)
qed

text \<open>Two steps on the block cache are one.\<close>

lemma on_cache_bnd2:
  "bnd (on_cache m) (\<lambda>x. bnd (on_cache (g x)) (\<lambda>_. c x)) =
   bnd (on_cache (bnd m (\<lambda>x. bnd (g x) (\<lambda>_. ret x)))) c"
  by (auto simp: on_cache_def zoom_def bnd_def ret_def fun_eq_iff split: sum.splits)

lemma used_written:
  assumes "files_at fs n V F own" and "F k = Some f"
    and "files_at fs n W (F(k \<mapsto> f')) (own(k := (idx', dat')))" and "blocks_of own k \<subseteq> set (idx' @ dat')"
  shows "used fs W = used fs V \<union> set (idx' @ dat')"
proof -
  have own': "blocks_of (own(k := (idx', dat'))) j = (if j = k then set (idx' @ dat') else blocks_of own j)" for j
    by (simp add: blocks_of_def)
  have "used fs W = (\<Union>j \<in> insert k (dom F). blocks_of (own(k := (idx', dat'))) j)"
    using files_at_used_eq [OF assms(3)] by simp
  also have "\<dots> = (\<Union>j \<in> dom F. blocks_of own j) \<union> set (idx' @ dat')"
    using assms(2,4) unfolding own' by (auto split: if_splits)
  finally show ?thesis using files_at_used_eq [OF assms(1)] by simp
qed

context block_device
begin

lemma exec_write_file:
  assumes fa: "files_at fs n V F own" and k: "F k = Some f"
    and sz: "data_count (length (fdata f)) \<le> data_count (length contents)" "length contents \<le> L4_MAX"
    and free: "growth (length (fdata f)) (length contents) \<le> free_blocks fs V"
  shows "exec n [] V (bnd (modify_at meta_view (inode_block fs k) 0 (write_meta fs (length contents)))
      (\<lambda>blks. bnd (write_blocks blks contents) (\<lambda>_. ret blks)))
    (\<lambda>blks W. \<exists>idx'. files_at fs n W (F(k \<mapsto> f\<lparr>fdata := contents\<rparr>)) (own(k := (idx', blks))) \<and>
      first_fit fs V (used fs W - used fs V) \<and>
      free_blocks fs W + growth (length (fdata f)) (length contents) = free_blocks fs V)"
proof (rule exec_bnd, rule exec_mono [OF exec_write_inode [OF fa k sz free]], elim exE conjE, rule exec_bnd)
  fix blks V2 idx' m' V1
  assume g: "grown fs n V (inode_meta fs V k) (fst (own k)) (snd (own k)) (length contents) idx' blks m' V1"
    and V2: "inode_meta fs V2 k = m'" "\<forall>j. j \<noteq> inode_block fs k \<longrightarrow> V2 j = V1 j"
  have rep: "meta_rep n V (inode_meta fs V k) (fst (own k)) (snd (own k))"
    "meta_size (inode_meta fs V k) = length (fdata f)"
    using files_at_file [OF fa k] by (simp_all add: file_at_def Let_def)
  have own: "set (fst (own k) @ snd (own k)) \<subseteq> used fs V"
    using files_at_used [OF fa k] by (simp add: blocks_of_def)
  have sub: "blocks_of own k \<subseteq> set (idx' @ blks)" and u1: "used fs V1 = used fs V \<union> set (idx' @ blks)"
    using g by (auto simp: grown_def blocks_of_def)
  have "free_blocks fs V1 + growth (length (fdata f)) (length contents) = free_blocks fs V"
    using grown_free [OF g rep(1) own] rep(2) sz free by simp
  moreover have "free_blocks fs W = free_blocks fs V1 \<and> first_fit fs V (used fs W - used fs V)"
    if "files_at fs n W (F(k \<mapsto> f\<lparr>fdata := contents\<rparr>)) (own(k := (idx', blks)))" for W
  proof -
    have "first_fit fs V (set (idx' @ blks) - set (fst (own k) @ snd (own k)))" using g by (simp add: grown_def)
    moreover have "set (idx' @ blks) - set (fst (own k) @ snd (own k)) = used fs V1 - used fs V"
      using own u1 g by (auto simp: grown_def)
    ultimately show ?thesis using used_written [OF fa k that sub] u1 by (simp add: free_blocks_def)
  qed
  ultimately show "exec n [] V2 (write_blocks blks contents) (\<lambda>_ V'. exec n [] V' (ret blks)
      (\<lambda>blks W. \<exists>idx'. files_at fs n W (F(k \<mapsto> f\<lparr>fdata := contents\<rparr>)) (own(k := (idx', blks))) \<and>
        first_fit fs V (used fs W - used fs V) \<and>
        free_blocks fs W + growth (length (fdata f)) (length contents) = free_blocks fs V))"
    by (intro exec_mono [OF exec_fill_blocks [OF fa k g V2]] exec_ret) auto
qed

lemma CAFS_write_ok:
  assumes st: "fs_state fs n F own V st" and k: "F k = Some f"
    and sz: "data_count (length (fdata f)) \<le> data_count (length contents)" "length contents \<le> L4_MAX"
    and free: "growth (length (fdata f)) (length contents) \<le> free_blocks fs V"
    and room: "0 < room st \<or> find_inode k st \<noteq> None"
  shows "runs (CAFS_write fs k contents) st (\<lambda>_ st'. \<exists>own' V'.
    fs_state fs n (F(k \<mapsto> f\<lparr>fdata := contents\<rparr>)) own' V' st' \<and>
    first_fit fs V (used fs V' - used fs V) \<and>
    free_blocks fs V' + growth (length (fdata f)) (length contents) = free_blocks fs V \<and>
    refs st' = refs st \<and> room st' = room st \<and> (\<forall>h \<in> set (refs st). number_of st' h = number_of st h))"
proof -
  let ?F = "F(k \<mapsto> f\<lparr>fdata := contents\<rparr>)"
  let ?Q = "\<lambda>_ st'. \<exists>own' V'. fs_state fs n ?F own' V' st' \<and>
    first_fit fs V (used fs V' - used fs V) \<and>
    free_blocks fs V' + growth (length (fdata f)) (length contents) = free_blocks fs V \<and>
    refs st' = refs st \<and> room st' = room st \<and> (\<forall>h \<in> set (refs st). number_of st' h = number_of st h)"
  from st have sto: "store n [] V (blk_cache st)" and fa: "files_at fs n V F own"
    and rf: "set (refs st) \<subseteq> set (inode_cache st)" by (simp_all add: fs_state_def handles_ok_def)
  have pos: "inode_pos_of fs k = Inr (inode_block fs k, 0)"
    by (rule inode_pos_of_eq [OF files_at_geometry [OF fa] store_range [OF sto] files_at_range [OF fa k]])
  have final: "?Q () (st1\<lparr>blk_cache := c, arcs := (arcs st1)(h \<mapsto> (mirror fs f k (snd (own k)))
      \<lparr>ci_size := length contents, ci_blocks := blks\<rparr>), refs := refs st\<rparr>)"
    if st1: "fs_state fs n F own V st1" "arcs st1 h = Some (mirror fs f k (snd (own k)))"
      "h \<in> set (inode_cache st1)" "refs st1 = h # refs st" "room (st1\<lparr>refs := refs st\<rparr>) = room st"
      "\<forall>h' \<in> set (refs st). number_of st1 h' = number_of st h'"
    and W: "store n [] W c" "files_at fs n W ?F (own(k := (idx', blks)))"
      "first_fit fs V (used fs W - used fs V)"
      "free_blocks fs W + growth (length (fdata f)) (length contents) = free_blocks fs V" for h st1 W c idx' blks
  proof -
    let ?st = "st1\<lparr>blk_cache := c, arcs := (arcs st1)(h \<mapsto> (mirror fs f k (snd (own k)))
      \<lparr>ci_size := length contents, ci_blocks := blks\<rparr>), refs := refs st\<rparr>"
    have "cache_ok fs F own st1" using st1(1) by (simp add: fs_state_def handles_ok_def)
    from handles_written [OF this st1(3,2), of contents idx' blks]
    have "cache_ok fs ?F (own(k := (idx', blks))) ?st" by (rule cache_ok_cong [rotated 3]) simp_all
    moreover have "set (refs st) \<subseteq> set (inode_cache st1)"
      using st1(1,4) by (simp add: fs_state_def handles_ok_def)
    ultimately have "fs_state fs n ?F (own(k := (idx', blks))) W ?st"
      using W by (simp add: fs_state_def handles_ok_def)
    moreover have "number_of ?st h' = number_of st1 h'" for h' using st1(2) by (simp add: number_of_def)
    ultimately show ?thesis using W(3,4) st1(5,6) by (auto simp: room_def)
  qed
  show ?thesis
    unfolding CAFS_write_def Let_def runs_bnd
  proof (rule runs_mono [OF cainode_ok [OF st k room]], elim conjE, simp add: pos runs_ret,
      unfold on_cache_bnd2 runs_bnd, goal_cases)
    case st1: (1 h st1)
    show ?case
    proof (rule on_cache_run [OF _ exec_write_file [OF fa k sz free]], goal_cases)
      case 1
      then show ?case using st1(1) by (simp add: fs_state_def)
    next
      case (2 blks c W)
      then obtain idx' where "files_at fs n W ?F (own(k := (idx', blks)))"
        "first_fit fs V (used fs W - used fs V)"
        "free_blocks fs W + growth (length (fdata f)) (length contents) = free_blocks fs V" by blast
      from final [OF st1 2(1) this] st1(2,4) show ?case by (simp add: wp Arc_drop_def)
    qed
  qed
qed

section \<open>Reading\<close>

text \<open>A reference that is held reads the current contents of its file, whoever wrote them.\<close>

lemma held_data_ok:
  assumes st: "fs_state fs n F own V st" and h: "h \<in> set (refs st)" "number_of st h = Some k"
  obtains f where "F k = Some f" and "arcs st h = Some (mirror fs f k (snd (own k)))"
    and "runs (bnd (Arc_deref h) (\<lambda>ci. on_cache (CaInode_data ci))) st
      (\<lambda>d st'. d = fdata f \<and> (\<exists>c. store n [] V c \<and> st' = st\<lparr>blk_cache := c\<rparr>))"
proof -
  from st have sto: "store n [] V (blk_cache st)" and fa: "files_at fs n V F own"
    and ok: "cache_ok fs F own st" and "set (refs st) \<subseteq> set (inode_cache st)"
    by (simp_all add: fs_state_def handles_ok_def)
  with h(1) have "handle_ok fs F own st h" by (auto simp: cache_ok_def)
  then obtain k' f where "F k' = Some f" "arcs st h = Some (mirror fs f k' (snd (own k')))"
    by (auto simp: handle_ok_def)
  with h(2) have f: "F k = Some f" "arcs st h = Some (mirror fs f k (snd (own k)))"
    by (auto simp: number_of_def)
  have "runs (on_cache (CaInode_data (mirror fs f k (snd (own k))))) st
      (\<lambda>d st'. d = fdata f \<and> (\<exists>c. store n [] V c \<and> st' = st\<lparr>blk_cache := c\<rparr>))"
    by (rule on_cache_run [OF sto exec_file_data [OF fa f(1)]]) auto
  with f show thesis by (intro that [of f]) (simp_all add: wp Arc_deref_def)
qed

section \<open>Creating\<close>

lemma exec_alloc_inode:
  assumes fa: "files_at fs n V F own" and free: "dom F \<noteq> inode_range fs"
  shows "exec n [] V (alloc (inode_bitmap fs)) (\<lambda>r V1. \<exists>k. r = Some k \<and> F k = None \<and> k \<in> inode_range fs \<and>
    {..<k} \<subseteq> dom F \<and> bitmap_set (inode_bitmap fs) V1 = insert k (bitmap_set (inode_bitmap fs) V) \<and>
    (\<forall>i. i \<notin> bitmap_area (inode_bitmap fs) \<longrightarrow> V1 i = V i))"
proof (rule exec_wf)
  assume n: "n < U64_RANGE"
  have ok: "bitmap_ok n (inode_bitmap fs)" by (rule geometry_bitmaps [OF files_at_geometry [OF fa] n])
  have dom: "dom F = bitmap_set (inode_bitmap fs) V" using fa by (simp add: files_at_def)
  show "exec n [] V (alloc (inode_bitmap fs)) (\<lambda>r V1. \<exists>k. r = Some k \<and> F k = None \<and> k \<in> inode_range fs \<and>
    {..<k} \<subseteq> dom F \<and> bitmap_set (inode_bitmap fs) V1 = insert k (bitmap_set (inode_bitmap fs) V) \<and>
    (\<forall>i. i \<notin> bitmap_area (inode_bitmap fs) \<longrightarrow> V1 i = V i))"
    by (rule exec_mono [OF exec_alloc [OF ok]])
      (use free dom in \<open>auto simp: alloc_post_def inode_range_def CACHE_SIZE_def split: option.splits\<close>)
qed

lemma cache_ok_new_file:
  assumes ok: "cache_ok fs F own st" and k: "F k = None"
  shows "cache_ok fs (F(k \<mapsto> f)) (own(k := b)) st" "\<forall>h \<in> set (inode_cache st). number_of st h \<noteq> Some k"
proof -
  have "handle_ok fs (F(k \<mapsto> f)) (own(k := b)) st h \<and> number_of st h \<noteq> Some k"
    if "h \<in> set (inode_cache st)" for h
  proof -
    from ok that obtain j g where j: "F j = Some g" "arcs st h = Some (mirror fs g j (snd (own j)))"
      "h < next_arc st" by (auto simp: cache_ok_def handle_ok_def)
    then have "j \<noteq> k" using k by auto
    with j show ?thesis by (auto simp: handle_ok_def number_of_def intro!: exI [of _ j])
  qed
  then show "cache_ok fs (F(k \<mapsto> f)) (own(k := b)) st" "\<forall>h \<in> set (inode_cache st). number_of st h \<noteq> Some k"
    using ok by (simp_all add: cache_ok_def)
qed

text \<open>\<open>add_inode_cache\<close> on a reference the caller holds.\<close>

lemma add_inode_cache_ok:
  assumes ok: "cache_ok fs F own st" and h: "handle_ok fs F own st h" "h \<in> set (refs st)"
    and inj: "\<forall>h' \<in> set (inode_cache st). number_of st h' = number_of st h \<longrightarrow> h' = h"
    and rf: "set (refs st) \<subseteq> insert h (set (inode_cache st))" and room: "0 < room st"
  shows "runs (add_inode_cache h) st (\<lambda>_ st'. \<exists>q. st' = st\<lparr>inode_cache := q @ [h]\<rparr> \<and>
    handles_ok fs F own st' \<and> room st' + 1 = room st \<and> (h \<in> set (inode_cache st) \<longrightarrow> h \<in> set q))"
  unfolding add_inode_cache_def runs_bnd
proof (rule runs_mono [OF substitute_inode_ok [OF ok room]], elim exE conjE)
  fix u st1 q
  assume st1: "st1 = st\<lparr>inode_cache := q\<rparr>" "cache_ok fs F own st1" "length q < INODE_CACHE_SIZE"
    "room st1 = room st" "set q \<subseteq> set (inode_cache st)" "set (inode_cache st) \<inter> set (refs st) \<subseteq> set q"
  have "cache_ok fs F own (st1\<lparr>inode_cache := inode_cache st1 @ [h]\<rparr>)"
    using st1 h inj by (intro cache_ok_append) auto
  moreover have "free_slots (add_mset h (mset q)) (mset (refs st)) + 1 = free_slots (mset q) (mset (refs st))"
    using h(2) st1(3) by (intro free_slots_add_pinned) auto
  ultimately show "runs (upd (\<lambda>st. st\<lparr>inode_cache := inode_cache st @ [h]\<rparr>)) st1
    (\<lambda>_ st'. \<exists>q. st' = st\<lparr>inode_cache := q @ [h]\<rparr> \<and>
      handles_ok fs F own st' \<and> room st' + 1 = room st \<and> (h \<in> set (inode_cache st) \<longrightarrow> h \<in> set q))"
    using st1 rf h(2) by (auto simp: wp handles_ok_def room_def)
qed

text \<open>Putting a new inode into the queue, as \<open>alloc_inode_meta\<close> does.\<close>

lemma add_new_inode_ok:
  assumes ok: "cache_ok fs F own st" and k: "F k = Some f" "\<forall>h \<in> set (inode_cache st). number_of st h \<noteq> Some k"
    and rf: "set (refs st) \<subseteq> set (inode_cache st)" and room: "0 < room st" and ci: "ci = mirror fs f k (snd (own k))"
  shows "runs (bnd (Arc_new ci) (\<lambda>h. bnd (add_inode_cache h) (\<lambda>_. ret h))) st (\<lambda>h st'.
    handles_ok fs F own st' \<and> arcs st' h = Some ci \<and> refs st' = h # refs st \<and> room st' + 1 = room st \<and>
    blk_cache st' = blk_cache st \<and> (\<forall>h' \<in> set (refs st). number_of st' h' = number_of st h'))"
proof -
  let ?h = "next_arc st"
  let ?st = "st\<lparr>arcs := (arcs st)(?h \<mapsto> ci), next_arc := Suc ?h, refs := ?h # refs st\<rparr>"
  have old: "h < ?h" if "h \<in> set (inode_cache st)" for h
    using ok that by (auto simp: cache_ok_def handle_ok_def)
  then have new: "?h \<notin> set (inode_cache st)" by blast
  have "handle_ok fs F own ?st h" if "h \<in> set (inode_cache st)" for h
    using ok that new by (intro handle_ok_cong [of ?st h st]) (auto simp: cache_ok_def)
  moreover have "inj_on (number_of ?st) (set (inode_cache st)) = inj_on (number_of st) (set (inode_cache st))"
    using new by (intro inj_on_cong) (auto simp: number_of_def)
  ultimately have ok': "cache_ok fs F own ?st" using ok by (simp add: cache_ok_def)
  have h: "handle_ok fs F own ?st ?h" using k(1) ci by (auto simp: handle_ok_def)
  have inj: "\<forall>h' \<in> set (inode_cache ?st). number_of ?st h' = number_of ?st ?h \<longrightarrow> h' = ?h"
    using k(2) by (auto simp: number_of_def ci)
  have room': "room ?st = room st" using new by (simp add: room_def free_slots_ref_other)
  have "runs (add_inode_cache ?h) ?st (\<lambda>_ st'. \<exists>q. st' = ?st\<lparr>inode_cache := q @ [?h]\<rparr> \<and>
      handles_ok fs F own st' \<and> room st' + 1 = room ?st \<and> (?h \<in> set (inode_cache ?st) \<longrightarrow> ?h \<in> set q))"
    by (rule add_inode_cache_ok [OF ok' h _ inj]) (use rf room room' in auto)
  then show ?thesis
    by (simp add: Arc_new_def wp) (erule runs_mono, use room' new rf in \<open>auto simp: number_of_def\<close>)
qed


lemma alloc_inode_meta_ok:
  assumes st: "fs_state fs n F own V st" and free: "dom F \<noteq> inode_range fs"
    and name: "length name \<le> NAME_LENGTH_LIMIT" and room: "0 < room st"
  shows "runs (alloc_inode_meta fs ty name) st (\<lambda>h st'. \<exists>k V'. F k = None \<and> k \<in> inode_range fs \<and> {..<k} \<subseteq> dom F \<and>
    fs_state fs n (F(k \<mapsto> new_file ty name)) (own(k := ([], []))) V' st' \<and>
    arcs st' h = Some (mirror fs (new_file ty name) k []) \<and> free_blocks fs V' = free_blocks fs V \<and>
    refs st' = h # refs st \<and> room st' + 1 = room st \<and> (\<forall>h' \<in> set (refs st). number_of st' h' = number_of st h'))"
proof -
  from st have sto: "store n [] V (blk_cache st)" and fa: "files_at fs n V F own"
    and ok: "cache_ok fs F own st" and rf: "set (refs st) \<subseteq> set (inode_cache st)"
    by (simp_all add: fs_state_def handles_ok_def)
  note geo = files_at_geometry [OF fa]
  show ?thesis
    unfolding alloc_inode_meta_def runs_bnd
  proof (rule on_cache_run [OF sto exec_alloc_inode [OF fa free]], elim exE conjE)
    fix r c V1 k
    assume r: "r = Some k" and k: "F k = None" "k \<in> inode_range fs" "{..<k} \<subseteq> dom F"
      and ibm: "bitmap_set (inode_bitmap fs) V1 = insert k (bitmap_set (inode_bitmap fs) V)"
        "\<forall>i. i \<notin> bitmap_area (inode_bitmap fs) \<longrightarrow> V1 i = V i" and c: "store n [] V1 c"
    let ?F = "F(k \<mapsto> new_file ty name)" and ?own = "own(k := ([], []))"
    let ?ci = "mirror fs (new_file ty name) k []"
    let ?Q = "\<lambda>h st'. \<exists>k V'. F k = None \<and> k \<in> inode_range fs \<and> {..<k} \<subseteq> dom F \<and>
      fs_state fs n (F(k \<mapsto> new_file ty name)) (own(k := ([], []))) V' st' \<and>
      arcs st' h = Some (mirror fs (new_file ty name) k []) \<and> free_blocks fs V' = free_blocks fs V \<and>
      refs st' = h # refs st \<and> room st' + 1 = room st \<and> (\<forall>h' \<in> set (refs st). number_of st' h' = number_of st h')"
    have pos: "inode_pos_of fs k = Inr (inode_block fs k, 0)"
      by (rule inode_pos_of_eq [OF geo store_range [OF sto] k(2)])
    have "runs (bnd (Arc_new ?ci) (\<lambda>h. bnd (add_inode_cache h) (\<lambda>_. ret h))) (st\<lparr>blk_cache := c'\<rparr>) ?Q"
      if c': "store n [] W c'" "files_at fs n W ?F ?own" "free_blocks fs W = free_blocks fs V" for c' W
      by (rule runs_mono [OF add_new_inode_ok [where F = ?F and own = ?own and k = k and f = "new_file ty name"]])
        (use cache_ok_new_file(1) [OF ok k(1), of "new_file ty name" "([], [])"]
          cache_ok_new_file(2) [OF ok k(1)] rf room c' k in
          \<open>auto simp: fs_state_def intro!: exI [of _ k] exI [of _ W]\<close>)
    then show "runs (case r of None \<Rightarrow> panic RunOutOfInodeBlock
      | Some num \<Rightarrow> bnd (pure (inode_pos_of fs num)) (\<lambda>(bid, off).
          bnd (on_cache (CaInode_new num ty bid off name)) (\<lambda>ci.
          bnd (Arc_new ci) (\<lambda>h. bnd (add_inode_cache h) (\<lambda>_. ret h))))) (st\<lparr>blk_cache := c\<rparr>) ?Q"
      by (simp add: r pos runs_bnd [of "on_cache _"])
        (rule on_cache_run [OF _ exec_new_inode [OF fa k(1,2) ibm name]], use c in auto)
  qed
qed

end

text \<open>A directory entry more.\<close>

definition dir_append :: "u8 list \<Rightarrow> u8 list \<Rightarrow> u8 list" where
  "dir_append contents bin = (if contents \<noteq> [] then contents @ [0] else contents) @ bin"

lemma room_add_ref: "room (st\<lparr>refs := R\<rparr>) \<le> room (st\<lparr>refs := h # R\<rparr>) + 1"
  using free_slots_add_ref [of "mset (inode_cache st)" "mset R" h] by (simp add: room_def)

lemma room_drop: "room st \<le> room (st\<lparr>refs := remove1 h (refs st)\<rparr>)"
  unfolding room_def by (simp, rule free_slots_mono_refs) (simp add: diff_subset_eq_self)

lemma inode_range_u64: "geometry fs n \<Longrightarrow> n < U64_RANGE \<Longrightarrow> k \<in> inode_range fs \<Longrightarrow> k < U64_RANGE"
  by (auto simp: geometry_def inode_range_def)

lemma runs_Arc_deref: "arcs st h = Some ci \<Longrightarrow> runs (Arc_deref h) st Q \<longleftrightarrow> Q ci st"
  by (simp add: Arc_deref_def wp)

lemma held_inode:
  "number_of st h = Some k \<Longrightarrow> \<exists>ci. arcs st h = Some ci \<and> inode_number ci = k"
  by (auto simp: number_of_def)

lemma binary_length: "inode_number_binary k = Inr bin \<Longrightarrow> k < U64_RANGE \<Longrightarrow> length bin = 10"
  using inode_number_total by fastforce

context block_device
begin

text \<open>The three parts of \<open>create\<close>: a new inode, the entry in the directory, the queue again.\<close>

lemma create_finish_ok:
  assumes st: "fs_state fs n F own V st" and rf: "refs st = hp # h # R" and room: "0 < room st"
  shows "runs (bnd (add_inode_cache h) (\<lambda>_. bnd (Arc_drop hp) (\<lambda>_. ret h))) st (\<lambda>r st'. r = h \<and>
    fs_state fs n F own V st' \<and> number_of st' = number_of st \<and> refs st' = h # R \<and> room st \<le> room st' + 1 \<and>
    2 \<le> count_list (inode_cache st') h)"
proof -
  from st have ok: "cache_ok fs F own st" and sub: "set (refs st) \<subseteq> set (inode_cache st)"
    by (simp_all add: fs_state_def handles_ok_def)
  have h: "h \<in> set (inode_cache st)" "h \<in> set (refs st)" using sub rf by auto
  have "handle_ok fs F own st h" using ok h by (simp add: cache_ok_def)
  moreover have "\<forall>h' \<in> set (inode_cache st). number_of st h' = number_of st h \<longrightarrow> h' = h"
    using ok h by (auto simp: cache_ok_def inj_on_def)
  ultimately have "runs (add_inode_cache h) st (\<lambda>_ st'. \<exists>q. st' = st\<lparr>inode_cache := q @ [h]\<rparr> \<and>
    handles_ok fs F own st' \<and> room st' + 1 = room st \<and> (h \<in> set (inode_cache st) \<longrightarrow> h \<in> set q))"
    using h sub room by (intro add_inode_cache_ok [OF ok]) auto
  then show ?thesis
    unfolding runs_bnd
  proof (rule runs_mono, elim exE conjE, simp add: wp Arc_drop_def, goal_cases)
    case (1 st1 q)
    let ?st = "st\<lparr>inode_cache := q @ [h], refs := h # R\<rparr>"
    have "room (st\<lparr>inode_cache := q @ [h]\<rparr>) \<le> room ?st"
      using room_drop [of "st\<lparr>inode_cache := q @ [h]\<rparr>" hp] by (simp add: rf)
    moreover have "h \<in> set q" using 1 h by simp
    then have "count_list q h \<noteq> 0" by (simp only: count_list_0_iff not_not)
    moreover have "fs_state fs n F own V ?st"
      using st 1 rf by (auto simp: fs_state_def handles_ok_def)
    ultimately show ?case using 1 rf by simp
  qed
qed

lemma create_entry_ok:
  assumes st: "fs_state fs n F own V st" and p: "F p = Some d" and k: "k < U64_RANGE"
    and rf: "refs st = h # R" and num: "number_of st h = Some k" and room: "2 \<le> room st"
    and sz: "length (fdata d) + 11 \<le> L4_MAX"
    and blks: "\<forall>l \<le> length (fdata d) + 11. growth (length (fdata d)) l \<le> free_blocks fs V"
    and bin: "inode_number_binary k = Inr bin"
  shows "runs (bnd (CAFS_inode fs p) (\<lambda>hp. bnd (Arc_deref hp) (\<lambda>pi.
      bnd (on_cache (CaInode_data pi)) (\<lambda>contents. bnd (Arc_deref h) (\<lambda>ci.
      bnd (pure (inode_number_binary (inode_number ci))) (\<lambda>bin.
      bnd (CAFS_write fs (inode_number pi) ((if contents \<noteq> [] then contents @ [0] else contents) @ bin)) (\<lambda>_.
      bnd (add_inode_cache h) (\<lambda>_. bnd (Arc_drop hp) (\<lambda>_. ret h))))))))) st (\<lambda>r st'. \<exists>own' V'. r = h \<and>
    fs_state fs n (F(p \<mapsto> d\<lparr>fdata := dir_append (fdata d) bin\<rparr>)) own' V' st' \<and>
    free_blocks fs V' + growth (length (fdata d)) (length (dir_append (fdata d) bin)) = free_blocks fs V \<and>
    (\<forall>h' \<in> set (refs st). number_of st' h' = number_of st h') \<and> refs st' = h # R \<and> room st \<le> room st' + 2 \<and>
    2 \<le> count_list (inode_cache st') h)"
proof -
  let ?F = "F(p \<mapsto> d\<lparr>fdata := dir_append (fdata d) bin\<rparr>)"
  let ?Q = "\<lambda>r st'. \<exists>own' V'. r = h \<and> fs_state fs n ?F own' V' st' \<and>
    free_blocks fs V' + growth (length (fdata d)) (length (dir_append (fdata d) bin)) = free_blocks fs V \<and>
    (\<forall>h' \<in> set (refs st). number_of st' h' = number_of st h') \<and> refs st' = h # R \<and> room st \<le> room st' + 2 \<and> 2 \<le> count_list (inode_cache st') h"
  have len: "length bin = 10" by (rule binary_length [OF bin k])
  have fa: "files_at fs n V F own" using st by (simp add: fs_state_def)
  have room0: "0 < room st \<or> find_inode p st \<noteq> None" using room by simp
  show ?thesis
    unfolding runs_bnd CAFS_inode_def
  proof (rule runs_mono [OF cainode_ok [OF st p room0]], elim conjE, goal_cases)
    case st1: (1 hp st1)
    obtain ci where ci: "arcs st1 h = Some ci" "inode_number ci = k"
      using held_inode [of st1 h k] st1(6) rf num by auto
    have "st1\<lparr>refs := hp # refs st\<rparr> = st1" using st1(4) by simp
    then have room1: "room st \<le> room st1 + 1" using room_add_ref [where st = st1 and R = "refs st" and h = hp] st1(5) by simp
    have cached: "find_inode p (st1\<lparr>blk_cache := c\<rparr>) \<noteq> None" for c
      by (rule find_inode_cached [of hp]) (use st1(2,3) in \<open>simp_all add: number_of_def\<close>)
    show ?case
      unfolding runs_Arc_deref [OF st1(2)]
    proof (rule on_cache_run [OF _ exec_file_data [OF fa p]], goal_cases)
      case 1
      then show ?case using st1(1) by (simp add: fs_state_def)
    next
      case c: (2 contents c V')
      let ?st = "st1\<lparr>blk_cache := c\<rparr>"
      have st2: "fs_state fs n F own V ?st" using st1(1) c by (simp add: fs_state_def handles_ok_def)
      have "runs (CAFS_write fs p (dir_append (fdata d) bin)) ?st (\<lambda>_ st'. \<exists>own' V'.
          fs_state fs n ?F own' V' st' \<and> first_fit fs V (used fs V' - used fs V) \<and> free_blocks fs V' + growth (length (fdata d)) (length (dir_append (fdata d) bin)) = free_blocks fs V \<and>
          refs st' = refs ?st \<and> room st' = room ?st \<and> (\<forall>h \<in> set (refs ?st). number_of st' h = number_of ?st h))"
        by (rule CAFS_write_ok [OF st2 p]) (use len sz blks cached in \<open>auto simp: dir_append_def level_mono\<close>)
      note wr = this
      have D: "arcs ?st h = Some ci" using ci by simp
      have cont: "contents = fdata d" using c by simp
      show ?case
        unfolding runs_Arc_deref [OF D] ci(2) bin pure_Inr runs_ret mirror_simps cont dir_append_def [symmetric]
      proof (rule runs_mono [OF wr], elim exE conjE)
        fix u st3 own' W
        assume st3: "fs_state fs n ?F own' W st3" "refs st3 = refs ?st" "room st3 = room ?st"
          "\<forall>h \<in> set (refs ?st). number_of st3 h = number_of ?st h"
          "free_blocks fs W + growth (length (fdata d)) (length (dir_append (fdata d) bin)) = free_blocks fs V"
        have "\<forall>h' \<in> set (refs st). number_of st3 h' = number_of st h'" using st3(4) st1(4,6) by simp
        with create_finish_ok [OF st3(1)] st3 st1(4) rf room room1
        show "runs (add_inode_cache h) st3 (\<lambda>a s'. runs (Arc_drop hp) s' (\<lambda>a s'. ?Q h s'))"
          by (auto simp: runs_bnd runs_ret elim!: runs_mono) blast
      qed
    qed
  qed
qed


lemma CAFS_create_ok:
  assumes st: "fs_state fs n F own V st" and p: "F p = Some d" and free: "dom F \<noteq> inode_range fs"
    and name: "length name \<le> NAME_LENGTH_LIMIT" and room: "3 \<le> room st"
    and sz: "length (fdata d) + 11 \<le> L4_MAX"
    and blks: "\<forall>l \<le> length (fdata d) + 11. growth (length (fdata d)) l \<le> free_blocks fs V"
  shows "runs (CAFS_create fs p name) st (\<lambda>h st'. \<exists>k bin own' V'. F k = None \<and> k \<in> inode_range fs \<and>
    {..<k} \<subseteq> dom F \<and> inode_number_binary k = Inr bin \<and>
    fs_state fs n (F(k \<mapsto> new_file File name, p \<mapsto> d\<lparr>fdata := dir_append (fdata d) bin\<rparr>)) own' V' st' \<and>
    free_blocks fs V' + growth (length (fdata d)) (length (dir_append (fdata d) bin)) = free_blocks fs V \<and>
    number_of st' h = Some k \<and> (\<forall>h' \<in> set (refs st). number_of st' h' = number_of st h') \<and>
    refs st' = h # refs st \<and> room st \<le> room st' + 3 \<and> 2 \<le> count_list (inode_cache st') h)"
proof -
  from st have geo: "geometry fs n" and n: "n < U64_RANGE"
    by (auto simp: fs_state_def dest: files_at_geometry store_range)
  have room0: "0 < room st" using room by simp
  show ?thesis
    unfolding CAFS_create_def
  proof (subst runs_bnd, rule runs_mono [OF alloc_inode_meta_ok [OF st free name room0]], elim exE conjE)
    fix h st1 k V1
    assume k: "F k = None" "k \<in> inode_range fs" "{..<k} \<subseteq> dom F"
      and st1: "fs_state fs n (F(k \<mapsto> new_file File name)) (own(k := ([], []))) V1 st1"
        "arcs st1 h = Some (mirror fs (new_file File name) k [])" "free_blocks fs V1 = free_blocks fs V"
        "refs st1 = h # refs st" "room st1 + 1 = room st"
        "\<forall>h' \<in> set (refs st). number_of st1 h' = number_of st h'"
    have ku: "k < U64_RANGE" by (rule inode_range_u64 [OF geo n k(2)])
    obtain bin where bin: "inode_number_binary k = Inr bin" using inode_number_total [OF ku] by blast
    have p1: "(F(k \<mapsto> new_file File name)) p = Some d" using p k(1) by auto
    have num: "number_of st1 h = Some k" using st1(2) by (simp add: number_of_def)
    show "runs (bnd (CAFS_inode fs p) (\<lambda>hp. bnd (Arc_deref hp) (\<lambda>pi.
      bnd (on_cache (CaInode_data pi)) (\<lambda>contents. bnd (Arc_deref h) (\<lambda>ci.
      bnd (pure (inode_number_binary (inode_number ci))) (\<lambda>bin.
      bnd (CAFS_write fs (inode_number pi) ((if contents \<noteq> [] then contents @ [0] else contents) @ bin)) (\<lambda>_.
      bnd (add_inode_cache h) (\<lambda>_. bnd (Arc_drop hp) (\<lambda>_. ret h))))))))) st1 (\<lambda>h st'. \<exists>k bin own' V'.
      F k = None \<and> k \<in> inode_range fs \<and> {..<k} \<subseteq> dom F \<and> inode_number_binary k = Inr bin \<and>
      fs_state fs n (F(k \<mapsto> new_file File name, p \<mapsto> d\<lparr>fdata := dir_append (fdata d) bin\<rparr>)) own' V' st' \<and>
      free_blocks fs V' + growth (length (fdata d)) (length (dir_append (fdata d) bin)) = free_blocks fs V \<and>
      number_of st' h = Some k \<and> (\<forall>h' \<in> set (refs st). number_of st' h' = number_of st h') \<and>
      refs st' = h # refs st \<and> room st \<le> room st' + 3 \<and> 2 \<le> count_list (inode_cache st') h)"
    proof (rule runs_mono [OF create_entry_ok [OF st1(1) p1 ku st1(4) num _ sz _ bin]], goal_cases)
      case (3 r st')
      then obtain own' W where "r = h" "fs_state fs n (F(k \<mapsto> new_file File name, p \<mapsto> d\<lparr>fdata := dir_append (fdata d) bin\<rparr>)) own' W st'"
        "free_blocks fs W + growth (length (fdata d)) (length (dir_append (fdata d) bin)) = free_blocks fs V1"
        "\<forall>h' \<in> set (refs st1). number_of st' h' = number_of st1 h'" "refs st' = h # refs st"
        "room st1 \<le> room st' + 2" "2 \<le> count_list (inode_cache st') h"
        by blast
      with k bin st1(3-6) num show ?case
        by (intro exI [of _ k] exI [of _ bin] exI [of _ own'] exI [of _ W]) (simp del: fun_upd_apply)
    qed (use room st1(3,5) blks in simp_all)
  qed
qed

section \<open>Directories and free space\<close>

lemma CAFS_df_ok:
  assumes st: "fs_state fs n F own V st" and fits: "blocks (data_bitmap fs) * BLOCK_BITS * BLOCK_SIZE < U64_RANGE"
  shows "runs (CAFS_df fs) st (\<lambda>r st'. fs_state fs n F own V st' \<and> refs st' = refs st \<and>
    room st' = room st \<and> number_of st' = number_of st \<and>
    r = (free_blocks fs V * BLOCK_SIZE, blocks (data_bitmap fs) * BLOCK_BITS * BLOCK_SIZE))"
proof -
  from st have sto: "store n [] V (blk_cache st)" and fa: "files_at fs n V F own" by (simp_all add: fs_state_def)
  have ok: "bitmap_ok n (data_bitmap fs)"
    by (rule geometry_bitmaps [OF files_at_geometry [OF fa] store_range [OF sto]])
  have "free_blocks fs V * BLOCK_SIZE \<le> blocks (data_bitmap fs) * BLOCK_BITS * BLOCK_SIZE"
    by (rule mult_le_mono1) (simp add: free_blocks_def)
  from this fits have "free_blocks fs V * BLOCK_SIZE < U64_RANGE" by (rule le_less_trans)
  with fits have mul: "u64_mul (free_blocks fs V) BLOCK_SIZE = Inr (free_blocks fs V * BLOCK_SIZE)"
    "u64_mul (blocks (data_bitmap fs) * BLOCK_BITS) BLOCK_SIZE = Inr (blocks (data_bitmap fs) * BLOCK_BITS * BLOCK_SIZE)"
    by simp_all
  have tot: "total_count (data_bitmap fs) = Inr (blocks (data_bitmap fs) * BLOCK_BITS)"
    using ok by (simp add: total_count_def bitmap_ok_def)
  have "exec n [] V (free_count (data_bitmap fs)) (\<lambda>r V'. V' = V \<and> r = free_blocks fs V)"
    using exec_free_count [OF ok, of "[]" V] by (simp add: free_blocks_def card_used CACHE_SIZE_def)
  then show ?thesis
    unfolding CAFS_df_def runs_bnd
    by (rule on_cache_run [OF sto]) (use st in \<open>auto simp: tot mul runs_ret fs_state_def handles_ok_def\<close>)
qed

end

text \<open>The contents of a directory that lists the given inodes.\<close>

fun dir_contents :: "nat list \<Rightarrow> u8 list" where
  "dir_contents [] = []"
| "dir_contents [k] = (case inode_number_binary k of Inr b \<Rightarrow> b | Inl _ \<Rightarrow> [])"
| "dir_contents (k # ks) = (case inode_number_binary k of Inr b \<Rightarrow> b | Inl _ \<Rightarrow> []) @ [0] @ dir_contents ks"

lemma split_zero_nonzero: "0 \<notin> set bs \<Longrightarrow> split_zero bs = [bs]"
  by (induction bs) auto

lemma split_zero_append: "0 \<notin> set bs \<Longrightarrow> split_zero (bs @ 0 # cs) = bs # split_zero cs"
  by (induction bs) auto

lemma dir_decode:
  assumes "ks \<noteq> []" and "\<forall>k \<in> set ks. k < U64_RANGE"
  shows "decode_entries (split_zero (dir_contents ks)) = Inr ks \<and> dir_contents ks \<noteq> []"
  using assms
proof (induction ks rule: dir_contents.induct)
  case 1
  then show ?case by simp
next
  case (2 k)
  with inode_number_total [of k] show ?case by (auto simp: split_zero_nonzero)
next
  case (3 k k' ks)
  with inode_number_total [of k] show ?case by (auto simp: split_zero_append)
qed

lemma dir_contents_append:
  assumes "inode_number_binary k = Inr bin" and "\<forall>j \<in> set ks. j < U64_RANGE"
  shows "dir_append (dir_contents ks) bin = dir_contents (ks @ [k])"
  using assms
proof (induction ks rule: dir_contents.induct)
  case 1
  then show ?case by (simp add: dir_append_def)
next
  case (2 j)
  with inode_number_total [of j] show ?case by (auto simp: dir_append_def)
next
  case (3 j j' ks)
  then have "dir_append (dir_contents (j' # ks)) bin = dir_contents ((j' # ks) @ [k])" by simp
  moreover have "dir_contents (j' # ks) \<noteq> []" using dir_decode [of "j' # ks"] 3 by simp
  ultimately show ?case by (simp add: dir_append_def)
qed

text \<open>The inodes a file lists: none for a regular file, the decoded entries for a directory.\<close>

definition dir_entries :: "file_node \<Rightarrow> rust_panic + nat list" where
  "dir_entries d = (if ftype d = File \<or> fdata d = [] then Inr [] else decode_entries (split_zero (fdata d)))"

lemma dir_entries_contents:
  "ftype d = Dir \<Longrightarrow> fdata d = dir_contents ks \<Longrightarrow> \<forall>k \<in> set ks. k < U64_RANGE \<Longrightarrow> dir_entries d = Inr ks"
  using dir_decode [of ks] by (cases "ks = []") (auto simp: dir_entries_def)

context block_device
begin

lemma CAFS_sub_inodes_ok:
  assumes st: "fs_state fs n F own V st" and p: "F p = Some d"
    and room: "0 < room st \<or> find_inode p st \<noteq> None"
    and dir: "dir_entries d = Inr ks"
  shows "runs (CAFS_sub_inodes fs p) st (\<lambda>r st'. r = ks \<and> fs_state fs n F own V st' \<and> refs st' = refs st \<and>
    room st' = room st \<and> (\<forall>h' \<in> set (refs st). number_of st' h' = number_of st h'))"
proof -
  have fa: "files_at fs n V F own" using st by (simp add: fs_state_def)
  have dec: "ftype d \<noteq> File \<Longrightarrow> fdata d \<noteq> [] \<Longrightarrow> decode_entries (split_zero (fdata d)) = Inr ks"
    "ftype d = File \<or> fdata d = [] \<Longrightarrow> ks = []"
    using dir by (auto simp: dir_entries_def)
  show ?thesis
    unfolding CAFS_sub_inodes_def CAFS_inode_def
  proof (subst runs_bnd, rule runs_mono [OF cainode_ok [OF st p room]], elim conjE, goal_cases)
    case st1: (1 h st1)
    have read: "runs (on_cache (CaInode_data (mirror fs d p (snd (own p))))) st1
        (\<lambda>r st'. r = fdata d \<and> (\<exists>c. store n [] V c \<and> st' = st1\<lparr>blk_cache := c\<rparr>))"
      by (rule on_cache_run [OF _ exec_file_data [OF fa p]]) (use st1(1) in \<open>auto simp: fs_state_def\<close>)
    have nf: "CaInode_is_file (mirror fs d p (snd (own p))) \<longleftrightarrow> ftype d = File" by (simp add: CaInode_is_file_def)
    have fin: "fs_state fs n F own V (st1\<lparr>blk_cache := c, refs := refs st\<rparr>)" if "store n [] V c" for c
      using st1(1,4) that by (simp add: fs_state_def handles_ok_def)
    have fin0: "fs_state fs n F own V (st1\<lparr>refs := refs st\<rparr>)"
      using st1(1,4) by (simp add: fs_state_def handles_ok_def)
    show ?case
      unfolding runs_bnd runs_Arc_deref [OF st1(2)]
      by (cases "ftype d = File", use dec fin0 st1(4-6) in \<open>simp add: nf wp Arc_drop_def room_def\<close>,
          simp add: nf runs_bnd, rule runs_mono [OF read])
        (use dec fin st1(4-6) in \<open>auto simp: wp Arc_drop_def room_def\<close>)
  qed
qed

end

end
