(* ===== verification/Cafs_Init.thy ===== *)
theory Cafs_Init
  imports Cafs_Ops
begin

text \<open>
  Making a file system and opening it again. \<open>CAFS::init\<close> lays the areas out so that no bit of
  a bitmap stands for a block beyond the device, clears the device and creates the root
  directory. What \<open>flush\<close> writes is enough for \<open>CAFS::open\<close> to find every file again.
\<close>

section \<open>The plan of the areas\<close>

lemma plan_ok:
  assumes fits: "1 + nb + nb * BLOCK_BITS \<le> tb" and tb: "tb < U64_RANGE"
    and bytes: "nb * BLOCK_BITS * BLOCK_SIZE + BLOCK_SIZE < U64_RANGE"
  obtains fs sb where "plan tb nb = Inr (fs, sb)" and "geometry fs tb"
    and "blocks (inode_bitmap fs) = nb" and "is_valid sb" and "sb_inode_bitmap_blocks sb = nb"
    and "sb_inode_area_blocks sb = nb * BLOCK_BITS"
    and "sb_data_bitmap_blocks sb = blocks (data_bitmap fs)" and "super_block_ok sb"
    and "blocks (data_bitmap fs) = (tb - 1 - nb - nb * BLOCK_BITS) div (BLOCK_BITS + 1)"
proof -
  let ?d = "tb - 1 - (nb + nb * BLOCK_BITS)"
  let ?db = "?d div (BLOCK_BITS + 1)"
  let ?fs = "\<lparr>inode_bitmap = Bitmap_new 1 nb, data_bitmap = Bitmap_new (1 + (nb + nb * BLOCK_BITS)) ?db,
    inode_area_start_block = 1 + nb, data_area_start_block = 1 + (nb + nb * BLOCK_BITS) + ?db\<rparr>"
  let ?sb = "SuperBlock_initialize tb nb (nb * BLOCK_BITS) ?db (?d - ?db)"
  have db: "?db * (BLOCK_BITS + 1) \<le> ?d" by (rule div_times_less_eq_dividend)
  then have db2: "?db + ?db * BLOCK_BITS \<le> ?d" by (simp add: algebra_simps)
  have le: "nb * BLOCK_BITS \<le> nb * BLOCK_BITS * BLOCK_SIZE" by (simp add: BLOCK_SIZE_def)
  then have small: "nb * BLOCK_BITS < U64_RANGE" using bytes by linarith
  have area: "div_ceil (nb * BLOCK_BITS * BLOCK_SIZE) BLOCK_SIZE = Inr (nb * BLOCK_BITS)"
    using bytes by (simp add: BLOCK_SIZE_def)
  have "u64_mul nb BLOCK_BITS = Inr (nb * BLOCK_BITS)"
    "u64_mul (nb * BLOCK_BITS) (vsize meta_view) = Inr (nb * BLOCK_BITS * BLOCK_SIZE)"
    "u64_add nb (nb * BLOCK_BITS) = Inr (nb + nb * BLOCK_BITS)" "u64_sub tb 1 = Inr (tb - 1)"
    "u64_sub (tb - 1) (nb + nb * BLOCK_BITS) = Inr ?d"
    "u64_add 1 (nb + nb * BLOCK_BITS) = Inr (1 + (nb + nb * BLOCK_BITS))" "u64_add 1 nb = Inr (1 + nb)"
    "u64_add (1 + (nb + nb * BLOCK_BITS)) ?db = Inr (1 + (nb + nb * BLOCK_BITS) + ?db)"
    using fits tb small bytes db2 by (simp_all add: BLOCK_SIZE_def)
  then have "plan tb nb = Inr (?fs, ?sb)"
    using area by (simp only: plan_def Let_def total_count_def Bitmap_new_def bitmap.simps sbnd_simps)
  moreover have "geometry ?fs tb" using fits db2 by (simp add: geometry_def Bitmap_new_def)
  moreover have "super_block_ok ?sb"
  proof -
    have "?db \<le> ?d" by (rule div_le_dividend)
    moreover have "?d < U64_RANGE" using tb by simp
    ultimately have "?db < U64_RANGE" "?d - ?db < U64_RANGE" by linarith+
    moreover have "nb < U64_RANGE" using fits tb by linarith
    ultimately show ?thesis
      using tb small unfolding super_block_ok_def SuperBlock_initialize_def
      by (simp add: FS_MAGIC_def U64_RANGE_def)
  qed
  ultimately show thesis
    by (intro that [of ?fs ?sb]) (simp_all add: Bitmap_new_def SuperBlock_initialize_def is_valid_def)
qed

section \<open>Clearing the device\<close>

lemma geometry_mono: "geometry fs n \<Longrightarrow> n \<le> n' \<Longrightarrow> geometry fs n'"
  by (simp add: geometry_def)

lemma bitmap_set_zeros:
  assumes "\<And>i. i \<in> bitmap_area bm \<Longrightarrow> W i = replicate BLOCK_SIZE 0" and "bitmap_ok n bm"
  shows "bitmap_set bm W = {}"
proof -
  have "bitmap_set bm W = bitmap_set bm (zero_blocks n)"
    using assms by (intro bitmap_set_cong) (auto simp: zero_blocks_def bitmap_area_def bitmap_ok_def)
  with bitmap_set_zero [OF assms(2)] show ?thesis by simp
qed

context block_device
begin

lemma exec_clear_blocks:
  assumes "tb \<le> n"
  shows "exec n [] V (clear_blocks tb) (\<lambda>_ V'. \<forall>i<tb. V' i = replicate BLOCK_SIZE 0)"
  unfolding clear_blocks_def
proof (rule exec_for_each [where I = "\<lambda>is W. \<exists>k \<le> tb. is = [k..<tb] \<and> (\<forall>i<k. W i = replicate BLOCK_SIZE 0)"])
  show "\<exists>k \<le> tb. [0..<tb] = [k..<tb] \<and> (\<forall>i<k. V i = replicate BLOCK_SIZE 0)" by auto
next
  fix y ys and W :: "nat \<Rightarrow> u8 list"
  assume "\<exists>k \<le> tb. y # ys = [k..<tb] \<and> (\<forall>i<k. W i = replicate BLOCK_SIZE 0)"
  then obtain k where "[k..<tb] = y # ys" "\<forall>i<k. W i = replicate BLOCK_SIZE 0" by metis
  then have y: "y < tb" "ys = [Suc y..<tb]" "\<forall>i<y. W i = replicate BLOCK_SIZE 0"
    by (auto simp: upt_eq_Cons_conv)
  show "exec n [] W (modify_at data_block y 0 (\<lambda>block. ret ((), map (\<lambda>_. 0) block)))
      (\<lambda>_ W'. \<exists>k \<le> tb. ys = [k..<tb] \<and> (\<forall>i<k. W' i = replicate BLOCK_SIZE 0))"
  proof (rule exec_wf)
    assume len: "\<And>i. i < n \<Longrightarrow> length (W i) = BLOCK_SIZE"
    have yn: "y < n" using y assms by simp
    have "view_set data_block 0 (map (\<lambda>_. 0) (view_at data_block 0 (W y))) (W y) = replicate BLOCK_SIZE 0"
      using len [OF yn] by (simp add: view_set_def view_at_def data_block_def map_replicate_const)
    then show ?thesis
      using y by (intro exec_modify_at [OF yn] exec_ret)
        (auto simp: CACHE_SIZE_def less_Suc_eq intro!: exI [of _ "Suc y"])
  qed
next
  fix W :: "nat \<Rightarrow> u8 list"
  assume "\<exists>k \<le> tb. [] = [k..<tb] \<and> (\<forall>i<k. W i = replicate BLOCK_SIZE 0)"
  then obtain k where "[k..<tb] = []" "\<forall>i<k. W i = replicate BLOCK_SIZE 0" by metis
  then show "\<forall>i<tb. W i = replicate BLOCK_SIZE 0" by auto
qed

lemma exec_super_block:
  assumes "super_block_ok sb" and "0 < n"
  shows "exec n [] V (modify_at super_block_view 0 0 (\<lambda>_. ret ((), sb)))
    (\<lambda>_ V'. view_at super_block_view 0 (V' 0) = sb \<and> (\<forall>i. i \<noteq> 0 \<longrightarrow> V' i = V i))"
proof (rule exec_wf)
  assume len: "\<And>i. i < n \<Longrightarrow> length (V i) = BLOCK_SIZE"
  then have l: "0 + vsize super_block_view \<le> length (V 0)" "length (V 0) = BLOCK_SIZE"
    using assms(2) by (simp_all add: BLOCK_SIZE_def)
  from super_struct.view_at_set [OF assms(1) l(1)] super_struct.length_view_set [OF assms(1) l(1)] l(2)
  show ?thesis
    by (intro exec_modify_at [OF assms(2)] exec_ret) (auto simp: CACHE_SIZE_def BLOCK_SIZE_def)
qed

lemma files_at_cleared:
  assumes geo: "geometry fs tb" and n: "tb \<le> n" "n < U64_RANGE"
    and V: "\<forall>i. 0 < i \<longrightarrow> i < tb \<longrightarrow> V i = replicate BLOCK_SIZE 0" and sb: "super_ok fs V"
  shows "files_at fs n V Map.empty own"
proof -
  have tb: "tb < U64_RANGE" using n by simp
  have zero: "bitmap_set bm V = {}" if bm: "bm = inode_bitmap fs \<or> bm = data_bitmap fs" for bm
  proof (rule bitmap_set_zeros)
    show ok: "bitmap_ok tb bm" using bm geometry_bitmaps [OF geo tb] by auto
    show "V i = replicate BLOCK_SIZE 0" if "i \<in> bitmap_area bm" for i
      using that bm ok geometry_disjoint(9,10) [OF geo, of i] V
      by (auto simp: bitmap_area_def bitmap_ok_def)
  qed
  then show ?thesis using geometry_mono [OF geo n(1)] sb by (simp add: files_at_def used_def)
qed

section \<open>init\<close>

lemma room_new [simp]: "room (new_state d) = INODE_CACHE_SIZE"
  by (simp add: room_def new_state_def free_slots_def unpinned_def)

lemma cleared_state:
  assumes d: "dev_ok vt dinv d" "cap (dev d) = n" "tb \<le> n"
    and geo: "geometry fs tb" and sb: "super_block_ok sb" "is_valid sb"
      "sb_inode_bitmap_blocks sb = blocks (inode_bitmap fs)"
      "sb_inode_area_blocks sb = blocks (inode_bitmap fs) * BLOCK_BITS"
      "sb_data_bitmap_blocks sb = blocks (data_bitmap fs)"
    and tb: "0 < tb"
  shows "runs (bnd (on_cache (clear_blocks tb)) (\<lambda>_. on_cache (modify_at super_block_view 0 0 (\<lambda>_. ret ((), sb)))))
    (new_state d) (\<lambda>_ st. \<exists>V. fs_state fs n Map.empty own V st \<and> refs st = [] \<and> room st = INODE_CACHE_SIZE \<and>
      used fs V = {})"
proof -
  let ?V = "\<lambda>i. if i < n then blk (dev d) i else []"
  have sto: "store n [] ?V (blk_cache (new_state d))" using store_new [OF d(1)] d(2) by (simp add: new_state_def)
  have n: "n < U64_RANGE" using d cap_bound by (auto simp: dev_ok_def)
  show ?thesis
    unfolding runs_bnd
  proof (rule on_cache_run [OF sto exec_clear_blocks [OF d(3)]])
    fix u c and V :: "nat \<Rightarrow> u8 list"
    assume V: "store n [] V c" "\<forall>i<tb. V i = replicate BLOCK_SIZE 0"
    let ?st = "new_state d\<lparr>blk_cache := c\<rparr>"
    have sto: "store n [] V (blk_cache ?st)" using V by simp
    have n0: "0 < n" using tb d(3) by simp
    show "runs (on_cache (modify_at super_block_view 0 0 (\<lambda>_. ret ((), sb)))) ?st (\<lambda>_ st. \<exists>V.
        fs_state fs n Map.empty own V st \<and> refs st = [] \<and> room st = INODE_CACHE_SIZE \<and> used fs V = {})"
    proof (rule on_cache_run [OF sto exec_super_block [OF sb(1) n0]], elim conjE)
      fix v c' and W :: "nat \<Rightarrow> u8 list"
      assume W: "store n [] W c'" "view_at super_block_view 0 (W 0) = sb" "\<forall>i. i \<noteq> 0 \<longrightarrow> W i = V i"
      have "super_ok fs W" using W(2) sb by (simp add: super_ok_def)
      then have fa: "files_at fs n W Map.empty own"
        using W(3) V(2) by (intro files_at_cleared [OF geo d(3) n]) auto
      then have "used fs W = {}" by (simp add: files_at_def)
      moreover have "handles_ok fs Map.empty own (new_state d)"
        by (simp add: handles_ok_def cache_ok_def new_state_def)
      ultimately show "\<exists>V. fs_state fs n Map.empty own V (?st\<lparr>blk_cache := c'\<rparr>) \<and>
          refs (?st\<lparr>blk_cache := c'\<rparr>) = [] \<and> room (?st\<lparr>blk_cache := c'\<rparr>) = INODE_CACHE_SIZE \<and> used fs V = {}"
        using W(1) fa by (intro exI [of _ W]) (simp add: fs_state_def handles_ok_def, simp add: new_state_def)
    qed
  qed
qed

lemma CAFS_flush_ok:
  assumes "fs_state fs n F own V st"
  shows "runs CAFS_flush st (\<lambda>_ st'. fs_state fs n F own V st' \<and> refs st' = refs st \<and> room st' = room st \<and>
    (\<forall>h. number_of st' h = number_of st h) \<and> (\<forall>j<n. blk (dev (device (blk_cache st'))) j = V j))"
proof -
  have "store n [] V (blk_cache st)" using assms by (simp add: fs_state_def)
  from flush_ok [OF this] show ?thesis
    unfolding CAFS_flush_def on_cache_def runs_zoom
    by (rule runs_mono) (use assms in \<open>simp add: fs_state_def handles_ok_def\<close>)
qed

text \<open>The root directory is the first inode.\<close>

lemma root_inode_ok:
  assumes st: "fs_state fs n Map.empty own V st" and rf: "refs st = []" "room st = INODE_CACHE_SIZE"
    and u: "used fs V = {}" and nb: "0 < blocks (inode_bitmap fs)"
  shows "runs (bnd (alloc_inode_meta fs Dir [47]) (\<lambda>h. bnd (Arc_deref h) (\<lambda>ci.
    bnd (require (inode_number ci = 0) AssertFailed) (\<lambda>_. Arc_drop h)))) st (\<lambda>_ st'. \<exists>V'.
    fs_state fs n [0 \<mapsto> new_file Dir [47]] (own(0 := ([], []))) V' st' \<and> refs st' = [] \<and>
    INODE_CACHE_SIZE - 1 \<le> room st' \<and> free_blocks fs V' = blocks (data_bitmap fs) * BLOCK_BITS)"
proof -
  have range: "dom Map.empty \<noteq> inode_range fs" using nb by (simp add: inode_range_def lessThan_eq_iff flip: lessThan_0)
  have "free_blocks fs V = blocks (data_bitmap fs) * BLOCK_BITS" by (simp add: free_blocks_def u)
  note free = this
  have name: "length [47 :: u8] \<le> NAME_LENGTH_LIMIT" and room: "0 < room st"
    using rf by (simp_all add: NAME_LENGTH_LIMIT_def INODE_CACHE_SIZE_def)
  show ?thesis
    unfolding runs_bnd
  proof (rule runs_mono [OF alloc_inode_meta_ok [OF st range name room]], elim exE conjE)
    fix h st' k V'
    assume k: "{..<k} \<subseteq> dom Map.empty"
      and st': "fs_state fs n [k \<mapsto> new_file Dir [47]] (own(k := ([], []))) V' st'"
        "arcs st' h = Some (mirror fs (new_file Dir [47]) k [])" "free_blocks fs V' = free_blocks fs V"
        "refs st' = h # refs st" "room st' + 1 = room st"
    have k0: "k = 0" using k by (auto simp: lessThan_empty_iff)
    have "room st' \<le> room (st'\<lparr>refs := []\<rparr>)" using room_drop [of st' h] st'(4) rf by simp
    moreover have "fs_state fs n [0 \<mapsto> new_file Dir [47]] (own(0 := ([], []))) V' (st'\<lparr>refs := []\<rparr>)"
      using st'(1) k0 by (simp add: fs_state_def handles_ok_def)
    ultimately show "runs (Arc_deref h) st' (\<lambda>ci s. runs (require (inode_number ci = 0) AssertFailed) s (\<lambda>_ s.
        runs (Arc_drop h) s (\<lambda>_ st'. \<exists>V'. fs_state fs n [0 \<mapsto> new_file Dir [47]] (own(0 := ([], []))) V' st' \<and>
        refs st' = [] \<and> INODE_CACHE_SIZE - 1 \<le> room st' \<and> free_blocks fs V' = blocks (data_bitmap fs) * BLOCK_BITS)))"
      using st'(3-5) rf free by (auto simp: runs_Arc_deref [OF st'(2)] wp k0 Arc_drop_def)
  qed
qed

lemma CAFS_init_ok:
  assumes d: "dev_ok vt dinv d" "cap (dev d) = n" and tb: "tb \<le> n" and nb: "0 < nb"
    and fits: "1 + nb + nb * BLOCK_BITS \<le> tb"
    and bytes: "nb * BLOCK_BITS * BLOCK_SIZE + BLOCK_SIZE < U64_RANGE"
  obtains fs st V where "CAFS_init d tb nb = Inr (fs, st)"
    and "fs_state fs n [0 \<mapsto> new_file Dir [47]] ((\<lambda>_. ([], []))(0 := ([], []))) V st" and "refs st = []"
    and "INODE_CACHE_SIZE - 1 \<le> room st" and "blocks (inode_bitmap fs) = nb"
    and "blocks (data_bitmap fs) = (tb - 1 - nb - nb * BLOCK_BITS) div (BLOCK_BITS + 1)"
    and "free_blocks fs V = blocks (data_bitmap fs) * BLOCK_BITS"
    and "\<forall>j<n. blk (dev (device (blk_cache st))) j = V j"
proof -
  have tbu: "tb < U64_RANGE" using d tb cap_bound by (auto simp: dev_ok_def intro: le_less_trans)
  from plan_ok [OF fits tbu bytes] obtain fs sb where plan: "plan tb nb = Inr (fs, sb)" and geo: "geometry fs tb"
    and ibm: "blocks (inode_bitmap fs) = nb" and sb: "super_block_ok sb" "is_valid sb"
    "sb_inode_bitmap_blocks sb = nb" "sb_inode_area_blocks sb = nb * BLOCK_BITS"
    "sb_data_bitmap_blocks sb = blocks (data_bitmap fs)"
    and dbm: "blocks (data_bitmap fs) = (tb - 1 - nb - nb * BLOCK_BITS) div (BLOCK_BITS + 1)" by metis
  let ?Q = "\<lambda>fs st. \<exists>V. fs_state fs n [0 \<mapsto> new_file Dir [47]] ((\<lambda>_. ([], []))(0 := ([], []))) V st \<and>
    refs st = [] \<and> INODE_CACHE_SIZE - 1 \<le> room st \<and> free_blocks fs V = blocks (data_bitmap fs) * BLOCK_BITS \<and>
    (\<forall>j<n. blk (dev (device (blk_cache st))) j = V j)"
  have sb': "sb_inode_bitmap_blocks sb = blocks (inode_bitmap fs)"
    "sb_inode_area_blocks sb = blocks (inode_bitmap fs) * BLOCK_BITS" using sb ibm by simp_all
  have tb0: "0 < tb" and nb': "0 < blocks (inode_bitmap fs)" using fits nb ibm by linarith+
  note clear = cleared_state [OF d tb geo sb(1,2) sb' sb(5) tb0, where own = "\<lambda>_. ([], [])"]
  have "runs (bnd (on_cache (clear_blocks tb)) (\<lambda>_.
        bnd (on_cache (modify_at super_block_view 0 0 (\<lambda>_. ret ((), sb)))) (\<lambda>_.
        bnd (alloc_inode_meta fs Dir [47]) (\<lambda>h. bnd (Arc_deref h) (\<lambda>ci.
        bnd (require (inode_number ci = 0) AssertFailed) (\<lambda>_.
        bnd (Arc_drop h) (\<lambda>_. bnd CAFS_flush (\<lambda>_. ret fs)))))))) (new_state d) (\<lambda>r st. r = fs \<and> ?Q fs st)"
    using clear unfolding runs_bnd
  proof (elim runs_mono exE conjE)
    fix u st V
    assume st: "fs_state fs n Map.empty (\<lambda>_. ([], [])) V st" "refs st = []" "room st = INODE_CACHE_SIZE" "used fs V = {}"
    from root_inode_ok [OF this nb']
    show "runs (alloc_inode_meta fs Dir [47]) st (\<lambda>h s. runs (Arc_deref h) s (\<lambda>ci s.
        runs (require (inode_number ci = 0) AssertFailed) s (\<lambda>_ s. runs (Arc_drop h) s (\<lambda>_ s.
        runs CAFS_flush s (\<lambda>_ s. runs (ret fs) s (\<lambda>r st. r = fs \<and> ?Q fs st))))))"
      unfolding runs_bnd
      by (elim runs_mono exE conjE) (rule runs_mono [OF CAFS_flush_ok], assumption, auto simp: runs_ret)
  qed
  then obtain st where "CAFS_init d tb nb = Inr (fs, st)" "?Q fs st"
    by (auto simp: CAFS_init_def plan runs_iff_result)
  with ibm dbm show thesis by (elim exE conjE) (rule that)
qed

section \<open>open\<close>

lemma store_view: "store n [] V cm \<Longrightarrow> n \<le> j \<Longrightarrow> V j = []"
  using ok_entry by (fastforce simp: store_at_def cview_def split: option.split dest: map_of_SomeD)

text \<open>A device that holds the blocks of a file system opens as that file system.\<close>

lemma CAFS_open_ok:
  assumes d: "dev_ok vt dinv d" "cap (dev d) = n" and V: "V = (\<lambda>i. if i < n then blk (dev d) i else [])"
    and fa: "files_at fs n V F own"
  obtains st where "CAFS_open d = Inr (fs, st)" and "fs_state fs n F own V st" and "refs st = []"
    and "room st = INODE_CACHE_SIZE"
proof -
  have sto': "store n [] V (blk_cache (new_state d))"
    using store_new [OF d(1)] d(2) V by (simp add: new_state_def)
  have n: "n < U64_RANGE" by (rule store_range [OF sto'])
  have geo: "geometry fs n" by (rule files_at_geometry [OF fa])
  let ?sb = "view_at super_block_view 0 (V 0)"
  have sb: "is_valid ?sb" "sb_inode_bitmap_blocks ?sb = blocks (inode_bitmap fs)"
    "sb_inode_area_blocks ?sb = blocks (inode_bitmap fs) * BLOCK_BITS"
    "sb_data_bitmap_blocks ?sb = blocks (data_bitmap fs)"
    using fa by (simp_all add: files_at_def super_ok_def Let_def)
  let ?b = "blocks (inode_bitmap fs)" and ?db = "blocks (data_bitmap fs)"
  have add: "u64_add ?b (?b * BLOCK_BITS) = Inr (?b + ?b * BLOCK_BITS)"
    "u64_add 1 (?b + ?b * BLOCK_BITS) = Inr (1 + (?b + ?b * BLOCK_BITS))" "u64_add 1 ?b = Inr (1 + ?b)"
    "u64_add (1 + (?b + ?b * BLOCK_BITS)) ?db = Inr (1 + (?b + ?b * BLOCK_BITS) + ?db)"
    using geo n by (auto simp: geometry_def)
  have fs: "fs = \<lparr>inode_bitmap = Bitmap_new 1 ?b, data_bitmap = Bitmap_new (1 + (?b + ?b * BLOCK_BITS)) ?db,
      inode_area_start_block = 1 + ?b, data_area_start_block = 1 + (?b + ?b * BLOCK_BITS) + ?db\<rparr>"
    using geo by (simp add: geometry_def Bitmap_new_def add.assoc)
  have n0: "0 < n" using geo by (auto simp: geometry_def)
  have load: "load_areas ?sb = Inr fs"
    by (subst fs) (simp only: load_areas_def sb add sbnd_simps not_True_eq_False if_False)
  have "runs (on_cache (read_at super_block_view 0 0 (\<lambda>sb. pure (load_areas sb)))) (new_state d)
    (\<lambda>r st. r = fs \<and> (\<exists>c. store n [] V c \<and> st = (new_state d)\<lparr>blk_cache := c\<rparr>))"
  proof (rule on_cache_run [OF sto'])
    show "exec n [] V (read_at super_block_view 0 0 (\<lambda>sb. pure (load_areas sb))) (\<lambda>r V'. r = fs \<and> V' = V)"
      by (rule exec_read_at [OF n0]) (simp_all add: CACHE_SIZE_def BLOCK_SIZE_def exec_pure [OF load])
  qed auto
  then obtain c where c: "CAFS_open d = Inr (fs, (new_state d)\<lparr>blk_cache := c\<rparr>)" "store n [] V c"
    unfolding CAFS_open_def runs_iff_result by blast
  have "handles_ok fs F own (new_state d)" by (simp add: handles_ok_def cache_ok_def new_state_def)
  then show thesis
    using c fa by (intro that [OF c(1)]) (simp_all add: fs_state_def handles_ok_def, simp add: new_state_def)
qed

end

end
