(* ===== verification/Cafs_Shrink.thy ===== *)
theory Cafs_Shrink
  imports Cafs_Init
begin

text \<open>
  Writes that release blocks. \<open>write\<close> hands the ids it gets from \<open>shrink\<close> to
  \<open>data_bitmap.dealloc\<close> as they are, but they are block ids, while the numbers of the bitmap
  are relative to the start of the data area: \<open>alloc_data\<close> adds \<open>data_area_start_block\<close> and the
  way back does not subtract it. The lemmas show what that does: the first released id names
  the bit of another block, and when that block is free the write panics.
\<close>

definition released :: "nat \<Rightarrow> nat list \<Rightarrow> nat list \<Rightarrow> nat list" where
  "released new_size idx dat = rev (drop (index_count new_size) idx) @ rev (drop (data_count new_size) dat)"

lemma used_bit: "data_area_start_block fs + x \<in> used fs V \<longleftrightarrow> x \<in> bitmap_set (data_bitmap fs) V"
  by (auto simp: used_def)

context block_device
begin

lemma exec_fail_for_each_hd:
  assumes "exec_fail n H V (f (hd (xs @ ys))) e" and "xs @ ys \<noteq> []"
  shows "exec_fail n H V (bnd (for_each xs f) (\<lambda>_. bnd (for_each ys f) c)) e"
proof (cases xs)
  case Nil
  with assms obtain y ys' where "ys = y # ys'" by (cases ys) auto
  with assms Nil show ?thesis by (simp add: bnd_ret exec_fail_bnd1)
qed (use assms in \<open>simp add: exec_fail_bnd1\<close>)

lemma exec_fail_write_meta:
  assumes geo: "geometry fs n" and rep: "meta_rep n V m idx dat" and own: "set (idx @ dat) \<subseteq> used fs V"
    and sz: "data_count new_size < data_count (meta_size m)"
    and x: "x = hd (released new_size idx dat)" "x < blocks (data_bitmap fs) * BLOCK_BITS"
      "data_area_start_block fs + x \<notin> used fs V"
    and H: "length H + 4 \<le> CACHE_SIZE" "fst ` set H \<inter> (bitmap_area (data_bitmap fs) \<union> data_area fs) = {}"
  shows "exec_fail n H V (write_meta fs new_size m) AssertFailed"
proof (rule exec_fail_wf)
  assume n: "n < U64_RANGE"
  let ?bm = "data_bitmap fs"
  have lt: "new_size < meta_size m" using sz level_mono(1) [of "meta_size m" new_size] by linarith
  have max: "meta_size m \<le> L4_MAX" using rep by (simp add: meta_rep_def)
  obtain cur new where li: "index_blocks (meta_size m) = Inr cur" "index_blocks new_size = Inr new"
    using index_blocks_eq max lt by (metis less_imp_le order.trans)
  have sub: "set (idx @ dat) \<subseteq> data_area fs" using own used_subset by blast
  then have H': "set idx \<inter> fst ` set H = {}" using H(2) by auto
  have bm: "bitmap_area ?bm \<inter> set idx = {}" using geometry_disjoint(3) [OF geo] sub by auto
  have ne: "released new_size idx dat \<noteq> []" using rep sz by (auto simp: released_def meta_rep_def)
  have ok: "bitmap_ok n ?bm" by (rule geometry_bitmaps [OF geo n])
  have fail: "exec_fail n H V' (dealloc ?bm x) AssertFailed" if "\<forall>i. i \<notin> set idx \<longrightarrow> V' i = V i" for V'
  proof (rule exec_fail_dealloc [OF ok])
    have "bitmap_set ?bm V' = bitmap_set ?bm V" using that bm by (intro bitmap_set_cong) auto
    then show "x \<notin> bitmap_set ?bm V'" using x(3) by (simp add: used_bit)
  qed (use H x in auto)
  have "exec_fail n H V (bnd (Meta_shrink new_size m) (\<lambda>((index_ids, data_ids), m').
        bnd (for_each index_ids (dealloc ?bm)) (\<lambda>_. bnd (for_each data_ids (dealloc ?bm)) (\<lambda>_. ret m')))) AssertFailed"
    by (rule exec_fail_bnd2, rule exec_mono [OF exec_Meta_shrink [OF rep less_imp_le [OF lt] H(1) H']])
      (use fail ne x(1) in \<open>auto intro!: exec_fail_for_each_hd simp: released_def\<close>)
  then show "exec_fail n H V (write_meta fs new_size m) AssertFailed"
    using lt by (simp add: write_meta_def li exec_fail_bnd1)
qed

text \<open>A panic of the closure on the inode is a panic of \<open>write\<close>.\<close>

lemma CAFS_write_fails:
  assumes st: "fs_state fs n F own V st" and k: "F k = Some f"
    and room: "0 < room st \<or> find_inode k st \<noteq> None"
    and body: "\<And>H. length H + 4 \<le> CACHE_SIZE \<Longrightarrow> fst ` set H \<inter> (bitmap_area (data_bitmap fs) \<union> data_area fs) = {} \<Longrightarrow>
      exec_fail n H V (write_meta fs (length contents) (inode_meta fs V k)) e"
  shows "CAFS_write fs k contents st = Inl e"
proof -
  from st have sto: "store n [] V (blk_cache st)" and fa: "files_at fs n V F own" by (simp_all add: fs_state_def)
  note geo = files_at_geometry [OF fa]
  have kr: "k \<in> inode_range fs" by (rule files_at_range [OF fa k])
  have pos: "inode_pos_of fs k = Inr (inode_block fs k, 0)"
    by (rule inode_pos_of_eq [OF geo store_range [OF sto] kr])
  have i: "inode_block fs k < n" "inode_block fs k \<notin> bitmap_area (data_bitmap fs) \<union> data_area fs"
    using geometry_disjoint(5-7) [OF geo kr] by auto
  have "exec_fail n [] V (modify_at meta_view (inode_block fs k) 0 (write_meta fs (length contents))) e"
    by (rule exec_fail_modify_at [OF i(1)])
      (use body [of "[(inode_block fs k, Write)]"] i(2) in \<open>simp_all add: CACHE_SIZE_def BLOCK_SIZE_def inode_meta_def\<close>)
  note fail = this
  from cainode_ok [OF st k room] obtain h st' where
    "cainode fs k st = Inr (h, st')" "fs_state fs n F own V st'" by (auto simp: runs_iff_result)
  moreover from this have "modify_at meta_view (inode_block fs k) 0 (write_meta fs (length contents)) (blk_cache st') = Inl e"
    by (intro exec_failD [OF fail]) (simp add: fs_state_def)
  ultimately show ?thesis
    by (simp add: CAFS_write_def Let_def bnd_def pos pure_def on_cache_def zoom_def ret_def)
qed

lemma CAFS_write_shrink_panics:
  assumes st: "fs_state fs n F own V st" and k: "F k = Some f"
    and sz: "data_count (length contents) < data_count (length (fdata f))"
    and x: "x = hd (released (length contents) (fst (own k)) (snd (own k)))"
      "x < blocks (data_bitmap fs) * BLOCK_BITS" "data_area_start_block fs + x \<notin> used fs V"
    and room: "0 < room st \<or> find_inode k st \<noteq> None"
  shows "CAFS_write fs k contents st = Inl AssertFailed"
proof (rule CAFS_write_fails [OF st k room])
  from st have fa: "files_at fs n V F own" by (simp add: fs_state_def)
  have rep: "meta_rep n V (inode_meta fs V k) (fst (own k)) (snd (own k))"
    "meta_size (inode_meta fs V k) = length (fdata f)"
    using files_at_file [OF fa k] by (simp_all add: file_at_def Let_def)
  have own: "set (fst (own k) @ snd (own k)) \<subseteq> used fs V"
    using files_at_used [OF fa k] by (simp add: blocks_of_def)
  show "exec_fail n H V (write_meta fs (length contents) (inode_meta fs V k)) AssertFailed"
    if "length H + 4 \<le> CACHE_SIZE" "fst ` set H \<inter> (bitmap_area (data_bitmap fs) \<union> data_area fs) = {}" for H
    using sz rep(2) by (intro exec_fail_write_meta [OF files_at_geometry [OF fa] rep(1) own _ x that]) simp
qed

end

end
