(* ===== verification/Inode_Slots.thy ===== *)
theory Inode_Slots
  imports Cafs_Shrink
begin

text \<open>
  How many inodes clients can pin over a session. \<open>quota c b st\<close> says that with no reference
  held, \<open>c\<close> places of the queue of cached inodes could be reused, and that addresses below \<open>b\<close>
  are taken. Every operation keeps it, whatever it is called on, except \<open>create\<close>, which
  uses up two places for good: it puts the new inode into the queue twice, so its strong
  count never falls back to one.
\<close>

section \<open>Partial correctness\<close>

definition triple :: "('s \<Rightarrow> bool) \<Rightarrow> ('s, 'a) rust \<Rightarrow> ('a \<Rightarrow> 's \<Rightarrow> bool) \<Rightarrow> bool" where
  "triple P m Q \<longleftrightarrow> (\<forall>st a st'. P st \<longrightarrow> m st = Inr (a, st') \<longrightarrow> Q a st')"

lemma triple_bnd: "triple P m Q \<Longrightarrow> (\<And>a. triple (Q a) (f a) R) \<Longrightarrow> triple P (bnd m f) R"
  unfolding triple_def bnd_def by (auto split: sum.splits)

lemma triple_ret: "(\<And>st. P st \<Longrightarrow> Q a st) \<Longrightarrow> triple P (ret a) Q"
  by (simp add: triple_def ret_def)

lemma triple_pure: "triple P (pure r) (\<lambda>_. P)"
  by (cases r) (simp_all add: triple_def pure_def)

lemma triple_gets: "triple P (gets f) (\<lambda>a st. P st \<and> a = f st)"
  by (simp add: triple_def gets_def)

lemma triple_upd: "(\<And>st. P st \<Longrightarrow> Q () (f st)) \<Longrightarrow> triple P (upd f) Q"
  by (simp add: triple_def upd_def)

lemma triple_weaken: "triple P m Q \<Longrightarrow> (\<And>st. P' st \<Longrightarrow> P st) \<Longrightarrow> (\<And>a st. Q a st \<Longrightarrow> Q' a st) \<Longrightarrow> triple P' m Q'"
  unfolding triple_def by blast

lemma triple_panic: "triple P (panic e) Q"
  by (simp add: triple_def panic_def)

lemma triple_runs: "triple P m Q \<Longrightarrow> P st \<Longrightarrow> runs m st R \<Longrightarrow> runs m st (\<lambda>a st'. R a st' \<and> Q a st')"
  unfolding triple_def runs_iff_result by blast

section \<open>The quota\<close>

definition quota :: "nat \<Rightarrow> nat \<Rightarrow> 'd cafs_state \<Rightarrow> bool" where
  "quota c b st \<longleftrightarrow> (\<forall>h \<in> set (inode_cache st). h < next_arc st) \<and> b \<le> next_arc st \<and>
     length (inode_cache st) \<le> INODE_CACHE_SIZE \<and> c \<le> free_slots (mset (inode_cache st)) {#}"

lemma quota_room: "quota c b st \<Longrightarrow> c \<le> room st + length (refs st)"
proof -
  have "free_slots Q {#} \<le> free_slots Q (mset R) + length R" for Q R
  proof (induction R)
    case (Cons h R)
    then show ?case using free_slots_add_ref [of Q "mset R" h] by simp
  qed simp
  then show "quota c b st \<Longrightarrow> c \<le> room st + length (refs st)"
    unfolding quota_def room_def by (meson le_trans)
qed

lemma quota_cong:
  "inode_cache st' = inode_cache st \<Longrightarrow> next_arc st' = next_arc st \<Longrightarrow> quota c b st' = quota c b st"
  by (simp add: quota_def)

lemma quota_refs [simp]:
  "quota c b (st\<lparr>refs := r\<rparr>) = quota c b st" "quota c b (st\<lparr>blk_cache := d\<rparr>) = quota c b st"
  "quota c b (st\<lparr>arcs := a\<rparr>) = quota c b st"
  by (simp_all add: quota_def)

lemma triple_on_cache: "(\<And>st d. P st \<Longrightarrow> P (st\<lparr>blk_cache := d\<rparr>)) \<Longrightarrow> triple P (on_cache m) (\<lambda>_. P)"
  by (auto simp: triple_def on_cache_def zoom_def split: sum.splits)

lemma substitute_quota:
  "triple (\<lambda>st. quota c b st \<and> h \<notin> set (inode_cache st)) substitute_inode
     (\<lambda>_ st. quota c b st \<and> length (inode_cache st) < INODE_CACHE_SIZE \<and> h \<notin> set (inode_cache st))"
  "triple (quota c b) substitute_inode (\<lambda>_ st. quota c b st \<and> length (inode_cache st) < INODE_CACHE_SIZE)"
proof -
  have *: "quota c b st' \<and> length (inode_cache st') < INODE_CACHE_SIZE \<and> set (inode_cache st') \<subseteq> set (inode_cache st)"
    if q: "quota c b st" and r: "substitute_inode st = Inr (u, st')" for u st st'
  proof (cases "length (inode_cache st) = INODE_CACHE_SIZE")
    case True
    let ?Q = "inode_cache st"
    from r True obtain i where i: "find_pos (\<lambda>h. Arc_strong_count st h = 1) ?Q = Some i"
      and st': "st' = st\<lparr>inode_cache := swap_remove ?Q i\<rparr>"
      by (auto simp: substitute_inode_def split: option.splits)
    from i have il: "i < length ?Q" and one: "Arc_strong_count st (?Q ! i) = 1" by (simp_all add: find_pos_Some)
    have hQ: "?Q ! i \<in># mset ?Q" using il by simp
    then have "count (mset ?Q) (?Q ! i) \<noteq> 0" by (simp only: count_eq_zero_iff not_not)
    then have "count (mset ?Q) (?Q ! i) + count {#} (?Q ! i) = 1"
      using one by (simp add: Arc_strong_count_def count_mset)
    from free_slots_evict [OF this hQ] True
    have "free_slots (mset ?Q - {#?Q ! i#}) {#} = free_slots (mset ?Q) {#}" by simp
    moreover have "mset (swap_remove ?Q i) = mset ?Q - {#?Q ! i#}"
      using mset_swap_remove [OF il] by (metis add_mset_remove_trivial)
    moreover from this have "set (swap_remove ?Q i) \<subseteq> set ?Q" by (metis in_diffD set_mset_mset subsetI)
    ultimately show ?thesis using q il True by (auto simp: quota_def st')
  next
    case False
    with r have "st' = st" by (simp add: substitute_inode_def)
    with False q show ?thesis by (simp add: quota_def)
  qed
  show "triple (\<lambda>st. quota c b st \<and> h \<notin> set (inode_cache st)) substitute_inode
     (\<lambda>_ st. quota c b st \<and> length (inode_cache st) < INODE_CACHE_SIZE \<and> h \<notin> set (inode_cache st))"
    unfolding triple_def using * by blast
  show "triple (quota c b) substitute_inode (\<lambda>_ st. quota c b st \<and> length (inode_cache st) < INODE_CACHE_SIZE)"
    unfolding triple_def using * by blast
qed

text \<open>Pushing an inode that is not in the queue costs nothing, pushing one that is there two places.\<close>

lemma quota_push_new:
  "quota c b st \<Longrightarrow> length (inode_cache st) < INODE_CACHE_SIZE \<Longrightarrow> h \<notin> set (inode_cache st) \<Longrightarrow>
   h < next_arc st \<Longrightarrow> quota c b (st\<lparr>inode_cache := inode_cache st @ [h]\<rparr>)"
  by (auto simp: quota_def free_slots_add_free)

lemma quota_push:
  assumes "quota c b st" and "length (inode_cache st) < INODE_CACHE_SIZE" and "h < next_arc st"
  shows "quota (c - 2) b (st\<lparr>inode_cache := inode_cache st @ [h]\<rparr>)"
proof -
  let ?Q = "mset (inode_cache st)"
  have one: "count Q a = Suc 0 \<Longrightarrow> a \<in># Q" for Q and a :: nat by (rule ccontr) (simp add: not_in_iff)
  have "unpinned Q {#} \<subseteq># add_mset h (unpinned (add_mset h Q) {#})" for Q
    by (rule mset_subset_eqI) (auto simp: unpinned_def one)
  from size_mset_mono [OF this [of ?Q]] have "free_slots ?Q {#} \<le> free_slots (add_mset h ?Q) {#} + 2"
    by (simp add: free_slots_def)
  then show ?thesis using assms by (auto simp: quota_def)
qed

lemma add_inode_cache_quota:
  assumes "h < b"
  shows "triple (quota c b) (add_inode_cache h) (\<lambda>_. quota (c - 2) b)"
    and "triple (\<lambda>st. quota c b st \<and> h \<notin> set (inode_cache st)) (add_inode_cache h) (\<lambda>_. quota c b)"
  unfolding add_inode_cache_def
proof -
  note h = less_le_trans [OF assms]
  show "triple (quota c b) (bnd substitute_inode (\<lambda>_. upd (\<lambda>st. st\<lparr>inode_cache := inode_cache st @ [h]\<rparr>))) (\<lambda>_. quota (c - 2) b)"
    by (rule triple_bnd [OF substitute_quota(2)], rule triple_upd) (auto intro!: quota_push h, simp add: quota_def)
  show "triple (\<lambda>st. quota c b st \<and> h \<notin> set (inode_cache st))
      (bnd substitute_inode (\<lambda>_. upd (\<lambda>st. st\<lparr>inode_cache := inode_cache st @ [h]\<rparr>))) (\<lambda>_. quota c b)"
    by (rule triple_bnd [OF substitute_quota(1)], rule triple_upd) (auto intro!: quota_push_new h, simp add: quota_def)
qed

lemma Arc_new_quota:
  "triple (\<lambda>st. quota c b st \<and> P (inode_cache st)) (Arc_new ci)
     (\<lambda>h st. quota c (Suc h) st \<and> b \<le> h \<and> h \<notin> set (inode_cache st) \<and> P (inode_cache st))"
  unfolding triple_def Arc_new_def bnd_def gets_def upd_def ret_def quota_def by fastforce

lemma quota_le: "quota c b st \<Longrightarrow> b' \<le> b \<Longrightarrow> quota c b' st"
  by (simp add: quota_def)

lemma Arc_quota:
  "triple (quota c b) (Arc_clone h) (\<lambda>_. quota c b)" "triple (quota c b) (Arc_drop h) (\<lambda>_. quota c b)"
  "triple (quota c b) (Arc_deref h) (\<lambda>_. quota c b)"
  by (auto simp: triple_def Arc_clone_def Arc_drop_def Arc_deref_def bnd_def gets_def upd_def ret_def panic_def
      split: option.splits)

lemma cainode_quota: "triple (quota c b) (cainode fs k) (\<lambda>_. quota c b)"
proof -
  let ?P = "\<lambda>st. quota c b st \<and> length (inode_cache st) < INODE_CACHE_SIZE"
  let ?Q = "\<lambda>h st. quota c (Suc h) st \<and> b \<le> h \<and> h \<notin> set (inode_cache st) \<and>
    length (inode_cache st) < INODE_CACHE_SIZE"
  have push: "triple (?Q h) (bnd (upd (\<lambda>st. st\<lparr>inode_cache := inode_cache st @ [h]\<rparr>)) (\<lambda>_. ret h)) (\<lambda>_. quota c b)" for h
    by (rule triple_bnd, rule triple_upd [where Q = "\<lambda>_. quota c b"], rule quota_push_new)
      (auto intro: triple_ret simp: quota_def)
  have "triple ?P (bnd (pure (inode_pos_of fs k)) (\<lambda>(bid, off). bnd (on_cache (CaInode_from k bid off)) (\<lambda>ci.
      bnd (Arc_new ci) (\<lambda>h. bnd (upd (\<lambda>st. st\<lparr>inode_cache := inode_cache st @ [h]\<rparr>)) (\<lambda>_. ret h)))))
      (\<lambda>_. quota c b)"
    by (rule triple_bnd [OF triple_pure], clarsimp, rule triple_bnd [OF triple_on_cache], simp)
      (rule triple_bnd [OF Arc_new_quota push])
  note load = triple_bnd [OF substitute_quota(2) this]
  show ?thesis
    unfolding cainode_def
    by (intro triple_bnd [OF triple_gets])
      (auto split: option.split intro: triple_weaken [OF Arc_quota(1)] triple_weaken [OF load])
qed

lemma CAFS_write_quota: "triple (quota c b) (CAFS_write fs k contents) (\<lambda>_. quota c b)"
  unfolding CAFS_write_def Let_def
  by (rule triple_bnd [OF cainode_quota], rule triple_bnd [OF triple_pure], clarsimp)
    (auto intro!: triple_bnd [OF triple_on_cache] triple_bnd [OF triple_upd [where Q = "\<lambda>_. quota c b"]] Arc_quota)

lemma CAFS_sub_inodes_quota: "triple (quota c b) (CAFS_sub_inodes fs k) (\<lambda>_. quota c b)"
  unfolding CAFS_sub_inodes_def CAFS_inode_def
  by (rule triple_bnd [OF cainode_quota], rule triple_bnd [OF Arc_quota(3)], rule triple_bnd [where Q = "\<lambda>_. quota c b"])
    (auto intro!: triple_bnd [OF triple_on_cache] triple_bnd [OF Arc_quota(2)] triple_ret triple_pure)

lemma alloc_inode_meta_quota:
  "triple (quota c b) (alloc_inode_meta fs ty name) (\<lambda>h. quota c (Suc h))"
proof -
  have "triple (\<lambda>st. quota c (Suc h) st \<and> b \<le> h \<and> h \<notin> set (inode_cache st) \<and> True)
      (bnd (add_inode_cache h) (\<lambda>_. ret h)) (\<lambda>h. quota c (Suc h))" for h
    by (rule triple_weaken [OF triple_bnd [OF add_inode_cache_quota(2) [of h "Suc h"]]]) (auto intro: triple_ret)
  from triple_bnd [OF Arc_new_quota this]
  have "triple (quota c b) (bnd (Arc_new ci) (\<lambda>h. bnd (add_inode_cache h) (\<lambda>_. ret h))) (\<lambda>h. quota c (Suc h))" for ci
    by simp
  then show ?thesis
    unfolding alloc_inode_meta_def
    by (intro triple_bnd [OF triple_on_cache], simp)
      (auto split: option.split intro!: triple_panic triple_bnd [OF triple_pure] triple_bnd [OF triple_on_cache])
qed

lemma CAFS_create_quota: "triple (quota c 0) (CAFS_create fs p name) (\<lambda>_. quota (c - 2) 0)"
proof -
  have "triple (quota c (Suc h)) (bnd (CAFS_inode fs p) (\<lambda>p. bnd (Arc_deref p) (\<lambda>pi.
     bnd (on_cache (CaInode_data pi)) (\<lambda>contents. bnd (Arc_deref h) (\<lambda>ci.
     bnd (pure (inode_number_binary (inode_number ci))) (\<lambda>bin.
     bnd (CAFS_write fs (inode_number pi) ((if contents \<noteq> [] then contents @ [0] else contents) @ bin)) (\<lambda>_.
     bnd (add_inode_cache h) (\<lambda>_. bnd (Arc_drop p) (\<lambda>_. ret h))))))))) (\<lambda>_. quota (c - 2) (Suc h))" for h
    unfolding CAFS_inode_def
    by (rule triple_bnd [OF cainode_quota], rule triple_bnd [OF Arc_quota(3)],
        rule triple_bnd [OF triple_on_cache], simp, rule triple_bnd [OF Arc_quota(3)],
        rule triple_bnd [OF triple_pure], rule triple_bnd [OF CAFS_write_quota],
        rule triple_bnd [OF add_inode_cache_quota(1)], simp, rule triple_bnd [OF Arc_quota(2)], rule triple_ret)
  note entry = this
  show ?thesis
    unfolding CAFS_create_def
    by (rule triple_bnd [OF alloc_inode_meta_quota], rule triple_weaken [OF entry]) (auto elim: quota_le)
qed

end
