(* ===== verification/Fs_Service.thy ===== *)
theory Fs_Service
  imports Inode_Slots
begin

text \<open>
  The traits \<open>FS\<close> and \<open>Inode\<close> of \<^verbatim>\<open>src/fs/src/fs.rs\<close> as a contract. A trait object is a table
  of its methods; an \<open>Arc\<close> of an inode is an address. The locale \<open>file_system\<close> fixes such a
  table and a relation between its states and an abstract file system, a map from inode numbers
  to files with the resources that are left. Its assumptions say that each method, called within
  the resources, returns and acts on the abstract file system. Every block device gives such a file
  system through CAFS (\<open>sublocale\<close>), and clients are verified against the locale alone.
\<close>

section \<open>Trait objects\<close>

record 's fs_vtable =
  vt_create :: "nat \<Rightarrow> u8 list \<Rightarrow> ('s, nat) rust"
  vt_write :: "nat \<Rightarrow> u8 list \<Rightarrow> ('s, unit) rust"
  vt_df :: "('s, nat \<times> nat) rust"
  vt_inode :: "nat \<Rightarrow> ('s, nat) rust"
  vt_sub_inodes :: "nat \<Rightarrow> ('s, nat list) rust"
  vt_inode_number :: "nat \<Rightarrow> ('s, nat) rust"
  vt_inode_type :: "nat \<Rightarrow> ('s, inode_type) rust"
  vt_is_file :: "nat \<Rightarrow> ('s, bool) rust"
  vt_data :: "nat \<Rightarrow> ('s, u8 list) rust"
  vt_name :: "nat \<Rightarrow> ('s, u8 list) rust"
  vt_size :: "nat \<Rightarrow> ('s, nat) rust"
  vt_release :: "nat \<Rightarrow> ('s, unit) rust"

definition cafs_vtable :: "cafs \<Rightarrow> 'd cafs_state fs_vtable" where
  "cafs_vtable fs = \<lparr>vt_create = CAFS_create fs, vt_write = CAFS_write fs, vt_df = CAFS_df fs,
     vt_inode = CAFS_inode fs, vt_sub_inodes = CAFS_sub_inodes fs,
     vt_inode_number = (\<lambda>h. bnd (Arc_deref h) (\<lambda>ci. ret (inode_number ci))),
     vt_inode_type = (\<lambda>h. bnd (Arc_deref h) (\<lambda>ci. ret (ci_type ci))),
     vt_is_file = (\<lambda>h. bnd (Arc_deref h) (\<lambda>ci. ret (CaInode_is_file ci))),
     vt_data = (\<lambda>h. bnd (Arc_deref h) (\<lambda>ci. on_cache (CaInode_data ci))),
     vt_name = (\<lambda>h. bnd (Arc_deref h) (\<lambda>ci. ret (CaInode_name ci))),
     vt_size = (\<lambda>h. bnd (Arc_deref h) (\<lambda>ci. ret (ci_size ci))),
     vt_release = Arc_drop\<rparr>"

section \<open>The abstract file system\<close>

text \<open>
  \<open>spare\<close> counts the free data blocks, \<open>slots\<close> the inodes that can still be pinned,
  \<open>inode_limit\<close> the inodes there can be and \<open>capacity\<close> the data blocks in all.
\<close>

record fs_abs =
  files :: "nat \<Rightarrow> file_node option"
  spare :: nat
  slots :: nat
  inode_limit :: nat
  capacity :: nat

definition node_name :: "file_node \<Rightarrow> u8 list" where
  "node_name f = takeWhile (\<lambda>b. \<not> b = 0) (fname f)"

function first_free :: "(nat \<Rightarrow> 'a option) \<Rightarrow> nat \<Rightarrow> nat \<Rightarrow> nat option" where
  "first_free F i n =
     (if i < n then (case F i of None \<Rightarrow> Some i | Some _ \<Rightarrow> first_free F (Suc i) n) else None)"
  by pat_completeness auto

termination
  by (relation "measure (\<lambda>(_, i, n). n - i)") auto

declare first_free.simps [simp del]

lemma first_free_Some:
  "first_free F i n = Some k \<longleftrightarrow> i \<le> k \<and> k < n \<and> F k = None \<and> (\<forall>j. i \<le> j \<longrightarrow> j < k \<longrightarrow> F j \<noteq> None)"
proof (induction F i n rule: first_free.induct)
  case (1 F i n)
  show ?case
  proof (cases "i < n")
    case True
    show ?thesis
    proof (cases "F i")
      case None
      with True show ?thesis by (subst first_free.simps) (auto dest: le_neq_implies_less)
    next
      case (Some f)
      with 1 True have "first_free F i n = Some k \<longleftrightarrow>
          Suc i \<le> k \<and> k < n \<and> F k = None \<and> (\<forall>j. Suc i \<le> j \<longrightarrow> j < k \<longrightarrow> F j \<noteq> None)"
        by (subst first_free.simps) simp
      with Some show ?thesis by (metis Suc_leD Suc_leI le_neq_implies_less option.distinct(1))
    qed
  qed (subst first_free.simps, auto)
qed

lemma first_free_step:
  "i < n \<Longrightarrow> F i = None \<Longrightarrow> first_free F i n = Some i"
  "i < n \<Longrightarrow> F i = Some f \<Longrightarrow> first_free F i n = first_free F (Suc i) n"
  by (simp_all add: first_free.simps [of F i n])

lemma new_file_simps [simp]:
  "ftype (new_file ty name) = ty" "fdata (new_file ty name) = []"
  "0 \<notin> set name \<Longrightarrow> node_name (new_file ty name) = name"
  by (auto simp: new_file_def node_name_def takeWhile_append)

definition number_bytes :: "nat \<Rightarrow> u8 list" where
  "number_bytes k = (case inode_number_binary k of Inr b \<Rightarrow> b | Inl _ \<Rightarrow> [])"

definition set_data :: "nat \<Rightarrow> u8 list \<Rightarrow> fs_abs \<Rightarrow> fs_abs" where
  "set_data k contents a =
     (case files a k of
        None \<Rightarrow> a
      | Some f \<Rightarrow> a\<lparr>files := (files a)(k \<mapsto> f\<lparr>fdata := contents\<rparr>),
          spare := spare a - growth (length (fdata f)) (length contents)\<rparr>)"

definition add_file :: "nat \<Rightarrow> nat \<Rightarrow> u8 list \<Rightarrow> fs_abs \<Rightarrow> fs_abs" where
  "add_file k p name a =
     (case files a p of
        None \<Rightarrow> a
      | Some d \<Rightarrow> a\<lparr>files := (files a)(k \<mapsto> new_file File name,
            p \<mapsto> d\<lparr>fdata := dir_append (fdata d) (number_bytes k)\<rparr>),
          spare := spare a - growth (length (fdata d)) (length (dir_append (fdata d) (number_bytes k))),
          slots := slots a - 2\<rparr>)"

text \<open>What the resources have to allow.\<close>

definition can_write :: "fs_abs \<Rightarrow> nat \<Rightarrow> u8 list \<Rightarrow> bool" where
  "can_write a k contents \<longleftrightarrow>
     (case files a k of
        None \<Rightarrow> False
      | Some f \<Rightarrow> data_count (length (fdata f)) \<le> data_count (length contents) \<and>
          length contents \<le> L4_MAX \<and> growth (length (fdata f)) (length contents) \<le> spare a)"

definition can_create :: "fs_abs \<Rightarrow> nat \<Rightarrow> u8 list \<Rightarrow> bool" where
  "can_create a p name \<longleftrightarrow>
     (case files a p of
        None \<Rightarrow> False
      | Some d \<Rightarrow> length name \<le> NAME_LENGTH_LIMIT \<and> length (fdata d) + 11 \<le> L4_MAX \<and>
          growth (length (fdata d)) (length (fdata d) + 11) \<le> spare a)"

section \<open>The contract\<close>

text \<open>
  \<open>R a hs st\<close>: the state \<open>st\<close> implements \<open>a\<close>, and clients hold the addresses \<open>hs\<close>, each with
  the number of its inode, the last one first.
\<close>

locale file_system =
  fixes vt :: "'s fs_vtable"
    and R :: "fs_abs \<Rightarrow> (nat \<times> nat) list \<Rightarrow> 's \<Rightarrow> bool"
  assumes inode_law:
      "R a hs st \<Longrightarrow> files a k \<noteq> None \<Longrightarrow> length hs < slots a \<Longrightarrow>
       runs (vt_inode vt k) st (\<lambda>h st'. R a ((h, k) # hs) st')"
    and release_law: "R a ((h, k) # hs) st \<Longrightarrow> runs (vt_release vt h) st (\<lambda>_ st'. R a hs st')"
    and number_law:
      "R a hs st \<Longrightarrow> (h, k) \<in> set hs \<Longrightarrow> runs (vt_inode_number vt h) st (\<lambda>r st'. r = k \<and> R a hs st')"
    and type_law:
      "R a hs st \<Longrightarrow> (h, k) \<in> set hs \<Longrightarrow> files a k = Some f \<Longrightarrow>
       runs (vt_inode_type vt h) st (\<lambda>r st'. r = ftype f \<and> R a hs st')"
    and is_file_law:
      "R a hs st \<Longrightarrow> (h, k) \<in> set hs \<Longrightarrow> files a k = Some f \<Longrightarrow>
       runs (vt_is_file vt h) st (\<lambda>r st'. r = (ftype f = File) \<and> R a hs st')"
    and name_law:
      "R a hs st \<Longrightarrow> (h, k) \<in> set hs \<Longrightarrow> files a k = Some f \<Longrightarrow>
       runs (vt_name vt h) st (\<lambda>r st'. r = node_name f \<and> R a hs st')"
    and size_law:
      "R a hs st \<Longrightarrow> (h, k) \<in> set hs \<Longrightarrow> files a k = Some f \<Longrightarrow>
       runs (vt_size vt h) st (\<lambda>r st'. r = length (fdata f) \<and> R a hs st')"
    and data_law:
      "R a hs st \<Longrightarrow> (h, k) \<in> set hs \<Longrightarrow> files a k = Some f \<Longrightarrow>
       runs (vt_data vt h) st (\<lambda>r st'. r = fdata f \<and> R a hs st')"
    and held_law: "R a hs st \<Longrightarrow> (h, k) \<in> set hs \<Longrightarrow> files a k \<noteq> None"
    and sub_inodes_law:
      "R a hs st \<Longrightarrow> files a p = Some d \<Longrightarrow> dir_entries d = Inr ks \<Longrightarrow> length hs < slots a \<Longrightarrow>
       runs (vt_sub_inodes vt p) st (\<lambda>r st'. r = ks \<and> R a hs st')"
    and df_law:
      "R a hs st \<Longrightarrow> capacity a * BLOCK_SIZE < U64_RANGE \<Longrightarrow>
       runs (vt_df vt) st (\<lambda>r st'. r = (spare a * BLOCK_SIZE, capacity a * BLOCK_SIZE) \<and> R a hs st')"
    and write_law:
      "R a hs st \<Longrightarrow> can_write a k contents \<Longrightarrow> length hs < slots a \<Longrightarrow>
       runs (vt_write vt k contents) st (\<lambda>_ st'. R (set_data k contents a) hs st')"
    and create_law:
      "R a hs st \<Longrightarrow> can_create a p name \<Longrightarrow> length hs + 3 \<le> slots a \<Longrightarrow>
       first_free (files a) 0 (inode_limit a) = Some k \<Longrightarrow>
       runs (vt_create vt p name) st (\<lambda>h st'. R (add_file k p name a) ((h, k) # hs) st')"
    and limit_law: "R a hs st \<Longrightarrow> inode_limit a \<le> U64_RANGE"

section \<open>CAFS keeps the contract\<close>

lemma CaInode_name_mirror: "CaInode_name (mirror fs f k dat) = node_name f"
proof -
  have "take (case find_pos (\<lambda>x. x = 0) bs of Some i \<Rightarrow> i | None \<Rightarrow> length bs) bs = takeWhile (\<lambda>b. \<not> b = 0) bs"
    for bs :: "u8 list"
    by (induction bs) (auto split: option.splits)
  then show ?thesis unfolding CaInode_name_def node_name_def mirror_simps .
qed

lemma growth_mono: "a \<le> b \<Longrightarrow> growth x a \<le> growth x b"
  by (simp add: growth_def add_mono diff_le_mono level_mono index_count_mono)

lemma dir_append_length: "length bin = 10 \<Longrightarrow> length (dir_append dat bin) \<le> length dat + 11"
  by (simp add: dir_append_def)

definition numbered :: "(nat \<times> nat) list \<Rightarrow> 'd cafs_state \<Rightarrow> bool" where
  "numbered hs st \<longleftrightarrow> map (\<lambda>(h, k). number_of st h) hs = map (\<lambda>(h, k). Some k) hs"

lemma numberedD: "numbered hs st \<Longrightarrow> (h, k) \<in> set hs \<Longrightarrow> number_of st h = Some k"
  by (auto simp: numbered_def)

lemma numbered_Cons [simp]:
  "numbered ((h, k) # hs) st \<longleftrightarrow> number_of st h = Some k \<and> numbered hs st" "numbered [] st"
  "numbered hs (st\<lparr>blk_cache := c\<rparr>) = numbered hs st" "numbered hs (st\<lparr>refs := r\<rparr>) = numbered hs st"
  by (simp_all add: numbered_def)

lemma numbered_cong: "\<forall>h \<in> set (map fst hs). number_of st' h = number_of st h \<Longrightarrow> numbered hs st' = numbered hs st"
  by (induction hs) (auto simp: numbered_def)

context block_device
begin

definition cafs_rel :: "cafs \<Rightarrow> nat \<Rightarrow> fs_abs \<Rightarrow> (nat \<times> nat) list \<Rightarrow> 'd cafs_state \<Rightarrow> bool" where
  "cafs_rel fs n a hs st \<longleftrightarrow>
     (\<exists>own V. fs_state fs n (files a) own V st \<and> spare a = free_blocks fs V) \<and>
     inode_limit a = blocks (inode_bitmap fs) * BLOCK_BITS \<and>
     capacity a = blocks (data_bitmap fs) * BLOCK_BITS \<and>
     quota (slots a) 0 st \<and> refs st = map fst hs \<and> numbered hs st"

lemma cafs_relE:
  assumes "cafs_rel fs n a hs st"
  obtains own V where "fs_state fs n (files a) own V st" and "spare a = free_blocks fs V"
    and "inode_limit a = blocks (inode_bitmap fs) * BLOCK_BITS"
    and "capacity a = blocks (data_bitmap fs) * BLOCK_BITS"
    and "quota (slots a) 0 st" and "refs st = map fst hs" and "numbered hs st"
    and "slots a \<le> room st + length hs"
  using assms quota_room [of "slots a" 0 st] unfolding cafs_rel_def by auto

text \<open>A held address is a cached inode that mirrors its file.\<close>

lemma cafs_rel_held:
  assumes rel: "cafs_rel fs n a hs st" and h: "(h, k) \<in> set hs"
  obtains f own V where "files a k = Some f" and "fs_state fs n (files a) own V st"
    and "arcs st h = Some (mirror fs f k (snd (own k)))"
    and "runs (bnd (Arc_deref h) (\<lambda>ci. on_cache (CaInode_data ci))) st (\<lambda>d st'. d = fdata f \<and> cafs_rel fs n a hs st')"
proof -
  from rel obtain own V where st: "fs_state fs n (files a) own V st" and sp: "spare a = free_blocks fs V"
    by (rule cafs_relE)
  have hr: "h \<in> set (refs st)" "number_of st h = Some k" using rel h by (force simp: cafs_rel_def numberedD)+
  from held_data_ok [OF st hr] obtain f where f: "files a k = Some f" "arcs st h = Some (mirror fs f k (snd (own k)))"
    and run: "runs (bnd (Arc_deref h) (\<lambda>ci. on_cache (CaInode_data ci))) st
      (\<lambda>d st'. d = fdata f \<and> (\<exists>c. store n [] V c \<and> st' = st\<lparr>blk_cache := c\<rparr>))" .
  have "cafs_rel fs n a hs (st\<lparr>blk_cache := c\<rparr>)" if "store n [] V c" for c
    using rel st sp that unfolding cafs_rel_def
    by (auto simp: fs_state_def handles_ok_def intro!: exI [of _ own] exI [of _ V])
  then have "runs (bnd (Arc_deref h) (\<lambda>ci. on_cache (CaInode_data ci))) st
      (\<lambda>d st'. d = fdata f \<and> cafs_rel fs n a hs st')"
    by (intro runs_mono [OF run]) auto
  from that [OF f(1) st f(2) this] show thesis .
qed

lemma cafs_inode_law:
  assumes rel: "cafs_rel fs n a hs st" and k: "files a k \<noteq> None" and room: "length hs < slots a"
  shows "runs (CAFS_inode fs k) st (\<lambda>h st'. cafs_rel fs n a ((h, k) # hs) st')"
proof -
  from rel obtain own V where st: "fs_state fs n (files a) own V st" and sp: "spare a = free_blocks fs V"
    and q: "quota (slots a) 0 st" and rf: "refs st = map fst hs"
    and num: "numbered hs st" and rm: "slots a \<le> room st + length hs"
    by (rule cafs_relE)
  from k obtain f where f: "files a k = Some f" by blast
  have room': "0 < room st \<or> find_inode k st \<noteq> None" using rm room by simp
  from triple_runs [OF cainode_quota q cainode_ok [OF st f room']] show ?thesis
    unfolding CAFS_inode_def
    by (rule runs_mono) (use rel sp rf num numbered_cong in \<open>auto simp: cafs_rel_def number_of_def\<close>)
qed

lemma cafs_release_law:
  assumes rel: "cafs_rel fs n a ((h, k) # hs) st"
  shows "runs (Arc_drop h) st (\<lambda>_ st'. cafs_rel fs n a hs st')"
  using rel unfolding cafs_rel_def
  by (auto simp: Arc_drop_def wp fs_state_def handles_ok_def) blast

lemma cafs_field_law:
  assumes rel: "cafs_rel fs n a hs st" and h: "(h, k) \<in> set hs" and f: "files a k = Some f"
    and r: "\<And>dat. r (mirror fs f k dat) = v"
  shows "runs (bnd (Arc_deref h) (\<lambda>ci. ret (r ci))) st (\<lambda>x st'. x = v \<and> cafs_rel fs n a hs st')"
proof -
  from rel h obtain f' own V where "files a k = Some f'" "fs_state fs n (files a) own V st"
    "arcs st h = Some (mirror fs f' k (snd (own k)))" by (rule cafs_rel_held)
  with f r rel show ?thesis by (simp add: runs_bnd runs_Arc_deref runs_ret)
qed

lemma cafs_sub_inodes_law:
  assumes rel: "cafs_rel fs n a hs st" and p: "files a p = Some d" and dir: "dir_entries d = Inr ks"
    and room: "length hs < slots a"
  shows "runs (CAFS_sub_inodes fs p) st (\<lambda>r st'. r = ks \<and> cafs_rel fs n a hs st')"
proof -
  from rel obtain own V where st: "fs_state fs n (files a) own V st" and sp: "spare a = free_blocks fs V"
    and q: "quota (slots a) 0 st" and rf: "refs st = map fst hs"
    and num: "numbered hs st" and rm: "slots a \<le> room st + length hs"
    by (rule cafs_relE)
  have room': "0 < room st \<or> find_inode p st \<noteq> None" using rm room by simp
  from triple_runs [OF CAFS_sub_inodes_quota q CAFS_sub_inodes_ok [OF st p room' dir]] show ?thesis
    by (rule runs_mono) (use rel sp rf num numbered_cong in \<open>auto simp: cafs_rel_def\<close>)
qed

lemma cafs_df_law:
  assumes rel: "cafs_rel fs n a hs st" and cap: "capacity a * BLOCK_SIZE < U64_RANGE"
  shows "runs (CAFS_df fs) st (\<lambda>r st'. r = (spare a * BLOCK_SIZE, capacity a * BLOCK_SIZE) \<and> cafs_rel fs n a hs st')"
proof -
  from rel obtain own V where st: "fs_state fs n (files a) own V st" and sp: "spare a = free_blocks fs V"
    and c: "capacity a = blocks (data_bitmap fs) * BLOCK_BITS"
    and q: "quota (slots a) 0 st" and num: "numbered hs st"
    by (rule cafs_relE)
  have quota: "triple (quota (slots a) 0) (CAFS_df fs) (\<lambda>_. quota (slots a) 0)"
    unfolding CAFS_df_def by (intro triple_bnd [OF triple_on_cache] triple_bnd [OF triple_pure] triple_ret) simp_all
  from cap c have fits: "blocks (data_bitmap fs) * BLOCK_BITS * BLOCK_SIZE < U64_RANGE" by simp
  from triple_runs [OF quota q CAFS_df_ok [OF st fits]] show ?thesis
    by (rule runs_mono) (use rel sp c num in \<open>auto simp: cafs_rel_def numbered_def\<close>)
qed

lemma cafs_write_law:
  assumes rel: "cafs_rel fs n a hs st" and w: "can_write a k contents" and room: "length hs < slots a"
  shows "runs (CAFS_write fs k contents) st (\<lambda>_ st'. cafs_rel fs n (set_data k contents a) hs st')"
proof -
  from rel obtain own V where st: "fs_state fs n (files a) own V st" and sp: "spare a = free_blocks fs V"
    and q: "quota (slots a) 0 st" and rf: "refs st = map fst hs"
    and num: "numbered hs st" and rm: "slots a \<le> room st + length hs"
    by (rule cafs_relE)
  from w obtain f where f: "files a k = Some f"
    and sz: "data_count (length (fdata f)) \<le> data_count (length contents)" "length contents \<le> L4_MAX"
    and gr: "growth (length (fdata f)) (length contents) \<le> free_blocks fs V"
    by (auto simp: can_write_def sp split: option.splits)
  have room': "0 < room st \<or> find_inode k st \<noteq> None" using rm room by simp
  from triple_runs [OF CAFS_write_quota q CAFS_write_ok [OF st f sz gr room']] show ?thesis
  proof (rule runs_mono, elim conjE exE)
    fix u st' own' V'
    assume st': "fs_state fs n ((files a)(k \<mapsto> f\<lparr>fdata := contents\<rparr>)) own' V' st'"
      "free_blocks fs V' + growth (length (fdata f)) (length contents) = free_blocks fs V"
      "refs st' = refs st" "\<forall>h \<in> set (refs st). number_of st' h = number_of st h" "quota (slots a) 0 st'"
    have "numbered hs st'" using num st'(4) rf numbered_cong by metis
    moreover have "spare a - growth (length (fdata f)) (length contents) = free_blocks fs V'" using st'(2) sp by simp
    ultimately show "cafs_rel fs n (set_data k contents a) hs st'"
      using rel st' rf f by (auto simp: cafs_rel_def set_data_def)
  qed
qed

lemma cafs_create_law:
  assumes rel: "cafs_rel fs n a hs st" and c: "can_create a p name" and room: "length hs + 3 \<le> slots a"
    and k: "first_free (files a) 0 (inode_limit a) = Some k"
  shows "runs (CAFS_create fs p name) st (\<lambda>h st'. cafs_rel fs n (add_file k p name a) ((h, k) # hs) st')"
proof -
  from rel obtain own V where st: "fs_state fs n (files a) own V st" and sp: "spare a = free_blocks fs V"
    and lim: "inode_limit a = blocks (inode_bitmap fs) * BLOCK_BITS"
    and q: "quota (slots a) 0 st" and rf: "refs st = map fst hs"
    and num: "numbered hs st" and rm: "slots a \<le> room st + length hs"
    by (rule cafs_relE)
  from c obtain d where d: "files a p = Some d" and name: "length name \<le> NAME_LENGTH_LIMIT"
    and sz: "length (fdata d) + 11 \<le> L4_MAX"
    and gr: "growth (length (fdata d)) (length (fdata d) + 11) \<le> free_blocks fs V"
    by (auto simp: can_create_def sp split: option.splits)
  have kf: "files a k = None" "k \<in> inode_range fs" "\<forall>j<k. files a j \<noteq> None"
    using k lim by (auto simp: first_free_Some inode_range_def)
  then have free: "dom (files a) \<noteq> inode_range fs" by blast
  have gr': "\<forall>l \<le> length (fdata d) + 11. growth (length (fdata d)) l \<le> free_blocks fs V"
    using gr growth_mono le_trans by blast
  have room': "3 \<le> room st" using rm room by simp
  from triple_runs [OF CAFS_create_quota q CAFS_create_ok [OF st d free name room' sz gr']] show ?thesis
  proof (rule runs_mono, elim conjE exE)
    fix h st' j bin own' V'
    assume j: "files a j = None" "{..<j} \<subseteq> dom (files a)" "inode_number_binary j = Inr bin"
      and st': "fs_state fs n ((files a)(j \<mapsto> new_file File name, p \<mapsto> d\<lparr>fdata := dir_append (fdata d) bin\<rparr>)) own' V' st'"
        "free_blocks fs V' + growth (length (fdata d)) (length (dir_append (fdata d) bin)) = free_blocks fs V"
        "number_of st' h = Some j" "\<forall>h' \<in> set (refs st). number_of st' h' = number_of st h'"
        "refs st' = h # refs st" "quota (slots a - 2) 0 st'"
    have "j = k"
    proof (rule ccontr)
      assume "j \<noteq> k"
      then consider "j < k" | "k < j" by linarith
      then show False using j kf by cases auto
    qed
    moreover have "numbered hs st'" using num st'(4) rf numbered_cong by metis
    moreover have "spare a - growth (length (fdata d)) (length (dir_append (fdata d) bin)) = free_blocks fs V'"
      using st'(2) sp by simp
    ultimately show "cafs_rel fs n (add_file k p name a) ((h, k) # hs) st'"
      using rel st' rf d j(3) by (auto simp: cafs_rel_def add_file_def number_bytes_def simp del: fun_upd_apply)
  qed
qed

lemma cafs_file_system: "file_system (cafs_vtable fs) (cafs_rel fs n)"
proof (unfold_locales, goal_cases)
  case (9 a hs st h k)
  then show ?case by (rule cafs_rel_held) simp
next
  case (3 a hs st h k)
  then obtain f where "files a k = Some f" by (rule cafs_rel_held)
  from cafs_field_law [OF 3 this, of inode_number k] show ?case by (simp add: cafs_vtable_def)
next
  case (14 a hs st)
  from 14 obtain own V where st: "fs_state fs n (files a) own V st"
    and lim: "inode_limit a = blocks (inode_bitmap fs) * BLOCK_BITS" by (rule cafs_relE)
  from st have "geometry fs n" "n < U64_RANGE"
    by (auto simp: fs_state_def dest: files_at_geometry store_range)
  then show ?case using lim by (simp add: geometry_def)
next
  case (8 a hs st h k f)
  from 8(1,2) show ?case by (rule cafs_rel_held) (use 8(3) in \<open>simp add: cafs_vtable_def\<close>)
qed (simp_all add: cafs_vtable_def cafs_inode_law cafs_release_law cafs_field_law cafs_sub_inodes_law
    cafs_df_law cafs_write_law cafs_create_law CaInode_is_file_def CaInode_name_mirror)

end

sublocale block_device \<subseteq> cafs: file_system "cafs_vtable fs" "cafs_rel fs n" for fs n
  by (rule cafs_file_system)

end
