(* ===== verification/Fs_Spec.thy ===== *)
theory Fs_Spec
  imports Fs_Service
begin

text \<open>
  The specification of a file system as a function. \<open>spec\<close> executes one request on the
  abstract file system and yields its reply, or nothing when the request is outside the
  resources or names a missing file. Inside the locale \<open>file_system\<close> every sequence of
  requests is shown to be answered as \<open>spec\<close> says; the properties at the end instantiate that
  with CAFS on the in-memory device, from \<open>init\<close> through \<open>flush\<close> and \<open>open\<close>.
\<close>

section \<open>Requests\<close>

datatype fs_op =
    OpCreate nat "u8 list"
  | OpWrite nat "u8 list"
  | OpRead nat
  | OpStat nat
  | OpList nat
  | OpDf

datatype fs_reply =
    RNumber nat
  | RDone
  | RData "u8 list"
  | RStat "u8 list" inode_type nat
  | RList "nat list"
  | RSpace nat nat

text \<open>How a client makes a request: it takes a reference, uses it and lets it go.\<close>

fun perform :: "'s fs_vtable \<Rightarrow> fs_op \<Rightarrow> ('s, fs_reply) rust" where
  "perform vt (OpCreate p name) =
     bnd (vt_create vt p name) (\<lambda>h. bnd (vt_inode_number vt h) (\<lambda>k.
     bnd (vt_release vt h) (\<lambda>_. ret (RNumber k))))"
| "perform vt (OpWrite k contents) = bnd (vt_write vt k contents) (\<lambda>_. ret RDone)"
| "perform vt (OpRead k) =
     bnd (vt_inode vt k) (\<lambda>h. bnd (vt_data vt h) (\<lambda>d. bnd (vt_release vt h) (\<lambda>_. ret (RData d))))"
| "perform vt (OpStat k) =
     bnd (vt_inode vt k) (\<lambda>h. bnd (vt_name vt h) (\<lambda>nm. bnd (vt_inode_type vt h) (\<lambda>ty.
     bnd (vt_size vt h) (\<lambda>sz. bnd (vt_release vt h) (\<lambda>_. ret (RStat nm ty sz))))))"
| "perform vt (OpList k) = bnd (vt_sub_inodes vt k) (\<lambda>ks. ret (RList ks))"
| "perform vt OpDf = bnd (vt_df vt) (\<lambda>(free, total_bytes). ret (RSpace free total_bytes))"

section \<open>The specification\<close>

fun spec :: "fs_op \<Rightarrow> fs_abs \<Rightarrow> (fs_reply \<times> fs_abs) option" where
  "spec (OpCreate p name) a =
     (if can_create a p name \<and> 3 \<le> slots a
      then (case first_free (files a) 0 (inode_limit a) of
              None \<Rightarrow> None
            | Some k \<Rightarrow> Some (RNumber k, add_file k p name a))
      else None)"
| "spec (OpWrite k contents) a =
     (if can_write a k contents \<and> 0 < slots a then Some (RDone, set_data k contents a) else None)"
| "spec (OpRead k) a =
     (if 0 < slots a then map_option (\<lambda>f. (RData (fdata f), a)) (files a k) else None)"
| "spec (OpStat k) a =
     (if 0 < slots a
      then map_option (\<lambda>f. (RStat (node_name f) (ftype f) (length (fdata f)), a)) (files a k) else None)"
| "spec (OpList k) a =
     (if 0 < slots a
      then (case files a k of
              None \<Rightarrow> None
            | Some d \<Rightarrow> (case dir_entries d of Inl _ \<Rightarrow> None | Inr ks \<Rightarrow> Some (RList ks, a)))
      else None)"
| "spec OpDf a =
     (if capacity a * BLOCK_SIZE < U64_RANGE
      then Some (RSpace (spare a * BLOCK_SIZE) (capacity a * BLOCK_SIZE), a) else None)"

fun spec_run :: "fs_op list \<Rightarrow> fs_abs \<Rightarrow> (fs_reply list \<times> fs_abs) option" where
  "spec_run [] a = Some ([], a)"
| "spec_run (op # ops) a =
     (case spec op a of
        None \<Rightarrow> None
      | Some (r, a') \<Rightarrow> map_option (\<lambda>(rs, a''). (r # rs, a'')) (spec_run ops a'))"

context file_system
begin

lemma perform_create:
  assumes R: "R a [] st" and k: "can_create a p name" "length ([] :: (nat \<times> nat) list) + 3 \<le> slots a"
    "first_free (files a) 0 (inode_limit a) = Some k"
  shows "runs (perform vt (OpCreate p name)) st (\<lambda>x st'. x = RNumber k \<and> R (add_file k p name a) [] st')"
  unfolding perform.simps runs_bnd
proof (rule runs_mono [OF create_law [OF R k]])
  fix h st' assume R: "R (add_file k p name a) [(h, k)] st'"
  show "runs (vt_inode_number vt h) st' (\<lambda>x s. runs (vt_release vt h) s (\<lambda>_ s. runs (ret (RNumber x)) s
      (\<lambda>x st'. x = RNumber k \<and> R (add_file k p name a) [] st')))"
    by (rule runs_mono [OF number_law [OF R]], simp, elim conjE, rule runs_mono [OF release_law], assumption)
      (simp add: runs_ret)
qed

lemma perform_read:
  assumes R: "R a [] st" and f: "files a k = Some f" "0 < slots a"
  shows "runs (perform vt (OpRead k)) st (\<lambda>x st'. x = RData (fdata f) \<and> R a [] st')"
  unfolding perform.simps runs_bnd
proof (rule runs_mono [OF inode_law [OF R]])
  fix h st' assume R: "R a [(h, k)] st'"
  show "runs (vt_data vt h) st' (\<lambda>d s. runs (vt_release vt h) s (\<lambda>_ s. runs (ret (RData d)) s
      (\<lambda>x st'. x = RData (fdata f) \<and> R a [] st')))"
    by (rule runs_mono [OF data_law [OF R _ f(1)]], simp, elim conjE, rule runs_mono [OF release_law], assumption)
      (simp add: runs_ret)
qed (use f in simp_all)

lemma perform_stat:
  assumes R: "R a [] st" and f: "files a k = Some f" "0 < slots a"
  shows "runs (perform vt (OpStat k)) st (\<lambda>x st'. x = RStat (node_name f) (ftype f) (length (fdata f)) \<and> R a [] st')"
  unfolding perform.simps runs_bnd
proof (rule runs_mono [OF inode_law [OF R]])
  fix h st' assume R: "R a [(h, k)] st'"
  show "runs (vt_name vt h) st' (\<lambda>nm s. runs (vt_inode_type vt h) s (\<lambda>ty s. runs (vt_size vt h) s (\<lambda>sz s.
      runs (vt_release vt h) s (\<lambda>_ s. runs (ret (RStat nm ty sz)) s
      (\<lambda>x st'. x = RStat (node_name f) (ftype f) (length (fdata f)) \<and> R a [] st')))))"
    by (rule runs_mono [OF name_law [OF R _ f(1)]], simp, elim conjE, rule runs_mono [OF type_law [OF _ _ f(1)]],
        assumption, simp, elim conjE, rule runs_mono [OF size_law [OF _ _ f(1)]], assumption, simp,
        elim conjE, rule runs_mono [OF release_law], assumption)
      (simp add: runs_ret)
qed (use f in simp_all)

lemma perform_ok:
  assumes "R a [] st" and "spec op a = Some (r, a')"
  shows "runs (perform vt op) st (\<lambda>x st'. x = r \<and> R a' [] st')"
proof (cases op)
  case (OpCreate p name)
  with assms(2) obtain k where k: "can_create a p name" "length ([] :: (nat \<times> nat) list) + 3 \<le> slots a"
    "first_free (files a) 0 (inode_limit a) = Some k" "r = RNumber k" "a' = add_file k p name a"
    by (auto split: if_splits option.splits)
  with perform_create [OF assms(1) k(1-3)] OpCreate show ?thesis by simp
next
  case (OpWrite k contents)
  with assms(2) have "can_write a k contents" "length ([] :: (nat \<times> nat) list) < slots a" "r = RDone" "a' = set_data k contents a"
    by (auto split: if_splits)
  with write_law [OF assms(1) this(1,2)] OpWrite show ?thesis by (auto simp: wp elim: runs_mono)
next
  case (OpRead k)
  with assms(2) show ?thesis using perform_read [OF assms(1)] by (auto split: if_splits)
next
  case (OpStat k)
  with assms(2) show ?thesis using perform_stat [OF assms(1)] by (auto split: if_splits)
next
  case (OpList p)
  with assms(2) obtain d ks where d: "files a p = Some d" "dir_entries d = Inr ks" "length ([] :: (nat \<times> nat) list) < slots a"
    "r = RList ks" "a' = a"
    by (auto split: if_splits option.splits sum.splits)
  with sub_inodes_law [OF assms(1) d(1-3)] OpList show ?thesis by (auto simp: wp elim: runs_mono)
next
  case OpDf
  with assms(2) have d: "capacity a * BLOCK_SIZE < U64_RANGE"
    "r = RSpace (spare a * BLOCK_SIZE) (capacity a * BLOCK_SIZE)" "a' = a"
    by (auto split: if_splits)
  with df_law [OF assms(1) d(1)] OpDf show ?thesis by (auto simp: wp elim!: runs_mono)
qed

lemma run_ok:
  "R a [] st \<Longrightarrow> spec_run ops a = Some (rs, a') \<Longrightarrow>
   runs (map_each ops (perform vt)) st (\<lambda>xs st'. xs = rs \<and> R a' [] st')"
proof (induction ops arbitrary: a st rs)
  case (Cons op ops)
  then obtain r a1 rs1 where op: "spec op a = Some (r, a1)" "spec_run ops a1 = Some (rs1, a')" "rs = r # rs1"
    by (auto split: option.splits)
  show ?case
    unfolding map_each.simps runs_bnd
    by (rule runs_mono [OF perform_ok [OF Cons.prems(1) op(1)]], elim conjE,
        rule runs_mono [OF Cons.IH [OF _ op(2)]], assumption) (simp add: runs_ret op(3))
qed (simp add: runs_ret)

end

section \<open>From init to open\<close>

text \<open>What \<open>init\<close> makes: a root directory and nothing else.\<close>

definition fresh_abs :: "nat \<Rightarrow> nat \<Rightarrow> fs_abs" where
  "fresh_abs tb nb =
     (let cap = (tb - 1 - nb - nb * BLOCK_BITS) div (BLOCK_BITS + 1) * BLOCK_BITS in
      \<lparr>files = [0 \<mapsto> new_file Dir [47]], spare = cap, slots = INODE_CACHE_SIZE - 1,
       inode_limit = nb * BLOCK_BITS, capacity = cap\<rparr>)"

text \<open>The sizes \<open>init\<close> accepts.\<close>

definition sizes_ok :: "nat \<Rightarrow> nat \<Rightarrow> nat \<Rightarrow> bool" where
  "sizes_ok n tb nb \<longleftrightarrow> tb \<le> n \<and> 0 < nb \<and> 1 + nb + nb * BLOCK_BITS \<le> tb \<and>
     nb * BLOCK_BITS * BLOCK_SIZE + BLOCK_SIZE < U64_RANGE"

text \<open>Blocks that hold the files of an abstract file system; which device they are on is left open.\<close>

definition holds :: "cafs \<Rightarrow> nat \<Rightarrow> fs_abs \<Rightarrow> (nat \<Rightarrow> u8 list) \<Rightarrow> bool" where
  "holds fs n a V \<longleftrightarrow> (\<exists>own. files_at fs n V (files a) own) \<and> spare a = free_blocks fs V \<and>
     inode_limit a = blocks (inode_bitmap fs) * BLOCK_BITS \<and> capacity a = blocks (data_bitmap fs) * BLOCK_BITS"

lemma quota_cong_slots: "quota c b st \<Longrightarrow> c' \<le> c \<Longrightarrow> quota c' b st"
  by (auto simp: quota_def)

context block_device
begin

lemma fs_state_quota:
  assumes "fs_state fs n F own V st" and "refs st = []" and "c \<le> room st"
  shows "quota c 0 st"
  using assms by (auto simp: fs_state_def handles_ok_def cache_ok_def handle_ok_def quota_def room_def)

lemma init_rel:
  assumes d: "dev_ok vt dinv d" "cap (dev d) = n" and sz: "sizes_ok n tb nb"
  obtains fs st where "CAFS_init d tb nb = Inr (fs, st)" and "cafs_rel fs n (fresh_abs tb nb) [] st"
proof -
  from sz have s: "tb \<le> n" "0 < nb" "1 + nb + nb * BLOCK_BITS \<le> tb"
    "nb * BLOCK_BITS * BLOCK_SIZE + BLOCK_SIZE < U64_RANGE" by (simp_all add: sizes_ok_def)
  from CAFS_init_ok [OF d s] obtain fs st V where run: "CAFS_init d tb nb = Inr (fs, st)"
    and st: "fs_state fs n [0 \<mapsto> new_file Dir [47]] ((\<lambda>_. ([], []))(0 := ([], []))) V st" "refs st = []"
      "INODE_CACHE_SIZE - 1 \<le> room st"
    and geo: "blocks (inode_bitmap fs) = nb"
      "blocks (data_bitmap fs) = (tb - 1 - nb - nb * BLOCK_BITS) div (BLOCK_BITS + 1)"
      "free_blocks fs V = blocks (data_bitmap fs) * BLOCK_BITS" .
  have "cafs_rel fs n (fresh_abs tb nb) [] st"
    unfolding cafs_rel_def using st(1,2) fs_state_quota [OF st] geo
    by (auto simp: fresh_abs_def Let_def intro!: exI)
  with run show thesis by (rule that)
qed

text \<open>
  What was flushed is on the device, and a device with these blocks, of whatever kind, opens to
  the same files, with nothing pinned.
\<close>

lemma flush_holds:
  assumes rel: "cafs_rel fs n a hs st"
  shows "runs CAFS_flush st (\<lambda>_ st'. cafs_rel fs n a hs st' \<and> dev_ok vt dinv (device (blk_cache st')) \<and>
    cap (dev (device (blk_cache st'))) = n \<and>
    holds fs n a (\<lambda>i. if i < n then blk (dev (device (blk_cache st'))) i else []))"
proof -
  from rel obtain own V where st: "fs_state fs n (files a) own V st" and sp: "spare a = free_blocks fs V"
    and lim: "inode_limit a = blocks (inode_bitmap fs) * BLOCK_BITS"
      "capacity a = blocks (data_bitmap fs) * BLOCK_BITS"
    and q: "quota (slots a) 0 st" and rf: "refs st = map fst hs" and num: "numbered hs st"
    by (rule cafs_relE)
  have quota: "triple (quota (slots a) 0) CAFS_flush (\<lambda>_. quota (slots a) 0)"
    unfolding CAFS_flush_def by (rule triple_on_cache) simp
  show ?thesis
  proof (rule runs_mono [OF triple_runs [OF quota q CAFS_flush_ok [OF st]]], elim conjE, intro conjI)
    fix u and st' :: "'d cafs_state"
    assume st': "fs_state fs n (files a) own V st'" "refs st' = refs st"
      "\<forall>h. number_of st' h = number_of st h" "\<forall>j<n. blk (dev (device (blk_cache st'))) j = V j"
      "quota (slots a) 0 st'"
    have "numbered hs st'" using num st'(3) by (simp add: numbered_def)
    then show "cafs_rel fs n a hs st'"
      using st' sp lim rf unfolding cafs_rel_def by auto
    have sto: "store n [] V (blk_cache st')" and fa: "files_at fs n V (files a) own"
      using st'(1) by (simp_all add: fs_state_def)
    then show "dev_ok vt dinv (device (blk_cache st'))" "cap (dev (device (blk_cache st'))) = n"
      by (auto simp: store_at_def cm_ok_def)
    have "(\<lambda>i. if i < n then blk (dev (device (blk_cache st'))) i else []) = V"
      using st'(4) store_view [OF sto] by (auto simp: fun_eq_iff)
    with fa sp lim show "holds fs n a (\<lambda>i. if i < n then blk (dev (device (blk_cache st'))) i else [])"
      by (auto simp: holds_def)
  qed
qed

lemma open_holds:
  assumes d: "dev_ok vt dinv d" "cap (dev d) = n" and h: "holds fs n a (\<lambda>i. if i < n then blk (dev d) i else [])"
  obtains st where "CAFS_open d = Inr (fs, st)" and "cafs_rel fs n (a\<lparr>slots := INODE_CACHE_SIZE\<rparr>) [] st"
proof -
  from h obtain own where fa: "files_at fs n (\<lambda>i. if i < n then blk (dev d) i else []) (files a) own"
    by (auto simp: holds_def)
  from CAFS_open_ok [OF d refl fa] obtain st where op: "CAFS_open d = Inr (fs, st)"
    "fs_state fs n (files a) own (\<lambda>i. if i < n then blk (dev d) i else []) st" "refs st = []" "room st = INODE_CACHE_SIZE" .
  have "cafs_rel fs n (a\<lparr>slots := INODE_CACHE_SIZE\<rparr>) [] st"
    using op(2,3) fs_state_quota [OF op(2,3), of INODE_CACHE_SIZE] op(4) h
    unfolding cafs_rel_def holds_def by auto
  with op(1) show thesis by (rule that)
qed

lemma flush_open_rel:
  assumes "cafs_rel fs n a hs st"
  shows "runs CAFS_flush st (\<lambda>_ st'. cafs_rel fs n a hs st' \<and> (\<exists>st''.
    CAFS_open (device (blk_cache st')) = Inr (fs, st'') \<and> cafs_rel fs n (a\<lparr>slots := INODE_CACHE_SIZE\<rparr>) [] st''))"
  by (rule runs_mono [OF flush_holds [OF assms]]) (auto elim: open_holds)

end

lemma disk_dev_ok: "n < U64_RANGE \<Longrightarrow> dev_ok disk_vtable disk_inv (dyn_disk (Disk_new n))"
  by (simp add: dev_ok_def dyn_disk_def)

lemma disk_init_rel:
  assumes "n < U64_RANGE" and "sizes_ok n tb nb"
  obtains fs st where "CAFS_init (dyn_disk (Disk_new n)) tb nb = Inr (fs, st)"
    and "disk_dev.cafs_rel fs n (fresh_abs tb nb) [] st"
  by (rule disk_dev.init_rel [OF disk_dev_ok [OF assms(1)] _ assms(2)]) (simp add: dyn_disk_def)

end
