(* ===== verification/Cafs_Properties.thy ===== *)
theory Cafs_Properties
  imports Fs_Spec "HOL-Library.Disjoint_Sets"
begin

text \<open>
  What CAFS promises, stated for the in-memory device the image tool and the tests run it on.
\<close>

section \<open>Evaluating the specification\<close>

text \<open>A session on a device of 20480 blocks, the size the tests of the repository use.\<close>

definition session :: "fs_op list" where
  "session = [OpCreate 0 [97, 98], OpWrite 1 [1, 2, 3], OpRead 1, OpStat 1, OpList 0]"

text \<open>Files of at most one block.\<close>

lemma one_block:
  "data_count 0 = 0" "0 < x \<Longrightarrow> x \<le> BLOCK_SIZE \<Longrightarrow> data_count x = 1" "x \<le> BLOCK_SIZE \<Longrightarrow> index_count x = 0"
  "x \<le> BLOCK_SIZE \<Longrightarrow> x \<le> L4_MAX"
proof -
  show "data_count 0 = 0" by (simp add: data_count_def)
  show one: "0 < x \<Longrightarrow> x \<le> BLOCK_SIZE \<Longrightarrow> data_count x = 1"
    using cdiv_le_iff [of BLOCK_SIZE x 1] cdiv_eq_0_iff [of BLOCK_SIZE x] by (auto simp: data_count_def)
  show "x \<le> BLOCK_SIZE \<Longrightarrow> x \<le> L4_MAX" by (simp add: layout_consts BLOCK_SIZE_def)
  assume "x \<le> BLOCK_SIZE"
  then have "data_count x \<le> DIRECT_COUNT"
    using one by (cases "x = 0") (auto simp: data_count_def DIRECT_COUNT_def)
  then show "index_count x = 0"
    by (simp add: index_count_def level4_def level3_def level2_def level1_def next_level_def)
qed

lemma small_growth:
  "x \<le> BLOCK_SIZE \<Longrightarrow> y \<le> BLOCK_SIZE \<Longrightarrow> growth x y = (if y = 0 then 0 else if x = 0 then 1 else 0)"
  using one_block(2) [of x] one_block(2) [of y] by (cases "x = 0"; cases "y = 0") (simp_all add: growth_def one_block)

lemma small_write:
  assumes "files a k = Some f" and "length (fdata f) \<le> BLOCK_SIZE" and "0 < length contents"
    and "length contents \<le> BLOCK_SIZE" and "0 < spare a"
  shows "can_write a k contents"
  using assms one_block(2) [of "length (fdata f)"] by (cases "fdata f = []") (simp_all add: can_write_def one_block small_growth)

lemma small_create:
  assumes "files a p = Some d" and "length (fdata d) + 11 \<le> BLOCK_SIZE" and "length name \<le> NAME_LENGTH_LIMIT" and "0 < spare a"
  shows "can_create a p name"
  using assms by (simp add: can_create_def one_block small_growth)

lemma length_number_bytes: "k < U64_RANGE \<Longrightarrow> length (number_bytes k) = 10"
  using inode_number_total [of k] by (auto simp: number_bytes_def)

lemma number_bytes_1: "number_bytes 1 = [1, 255, 255, 255, 255, 255, 255, 255, 254, 10]"
  by code_simp

definition abs1 :: fs_abs where
  "abs1 = \<lparr>files = [0 \<mapsto> (new_file Dir [47])\<lparr>fdata := number_bytes 1\<rparr>, 1 \<mapsto> new_file File [97, 98]],
     spare = 8191, slots = 29, inode_limit = 8192, capacity = 8192\<rparr>"

lemma session_1: "spec (OpCreate 0 [97, 98]) (fresh_abs 20480 2) = Some (RNumber 1, abs1)"
proof -
  let ?a = "fresh_abs 20480 2"
  have a: "files ?a = [0 \<mapsto> new_file Dir [47]]" "spare ?a = 8192" "slots ?a = 31" "inode_limit ?a = 8192" "capacity ?a = 8192"
    by (simp_all add: fresh_abs_def Let_def BLOCK_BITS_def BLOCK_SIZE_def INODE_CACHE_SIZE_def)
  have "can_create ?a 0 [97, 98]"
    by (rule small_create [where d = "new_file Dir [47]"]) (simp_all add: a BLOCK_SIZE_def NAME_LENGTH_LIMIT_def)
  moreover have "first_free (files ?a) 0 (inode_limit ?a) = Some 1"
    by (simp add: a first_free_Some)
  moreover have "add_file 1 0 [97, 98] ?a = abs1"
    by (rule fs_abs.equality) (simp_all add: add_file_def a abs1_def dir_append_def number_bytes_1 small_growth
        BLOCK_SIZE_def fun_upd_twist del: One_nat_def)
  ultimately show ?thesis by (simp add: a)
qed

definition abs2 :: fs_abs where
  "abs2 = \<lparr>files = [0 \<mapsto> (new_file Dir [47])\<lparr>fdata := number_bytes 1\<rparr>,
       1 \<mapsto> (new_file File [97, 98])\<lparr>fdata := [1, 2, 3]\<rparr>],
     spare = 8190, slots = 29, inode_limit = 8192, capacity = 8192\<rparr>"

lemma session_2: "spec (OpWrite 1 [1, 2, 3]) abs1 = Some (RDone, abs2)"
proof -
  have "can_write abs1 1 [1, 2, 3]"
    by (rule small_write [where f = "new_file File [97, 98]"]) (simp_all add: abs1_def BLOCK_SIZE_def)
  moreover have "set_data 1 [1, 2, 3] abs1 = abs2"
    by (simp add: set_data_def abs1_def abs2_def small_growth BLOCK_SIZE_def)
  ultimately show ?thesis by (simp add: abs1_def)
qed

lemma dir_entries_1: "dir_entries ((new_file Dir [47])\<lparr>fdata := number_bytes 1\<rparr>) = Inr [1]"
  by (rule dir_entries_contents) (simp_all add: number_bytes_def U64_RANGE_def)

lemma session_spec:
  "spec_run session (fresh_abs 20480 2) =
     Some ([RNumber 1, RDone, RData [1, 2, 3], RStat [97, 98] File 3, RList [1]], abs2)"
proof -
  have "spec (OpRead 1) abs2 = Some (RData [1, 2, 3], abs2)"
    "spec (OpStat 1) abs2 = Some (RStat [97, 98] File 3, abs2)"
    "spec (OpList 0) abs2 = Some (RList [1], abs2)"
    using dir_entries_1 by (simp_all add: abs2_def node_name_def) (simp add: new_file_def)
  then show ?thesis by (simp add: session_def session_1 session_2 del: spec.simps One_nat_def)
qed

section \<open>Refinement and durability\<close>

lemma tests_sizes: "sizes_ok 20480 20480 2" "20480 < U64_RANGE"
  by (simp_all add: sizes_ok_def BLOCK_BITS_def BLOCK_SIZE_def U64_RANGE_def)

text \<open>
  C1: started from \<open>init\<close>, CAFS answers every sequence of requests that the abstract file
  system can answer, with exactly its replies: no request panics, runs out of cache or corrupts
  a file.
\<close>

theorem cafs_refines_spec:
  assumes "n < U64_RANGE" and "sizes_ok n tb nb" and "spec_run ops (fresh_abs tb nb) = Some (rs, a)"
  shows "\<exists>fs st. CAFS_init (dyn_disk (Disk_new n)) tb nb = Inr (fs, st) \<and>
    runs (map_each ops (perform (cafs_vtable fs))) st (\<lambda>xs st'. xs = rs \<and> disk_dev.cafs_rel fs n a [] st')"
proof -
  from disk_init_rel [OF assms(1,2)] obtain fs st where
    "CAFS_init (dyn_disk (Disk_new n)) tb nb = Inr (fs, st)" and rel: "disk_dev.cafs_rel fs n (fresh_abs tb nb) [] st" .
  with disk_dev.cafs.run_ok [OF rel assms(3)] show ?thesis by blast
qed

theorem cafs_refines_spec_witness:
  "\<exists>fs st. CAFS_init (dyn_disk (Disk_new 20480)) 20480 2 = Inr (fs, st) \<and>
    runs (map_each session (perform (cafs_vtable fs))) st (\<lambda>xs st'.
      xs = [RNumber 1, RDone, RData [1, 2, 3], RStat [97, 98] File 3, RList [1]] \<and>
      disk_dev.cafs_rel fs 20480 abs2 [] st')"
  by (rule cafs_refines_spec [OF tests_sizes(2,1) session_spec])

text \<open>
  C2: what \<open>flush\<close> wrote is enough: opening the device afterwards gives a file system in which every
  file reads as before, in all its attributes.
\<close>

theorem cafs_survives_reopen:
  assumes "disk_dev.cafs_rel fs n a hs st" and "files a k = Some f"
  shows "runs CAFS_flush st (\<lambda>_ st'. \<exists>st''. CAFS_open (device (blk_cache st')) = Inr (fs, st'') \<and>
    runs (map_each [OpRead k, OpStat k] (perform (cafs_vtable fs))) st''
      (\<lambda>xs _. xs = [RData (fdata f), RStat (node_name f) (ftype f) (length (fdata f))]))"
proof (rule runs_mono [OF disk_dev.flush_open_rel [OF assms(1)]], elim conjE exE)
  fix u st' st''
  assume op: "CAFS_open (device (blk_cache st')) = Inr (fs, st'')"
    and rel: "disk_dev.cafs_rel fs n (a\<lparr>slots := INODE_CACHE_SIZE\<rparr>) [] st''"
  have "spec_run [OpRead k, OpStat k] (a\<lparr>slots := INODE_CACHE_SIZE\<rparr>) =
      Some ([RData (fdata f), RStat (node_name f) (ftype f) (length (fdata f))], a\<lparr>slots := INODE_CACHE_SIZE\<rparr>)"
    using assms(2) by (simp add: INODE_CACHE_SIZE_def)
  from disk_dev.cafs.run_ok [OF rel this] op
  show "\<exists>st''. CAFS_open (device (blk_cache st')) = Inr (fs, st'') \<and>
    runs (map_each [OpRead k, OpStat k] (perform (cafs_vtable fs))) st''
      (\<lambda>xs _. xs = [RData (fdata f), RStat (node_name f) (ftype f) (length (fdata f))])"
    by (intro exI [of _ st''] conjI) (auto elim: runs_mono)
qed

lemma session_rel:
  obtains fs st st' where "CAFS_init (dyn_disk (Disk_new 20480)) 20480 2 = Inr (fs, st)"
    and "map_each session (perform (cafs_vtable fs)) st =
      Inr ([RNumber 1, RDone, RData [1, 2, 3], RStat [97, 98] File 3, RList [1]], st')"
    and "disk_dev.cafs_rel fs 20480 abs2 [] st'"
proof -
  from disk_init_rel [OF tests_sizes(2,1)] obtain fs st where
    1: "CAFS_init (dyn_disk (Disk_new 20480)) 20480 2 = Inr (fs, st)" "disk_dev.cafs_rel fs 20480 (fresh_abs 20480 2) [] st" .
  from disk_dev.cafs.run_ok [OF 1(2) session_spec] 1(1) that show thesis by (auto simp: runs_iff_result)
qed

theorem cafs_survives_reopen_witness:
  "\<exists>fs st. CAFS_init (dyn_disk (Disk_new 20480)) 20480 2 = Inr (fs, st) \<and>
     runs (bnd (map_each session (perform (cafs_vtable fs))) (\<lambda>_. CAFS_flush)) st (\<lambda>_ st'. \<exists>st''.
       CAFS_open (device (blk_cache st')) = Inr (fs, st'') \<and>
       runs (map_each [OpRead 1, OpStat 1] (perform (cafs_vtable fs))) st''
         (\<lambda>xs _. xs = [RData [1, 2, 3], RStat [97, 98] File 3]))"
proof -
  from session_rel obtain fs st st' where 1: "CAFS_init (dyn_disk (Disk_new 20480)) 20480 2 = Inr (fs, st)"
    "map_each session (perform (cafs_vtable fs)) st =
      Inr ([RNumber 1, RDone, RData [1, 2, 3], RStat [97, 98] File 3, RList [1]], st')"
    "disk_dev.cafs_rel fs 20480 abs2 [] st'" .
  let ?f = "(new_file File [97, 98])\<lparr>fdata := [1, 2, 3]\<rparr>"
  have f: "node_name ?f = [97, 98]" "files abs2 1 = Some ?f"
    by (simp_all add: node_name_def new_file_def abs2_def)
  from 1(2) have "runs (map_each session (perform (cafs_vtable fs))) st (\<lambda>_ s. s = st')" by (simp add: runs_def)
  with cafs_survives_reopen [OF 1(3) f(2)] f(1) 1(1) show ?thesis
    unfolding runs_bnd
    by (intro exI [of _ fs], intro exI [of _ st]) (auto simp del: map_each.simps One_nat_def elim!: runs_mono)
qed

section \<open>Files do not disturb each other\<close>

text \<open>
  C6: a write shows through every reference to the file that is held, and no other file
  that is held changes.
\<close>

theorem cafs_write_isolated:
  assumes "disk_dev.cafs_rel fs n a hs st" and "can_write a k contents" and "length hs < slots a"
    and "(h, k) \<in> set hs" and "(h', j) \<in> set hs" and "j \<noteq> k" and "files a j = Some g"
  shows "runs (bnd (CAFS_write fs k contents) (\<lambda>_. bnd (vt_data (cafs_vtable fs) h) (\<lambda>d.
    bnd (vt_data (cafs_vtable fs) h') (\<lambda>d'. ret (d, d'))))) st (\<lambda>r _. r = (contents, fdata g))"
proof -
  from assms(2) obtain f where "files a k = Some f" by (auto simp: can_write_def split: option.splits)
  then have f: "files (set_data k contents a) k = Some (f\<lparr>fdata := contents\<rparr>)"
    "files (set_data k contents a) j = Some g"
    using assms(6,7) by (simp_all add: set_data_def)
  show ?thesis
    unfolding runs_bnd
    by (rule runs_mono [OF disk_dev.cafs_write_law [OF assms(1-3)]],
        rule runs_mono [OF disk_dev.cafs.data_law [OF _ assms(4) f(1)]], assumption, elim conjE,
        rule runs_mono [OF disk_dev.cafs.data_law [OF _ assms(5) f(2)]], assumption)
      (simp add: runs_ret)
qed

text \<open>Two files, both held.\<close>

definition abs_two :: fs_abs where
  "abs_two = add_file 2 0 [99] abs1"

lemma two_files:
  obtains fs st h h' st' where "CAFS_init (dyn_disk (Disk_new 20480)) 20480 2 = Inr (fs, st)"
    and "bnd (CAFS_create fs 0 [97, 98]) (\<lambda>h. bnd (CAFS_create fs 0 [99]) (\<lambda>h'. ret (h, h'))) st = Inr ((h, h'), st')"
    and "disk_dev.cafs_rel fs 20480 abs_two [(h', 2), (h, 1)] st'"
proof -
  from disk_init_rel [OF tests_sizes(2,1)] obtain fs st where
    1: "CAFS_init (dyn_disk (Disk_new 20480)) 20480 2 = Inr (fs, st)" "disk_dev.cafs_rel fs 20480 (fresh_abs 20480 2) [] st" .
  have c: "can_create (fresh_abs 20480 2) 0 [97, 98]" "3 \<le> slots (fresh_abs 20480 2)"
    "first_free (files (fresh_abs 20480 2)) 0 (inode_limit (fresh_abs 20480 2)) = Some 1"
    "abs1 = add_file 1 0 [97, 98] (fresh_abs 20480 2)"
    using session_1 by (auto split: if_splits option.splits)
  have c2: "can_create abs1 0 [99]" "first_free (files abs1) 0 (inode_limit abs1) = Some 2"
    by (rule small_create [where d = "(new_file Dir [47])\<lparr>fdata := number_bytes 1\<rparr>"])
      (auto simp: abs1_def BLOCK_SIZE_def NAME_LENGTH_LIMIT_def length_number_bytes U64_RANGE_def first_free_Some)
  have "runs (CAFS_create fs 0 [97, 98]) st (\<lambda>h st'. disk_dev.cafs_rel fs 20480 abs1 [(h, 1)] st')"
    using disk_dev.cafs_create_law [OF 1(2) c(1) _ c(3)] c(2,4) by simp
  moreover have "runs (CAFS_create fs 0 [99]) st1 (\<lambda>h' st'. disk_dev.cafs_rel fs 20480 abs_two [(h', 2), (h, 1)] st')"
    if "disk_dev.cafs_rel fs 20480 abs1 [(h, 1)] st1" for h st1
    using disk_dev.cafs_create_law [OF that c2(1) _ c2(2)] by (simp add: abs_two_def abs1_def)
  ultimately have "runs (bnd (CAFS_create fs 0 [97, 98]) (\<lambda>h. bnd (CAFS_create fs 0 [99]) (\<lambda>h'. ret (h, h')))) st
      (\<lambda>(h, h') st'. disk_dev.cafs_rel fs 20480 abs_two [(h', 2), (h, 1)] st')"
    unfolding runs_bnd by (auto simp: runs_ret elim!: runs_mono)
  with 1(1) that show thesis by (auto simp: runs_iff_result)
qed

lemma abs_two: "files abs_two 1 = Some (new_file File [97, 98])" "files abs_two 2 = Some (new_file File [99])"
  "slots abs_two = 27" "can_write abs_two 1 [7]"
proof -
  show f: "files abs_two 1 = Some (new_file File [97, 98])" and "files abs_two 2 = Some (new_file File [99])"
    and "slots abs_two = 27"
    by (simp_all add: abs_two_def add_file_def abs1_def)
  have "0 < spare abs_two"
    by (simp add: abs_two_def add_file_def abs1_def small_growth length_number_bytes dir_append_def BLOCK_SIZE_def U64_RANGE_def)
  then show "can_write abs_two 1 [7]"
    by (intro small_write [OF f]) (simp_all add: BLOCK_SIZE_def)
qed

theorem cafs_write_isolated_witness:
  "\<exists>fs st. CAFS_init (dyn_disk (Disk_new 20480)) 20480 2 = Inr (fs, st) \<and>
     runs (bnd (bnd (CAFS_create fs 0 [97, 98]) (\<lambda>h. bnd (CAFS_create fs 0 [99]) (\<lambda>h'. ret (h, h')))) (\<lambda>(h, h').
       bnd (CAFS_write fs 1 [7]) (\<lambda>_. bnd (vt_data (cafs_vtable fs) h) (\<lambda>d.
       bnd (vt_data (cafs_vtable fs) h') (\<lambda>d'. ret (d, d')))))) st (\<lambda>r _. r = ([7], []))"
proof -
  from two_files obtain fs st h h' st' where 1: "CAFS_init (dyn_disk (Disk_new 20480)) 20480 2 = Inr (fs, st)"
    "bnd (CAFS_create fs 0 [97, 98]) (\<lambda>h. bnd (CAFS_create fs 0 [99]) (\<lambda>h'. ret (h, h'))) st = Inr ((h, h'), st')"
    "disk_dev.cafs_rel fs 20480 abs_two [(h', 2), (h, 1)] st'" .
  from cafs_write_isolated [OF 1(3) abs_two(4), of h h' 2] abs_two(2,3)
  have "runs (bnd (CAFS_write fs 1 [7]) (\<lambda>_. bnd (vt_data (cafs_vtable fs) h) (\<lambda>d.
       bnd (vt_data (cafs_vtable fs) h') (\<lambda>d'. ret (d, d'))))) st' (\<lambda>r _. r = ([7], []))" by simp
  with 1(1,2) show ?thesis by (intro exI [of _ fs], intro exI [of _ st]) (simp add: runs_bnd [of "bnd _ _"] runs_def [of "bnd (CAFS_create fs 0 [97, 98]) _"])
qed

text \<open>The blocks of the files of a state, as \<open>Meta::blocks\<close> reads them from the inodes.\<close>

lemma rel_ownership:
  assumes "disk_dev.cafs_rel fs n a [] st"
  shows "\<exists>own V. disk_store n [] V (blk_cache st) \<and>
    (\<forall>k f. files a k = Some f \<longrightarrow>
      runs (Meta_blocks (inode_meta fs V k)) (blk_cache st) (\<lambda>r _. r = own k) \<and>
      meta_size (inode_meta fs V k) = length (fdata f) \<and>
      length (fst (own k)) = index_count (length (fdata f)) \<and> length (snd (own k)) = data_count (length (fdata f)) \<and>
      distinct (fst (own k) @ snd (own k)) \<and>
      take (length (fdata f)) (concat (map V (snd (own k)))) = fdata f) \<and>
    disjoint_family_on (blocks_of own) (dom (files a)) \<and>
    used fs V = (\<Union>k \<in> dom (files a). blocks_of own k) \<and>
    bitmap_set (inode_bitmap fs) V = dom (files a) \<and>
    card (used fs V) + spare a = blocks (data_bitmap fs) * BLOCK_BITS"
proof -
  from assms obtain own V where st: "disk_dev.fs_state fs n (files a) own V st" and sp: "spare a = free_blocks fs V"
    by (rule disk_dev.cafs_relE)
  have fa: "files_at fs n V (files a) own" and ds: "disk_store n [] V (blk_cache st)"
    using st by (simp_all add: disk_dev.fs_state_def)
  have each: "runs (Meta_blocks (inode_meta fs V k)) (blk_cache st) (\<lambda>r _. r = own k) \<and>
      meta_size (inode_meta fs V k) = length (fdata f) \<and>
      length (fst (own k)) = index_count (length (fdata f)) \<and> length (snd (own k)) = data_count (length (fdata f)) \<and>
      distinct (fst (own k) @ snd (own k)) \<and>
      take (length (fdata f)) (concat (map V (snd (own k)))) = fdata f" if "files a k = Some f" for k f
  proof -
    have at: "file_at fs n V k f (fst (own k)) (snd (own k))" by (rule files_at_file [OF fa that])
    then have rep: "meta_rep n V (inode_meta fs V k) (fst (own k)) (snd (own k))" by (simp add: file_at_def Let_def)
    have "runs (Meta_blocks (inode_meta fs V k)) (blk_cache st) (\<lambda>r _. r = own k)"
      using disk_dev.execD [OF disk_dev.exec_Meta_blocks [OF rep _ _ refl refl] ds]
      by (rule runs_mono) (auto simp: CACHE_SIZE_def)
    with at rep show ?thesis by (simp add: file_at_def meta_rep_def Let_def)
  qed
  have "card (used fs V) \<le> blocks (data_bitmap fs) * BLOCK_BITS"
    using card_mono [OF _ used_subset [of fs V]] by (simp add: data_area_def)
  with fa ds each sp show ?thesis
    by (intro exI [of _ own] exI [of _ V]) (auto simp: files_at_def free_blocks_def disjoint_family_on_def)
qed

text \<open>
  C5: after any sequence of requests, take for every file the index and data blocks that \<open>Meta::blocks\<close> reads from
  its inode: they are as many as the size of the file needs, all different, and hold its contents; no
  block is among those of two files; the data bitmap marks exactly these blocks, the inode bitmap exactly the inodes
  in use, and used and spare blocks add up to the capacity.
\<close>

theorem cafs_no_shared_blocks:
  assumes "n < U64_RANGE" and "sizes_ok n tb nb" and "spec_run ops (fresh_abs tb nb) = Some (rs, a)"
  shows "\<exists>fs st. CAFS_init (dyn_disk (Disk_new n)) tb nb = Inr (fs, st) \<and>
    runs (map_each ops (perform (cafs_vtable fs))) st (\<lambda>_ st'. \<exists>own V. disk_store n [] V (blk_cache st') \<and>
      (\<forall>k f. files a k = Some f \<longrightarrow>
        runs (Meta_blocks (inode_meta fs V k)) (blk_cache st') (\<lambda>r _. r = own k) \<and>
        meta_size (inode_meta fs V k) = length (fdata f) \<and>
        length (fst (own k)) = index_count (length (fdata f)) \<and> length (snd (own k)) = data_count (length (fdata f)) \<and>
        distinct (fst (own k) @ snd (own k)) \<and>
        take (length (fdata f)) (concat (map V (snd (own k)))) = fdata f) \<and>
      disjoint_family_on (blocks_of own) (dom (files a)) \<and>
      used fs V = (\<Union>k \<in> dom (files a). blocks_of own k) \<and>
      bitmap_set (inode_bitmap fs) V = dom (files a) \<and>
      card (used fs V) + spare a = blocks (data_bitmap fs) * BLOCK_BITS)"
proof -
  from disk_init_rel [OF assms(1,2)] obtain fs st where
    i: "CAFS_init (dyn_disk (Disk_new n)) tb nb = Inr (fs, st)" and rel: "disk_dev.cafs_rel fs n (fresh_abs tb nb) [] st" .
  show ?thesis
    by (intro exI [of _ fs], intro exI [of _ st] conjI i, rule runs_mono [OF disk_dev.cafs.run_ok [OF rel assms(3)]])
      (blast intro: rel_ownership)
qed

theorem cafs_no_shared_blocks_witness:
  "\<exists>fs st. CAFS_init (dyn_disk (Disk_new 20480)) 20480 2 = Inr (fs, st) \<and>
    runs (map_each session (perform (cafs_vtable fs))) st (\<lambda>_ st'. \<exists>own V. disk_store 20480 [] V (blk_cache st') \<and>
      (\<forall>k \<in> {0, 1}. runs (Meta_blocks (inode_meta fs V k)) (blk_cache st') (\<lambda>r _. r = own k)) \<and>
      bitmap_set (inode_bitmap fs) V = {0, 1} \<and> blocks_of own 0 \<inter> blocks_of own 1 = {})"
proof -
  have d: "dom (files abs2) = {0, 1}" by (auto simp: abs2_def split: if_splits)
  then have f: "\<forall>k \<in> {0, 1}. \<exists>f. files abs2 k = Some f" by blast
  from cafs_no_shared_blocks [OF tests_sizes(2,1) session_spec, unfolded d] obtain fs st where
    i: "CAFS_init (dyn_disk (Disk_new 20480)) 20480 2 = Inr (fs, st)" and
    r: "runs (map_each session (perform (cafs_vtable fs))) st (\<lambda>_ st'. \<exists>own V. disk_store 20480 [] V (blk_cache st') \<and>
      (\<forall>k f. files abs2 k = Some f \<longrightarrow>
        runs (Meta_blocks (inode_meta fs V k)) (blk_cache st') (\<lambda>r _. r = own k) \<and>
        meta_size (inode_meta fs V k) = length (fdata f) \<and>
        length (fst (own k)) = index_count (length (fdata f)) \<and> length (snd (own k)) = data_count (length (fdata f)) \<and>
        distinct (fst (own k) @ snd (own k)) \<and>
        take (length (fdata f)) (concat (map V (snd (own k)))) = fdata f) \<and>
      disjoint_family_on (blocks_of own) {0, 1} \<and> used fs V = (\<Union>k \<in> {0, 1}. blocks_of own k) \<and>
      bitmap_set (inode_bitmap fs) V = {0, 1} \<and>
      card (used fs V) + spare abs2 = blocks (data_bitmap fs) * BLOCK_BITS)" by blast
  have "runs (map_each session (perform (cafs_vtable fs))) st (\<lambda>_ st'. \<exists>own V. disk_store 20480 [] V (blk_cache st') \<and>
      (\<forall>k \<in> {0, 1}. runs (Meta_blocks (inode_meta fs V k)) (blk_cache st') (\<lambda>r _. r = own k)) \<and>
      bitmap_set (inode_bitmap fs) V = {0, 1} \<and> blocks_of own 0 \<inter> blocks_of own 1 = {})"
  proof (rule runs_mono [OF r], elim exE conjE)
    fix u st' own V
    assume "disk_store 20480 [] V (blk_cache st')" and "bitmap_set (inode_bitmap fs) V = {0, 1}"
      and "disjoint_family_on (blocks_of own) {0, 1}"
      and "\<forall>k f. files abs2 k = Some f \<longrightarrow> runs (Meta_blocks (inode_meta fs V k)) (blk_cache st') (\<lambda>r _. r = own k) \<and>
        meta_size (inode_meta fs V k) = length (fdata f) \<and>
        length (fst (own k)) = index_count (length (fdata f)) \<and> length (snd (own k)) = data_count (length (fdata f)) \<and>
        distinct (fst (own k) @ snd (own k)) \<and>
        take (length (fdata f)) (concat (map V (snd (own k)))) = fdata f"
    with f show "\<exists>own V. disk_store 20480 [] V (blk_cache st') \<and>
        (\<forall>k \<in> {0, 1}. runs (Meta_blocks (inode_meta fs V k)) (blk_cache st') (\<lambda>r _. r = own k)) \<and>
        bitmap_set (inode_bitmap fs) V = {0, 1} \<and> blocks_of own 0 \<inter> blocks_of own 1 = {}"
      by (intro exI [of _ own] exI [of _ V]) (auto simp: disjoint_family_on_def)
  qed
  with i show ?thesis by blast
qed

section \<open>Resources\<close>

text \<open>
  The space \<open>df\<close> reports as free after a write has shrunk by the blocks the write
  added, index blocks included.
\<close>

theorem cafs_df_accounts:
  assumes "disk_dev.cafs_rel fs n a [] st" and "can_write a k contents" and "0 < slots a"
    and "files a k = Some f" and "capacity a * BLOCK_SIZE < U64_RANGE"
  shows "runs (map_each [OpDf, OpWrite k contents, OpDf] (perform (cafs_vtable fs))) st (\<lambda>xs _.
    \<exists>before. xs = [RSpace before (capacity a * BLOCK_SIZE), RDone,
      RSpace (before - growth (length (fdata f)) (length contents) * BLOCK_SIZE) (capacity a * BLOCK_SIZE)])"
proof -
  have "spec_run [OpDf, OpWrite k contents, OpDf] a = Some ([RSpace (spare a * BLOCK_SIZE) (capacity a * BLOCK_SIZE), RDone,
      RSpace ((spare a - growth (length (fdata f)) (length contents)) * BLOCK_SIZE) (capacity a * BLOCK_SIZE)],
      set_data k contents a)"
    using assms by (simp add: set_data_def)
  from disk_dev.cafs.run_ok [OF assms(1) this] show ?thesis
    by (rule runs_mono) (simp add: diff_mult_distrib)
qed

theorem cafs_df_accounts_witness:
  "\<exists>fs st. CAFS_init (dyn_disk (Disk_new 20480)) 20480 2 = Inr (fs, st) \<and>
    runs (map_each [OpDf, OpWrite 0 [1], OpDf] (perform (cafs_vtable fs))) st (\<lambda>xs _.
      \<exists>before. xs = [RSpace before 4194304, RDone, RSpace (before - 512) 4194304])"
proof -
  from disk_init_rel [OF tests_sizes(2,1)] obtain fs st where
    1: "CAFS_init (dyn_disk (Disk_new 20480)) 20480 2 = Inr (fs, st)" "disk_dev.cafs_rel fs 20480 (fresh_abs 20480 2) [] st" .
  have a: "files (fresh_abs 20480 2) 0 = Some (new_file Dir [47])" "slots (fresh_abs 20480 2) = 31"
    "spare (fresh_abs 20480 2) = 8192" "capacity (fresh_abs 20480 2) = 8192"
    by (simp_all add: fresh_abs_def Let_def BLOCK_BITS_def BLOCK_SIZE_def INODE_CACHE_SIZE_def)
  have "can_write (fresh_abs 20480 2) 0 [1]"
    by (rule small_write [OF a(1)]) (simp_all add: a BLOCK_SIZE_def)
  from cafs_df_accounts [OF 1(2) this _ a(1)] 1(1) a show ?thesis
    by (intro exI [of _ fs], intro exI [of _ st])
      (auto simp: BLOCK_SIZE_def U64_RANGE_def small_growth simp del: map_each.simps)
qed

end
