(* ===== verification/Cafs_Errors.thy ===== *)
theory Cafs_Errors
  imports Cafs_Properties
begin

text \<open>
  How CAFS fails: the panics of \<open>open\<close>, \<open>create\<close> and \<open>write\<close> when a resource is missing or the
  device holds no file system, and two ways in which the code fails although nothing is
  missing. \<open>write\<close> hands block ids to \<open>dealloc\<close> that are not bitmap positions, so a write that
  releases blocks panics or frees a stranger's block, and \<open>create\<close> queues every new inode twice, so
  that no session can create more than sixteen files.
\<close>

section \<open>Opening\<close>

context block_device
begin

lemma CAFS_open_invalid:
  assumes d: "dev_ok vt dinv d" and n: "0 < cap (dev d)"
    and bad: "\<not> is_valid (view_at super_block_view 0 (blk (dev d) 0))"
  shows "CAFS_open d = Inl ErrorLoadingCAFS"
proof -
  let ?V = "\<lambda>i. if i < cap (dev d) then blk (dev d) i else []"
  have "exec_fail (cap (dev d)) [] ?V (read_at super_block_view 0 0 (\<lambda>sb. pure (load_areas sb))) ErrorLoadingCAFS"
    using bad n by (intro exec_fail_read_at exec_fail_pure) (simp_all add: CACHE_SIZE_def BLOCK_SIZE_def load_areas_def)
  from exec_failD [OF this store_new [OF d]] show ?thesis
    by (simp add: CAFS_open_def on_cache_def zoom_def new_state_def)
qed

section \<open>Running out\<close>

lemma exec_fail_alloc_data:
  assumes geo: "geometry fs n" and H: "length H < CACHE_SIZE"
    and free: "bitmap_area (data_bitmap fs) \<inter> fst ` set H = {}" and full: "free_blocks fs V = 0"
  shows "exec_fail n H V (alloc_data fs) RunOutOfDataBlock"
proof (rule exec_fail_wf)
  assume n: "n < U64_RANGE"
  let ?bm = "data_bitmap fs"
  have ok: "bitmap_ok n ?bm" by (rule geometry_bitmaps [OF geo n])
  have "bitmap_set ?bm V \<subseteq> {..<blocks ?bm * BLOCK_BITS}" by (auto simp: bitmap_set_def)
  moreover have "card {..<blocks ?bm * BLOCK_BITS} \<le> card (bitmap_set ?bm V)"
    using full by (simp add: free_blocks_def card_used)
  ultimately have "bitmap_set ?bm V = {..<blocks ?bm * BLOCK_BITS}"
    by (intro card_seteq) simp_all
  then show "exec_fail n H V (alloc_data fs) RunOutOfDataBlock"
    unfolding alloc_data_def
    by (intro exec_fail_bnd2 exec_mono [OF exec_alloc [OF ok H free]])
      (auto simp: alloc_post_def exec_fail_panic split: option.splits)
qed

lemma free_after:
  "used fs W = used fs V \<union> X \<Longrightarrow> X \<subseteq> data_area fs - used fs V \<Longrightarrow> finite X \<Longrightarrow>
   free_blocks fs W = free_blocks fs V - card X"
  by (subst (1) free_blocks_def, simp, subst card_Un_disjoint) (auto simp: free_blocks_def)

lemma exec_fail_alloc_data_n:
  assumes geo: "geometry fs n" and H: "length H < CACHE_SIZE"
    and free: "bitmap_area (data_bitmap fs) \<inter> fst ` set H = {}" and few: "free_blocks fs V < c"
  shows "exec_fail n H V (repeat_each c (alloc_data fs)) RunOutOfDataBlock"
  using few
proof (induction c arbitrary: V)
  case (Suc c)
  show ?case
  proof (cases "free_blocks fs V = 0")
    case True
    from exec_fail_alloc_data [OF geo H free this] show ?thesis by (simp add: exec_fail_bnd1)
  next
    case False
    then have "0 < free_blocks fs V" by simp
    from exec_alloc_data [OF geo H free this] show ?thesis
    proof (simp, intro exec_fail_bnd2, elim exec_mono conjE, intro exec_fail_bnd1 Suc.IH)
      fix i V'
      assume i: "i \<in> data_area fs" "i \<notin> used fs V" "used fs V' = insert i (used fs V)"
      then have "free_blocks fs V' = free_blocks fs V - card {i}" by (intro free_after) auto
      with Suc.prems False show "free_blocks fs V' < c" by simp
    qed
  qed
qed simp

lemma exec_fail_grow:
  assumes geo: "geometry fs n" and rep: "meta_rep n V m idx dat"
    and sz: "meta_size m < new_size" "new_size \<le> L4_MAX"
    and few: "free_blocks fs V < growth (meta_size m) new_size"
    and H: "length H + 4 \<le> CACHE_SIZE" "fst ` set H \<inter> (bitmap_area (data_bitmap fs) \<union> data_area fs) = {}"
  shows "exec_fail n H V (write_meta fs new_size m) RunOutOfDataBlock"
proof -
  have max: "meta_size m \<le> L4_MAX" using sz by simp
  have le: "meta_size m \<le> new_size" using sz by simp
  have Hl: "length H < CACHE_SIZE" and Hb: "bitmap_area (data_bitmap fs) \<inter> fst ` set H = {}" using H by auto
  have r: "meta_size m + BLOCK_SIZE < U64_RANGE" "new_size + BLOCK_SIZE < U64_RANGE"
    using sz by (simp_all add: layout_consts U64_RANGE_def)
  obtain cur new where li: "index_blocks (meta_size m) = Inr cur" "index_blocks new_size = Inr new"
    using index_blocks_eq max sz(2) by blast
  note mono = level_mono(1) [OF le] index_count_mono [OF le]
  let ?d = "data_count new_size - data_count (meta_size m)" and ?i = "index_count new_size - index_count (meta_size m)"
  have "exec_fail n H V (bnd (repeat_each ?d (alloc_data fs)) (\<lambda>nd. bnd (repeat_each ?i (alloc_data fs)) (f nd))) RunOutOfDataBlock"
    for f :: "nat list \<Rightarrow> nat list \<Rightarrow> ('d cache_manager, meta) rust"
  proof (cases "free_blocks fs V < ?d")
    case True
    from exec_fail_alloc_data_n [OF geo Hl Hb this] show ?thesis by (rule exec_fail_bnd1)
  next
    case False
    then have "?d \<le> free_blocks fs V" by simp
    from exec_alloc_data_n [OF geo Hl Hb this] show ?thesis
    proof (intro exec_fail_bnd2, elim exec_mono conjE, intro exec_fail_bnd1 exec_fail_alloc_data_n [OF geo Hl Hb])
      fix nd V1
      assume nd: "length nd = ?d" "distinct nd" "set nd \<subseteq> data_area fs - used fs V" "used fs V1 = used fs V \<union> set nd"
      then have "free_blocks fs V1 = free_blocks fs V - ?d" using free_after [OF nd(4,3)] distinct_card [OF nd(2)] by simp
      with few False show "free_blocks fs V1 < ?i" by (simp add: growth_def)
    qed
  qed
  then show ?thesis
    unfolding write_meta_def Meta_data_blocks_def
    using sz(1) by (simp add: li data_blocks_of_eq r index_block_count_eq [OF max li(1)]
        index_block_count_eq [OF sz(2) li(2)] u64_sub_def mono exec_fail_bnd1)
qed

lemma CAFS_write_full:
  assumes rel: "cafs_rel fs n a hs st" and f: "files a k = Some f"
    and sz: "length (fdata f) < length contents" "length contents \<le> L4_MAX"
    and few: "spare a < growth (length (fdata f)) (length contents)" and room: "length hs < slots a"
  shows "CAFS_write fs k contents st = Inl RunOutOfDataBlock"
proof -
  from rel obtain own V where st: "fs_state fs n (files a) own V st" and sp: "spare a = free_blocks fs V"
    and rm: "slots a \<le> room st + length hs" by (rule cafs_relE)
  from st have fa: "files_at fs n V (files a) own" by (simp add: fs_state_def)
  have rep: "meta_rep n V (inode_meta fs V k) (fst (own k)) (snd (own k))"
    "meta_size (inode_meta fs V k) = length (fdata f)"
    using files_at_file [OF fa f] by (simp_all add: file_at_def Let_def)
  have room': "0 < room st \<or> find_inode k st \<noteq> None" using rm room by simp
  show ?thesis
    by (rule CAFS_write_fails [OF st f room'], rule exec_fail_grow [OF files_at_geometry [OF fa] rep(1)])
      (use sz few sp rep(2) in simp_all)
qed

lemma CAFS_create_no_inode:
  assumes rel: "cafs_rel fs n a hs st" and full: "dom (files a) = {..<inode_limit a}"
  shows "CAFS_create fs p name st = Inl RunOutOfInodeBlock"
proof -
  from rel obtain own V where st: "fs_state fs n (files a) own V st"
    and lim: "inode_limit a = blocks (inode_bitmap fs) * BLOCK_BITS" by (rule cafs_relE)
  from st have sto: "store n [] V (blk_cache st)" and fa: "files_at fs n V (files a) own" by (simp_all add: fs_state_def)
  have ok: "bitmap_ok n (inode_bitmap fs)" by (rule geometry_bitmaps [OF files_at_geometry [OF fa] store_range [OF sto]])
  have "bitmap_set (inode_bitmap fs) V = {..<blocks (inode_bitmap fs) * BLOCK_BITS}"
    using fa full lim by (simp add: files_at_def)
  then have "exec n [] V (alloc (inode_bitmap fs)) (\<lambda>r V'. r = None)"
    by (intro exec_mono [OF exec_alloc [OF ok]]) (auto simp: alloc_post_def CACHE_SIZE_def split: option.splits)
  from execD [OF this sto] obtain c where "alloc (inode_bitmap fs) (blk_cache st) = Inr (None, c)"
    by (auto simp: runs_iff_result)
  then show ?thesis
    by (simp add: CAFS_create_def alloc_inode_meta_def bnd_def on_cache_def zoom_def panic_def)
qed

lemma CAFS_create_name_too_long:
  assumes rel: "cafs_rel fs n a hs st" and free: "first_free (files a) 0 (inode_limit a) = Some k"
    and name: "NAME_LENGTH_LIMIT < length name"
  shows "CAFS_create fs p name st = Inl AssertFailed"
proof -
  from rel obtain own V where st: "fs_state fs n (files a) own V st"
    and lim: "inode_limit a = blocks (inode_bitmap fs) * BLOCK_BITS" by (rule cafs_relE)
  from st have sto: "store n [] V (blk_cache st)" and fa: "files_at fs n V (files a) own" by (simp_all add: fs_state_def)
  have "dom (files a) \<noteq> inode_range fs" using free lim by (auto simp: first_free_Some inode_range_def)
  from execD [OF exec_alloc_inode [OF fa this] sto] obtain j c where
    j: "alloc (inode_bitmap fs) (blk_cache st) = Inr (Some j, c)" "j \<in> inode_range fs"
    by (auto simp: runs_iff_result)
  have "inode_pos_of fs j = Inr (inode_block fs j, 0)"
    by (rule inode_pos_of_eq [OF files_at_geometry [OF fa] store_range [OF sto] j(2)])
  with j(1) name show ?thesis
    by (simp add: CAFS_create_def alloc_inode_meta_def CaInode_new_def bnd_def on_cache_def zoom_def pure_def
        ret_def require_def panic_def)
qed

end

section \<open>Inodes queued twice\<close>

text \<open>
  The inodes of \<open>S\<close> are queued twice, those of \<open>T\<close> are queued and referenced; neither can be
  replaced.
\<close>

definition stuck :: "nat set \<Rightarrow> nat set \<Rightarrow> nat list \<Rightarrow> 'd cafs_state \<Rightarrow> bool" where
  "stuck S T r st \<longleftrightarrow> (\<forall>h \<in> set (inode_cache st). h < next_arc st) \<and> length (inode_cache st) \<le> INODE_CACHE_SIZE \<and>
     refs st = r \<and> (\<forall>h \<in> S. 2 \<le> count_list (inode_cache st) h) \<and> T \<subseteq> set (inode_cache st) \<inter> set r"

lemma stuck_blk_cache [simp]: "stuck S T r (st\<lparr>blk_cache := c\<rparr>) = stuck S T r st" "stuck S T r (st\<lparr>arcs := m\<rparr>) = stuck S T r st"
  by (simp_all add: stuck_def)

lemma stuck_refs: "stuck S T r st \<Longrightarrow> T' \<subseteq> T \<Longrightarrow> T' \<subseteq> set r' \<Longrightarrow> stuck S T' r' (st\<lparr>refs := r'\<rparr>)"
  by (auto simp: stuck_def)

lemma stuck_push:
  "stuck S T r st \<Longrightarrow> length (inode_cache st) < INODE_CACHE_SIZE \<Longrightarrow> h < next_arc st \<Longrightarrow>
   stuck S T r (st\<lparr>inode_cache := inode_cache st @ [h]\<rparr>)"
  by (force simp: stuck_def)

lemma substitute_stuck:
  "triple (stuck S T r) substitute_inode (\<lambda>_ st. stuck S T r st \<and> length (inode_cache st) < INODE_CACHE_SIZE)"
proof -
  have "stuck S T r st' \<and> length (inode_cache st') < INODE_CACHE_SIZE"
    if q: "stuck S T r st" and run: "substitute_inode st = Inr (u, st')" for u and st st' :: "'d cafs_state"
  proof (cases "length (inode_cache st) = INODE_CACHE_SIZE")
    case True
    let ?Q = "inode_cache st"
    from run True obtain i where i: "find_pos (\<lambda>h. Arc_strong_count st h = 1) ?Q = Some i"
      and st': "st' = st\<lparr>inode_cache := swap_remove ?Q i\<rparr>"
      by (auto simp: substitute_inode_def split: option.splits)
    from i have il: "i < length ?Q" and one: "Arc_strong_count st (?Q ! i) = 1" by (simp_all add: find_pos_Some)
    have m: "add_mset (?Q ! i) (mset (swap_remove ?Q i)) = mset ?Q" by (rule mset_swap_remove [OF il])
    have same: "count_list (swap_remove ?Q i) h = count_list ?Q h" if "h \<noteq> ?Q ! i" for h
      using arg_cong [OF m, of "\<lambda>M. count M h"] that by (simp add: count_mset)
    have "?Q ! i \<in> set ?Q" using il by simp
    then have "1 \<le> count_list ?Q (?Q ! i)" by (metis count_list_0_iff less_one not_le)
    then have "?Q ! i \<notin> S" "?Q ! i \<notin> set (refs st)"
      using one q by (auto simp: Arc_strong_count_def stuck_def count_list_0_iff [symmetric] simp del: count_list_0_iff)
    moreover from this same have "\<forall>h \<in> S. count_list (swap_remove ?Q i) h = count_list ?Q h" by metis
    moreover have "set (swap_remove ?Q i) \<subseteq> set ?Q" "set ?Q \<subseteq> insert (?Q ! i) (set (swap_remove ?Q i))"
      using arg_cong [OF m, of set_mset] by auto
    ultimately show ?thesis using q il True by (auto simp: stuck_def st')
  next
    case False
    with run have "st' = st" by (simp add: substitute_inode_def)
    with False q show ?thesis by (simp add: stuck_def)
  qed
  then show ?thesis unfolding triple_def by blast
qed

lemma Arc_clone_stuck: "triple (stuck S T r) (Arc_clone h) (\<lambda>x. stuck S T (x # r))"
  by (auto simp: triple_def Arc_clone_def bnd_def upd_def ret_def stuck_def)

lemma Arc_drop_stuck: "triple (stuck S T (h # r)) (Arc_drop h) (\<lambda>_. stuck S (T \<inter> set r) r)"
  by (auto simp: triple_def Arc_drop_def upd_def stuck_def)

lemma Arc_new_stuck:
  "triple (\<lambda>st. stuck S T r st \<and> P (inode_cache st)) (Arc_new ci) (\<lambda>h st. stuck S T (h # r) st \<and> P (inode_cache st) \<and>
     h < next_arc st \<and> h \<notin> set (inode_cache st))"
  by (force simp: triple_def Arc_new_def bnd_def gets_def upd_def ret_def stuck_def)

lemma Arc_deref_stuck: "triple P (Arc_deref h) (\<lambda>_. P)"
  by (auto simp: triple_def Arc_deref_def bnd_def gets_def ret_def panic_def split: option.splits)

lemma cainode_stuck: "triple (stuck S T r) (cainode fs k) (\<lambda>h. stuck S T (h # r))"
proof -
  let ?P = "\<lambda>st. stuck S T r st \<and> length (inode_cache st) < INODE_CACHE_SIZE"
  have push: "triple (\<lambda>st. stuck S T (h # r) st \<and> length (inode_cache st) < INODE_CACHE_SIZE \<and>
      h < next_arc st \<and> h \<notin> set (inode_cache st))
      (bnd (upd (\<lambda>st. st\<lparr>inode_cache := inode_cache st @ [h]\<rparr>)) (\<lambda>_. ret h)) (\<lambda>h. stuck S T (h # r))" for h
    by (rule triple_bnd, rule triple_upd [where Q = "\<lambda>_. stuck S T (h # r)"], rule stuck_push) (auto intro: triple_ret)
  have "triple ?P (bnd (pure (inode_pos_of fs k)) (\<lambda>(bid, off). bnd (on_cache (CaInode_from k bid off)) (\<lambda>ci.
      bnd (Arc_new ci) (\<lambda>h. bnd (upd (\<lambda>st. st\<lparr>inode_cache := inode_cache st @ [h]\<rparr>)) (\<lambda>_. ret h)))))
      (\<lambda>h. stuck S T (h # r))"
    by (rule triple_bnd [OF triple_pure], clarsimp, rule triple_bnd [OF triple_on_cache], simp)
      (rule triple_bnd [OF Arc_new_stuck push])
  note load = triple_bnd [OF substitute_stuck this]
  show ?thesis
    unfolding cainode_def
    by (intro triple_bnd [OF triple_gets])
      (auto split: option.split intro: triple_weaken [OF Arc_clone_stuck] triple_weaken [OF load])
qed

lemma CAFS_write_stuck:
  assumes "T \<subseteq> set r"
  shows "triple (stuck S T r) (CAFS_write fs k contents) (\<lambda>_. stuck S T r)"
proof -
  have drop: "triple (stuck S T (h # r)) (Arc_drop h) (\<lambda>_. stuck S T r)" for h
    using Arc_drop_stuck [of S T h r] assms by (simp add: Int_absorb2)
  have "triple (stuck S T (h # r)) (bnd (upd (\<lambda>st. st\<lparr>arcs := m st\<rparr>)) (\<lambda>_. Arc_drop h)) (\<lambda>_. stuck S T r)" for h m
    by (rule triple_bnd [OF triple_upd [where Q = "\<lambda>_. stuck S T (h # r)"] drop]) simp
  then show ?thesis
    unfolding CAFS_write_def Let_def
    by (intro triple_bnd [OF cainode_stuck] triple_bnd [OF triple_pure], clarsimp)
      (auto intro!: triple_bnd [OF triple_on_cache])
qed

text \<open>A referenced inode in the queue stays there; pushing it again queues it twice.\<close>

lemma add_inode_cache_stuck:
  assumes "h \<in> set r"
  shows "triple (\<lambda>st. stuck S T r st \<and> h < next_arc st) (add_inode_cache h) (\<lambda>_. stuck S (insert h T) r)"
    and "h \<in> T \<Longrightarrow> triple (stuck S T r) (add_inode_cache h) (\<lambda>_. stuck (insert h S) T r)"
proof -
  have next_arc: "triple (\<lambda>st. stuck S T r st \<and> h < next_arc st) substitute_inode
      (\<lambda>_ st. stuck S T r st \<and> length (inode_cache st) < INODE_CACHE_SIZE \<and> h < next_arc st)"
    using substitute_stuck [of S T r]
    by (fastforce simp: triple_def substitute_inode_def split: if_splits option.splits)
  show "triple (\<lambda>st. stuck S T r st \<and> h < next_arc st) (add_inode_cache h) (\<lambda>_. stuck S (insert h T) r)"
    unfolding add_inode_cache_def
    by (rule triple_bnd [OF next_arc], rule triple_upd) (use assms in \<open>force simp: stuck_def\<close>)
  have two: "2 \<le> count_list (q @ [h]) h" if "h \<in> set q" for q
  proof -
    have "count_list q h \<noteq> 0" using that by (simp only: count_list_0_iff not_not)
    then show ?thesis by simp
  qed
  show "triple (stuck S T r) (add_inode_cache h) (\<lambda>_. stuck (insert h S) T r)" if "h \<in> T"
    unfolding add_inode_cache_def
    by (rule triple_bnd [OF substitute_stuck], rule triple_upd) (use that two in \<open>force simp: stuck_def\<close>)
qed

lemma push_new_stuck:
  "triple (\<lambda>st. stuck S {} (h # r) st \<and> True \<and> h < next_arc st \<and> h \<notin> set (inode_cache st))
     (bnd (add_inode_cache h) (\<lambda>_. ret h)) (\<lambda>h st. stuck S {h} (h # r) st \<and> h \<notin> S)"
proof (cases "h \<in> S")
  case False
  show ?thesis
    by (rule triple_weaken [OF triple_bnd [OF add_inode_cache_stuck(1) [of h "h # r" S "{}"]
          triple_ret [where Q = "\<lambda>x st. stuck S {x} (x # r) st \<and> x \<notin> S"]]]) (use False in auto)
next
  case True
  have "\<not> (2 \<le> count_list q h)" if "h \<notin> set q" for q
    using count_notin [OF that] by simp
  with True show ?thesis unfolding triple_def stuck_def by blast
qed

lemma alloc_inode_meta_stuck:
  "triple (stuck S {} r) (alloc_inode_meta fs File name) (\<lambda>h st. stuck S {h} (h # r) st \<and> h \<notin> S)"
proof -
  from triple_bnd [OF Arc_new_stuck push_new_stuck]
  have "triple (stuck S {} r) (bnd (Arc_new ci) (\<lambda>h. bnd (add_inode_cache h) (\<lambda>_. ret h)))
      (\<lambda>h st. stuck S {h} (h # r) st \<and> h \<notin> S)" for ci by simp
  then show ?thesis
    unfolding alloc_inode_meta_def
    by (intro triple_bnd [OF triple_on_cache], simp)
      (auto split: option.split intro!: triple_panic triple_bnd [OF triple_pure] triple_bnd [OF triple_on_cache])
qed

text \<open>The rest of \<open>create\<close>: the entry in the parent directory and the second push of the inode.\<close>

lemma create_entry_stuck:
  "triple (stuck S {h} (h # r)) (bnd (CAFS_inode fs p) (\<lambda>p. bnd (Arc_deref p) (\<lambda>pi.
     bnd (on_cache (CaInode_data pi)) (\<lambda>contents. bnd (Arc_deref h) (\<lambda>ci.
     bnd (pure (inode_number_binary (inode_number ci))) (\<lambda>bin.
     bnd (CAFS_write fs (inode_number pi) ((if contents \<noteq> [] then contents @ [0] else contents) @ bin)) (\<lambda>_.
     bnd (add_inode_cache h) (\<lambda>_. bnd (Arc_drop p) (\<lambda>_. ret h)))))))))
     (\<lambda>x st. x = h \<and> stuck (insert h S) {h} (h # r) st)"
proof -
  have drop: "triple (stuck (insert h S) {h} (q # h # r)) (Arc_drop q) (\<lambda>_. stuck (insert h S) {h} (h # r))" for q
    using Arc_drop_stuck [of "insert h S" "{h}" q "h # r"] by simp
  show ?thesis
    unfolding CAFS_inode_def
    by (rule triple_bnd [OF cainode_stuck], rule triple_bnd [OF Arc_deref_stuck],
        rule triple_bnd [OF triple_on_cache], simp, rule triple_bnd [OF Arc_deref_stuck],
        rule triple_bnd [OF triple_pure], rule triple_bnd [OF CAFS_write_stuck], simp,
        rule triple_bnd [OF add_inode_cache_stuck(2)], simp, simp, rule triple_bnd [OF drop], rule triple_ret)
      simp
qed

lemma CAFS_create_stuck:
  "triple (stuck S {} r) (CAFS_create fs p name) (\<lambda>h st. stuck (insert h S) {} (h # r) st \<and> h \<notin> S)"
proof -
  have "triple (\<lambda>st. stuck S {h} (h # r) st \<and> h \<notin> S) (bnd (CAFS_inode fs p) (\<lambda>p. bnd (Arc_deref p) (\<lambda>pi.
     bnd (on_cache (CaInode_data pi)) (\<lambda>contents. bnd (Arc_deref h) (\<lambda>ci.
     bnd (pure (inode_number_binary (inode_number ci))) (\<lambda>bin.
     bnd (CAFS_write fs (inode_number pi) ((if contents \<noteq> [] then contents @ [0] else contents) @ bin)) (\<lambda>_.
     bnd (add_inode_cache h) (\<lambda>_. bnd (Arc_drop p) (\<lambda>_. ret h)))))))))
      (\<lambda>x st. stuck (insert x S) {} (x # r) st \<and> x \<notin> S)" for h
  proof (cases "h \<in> S")
    case False
    then show ?thesis by (intro triple_weaken [OF create_entry_stuck [where S = S and h = h and r = r]]) (auto simp: stuck_def)
  qed (simp add: triple_def)
  then show ?thesis unfolding CAFS_create_def by (rule triple_bnd [OF alloc_inode_meta_stuck])
qed

lemma create_requests_bound:
  assumes "stuck S {} [] st" and "finite S"
    and "map_each reqs (\<lambda>(p, name). perform (cafs_vtable fs) (OpCreate p name)) st = Inr (rs, st')"
  shows "2 * (card S + length reqs) \<le> INODE_CACHE_SIZE"
  using assms
proof (induction reqs arbitrary: S st rs)
  case Nil
  have "2 * card S \<le> length (inode_cache st)"
  proof -
    have "2 * card S = (\<Sum>h \<in> S. 2)" by simp
    also have "\<dots> \<le> (\<Sum>h \<in> S. count_list (inode_cache st) h)"
      using Nil(1) by (intro sum_mono) (simp add: stuck_def)
    also have "\<dots> \<le> (\<Sum>h \<in> S \<union> set (inode_cache st). count_list (inode_cache st) h)"
      using Nil(2) by (intro sum_mono2) auto
    also have "\<dots> = length (inode_cache st)"
      using Nil(2) by (intro sum_count_set) auto
    finally show ?thesis .
  qed
  then show ?case using Nil(1) by (simp add: stuck_def)
next
  case (Cons req reqs)
  obtain p name where req: "req = (p, name)" by force
  from Cons.prems(3) obtain r st1 rs1 where 1: "perform (cafs_vtable fs) (OpCreate p name) st = Inr (r, st1)"
    "map_each reqs (\<lambda>(p, name). perform (cafs_vtable fs) (OpCreate p name)) st1 = Inr (rs1, st')"
    unfolding req map_each.simps bnd_def by (auto simp: ret_def simp del: perform.simps split: sum.splits)
  have "triple (stuck S {} []) (perform (cafs_vtable fs) (OpCreate p name)) (\<lambda>_ st. \<exists>h. h \<notin> S \<and> stuck (insert h S) {} [] st)"
  proof -
    have rel: "triple (\<lambda>st. stuck (insert h S) {} [h] st \<and> h \<notin> S) (bnd (bnd (Arc_deref h) (\<lambda>ci. ret (inode_number ci)))
        (\<lambda>k. bnd (Arc_drop h) (\<lambda>_. ret (RNumber k)))) (\<lambda>_ st. \<exists>h. h \<notin> S \<and> stuck (insert h S) {} [] st)" for h
      by (rule triple_bnd [where Q = "\<lambda>_ st. stuck (insert h S) {} [h] st \<and> h \<notin> S"],
          rule triple_bnd [OF Arc_deref_stuck], rule triple_ret, simp, rule triple_bnd [where Q = "\<lambda>_ st. h \<notin> S \<and> stuck (insert h S) {} [] st"])
        (auto simp: triple_def Arc_drop_def upd_def stuck_def ret_def)
    show ?thesis
      unfolding perform.simps
      by (simp add: cafs_vtable_def, rule triple_bnd [OF CAFS_create_stuck rel])
  qed
  with 1(1) Cons.prems(1) obtain h where h: "h \<notin> S" "stuck (insert h S) {} [] st1"
    unfolding triple_def by blast
  from Cons.IH [OF h(2) _ 1(2)] Cons.prems(2) h(1) show ?case by simp
qed

section \<open>Properties\<close>

lemma tests_disk:
  obtains fs st where "CAFS_init (dyn_disk (Disk_new 20480)) 20480 2 = Inr (fs, st)"
    and "disk_dev.cafs_rel fs 20480 (fresh_abs 20480 2) [] st"
  using disk_init_rel [OF tests_sizes(2,1)] .

lemma fresh_fields [simp]:
  "files (fresh_abs 20480 2) = [0 \<mapsto> new_file Dir [47]]" "slots (fresh_abs 20480 2) = 31"
  "spare (fresh_abs 20480 2) = 8192" "capacity (fresh_abs 20480 2) = 8192" "inode_limit (fresh_abs 20480 2) = 8192"
  by (simp_all add: fresh_abs_def Let_def BLOCK_BITS_def BLOCK_SIZE_def INODE_CACHE_SIZE_def)

text \<open>
  A device whose first block does not carry the magic number is not opened.
\<close>

theorem cafs_open_rejects:
  assumes "dev_ok disk_vtable disk_inv d" and "0 < total_blocks (dev d)"
    and "\<not> is_valid (view_at super_block_view 0 (disk_block (dev d) 0))"
  shows "CAFS_open d = Inl ErrorLoadingCAFS"
  by (rule disk_dev.CAFS_open_invalid [OF assms])

theorem cafs_open_rejects_witness: "CAFS_open (dyn_disk (Disk_new 5)) = Inl ErrorLoadingCAFS"
proof (rule cafs_open_rejects)
  show "dev_ok disk_vtable disk_inv (dyn_disk (Disk_new 5))" by (rule disk_dev_ok) (simp add: U64_RANGE_def)
  have "view_at super_block_view 0 (replicate 512 0) = \<lparr>magic = 0, sb_total_blocks = 0, sb_inode_bitmap_blocks = 0,
      sb_inode_area_blocks = 0, sb_data_bitmap_blocks = 0, sb_data_area_blocks = 0\<rparr>"
    by code_simp
  then show "\<not> is_valid (view_at super_block_view 0 (disk_block (dev (dyn_disk (Disk_new 5))) 0))"
    by (simp add: dyn_disk_def is_valid_def FS_MAGIC_def BLOCK_SIZE_def)
qed (simp add: dyn_disk_def)

text \<open>
  C34: a write that needs more blocks than are free panics with "run out of data block", whether
  data or index blocks are missing.
\<close>

theorem cafs_write_disk_full:
  assumes "disk_dev.cafs_rel fs n a hs st" and "files a k = Some f"
    and "length (fdata f) < length contents" and "length contents \<le> L4_MAX"
    and "spare a < growth (length (fdata f)) (length contents)" and "length hs < slots a"
  shows "CAFS_write fs k contents st = Inl RunOutOfDataBlock"
  by (rule disk_dev.CAFS_write_full [OF assms])

theorem cafs_write_disk_full_witness:
  "\<exists>fs st. CAFS_init (dyn_disk (Disk_new 20480)) 20480 2 = Inr (fs, st) \<and>
     CAFS_write fs 0 (replicate 4194305 7) st = Inl RunOutOfDataBlock"
proof -
  from tests_disk obtain fs st where 1: "CAFS_init (dyn_disk (Disk_new 20480)) 20480 2 = Inr (fs, st)"
    "disk_dev.cafs_rel fs 20480 (fresh_abs 20480 2) [] st" .
  have "CAFS_write fs 0 (replicate 4194305 7) st = Inl RunOutOfDataBlock"
    by (rule cafs_write_disk_full [OF 1(2), of 0 "new_file Dir [47]"])
      (simp_all add: length_replicate layout_consts growth_def data_count_def cdiv_def)
  with 1(1) show ?thesis by blast
qed

text \<open>
  \<open>create\<close> panics on a name of more than 199 bytes.
\<close>

theorem cafs_create_name_too_long:
  assumes "disk_dev.cafs_rel fs n a hs st" and "first_free (files a) 0 (inode_limit a) = Some k"
    and "NAME_LENGTH_LIMIT < length name"
  shows "CAFS_create fs p name st = Inl AssertFailed"
  by (rule disk_dev.CAFS_create_name_too_long [OF assms])

theorem cafs_create_name_too_long_witness:
  "\<exists>fs st. CAFS_init (dyn_disk (Disk_new 20480)) 20480 2 = Inr (fs, st) \<and>
     CAFS_create fs 0 (replicate 200 97) st = Inl AssertFailed"
proof -
  from tests_disk obtain fs st where 1: "CAFS_init (dyn_disk (Disk_new 20480)) 20480 2 = Inr (fs, st)"
    "disk_dev.cafs_rel fs 20480 (fresh_abs 20480 2) [] st" .
  from cafs_create_name_too_long [OF 1(2), of 1 "replicate 200 97"] 1(1) show ?thesis
    by (auto simp: first_free_Some NAME_LENGTH_LIMIT_def)
qed

text \<open>
  C37: a write that releases blocks hands their ids to the bitmap without subtracting the start of
  the data area. When the bit so named is clear the write panics, although the file and all its
  blocks are in order.
\<close>

theorem cafs_shrink_panics:
  assumes "disk_dev.fs_state fs n F own V st" and "F k = Some f"
    and "data_count (length contents) < data_count (length (fdata f))"
    and "x = hd (released (length contents) (fst (own k)) (snd (own k)))"
    and "x < blocks (data_bitmap fs) * BLOCK_BITS" and "data_area_start_block fs + x \<notin> used fs V"
    and "0 < room st"
  shows "CAFS_write fs k contents st = Inl AssertFailed"
  by (rule disk_dev.CAFS_write_shrink_panics [OF assms(1-6)]) (use assms(7) in simp)

lemma root_one_byte:
  obtains fs st where "CAFS_init (dyn_disk (Disk_new 20480)) 20480 1 = Inr (fs, st)"
    and "runs (CAFS_write fs 0 [1]) st (\<lambda>_ st'. \<exists>own V. disk_dev.fs_state fs 20480
      [0 \<mapsto> (new_file Dir [47])\<lparr>fdata := [1]\<rparr>] own V st' \<and> 0 < room st' \<and> own 0 = ([], [4101]) \<and>
      used fs V = {4101} \<and> data_area_start_block fs = 4101 \<and> blocks (data_bitmap fs) = 3)"
proof -
  have s: "20480 \<le> (20480 :: nat)" "0 < (1 :: nat)" "1 + 1 + 1 * BLOCK_BITS \<le> 20480"
    "1 * BLOCK_BITS * BLOCK_SIZE + BLOCK_SIZE < U64_RANGE"
    by (simp_all add: BLOCK_BITS_def BLOCK_SIZE_def U64_RANGE_def)
  have d: "dev_ok disk_vtable disk_inv (dyn_disk (Disk_new 20480))" "total_blocks (dev (dyn_disk (Disk_new 20480))) = 20480"
    by (rule disk_dev_ok) (simp_all add: U64_RANGE_def dyn_disk_def)
  from disk_dev.CAFS_init_ok [OF d s] obtain fs st V where i: "CAFS_init (dyn_disk (Disk_new 20480)) 20480 1 = Inr (fs, st)"
    and st: "disk_dev.fs_state fs 20480 [0 \<mapsto> new_file Dir [47]] ((\<lambda>_. ([], []))(0 := ([], []))) V st" "refs st = []"
    and rm: "INODE_CACHE_SIZE - 1 \<le> room st" and ib: "blocks (inode_bitmap fs) = 1"
    and db: "blocks (data_bitmap fs) = (20480 - 1 - 1 - 1 * BLOCK_BITS) div (BLOCK_BITS + 1)"
    and fr: "free_blocks fs V = blocks (data_bitmap fs) * BLOCK_BITS" .
  have db3: "blocks (data_bitmap fs) = 3" using db by (simp add: BLOCK_BITS_def BLOCK_SIZE_def)
  have "geometry fs 20480" using st(1) by (auto simp: disk_dev.fs_state_def files_at_def)
  then have das: "data_area_start_block fs = 4101" using ib db3 by (simp add: geometry_def BLOCK_BITS_def BLOCK_SIZE_def)
  have one: "index_count 1 = 0" "data_count 1 = 1" using one_block(2,3) [of 1] by (simp_all add: BLOCK_SIZE_def)
  have u: "used fs V = {}" using st by (auto simp: disk_dev.fs_state_def files_at_def blocks_of_def)
  have post: "own' 0 = ([], [4101]) \<and> used fs V' = {4101}"
    if st': "disk_dev.fs_state fs 20480 ([0 \<mapsto> new_file Dir [47]](0 \<mapsto> (new_file Dir [47])\<lparr>fdata := [1]\<rparr>)) own' V' st'"
      and ff: "first_fit fs V (used fs V' - used fs V)" for own' V' st'
  proof -
    have fa: "files_at fs 20480 V' [0 \<mapsto> (new_file Dir [47])\<lparr>fdata := [1]\<rparr>] own'"
      using st' by (simp add: disk_dev.fs_state_def)
    have "file_at fs 20480 V' 0 ((new_file Dir [47])\<lparr>fdata := [1]\<rparr>) (fst (own' 0)) (snd (own' 0))"
      by (rule files_at_file [OF fa]) simp
    then have "length (fst (own' 0)) = index_count (length [1 :: u8])" "length (snd (own' 0)) = data_count (length [1 :: u8])"
      unfolding file_at_def Let_def meta_rep_def by simp_all
    then have "length (fst (own' 0)) = index_count 1" "length (snd (own' 0)) = data_count 1" by simp_all
    with one have "fst (own' 0) = []" "length (snd (own' 0)) = 1" by simp_all
    then obtain b where b: "own' 0 = ([], [b])" by (metis length_0_conv length_Suc_conv One_nat_def prod.collapse)
    then have used: "used fs V' = {b}" using files_at_used_eq [OF fa] by (simp add: blocks_of_def)
    then have "{4101..<b} \<subseteq> {b}" using ff u das by (simp add: first_fit_def)
    then have "\<not> 4101 < b" by (auto dest: subsetD [of _ _ 4101])
    moreover have "b \<in> data_area fs" using used used_subset [of fs V'] by auto
    ultimately have "b = 4101" using das by (simp add: data_area_def)
    with b used show ?thesis by simp
  qed
  have "runs (CAFS_write fs 0 [1]) st (\<lambda>_ st'. \<exists>own' V'.
      disk_dev.fs_state fs 20480 ([0 \<mapsto> new_file Dir [47]](0 \<mapsto> (new_file Dir [47])\<lparr>fdata := [1]\<rparr>)) own' V' st' \<and>
      first_fit fs V (used fs V' - used fs V) \<and>
      free_blocks fs V' + growth (length (fdata (new_file Dir [47]))) (length [1 :: u8]) = free_blocks fs V \<and>
      refs st' = refs st \<and> room st' = room st \<and> (\<forall>h \<in> set (refs st). number_of st' h = number_of st h))"
    by (rule disk_dev.CAFS_write_ok [OF st(1)]) (use rm fr db3 one in \<open>simp_all add: one_block growth_def BLOCK_BITS_def
        BLOCK_SIZE_def INODE_CACHE_SIZE_def layout_consts\<close>)
  then have "runs (CAFS_write fs 0 [1]) st (\<lambda>_ st'. \<exists>own V. disk_dev.fs_state fs 20480
      [0 \<mapsto> (new_file Dir [47])\<lparr>fdata := [1]\<rparr>] own V st' \<and> 0 < room st' \<and> own 0 = ([], [4101]) \<and>
      used fs V = {4101} \<and> data_area_start_block fs = 4101 \<and> blocks (data_bitmap fs) = 3)"
    by (rule runs_mono) (use post das db3 rm in \<open>fastforce simp: INODE_CACHE_SIZE_def\<close>)
  with i show thesis by (rule that)
qed

theorem cafs_shrink_panics_witness:
  "\<exists>fs st. CAFS_init (dyn_disk (Disk_new 20480)) 20480 1 = Inr (fs, st) \<and>
     bnd (CAFS_write fs 0 [1]) (\<lambda>_. CAFS_write fs 0 []) st = Inl AssertFailed"
proof -
  from root_one_byte obtain fs st where i: "CAFS_init (dyn_disk (Disk_new 20480)) 20480 1 = Inr (fs, st)"
    and r: "runs (CAFS_write fs 0 [1]) st (\<lambda>_ st'. \<exists>own V. disk_dev.fs_state fs 20480
      [0 \<mapsto> (new_file Dir [47])\<lparr>fdata := [1]\<rparr>] own V st' \<and> 0 < room st' \<and> own 0 = ([], [4101]) \<and>
      used fs V = {4101} \<and> data_area_start_block fs = 4101 \<and> blocks (data_bitmap fs) = 3)" .
  from r obtain st' own V where w: "CAFS_write fs 0 [1] st = Inr ((), st')"
    and st': "disk_dev.fs_state fs 20480 [0 \<mapsto> (new_file Dir [47])\<lparr>fdata := [1]\<rparr>] own V st'" "0 < room st'"
      "own 0 = ([], [4101])" "used fs V = {4101}" "data_area_start_block fs = 4101" "blocks (data_bitmap fs) = 3"
    by (auto simp: runs_iff_result)
  have "CAFS_write fs 0 [] st' = Inl AssertFailed"
    by (rule cafs_shrink_panics [OF st'(1), where x = 4101 and f = "(new_file Dir [47])\<lparr>fdata := [1]\<rparr>"])
      (use st' one_block(1) one_block(2) [of 1] in \<open>simp_all add: released_def one_block BLOCK_BITS_def BLOCK_SIZE_def\<close>)
  with i w show ?thesis by (auto simp: bnd_def)
qed

text \<open>
  C38: \<open>create\<close> queues every new inode twice, so in one session no seventeen creations all
  succeed, however large the device is.
\<close>

theorem cafs_create_exhausts:
  assumes "disk_dev.cafs_rel fs n a [] st" and "16 < length reqs"
  shows "\<exists>e. map_each reqs (\<lambda>(p, name). perform (cafs_vtable fs) (OpCreate p name)) st = Inl e"
proof (cases "map_each reqs (\<lambda>(p, name). perform (cafs_vtable fs) (OpCreate p name)) st")
  case (Inr r)
  have "stuck {} {} [] st"
    using assms(1) by (auto simp: disk_dev.cafs_rel_def quota_def stuck_def)
  from create_requests_bound [OF this _ ] Inr have "2 * length reqs \<le> INODE_CACHE_SIZE" by (cases r) fastforce
  with assms(2) show ?thesis by (simp add: INODE_CACHE_SIZE_def)
qed blast

theorem cafs_create_exhausts_witness:
  "\<exists>fs st e. CAFS_init (dyn_disk (Disk_new 20480)) 20480 2 = Inr (fs, st) \<and>
     map_each (replicate 17 (0, [97])) (\<lambda>(p, name). perform (cafs_vtable fs) (OpCreate p name)) st = Inl e"
proof -
  from tests_disk obtain fs st where 1: "CAFS_init (dyn_disk (Disk_new 20480)) 20480 2 = Inr (fs, st)"
    "disk_dev.cafs_rel fs 20480 (fresh_abs 20480 2) [] st" .
  from cafs_create_exhausts [OF 1(2), of "replicate 17 (0, [97])"] 1(1) show ?thesis
    by (auto simp del: map_each.simps perform.simps)
qed

end
