(* ===== verification/Rust_Str.thy ===== *)
theory Rust_Str
  imports Prelude
begin

text \<open>
  What the repository uses of the string functions of the Rust standard library. A \<open>str\<close> is
  the list of its UTF-8 bytes. \<open>from_str_radix\<close> reads unsigned numbers (\<open>parse\<close> is
  \<open>from_str_radix\<close> with radix 10), \<open>split_on\<close> is \<open>split\<close> at an ASCII character, \<open>trim\<close> strips the
  characters of the Unicode property White\_Space, \<open>str_from\<close> is \<open>&s[k..]\<close>.
\<close>

section \<open>Literals and splitting\<close>

definition bytes_of :: "string \<Rightarrow> u8 list" where
  "bytes_of s = map of_char s"

fun split_on :: "u8 \<Rightarrow> u8 list \<Rightarrow> u8 list list" where
  "split_on c [] = [[]]"
| "split_on c (b # bs) =
     (if b = c then [] # split_on c bs
      else (case split_on c bs of [] \<Rightarrow> [[b]] | p # ps \<Rightarrow> (b # p) # ps))"

lemma split_on_ne [simp]: "split_on c bs \<noteq> []"
  by (induction bs) (auto split: list.splits)

lemma split_on_append: "split_on c (xs @ c # ys) = split_on c xs @ split_on c ys"
  by (induction xs) (auto split: list.splits)

lemma split_on_no: "c \<notin> set xs \<Longrightarrow> split_on c xs = [xs]"
  by (induction xs) auto

text \<open>\<open>splitn(2, c)\<close>: what is before the first separator, and what is after it if there is one.\<close>

fun split_once :: "u8 \<Rightarrow> u8 list \<Rightarrow> u8 list \<times> u8 list option" where
  "split_once c [] = ([], None)"
| "split_once c (b # bs) = (if b = c then ([], Some bs) else (case split_once c bs of (p, r) \<Rightarrow> (b # p, r)))"

lemma split_once_append: "c \<notin> set xs \<Longrightarrow> split_once c (xs @ c # ys) = (xs, Some ys)"
  by (induction xs) auto

lemma split_once_no: "c \<notin> set xs \<Longrightarrow> split_once c xs = (xs, None)"
  by (induction xs) auto

section \<open>Numbers\<close>

definition to_digit :: "nat \<Rightarrow> u8 \<Rightarrow> nat option" where
  "to_digit radix b =
     (let d = (if 48 \<le> b \<and> b \<le> 57 then Some (unat b - 48)
               else if 97 \<le> b \<and> b \<le> 122 then Some (unat b - 87)
               else if 65 \<le> b \<and> b \<le> 90 then Some (unat b - 55) else None) in
      case d of Some n \<Rightarrow> (if n < radix then Some n else None) | None \<Rightarrow> None)"

primrec digits_value :: "nat \<Rightarrow> u8 list \<Rightarrow> nat \<Rightarrow> nat option" where
  "digits_value radix [] acc = Some acc"
| "digits_value radix (b # bs) acc =
     (case to_digit radix b of
        None \<Rightarrow> None
      | Some d \<Rightarrow> (if acc * radix + d < U64_RANGE then digits_value radix bs (acc * radix + d) else None))"

definition from_str_radix :: "nat \<Rightarrow> u8 list \<Rightarrow> nat option" where
  "from_str_radix radix s =
     (if s = [] \<or> s = [43] \<or> s = [45] then None
      else digits_value radix (if hd s = 43 then tl s else s) 0)"

text \<open>The other direction, for round trips: \<open>{}\<close> and \<open>{:x}\<close> of \<open>format!\<close>.\<close>

definition digit_byte :: "nat \<Rightarrow> u8" where
  "digit_byte d = of_nat (if d < 10 then 48 + d else 87 + d)"

function show_radix :: "nat \<Rightarrow> nat \<Rightarrow> u8 list" where
  "show_radix radix n =
     (if n < radix \<or> radix \<le> 1 then [digit_byte n] else show_radix radix (n div radix) @ [digit_byte (n mod radix)])"
  by pat_completeness auto

termination
  by (relation "measure snd") auto

declare show_radix.simps [simp del]

lemma unat_digit_byte: "d < 36 \<Longrightarrow> unat (digit_byte d) = (if d < 10 then 48 + d else 87 + d)"
  by (simp add: digit_byte_def unat_of_nat del: of_nat_add)

lemma to_digit_byte: "d < radix \<Longrightarrow> radix \<le> 36 \<Longrightarrow> to_digit radix (digit_byte d) = Some d"
proof -
  assume d: "d < radix" "radix \<le> 36"
  have "to_digit radix (digit_byte d) = Some d" if "d < 10"
  proof -
    have u: "unat (digit_byte d) = 48 + d" using that by (simp add: unat_digit_byte)
    then have "48 \<le> digit_byte d" "digit_byte d \<le> 57" using that by (simp_all add: word_le_nat_alt)
    with u d show ?thesis by (simp add: to_digit_def)
  qed
  moreover have "to_digit radix (digit_byte d) = Some d" if "\<not> d < 10"
  proof -
    have u: "unat (digit_byte d) = 87 + d" using that d by (simp add: unat_digit_byte)
    then have "\<not> digit_byte d \<le> 57" "97 \<le> digit_byte d" "digit_byte d \<le> 122" using that d by (simp_all add: word_le_nat_alt)
    with u d show ?thesis by (simp add: to_digit_def)
  qed
  ultimately show ?thesis by blast
qed

lemma digits_value_append:
  "digits_value radix (xs @ ys) acc = (case digits_value radix xs acc of None \<Rightarrow> None | Some a \<Rightarrow> digits_value radix ys a)"
  by (induction xs arbitrary: acc) (auto split: option.splits)

lemma digits_show_radix:
  assumes "2 \<le> radix" and "radix \<le> 36" and "n < U64_RANGE"
  shows "digits_value radix (show_radix radix n) 0 = Some n"
  using assms(3)
proof (induction n rule: less_induct)
  case (less n)
  show ?case
  proof (cases "n < radix")
    case True
    with assms less.prems show ?thesis by (simp add: show_radix.simps [of radix n] to_digit_byte)
  next
    case False
    then have "n div radix < n" using assms(1) by (intro div_less_dividend) auto
    moreover have "n div radix < U64_RANGE" using less.prems calculation by simp
    ultimately have "digits_value radix (show_radix radix (n div radix)) 0 = Some (n div radix)" using less.IH by blast
    moreover have "n mod radix < radix" using assms(1) by simp
    ultimately show ?thesis
      using False assms less.prems by (simp add: show_radix.simps [of radix n] digits_value_append to_digit_byte)
  qed
qed

lemma digit_byte_range: "d < 36 \<Longrightarrow> 48 \<le> unat (digit_byte d) \<and> unat (digit_byte d) \<le> 122"
  by (simp add: unat_digit_byte)

lemma show_radix_bytes:
  "2 \<le> radix \<Longrightarrow> radix \<le> 36 \<Longrightarrow> b \<in> set (show_radix radix n) \<Longrightarrow> 48 \<le> unat b \<and> unat b \<le> 122"
proof (induction radix n rule: show_radix.induct)
  case (1 radix n)
  have "n mod radix < 36" using 1(2,3) by (meson mod_less_divisor less_le_trans zero_less_numeral)
  with 1 show ?case
    using digit_byte_range [of n] digit_byte_range [of "n mod radix"]
    by (subst (asm) (2) show_radix.simps) (auto split: if_splits)
qed

lemma show_radix_ne [simp]: "show_radix radix n \<noteq> []"
  by (subst show_radix.simps) simp

text \<open>Every printed number is read back.\<close>

lemma from_show_radix:
  assumes "2 \<le> radix" and "radix \<le> 36" and "n < U64_RANGE"
  shows "from_str_radix radix (show_radix radix n) = Some n"
proof -
  obtain b bs where b: "show_radix radix n = b # bs" by (cases "show_radix radix n") auto
  then have "48 \<le> unat b" using show_radix_bytes [OF assms(1,2), of b n] by simp
  then have "b \<noteq> 43" "b \<noteq> 45" by auto
  with b digits_show_radix [OF assms] show ?thesis by (auto simp: from_str_radix_def)
qed

section \<open>UTF-8\<close>

definition is_continuation :: "u8 \<Rightarrow> bool" where
  "is_continuation b \<longleftrightarrow> 0x80 \<le> b \<and> b \<le> 0xBF"

fun valid_utf8 :: "u8 list \<Rightarrow> bool" where
  "valid_utf8 [] = True"
| "valid_utf8 (a # s) =
     (if a < 0x80 then valid_utf8 s
      else (case s of
        [] \<Rightarrow> False
      | b # s2 \<Rightarrow>
          if 0xC2 \<le> a \<and> a \<le> 0xDF then is_continuation b \<and> valid_utf8 s2
          else (case s2 of
            [] \<Rightarrow> False
          | c # s3 \<Rightarrow>
              if 0xE0 \<le> a \<and> a \<le> 0xEF then
                is_continuation b \<and> (a = 0xE0 \<longrightarrow> 0xA0 \<le> b) \<and> (a = 0xED \<longrightarrow> b \<le> 0x9F) \<and>
                is_continuation c \<and> valid_utf8 s3
              else (case s3 of
                [] \<Rightarrow> False
              | d # s4 \<Rightarrow>
                  0xF0 \<le> a \<and> a \<le> 0xF4 \<and> is_continuation b \<and> (a = 0xF0 \<longrightarrow> 0x90 \<le> b) \<and> (a = 0xF4 \<longrightarrow> b \<le> 0x8F) \<and>
                  is_continuation c \<and> is_continuation d \<and> valid_utf8 s4))))"

lemma ascii_valid: "\<forall>b \<in> set s. b < 0x80 \<Longrightarrow> valid_utf8 s"
  by (induction s) auto

text \<open>\<open>&s[k..]\<close> panics beyond the end and inside a character.\<close>

definition str_from :: "nat \<Rightarrow> u8 list \<Rightarrow> rust_panic + u8 list" where
  "str_from k s =
     (if k \<le> length s \<and> (k = length s \<or> \<not> is_continuation (s ! k)) then Inr (drop k s) else Inl IndexOutOfBounds)"

section \<open>Whitespace\<close>

text \<open>The encodings of the characters with the property White\_Space.\<close>

definition whitespace :: "u8 list list" where
  "whitespace = [[9], [10], [11], [12], [13], [32], [0xC2, 0x85], [0xC2, 0xA0], [0xE1, 0x9A, 0x80],
     [0xE2, 0x80, 0x80], [0xE2, 0x80, 0x81], [0xE2, 0x80, 0x82], [0xE2, 0x80, 0x83], [0xE2, 0x80, 0x84], [0xE2, 0x80, 0x85],
     [0xE2, 0x80, 0x86], [0xE2, 0x80, 0x87], [0xE2, 0x80, 0x88], [0xE2, 0x80, 0x89], [0xE2, 0x80, 0x8A],
     [0xE2, 0x80, 0xA8], [0xE2, 0x80, 0xA9], [0xE2, 0x80, 0xAF], [0xE2, 0x81, 0x9F], [0xE3, 0x80, 0x80]]"

function strip :: "u8 list list \<Rightarrow> u8 list \<Rightarrow> u8 list" where
  "strip ws s =
     (case find (\<lambda>w. w \<noteq> [] \<and> take (length w) s = w) ws of None \<Rightarrow> s | Some w \<Rightarrow> strip ws (drop (length w) s))"
  by pat_completeness auto

termination
proof (relation "measure (\<lambda>(ws, s). length s)", goal_cases)
  case (2 ws s w)
  then have "w \<noteq> []" "take (length w) s = w" by (auto simp: find_Some_iff)
  moreover from this have "s \<noteq> []" by auto
  ultimately show ?case by (cases s; cases w) simp_all
qed simp

declare strip.simps [simp del]

definition trim :: "u8 list \<Rightarrow> u8 list" where
  "trim s = rev (strip (map rev whitespace) (rev (strip whitespace s)))"

definition printable :: "u8 \<Rightarrow> bool" where
  "printable b \<longleftrightarrow> 33 \<le> b \<and> b \<le> 126"

lemma strip_printable:
  assumes "\<forall>w \<in> set ws. w \<noteq> [] \<longrightarrow> \<not> printable (hd w)" and "s = [] \<or> printable (hd s)"
  shows "strip ws s = s"
proof -
  have "find (\<lambda>w. w \<noteq> [] \<and> take (length w) s = w) ws = None"
    unfolding find_None_iff
  proof (safe)
    fix w
    assume w: "w \<in> set ws" "w \<noteq> []" "take (length w) s = w"
    from w(2) obtain a w' where a: "w = a # w'" by (auto simp: neq_Nil_conv)
    with w(3) have "s \<noteq> []" "hd s = a" by (cases s; simp)+
    with assms w(1,2) a show False by fastforce
  qed
  then show ?thesis by (subst strip.simps) simp
qed

lemma whitespace_not_printable:
  "\<forall>w \<in> set whitespace. w \<noteq> [] \<longrightarrow> \<not> printable (hd w)"
  "\<forall>w \<in> set (map rev whitespace). w \<noteq> [] \<longrightarrow> \<not> printable (hd w)"
  by (simp_all add: whitespace_def printable_def)

text \<open>A line with printable ends is its own trimming.\<close>

lemma trim_printable:
  assumes "s = [] \<or> printable (hd s) \<and> printable (last s)"
  shows "trim s = s"
  using assms strip_printable [OF whitespace_not_printable(1), of s] strip_printable [OF whitespace_not_printable(2), of "rev s"]
  by (auto simp: trim_def hd_rev)

end
