(* ===== verification/Vfs.thy ===== *)
theory Vfs
  imports Fs_Spec Rust_Str
begin

text \<open>
  \<^verbatim>\<open>src/fs/src/vfs\<close>: paths, the tree of directory entries and the virtual file system. The
  primary partition is any trait object \<open>dyn FS\<close>; \<open>VFS::new\<close> opens CAFS. Directory entries form
  a tree (a parent is a weak reference nobody follows); \<open>find_dentry\<close> yields a place in it, the
  positions of the children to follow from the root.
\<close>

section \<open>Paths\<close>

record path =
  parents :: "u8 list list"
  path_name :: "u8 list"

text \<open>\<open>'/'\<close> is 47, a byte no other character of UTF-8 contains.\<close>

definition parse_path :: "u8 list \<Rightarrow> rust_panic + path" where
  "parse_path p =
     (let dirs = drop 1 (split_on 47 p) in
      if dirs = [] then Inl UnwrapNone
      else Inr \<lparr>parents = butlast dirs, path_name = last dirs\<rparr>)"

section \<open>Directory entries\<close>

datatype fs_error = NotExist "u8 list" | RunOutOfInode

datatype dentry = DirEntry (de_type: inode_type) (de_number: nat) (de_name: "u8 list") (subdirs: "dentry list")

definition DirEntry_new :: "'s fs_vtable \<Rightarrow> nat \<Rightarrow> ('s, dentry) rust" where
  "DirEntry_new vt num =
     bnd (vt_inode vt num) (\<lambda>h.
     bnd (vt_name vt h) (\<lambda>name.
     bnd (vt_inode_type vt h) (\<lambda>ty.
     bnd (vt_release vt h) (\<lambda>_.
     ret (DirEntry ty num name [])))))"

text \<open>The recursion is as deep as the directories are nested; the first argument is the stack there is.\<close>

primrec read_sub_dentry :: "nat \<Rightarrow> 's fs_vtable \<Rightarrow> dentry \<Rightarrow> ('s, dentry) rust" where
  "read_sub_dentry 0 = (\<lambda>vt d. panic StackOverflow)"
| "read_sub_dentry (Suc stack) = (\<lambda>vt d.
     bnd (vt_sub_inodes vt (de_number d)) (\<lambda>sub_inodes.
     bnd (map_each sub_inodes (\<lambda>num. bnd (DirEntry_new vt num) (read_sub_dentry stack vt))) (\<lambda>ds.
     ret (DirEntry (de_type d) (de_number d) (de_name d) (subdirs d @ ds)))))"

fun find_dentry :: "dentry \<Rightarrow> u8 list list \<Rightarrow> fs_error + nat list" where
  "find_dentry dir [] = Inr []"
| "find_dentry dir (x # xs) =
     (case find_pos (\<lambda>d. de_name d = x) (subdirs dir) of
        Some i \<Rightarrow> (case find_dentry (subdirs dir ! i) xs of Inl e \<Rightarrow> Inl e | Inr pos \<Rightarrow> Inr (i # pos))
      | None \<Rightarrow> Inl (NotExist x))"

fun dentry_at :: "dentry \<Rightarrow> nat list \<Rightarrow> dentry" where
  "dentry_at d [] = d"
| "dentry_at d (i # pos) = dentry_at (subdirs d ! i) pos"

text \<open>\<open>dir.subdirs.push(..)\<close> at a place of the tree.\<close>

fun push_at :: "dentry \<Rightarrow> nat list \<Rightarrow> dentry \<Rightarrow> dentry" where
  "push_at (DirEntry ty num name ds) [] d = DirEntry ty num name (ds @ [d])"
| "push_at (DirEntry ty num name ds) (i # pos) d = DirEntry ty num name (ds[i := push_at (ds ! i) pos d])"

section \<open>VFS\<close>

record 's vfs =
  primary_partition :: 's
  dentry_cache :: dentry

definition on_fs :: "('s, 'a) rust \<Rightarrow> ('s vfs, 'a) rust" where
  "on_fs m = zoom primary_partition (\<lambda>s v. v\<lparr>primary_partition := s\<rparr>) m"

definition VFS_new :: "nat \<Rightarrow> 'd dyn_block_device \<Rightarrow> rust_panic + (cafs \<times> 'd cafs_state vfs)" where
  "VFS_new stack d =
     sbnd (CAFS_open d) (\<lambda>(fs, st).
     sbnd (bnd (DirEntry_new (cafs_vtable fs) 0) (read_sub_dentry stack (cafs_vtable fs)) st) (\<lambda>(root, st').
     Inr (fs, \<lparr>primary_partition = st', dentry_cache = root\<rparr>)))"

definition VFS_ls_root :: "'s vfs \<Rightarrow> u8 list list" where
  "VFS_ls_root v = de_name (dentry_cache v) # map de_name (subdirs (dentry_cache v))"

definition VFS_create :: "'s fs_vtable \<Rightarrow> u8 list \<Rightarrow> ('s vfs, fs_error + unit) rust" where
  "VFS_create vt p =
     bnd (pure (parse_path p)) (\<lambda>pt.
     bnd (gets dentry_cache) (\<lambda>root.
       case find_dentry root (parents pt) of
         Inl e \<Rightarrow> ret (Inl e)
       | Inr pos \<Rightarrow>
           bnd (on_fs (vt_create vt (de_number (dentry_at root pos)) (path_name pt))) (\<lambda>h.
           bnd (on_fs (vt_inode_number vt h)) (\<lambda>num.
           bnd (on_fs (DirEntry_new vt num)) (\<lambda>d.
           bnd (upd (\<lambda>v. v\<lparr>dentry_cache := push_at (dentry_cache v) pos d\<rparr>)) (\<lambda>_.
           bnd (on_fs (vt_release vt h)) (\<lambda>_.
           ret (Inr ()))))))))"

definition VFS_read_unstable :: "'s fs_vtable \<Rightarrow> u8 list \<Rightarrow> ('s vfs, fs_error + u8 list) rust" where
  "VFS_read_unstable vt p =
     bnd (pure (parse_path p)) (\<lambda>pt.
     bnd (gets dentry_cache) (\<lambda>root.
       case find_dentry root (parents pt @ [path_name pt]) of
         Inl e \<Rightarrow> ret (Inl e)
       | Inr pos \<Rightarrow>
           bnd (on_fs (vt_inode vt (de_number (dentry_at root pos)))) (\<lambda>h.
           bnd (on_fs (vt_data vt h)) (\<lambda>contents.
           bnd (on_fs (vt_release vt h)) (\<lambda>_.
           ret (Inr contents))))))"

definition VFS_write :: "'s fs_vtable \<Rightarrow> u8 list \<Rightarrow> u8 list \<Rightarrow> ('s vfs, fs_error + unit) rust" where
  "VFS_write vt p contents =
     bnd (pure (parse_path p)) (\<lambda>pt.
     bnd (gets dentry_cache) (\<lambda>root.
       case find_dentry root (parents pt @ [path_name pt]) of
         Inl e \<Rightarrow> ret (Inl e)
       | Inr pos \<Rightarrow>
           bnd (on_fs (vt_write vt (de_number (dentry_at root pos)) contents)) (\<lambda>_.
           ret (Inr ()))))"

end
