(* ===== verification/Vfs_Tree.thy ===== *)
theory Vfs_Tree
  imports Vfs
begin

text \<open>
  The tree of directory entries against the file system: every entry carries the type and the
  name of its inode, and its children are the inodes the directory lists. Walking the
  directories from the root rebuilds exactly this tree, and creating or writing through the
  virtual file system keeps it.
\<close>

section \<open>Paths\<close>

definition show_path :: "u8 list list \<Rightarrow> u8 list" where
  "show_path xs = concat (map (\<lambda>x. 47 # x) xs)"

lemma split_show_path:
  "\<forall>x \<in> set xs. 47 \<notin> set x \<Longrightarrow> split_on 47 (show_path xs) = [] # xs"
proof (induction xs rule: rev_induct)
  case (snoc x xs)
  then have "split_on 47 (show_path xs @ 47 # x) = ([] # xs) @ [x]"
    by (simp add: split_on_append split_on_no)
  then show ?case by (simp add: show_path_def)
qed (simp add: show_path_def)

lemma parse_show_path:
  assumes "\<forall>x \<in> set (ps @ [x]). 47 \<notin> set x"
  shows "parse_path (show_path (ps @ [x])) = Inr \<lparr>parents = ps, path_name = x\<rparr>"
  using split_show_path [OF assms] by (simp add: parse_path_def)

section \<open>The tree\<close>

fun tree_ok :: "fs_abs \<Rightarrow> dentry \<Rightarrow> bool" where
  "tree_ok a (DirEntry ty num name ds) \<longleftrightarrow>
     (\<exists>f. files a num = Some f \<and> ftype f = ty \<and> node_name f = name \<and> dir_entries f = Inr (map de_number ds)) \<and>
     (\<forall>d \<in> set ds. tree_ok a d)"

fun numbers :: "dentry \<Rightarrow> nat list" where
  "numbers (DirEntry ty num name ds) = num # concat (map numbers ds)"

fun height :: "dentry \<Rightarrow> nat" where
  "height (DirEntry ty num name ds) = Suc (foldr (\<lambda>d m. max (height d) m) ds 0)"

lemma height_child: "d \<in> set ds \<Longrightarrow> height d < height (DirEntry ty num name ds)"
proof -
  have "d \<in> set ds \<Longrightarrow> height d \<le> foldr (\<lambda>d m. max (height d) m) ds 0" for ds
    by (induction ds) auto
  then show "d \<in> set ds \<Longrightarrow> height d < height (DirEntry ty num name ds)" by (simp add: less_Suc_eq_le)
qed

lemma number_in [simp]: "de_number d \<in> set (numbers d)"
  by (cases d) simp

text \<open>A place that \<open>find_dentry\<close> yields is a node of the tree.\<close>

lemma find_dentry_at:
  "find_dentry d xs = Inr pos \<Longrightarrow> tree_ok a d \<Longrightarrow>
   tree_ok a (dentry_at d pos) \<and> set (numbers (dentry_at d pos)) \<subseteq> set (numbers d)"
proof (induction d xs arbitrary: pos rule: find_dentry.induct)
  case (2 dir x xs)
  obtain ty num name ds where dir: "dir = DirEntry ty num name ds" by (cases dir)
  from 2(2) obtain i q where i: "find_pos (\<lambda>d. de_name d = x) ds = Some i" "find_dentry (ds ! i) xs = Inr q" "pos = i # q"
    by (auto simp: dir split: option.splits sum.splits)
  then have "i < length ds" by (simp add: find_pos_Some)
  then have m: "ds ! i \<in> set ds" by simp
  with 2(1) [of i q] i 2(3) have "tree_ok a (dentry_at (ds ! i) q) \<and> set (numbers (dentry_at (ds ! i) q)) \<subseteq> set (numbers (ds ! i))"
    by (auto simp: dir)
  with m i(3) show ?case by (auto simp: dir)
qed simp

lemma find_dentry_distinct: "find_dentry d xs = Inr pos \<Longrightarrow> distinct (numbers d) \<Longrightarrow> distinct (numbers (dentry_at d pos))"
proof (induction d xs arbitrary: pos rule: find_dentry.induct)
  case (2 dir x xs)
  obtain ty num name ds where dir: "dir = DirEntry ty num name ds" by (cases dir)
  from 2(2) obtain i q where i: "find_pos (\<lambda>d. de_name d = x) ds = Some i" "find_dentry (ds ! i) xs = Inr q" "pos = i # q"
    by (auto simp: dir split: option.splits sum.splits)
  then have "ds ! i \<in> set ds" by (simp add: find_pos_Some)
  then have "distinct (numbers (ds ! i))" using 2(3) by (auto simp: dir distinct_concat_iff)
  with 2(1) [of i q] i show ?case by (simp add: dir)
qed simp

text \<open>Every number of a tree is a file.\<close>

lemma tree_numbers: "tree_ok a d \<Longrightarrow> k \<in> set (numbers d) \<Longrightarrow> files a k \<noteq> None"
  by (induction d) auto

text \<open>A change to files outside a tree does not concern it.\<close>

lemma tree_ok_cong:
  "\<forall>k \<in> set (numbers d). files a' k = files a k \<Longrightarrow> tree_ok a d \<Longrightarrow> tree_ok a' d"
proof (induction d)
  case (DirEntry ty num name ds)
  then show ?case by auto
qed

text \<open>Writing a regular file keeps its entry.\<close>

lemma tree_ok_write:
  "tree_ok a d \<Longrightarrow> files a k = Some f \<Longrightarrow> ftype f = File \<Longrightarrow> tree_ok (set_data k contents a) d"
proof (induction d)
  case (DirEntry ty num name ds)
  then have sub: "\<forall>d \<in> set ds. tree_ok (set_data k contents a) d" by auto
  from DirEntry.prems(1) obtain g where g: "files a num = Some g" "ftype g = ty" "node_name g = name"
    "dir_entries g = Inr (map de_number ds)" by auto
  show ?case
  proof (cases "num = k")
    case True
    with g DirEntry.prems(2,3) sub show ?thesis
      by (auto simp: set_data_def dir_entries_def node_name_def)
  next
    case False
    with g DirEntry.prems(2) sub show ?thesis by (simp add: set_data_def)
  qed
qed

section \<open>Entries of a directory\<close>

lemma split_zero_ne [simp]: "split_zero bs \<noteq> []"
  by (induction bs) (auto split: list.splits)

lemma split_zero_cat: "split_zero (xs @ 0 # ys) = split_zero xs @ split_zero ys"
  by (induction xs) (auto split: list.splits)

lemma decode_append:
  "decode_entries xs = Inr ks \<Longrightarrow> decode_entries ys = Inr js \<Longrightarrow> decode_entries (xs @ ys) = Inr (ks @ js)"
proof (induction xs arbitrary: ks)
  case (Cons x xs)
  then show ?case by (cases "decode_entries xs") (auto split: if_splits)
qed simp

lemma dir_entries_append:
  assumes "dir_entries d = Inr ks" and "ftype d = Dir" and "k < U64_RANGE"
  shows "dir_entries (d\<lparr>fdata := dir_append (fdata d) (number_bytes k)\<rparr>) = Inr (ks @ [k])"
proof -
  from inode_number_total [OF assms(3)] obtain b where b: "inode_number_binary k = Inr b" "length b = 10" "0 \<notin> set b"
    "inode_number_from b = k" by fastforce
  then have one: "decode_entries (split_zero b) = Inr [k]" "b \<noteq> []" by (auto simp: split_zero_nonzero)
  show ?thesis
  proof (cases "fdata d = []")
    case True
    with assms one b show ?thesis by (simp add: dir_entries_def dir_append_def number_bytes_def)
  next
    case False
    with assms(1,2) have "decode_entries (split_zero (fdata d)) = Inr ks" by (simp add: dir_entries_def)
    from decode_append [OF this one(1)] False assms(2) b show ?thesis
      by (simp add: dir_entries_def dir_append_def number_bytes_def split_zero_cat)
  qed
qed

section \<open>Pushing an entry\<close>

text \<open>The files a creation changes: one new file, one longer directory.\<close>

lemma add_file_files:
  assumes "files a p = Some d" and "files a k = None"
  shows "files (add_file k p name a) j =
    (if j = k then Some (new_file File name)
     else if j = p then Some (d\<lparr>fdata := dir_append (fdata d) (number_bytes k)\<rparr>) else files a j)"
  using assms by (auto simp: add_file_def)

lemma distinct_concat_nth:
  "distinct (concat xss) \<Longrightarrow> i < length xss \<Longrightarrow> j < length xss \<Longrightarrow> i \<noteq> j \<Longrightarrow> set (xss ! i) \<inter> set (xss ! j) = {}"
proof (induction xss arbitrary: i j)
  case (Cons xs xss)
  have "set xs \<inter> set (xss ! k) = {}" if "k < length xss" for k
    using Cons.prems(1) that by (auto dest: nth_mem)
  with Cons show ?case by (cases i; cases j) auto
qed simp

lemma push_at_number [simp]: "de_number (push_at t pos d) = de_number t"
  by (cases "(t, pos, d)" rule: push_at.cases) auto

text \<open>One step down a path.\<close>

lemma find_dentry_Cons:
  assumes "find_dentry (DirEntry ty num nm ds) (x # xs) = Inr pos"
  obtains i q where "i < length ds" and "de_name (ds ! i) = x" and "find_pos (\<lambda>d. de_name d = x) ds = Some i"
    and "find_dentry (ds ! i) xs = Inr q" and "pos = i # q"
  using assms by (auto simp: find_pos_Some split: option.splits sum.splits)

text \<open>A creation leaves the trees alone that do not contain the directory.\<close>

lemma tree_ok_add_file:
  assumes "tree_ok a c" and "p \<notin> set (numbers c)" and "files a p = Some d" and "files a k = None"
  shows "tree_ok (add_file k p name a) c"
proof (rule tree_ok_cong [OF _ assms(1)], rule ballI)
  fix j assume j: "j \<in> set (numbers c)"
  then have "files a j \<noteq> None" "j \<noteq> p" using tree_numbers [OF assms(1)] assms(2) by auto
  then show "files (add_file k p name a) j = files a j"
    using add_file_files [OF assms(3,4), of name j] assms(4) by auto
qed

lemma tree_ok_push:
  assumes "find_dentry t xs = Inr pos" and "tree_ok a t" and "distinct (numbers t)"
    and "p = de_number (dentry_at t pos)" and "de_type (dentry_at t pos) = Dir"
    and "files a p = Some d" and "files a k = None" and "k < U64_RANGE"
  shows "tree_ok (add_file k p name a) (push_at t pos (DirEntry File k (node_name (new_file File name)) []))"
  using assms(1-5)
proof (induction t xs arbitrary: pos rule: find_dentry.induct)
  case (1 dir)
  obtain ty num nm ds where dir: "dir = DirEntry ty num nm ds" by (cases dir)
  from 1 have p: "pos = []" "p = num" "ty = Dir" by (simp_all add: dir)
  from 1(2) p assms(6) have f: "ftype d = Dir" "node_name d = nm" "dir_entries d = Inr (map de_number ds)"
    by (auto simp: dir)
  note fs = add_file_files [OF assms(6,7), of name]
  have kp: "k \<noteq> p" using assms(6,7) by auto
  have "tree_ok (add_file k p name a) c" if "c \<in> set ds" for c
    by (rule tree_ok_add_file [OF _ _ assms(6,7)]) (use 1(2,3) that p in \<open>auto simp: dir\<close>)
  moreover have "dir_entries (new_file File name) = Inr []" by (simp add: dir_entries_def)
  ultimately show ?case
    using f p kp fs dir_entries_append [OF f(3,1) assms(8)] by (auto simp: dir node_name_def)
next
  case (2 dir x xs)
  obtain ty num nm ds where dir: "dir = DirEntry ty num nm ds" by (cases dir)
  from 2(2) obtain i q where i: "i < length ds" "find_pos (\<lambda>d. de_name d = x) ds = Some i"
    "find_dentry (ds ! i) xs = Inr q" "pos = i # q"
    unfolding dir by (rule find_dentry_Cons)
  let ?a = "add_file k p name a" and ?new = "DirEntry File k (node_name (new_file File name)) []"
  have m: "ds ! i \<in> set ds" using i by simp
  have c: "tree_ok a (ds ! i)" "distinct (numbers (ds ! i))"
    using 2(3,4) m by (auto simp: dir distinct_concat_iff)
  have p: "p \<in> set (numbers (ds ! i))"
    using find_dentry_at [OF i(3) c(1)] 2(5) i(4) number_in by (auto simp: dir)
  then have num: "num \<noteq> p" using 2(4) m by (auto simp: dir)
  have other: "tree_ok ?a (ds ! j)" if "j < length ds" "j \<noteq> i" for j
  proof (rule tree_ok_add_file [OF _ _ assms(6,7)])
    show "tree_ok a (ds ! j)" using 2(3) that by (simp add: dir)
    show "p \<notin> set (numbers (ds ! j))"
      using distinct_concat_nth [of "map numbers ds" i j] 2(4) that i p by (auto simp: dir)
  qed
  have "tree_ok ?a (push_at (ds ! i) q ?new)"
    using 2(1) [of i] i c 2(5,6) by (simp add: dir)
  with other i have "\<forall>c \<in> set (ds[i := push_at (ds ! i) q ?new]). tree_ok ?a c"
    by (auto simp: in_set_conv_nth nth_list_update)
  moreover have "map de_number (ds[i := push_at (ds ! i) q ?new]) = map de_number ds"
    using i by (simp add: map_update list_update_same_conv)
  moreover have "files ?a num = files a num"
    using add_file_files [OF assms(6,7), of name num] num 2(3) assms(7) by (auto simp: dir)
  ultimately show ?case using 2(3) i(4) by (simp add: dir)
qed

lemma mset_push:
  "find_dentry t xs = Inr pos \<Longrightarrow>
   mset (numbers (push_at t pos (DirEntry ty' k nm' []))) = add_mset k (mset (numbers t))"
proof (induction t xs arbitrary: pos rule: find_dentry.induct)
  case (1 dir)
  then show ?case by (cases dir) simp
next
  case (2 dir x xs)
  obtain ty num nm ds where dir: "dir = DirEntry ty num nm ds" by (cases dir)
  from 2(2) obtain i q where i: "i < length ds" "find_pos (\<lambda>d. de_name d = x) ds = Some i"
    "find_dentry (ds ! i) xs = Inr q" "pos = i # q"
    unfolding dir by (rule find_dentry_Cons)
  have IH: "mset (numbers (push_at (ds ! i) q (DirEntry ty' k nm' []))) = add_mset k (mset (numbers (ds ! i)))"
    using 2(1) i by (simp add: dir)
  have "ds = take i ds @ ds ! i # drop (Suc i) ds" using i(1) by (rule id_take_nth_drop)
  then have "mset (concat (map numbers ds)) =
      mset (concat (map numbers (take i ds))) + mset (numbers (ds ! i)) + mset (concat (map numbers (drop (Suc i) ds)))"
    by (metis (no_types) add.assoc concat.simps(2) concat_append list.simps(9) map_append mset_append)
  moreover have "ds[i := c] = take i ds @ c # drop (Suc i) ds" for c using i(1) by (rule upd_conv_take_nth_drop)
  ultimately show ?case using i(4) IH by (simp add: dir)
qed

lemma distinct_push:
  assumes "find_dentry t xs = Inr pos" and "distinct (numbers t)" and "k \<notin> set (numbers t)"
  shows "distinct (numbers (push_at t pos (DirEntry ty' k nm' [])))"
proof -
  have "mset (numbers (push_at t pos (DirEntry ty' k nm' []))) = mset (k # numbers t)"
    using mset_push [OF assms(1)] by simp
  then show ?thesis using assms(2,3) by (metis distinct.simps(2) mset_eq_imp_distinct_iff)
qed

text \<open>The new entry is found under its name, unless an older entry has the same name.\<close>

lemma push_at_name [simp]: "de_name (push_at t pos d) = de_name t"
  by (cases "(t, pos, d)" rule: push_at.cases) auto

lemma find_pos_names: "map p xs = map p' ys \<Longrightarrow> find_pos p xs = find_pos p' ys"
  by (induction xs arbitrary: ys) auto

lemma find_pos_snoc: "p y \<Longrightarrow> find_pos p (xs @ [y]) = (case find_pos p xs of None \<Rightarrow> Some (length xs) | Some i \<Rightarrow> Some i)"
  by (induction xs) (simp_all split: option.splits)

lemma find_find_pos: "find p xs = map_option ((!) xs) (find_pos p xs)"
  by (induction xs) (simp_all add: option.map_comp comp_def)

lemma find_pos_length: "find_pos p xs = Some i \<Longrightarrow> i < length xs"
  by (simp add: find_pos_Some)

text \<open>Looking up the name of a new entry finds it, or the first entry that already had the name.\<close>

lemma find_pushed:
  "find_dentry t xs = Inr pos \<Longrightarrow> \<exists>pos'. find_dentry (push_at t pos d) (xs @ [de_name d]) = Inr pos' \<and>
   dentry_at (push_at t pos d) pos' = (case find (\<lambda>c. de_name c = de_name d) (subdirs (dentry_at t pos)) of None \<Rightarrow> d | Some c \<Rightarrow> c)"
proof (induction t xs arbitrary: pos rule: find_dentry.induct)
  case (1 dir)
  then show ?case
    by (cases dir) (auto simp: find_pos_snoc find_find_pos nth_append find_pos_length split: option.splits)
next
  case (2 dir x xs)
  obtain ty num nm ds where dir: "dir = DirEntry ty num nm ds" by (cases dir)
  from 2(2) obtain i q where i: "i < length ds" "find_pos (\<lambda>d. de_name d = x) ds = Some i"
    "find_dentry (ds ! i) xs = Inr q" "pos = i # q"
    unfolding dir by (rule find_dentry_Cons)
  have "map (\<lambda>d. de_name d = x) (ds[i := push_at (ds ! i) q d]) = map (\<lambda>d. de_name d = x) ds"
    using i(1) by (simp add: map_update list_update_same_conv)
  then have "find_pos (\<lambda>d. de_name d = x) (ds[i := push_at (ds ! i) q d]) = Some i"
    using i(2) find_pos_names by metis
  moreover obtain q' where "find_dentry (push_at (ds ! i) q d) (xs @ [de_name d]) = Inr q'"
    "dentry_at (push_at (ds ! i) q d) q' =
      (case find (\<lambda>c. de_name c = de_name d) (subdirs (dentry_at (ds ! i) q)) of None \<Rightarrow> d | Some c \<Rightarrow> c)"
    using 2(1) i by (auto simp: dir)
  ultimately show ?case using i by (intro exI [of _ "i # q'"]) (simp add: dir)
qed

text \<open>A push keeps the place where it happens, and a component that is missing is the error.\<close>

lemma find_push:
  "find_dentry t xs = Inr pos \<Longrightarrow>
   find_dentry (push_at t pos d) xs = Inr pos \<and> de_number (dentry_at (push_at t pos d) pos) = de_number (dentry_at t pos)"
proof (induction t xs arbitrary: pos rule: find_dentry.induct)
  case (1 dir)
  then show ?case by (cases dir) simp
next
  case (2 dir x xs)
  obtain ty num nm ds where dir: "dir = DirEntry ty num nm ds" by (cases dir)
  from 2(2) obtain i q where i: "i < length ds" "find_pos (\<lambda>d. de_name d = x) ds = Some i"
    "find_dentry (ds ! i) xs = Inr q" "pos = i # q"
    unfolding dir by (rule find_dentry_Cons)
  have "map (\<lambda>d. de_name d = x) (ds[i := push_at (ds ! i) q d]) = map (\<lambda>d. de_name d = x) ds"
    using i(1) by (simp add: map_update list_update_same_conv)
  then have "find_pos (\<lambda>d. de_name d = x) (ds[i := push_at (ds ! i) q d]) = Some i"
    using i(2) find_pos_names by metis
  with 2(1) i show ?case by (simp add: dir)
qed

lemma find_missing:
  "find_dentry t ps = Inr pos \<Longrightarrow> \<forall>c \<in> set (subdirs (dentry_at t pos)). de_name c \<noteq> x \<Longrightarrow>
   find_dentry t (ps @ x # qs) = Inl (NotExist x)"
proof (induction t ps arbitrary: pos rule: find_dentry.induct)
  case (1 dir)
  then have "find_pos (\<lambda>d. de_name d = x) (subdirs dir) = None" by (simp add: find_pos_None)
  then show ?case by simp
next
  case (2 dir y ps)
  then show ?case by (auto split: option.splits sum.splits)
qed

section \<open>Clients of a file system\<close>

context file_system
begin

definition vfs_ok :: "fs_abs \<Rightarrow> 's vfs \<Rightarrow> bool" where
  "vfs_ok a v \<longleftrightarrow> R a [] (primary_partition v) \<and> tree_ok a (dentry_cache v) \<and> distinct (numbers (dentry_cache v))"

lemma runs_on_fs:
  "runs (on_fs m) v Q \<longleftrightarrow> runs m (primary_partition v) (\<lambda>x s. Q x (v\<lparr>primary_partition := s\<rparr>))"
  by (simp add: on_fs_def runs_zoom)

lemma DirEntry_new_ok:
  assumes R: "R a hs st" and f: "files a k = Some f" and room: "length hs < slots a"
  shows "runs (DirEntry_new vt k) st (\<lambda>d st'. d = DirEntry (ftype f) k (node_name f) [] \<and> R a hs st')"
  unfolding DirEntry_new_def runs_bnd
proof (rule runs_mono [OF inode_law [OF R _ room]])
  fix h st'
  assume R': "R a ((h, k) # hs) st'"
  show "runs (vt_name vt h) st' (\<lambda>nm s. runs (vt_inode_type vt h) s (\<lambda>ty s. runs (vt_release vt h) s
      (\<lambda>_ s. runs (ret (DirEntry ty k nm [])) s (\<lambda>d st'. d = DirEntry (ftype f) k (node_name f) [] \<and> R a hs st'))))"
    by (rule runs_mono [OF name_law [OF R' _ f]], simp, elim conjE, rule runs_mono [OF type_law [OF _ _ f]],
        assumption, simp, elim conjE, rule runs_mono [OF release_law], assumption)
      (simp add: runs_ret)
qed (use f in simp)

text \<open>Walking the directories rebuilds the tree that matches them.\<close>

lemma read_sub_dentry_ok:
  assumes "R a [] st" and "0 < slots a" and "tree_ok a (DirEntry ty num nm ds)" and "height (DirEntry ty num nm ds) \<le> stack"
  shows "runs (read_sub_dentry stack vt (DirEntry ty num nm [])) st (\<lambda>t st'. t = DirEntry ty num nm ds \<and> R a [] st')"
  using assms
proof (induction stack arbitrary: ty num nm ds st)
  case (Suc stack)
  from Suc.prems(3) obtain f where f: "files a num = Some f" "dir_entries f = Inr (map de_number ds)" by auto
  have "runs (map_each (map de_number cs) (\<lambda>num. bnd (DirEntry_new vt num) (read_sub_dentry stack vt))) st'
      (\<lambda>r st'. r = cs \<and> R a [] st')" if "set cs \<subseteq> set ds" "R a [] st'" for cs st'
    using that
  proof (induction cs arbitrary: st')
    case (Cons c cs)
    obtain ty' num' nm' ds' where c: "c = DirEntry ty' num' nm' ds'" by (cases c)
    have ok: "tree_ok a c" "height c \<le> stack"
      using Cons.prems(1) Suc.prems(3,4) height_child [of c ds ty num nm] by auto
    from ok(1) obtain g where g: "files a num' = Some g" "ftype g = ty'" "node_name g = nm'" by (auto simp: c)
    have step: "runs (read_sub_dentry stack vt (DirEntry ty' num' nm' [])) s (\<lambda>t s'. t = c \<and> R a [] s')" if "R a [] s" for s
      using Suc.IH [OF that Suc.prems(2)] ok by (simp add: c)
    show ?case
      unfolding list.simps map_each.simps runs_bnd
      by (rule runs_mono [OF DirEntry_new_ok [OF Cons.prems(2)]], simp add: c g(1), use Suc.prems(2) in simp,
          elim conjE, simp add: c g, rule runs_mono [OF step], assumption, elim conjE,
          rule runs_mono [OF Cons.IH], use Cons.prems(1) in simp, assumption)
        (simp add: runs_ret c)
  qed (simp add: runs_ret)
  note sub = this [OF subset_refl]
  show ?case
    unfolding read_sub_dentry.simps runs_bnd dentry.sel
    by (rule runs_mono [OF sub_inodes_law [OF Suc.prems(1) f]], use Suc.prems(2) in simp, elim conjE, simp,
        rule runs_mono [OF sub], assumption) (simp add: runs_ret)
qed simp

lemma vfs_ok_fs: "vfs_ok a v \<Longrightarrow> R a [] (primary_partition v)"
  by (simp add: vfs_ok_def)

text \<open>A place of the tree is a file of the type it shows.\<close>

lemma vfs_ok_at:
  assumes "vfs_ok a v" and "find_dentry (dentry_cache v) xs = Inr pos"
  obtains f where "files a (de_number (dentry_at (dentry_cache v) pos)) = Some f"
    and "ftype f = de_type (dentry_at (dentry_cache v) pos)"
    and "dir_entries f = Inr (map de_number (subdirs (dentry_at (dentry_cache v) pos)))"
proof -
  have "tree_ok a (dentry_at (dentry_cache v) pos)"
    using find_dentry_at assms by (auto simp: vfs_ok_def)
  then show thesis by (cases "dentry_at (dentry_cache v) pos") (auto intro: that)
qed

lemma VFS_read_ok:
  assumes R: "R a [] (primary_partition v)" and p: "parse_path p = Inr pt"
    and at: "find_dentry (dentry_cache v) (parents pt @ [path_name pt]) = Inr pos"
    and f: "files a (de_number (dentry_at (dentry_cache v) pos)) = Some f" and room: "0 < slots a"
  shows "runs (VFS_read_unstable vt p) v (\<lambda>r v'. r = Inr (fdata f) \<and> R a [] (primary_partition v') \<and>
    dentry_cache v' = dentry_cache v)"
  unfolding VFS_read_unstable_def p pure_Inr bnd_ret
proof (simp add: runs_bnd runs_gets at runs_on_fs runs_ret, rule runs_mono [OF inode_law [OF R]])
  fix h st'
  assume R: "R a [(h, de_number (dentry_at (dentry_cache v) pos))] st'"
  show "runs (vt_data vt h) st' (\<lambda>x s. runs (vt_release vt h) s (\<lambda>_ s. x = fdata f \<and> R a [] s))"
    by (rule runs_mono [OF data_law [OF R _ f]], simp, elim conjE, rule runs_mono [OF release_law], assumption) simp
qed (use f room in simp_all)

lemma VFS_write_ok:
  assumes v: "vfs_ok a v" and p: "parse_path p = Inr pt"
    and at: "find_dentry (dentry_cache v) (parents pt @ [path_name pt]) = Inr pos"
    and k: "k = de_number (dentry_at (dentry_cache v) pos)" and ty: "de_type (dentry_at (dentry_cache v) pos) = File"
    and w: "can_write a k contents" and room: "0 < slots a"
  shows "runs (VFS_write vt p contents) v (\<lambda>r v'. r = Inr () \<and> vfs_ok (set_data k contents a) v' \<and>
    dentry_cache v' = dentry_cache v)"
proof -
  from vfs_ok_at [OF v at] obtain f where f: "files a k = Some f" "ftype f = File" using k ty by metis
  have tree: "tree_ok (set_data k contents a) (dentry_cache v)"
    using v f by (intro tree_ok_write) (auto simp: vfs_ok_def)
  have room': "length ([] :: (nat \<times> nat) list) < slots a" using room by simp
  have "runs (vt_write vt k contents) (primary_partition v) (\<lambda>_ s. vfs_ok (set_data k contents a) (v\<lparr>primary_partition := s\<rparr>))"
    by (rule runs_mono [OF write_law [OF vfs_ok_fs [OF v] w room']]) (use tree v in \<open>simp add: vfs_ok_def\<close>)
  then show ?thesis
    unfolding VFS_write_def p pure_Inr bnd_ret
    by (simp add: runs_bnd runs_gets at runs_on_fs runs_ret k [symmetric])
qed

text \<open>
  What \<open>create\<close> does whatever the parent is; \<open>VFS_create_ok\<close> adds that the tree stays right when
  the parent is a directory.
\<close>

lemma VFS_create_any:
  assumes R: "R a [] (primary_partition v)" and p: "parse_path p = Inr pt"
    and at: "find_dentry (dentry_cache v) (parents pt) = Inr pos"
    and d: "d = de_number (dentry_at (dentry_cache v) pos)"
    and c: "can_create a d (path_name pt)" and k: "first_free (files a) 0 (inode_limit a) = Some k"
    and room: "4 \<le> slots a"
  shows "runs (VFS_create vt p) v (\<lambda>r v'. r = Inr () \<and> R (add_file k d (path_name pt) a) [] (primary_partition v') \<and>
    dentry_cache v' = push_at (dentry_cache v) pos (DirEntry File k (node_name (new_file File (path_name pt))) []))"
proof -
  let ?a = "add_file k d (path_name pt) a"
  let ?new = "DirEntry File k (node_name (new_file File (path_name pt))) []"
  from c obtain f where f: "files a d = Some f" by (auto simp: can_create_def split: option.splits)
  have "files a k = None" using k by (auto simp: first_free_Some)
  from add_file_files [OF f this] have fk: "files ?a k = Some (new_file File (path_name pt))" by simp
  have slots: "slots ?a = slots a - 2" using f by (simp add: add_file_def)
  have room': "length ([] :: (nat \<times> nat) list) + 3 \<le> slots a" using room by simp
  show ?thesis
    unfolding VFS_create_def p pure_Inr bnd_ret
  proof (simp add: runs_bnd runs_gets at runs_on_fs runs_ret runs_upd d [symmetric],
      rule runs_mono [OF create_law [OF R c room' k]])
    fix h st'
    assume R: "R ?a [(h, k)] st'"
    show "runs (vt_inode_number vt h) st' (\<lambda>num s. runs (DirEntry_new vt num) s (\<lambda>e s.
        runs (vt_release vt h) s (\<lambda>_ s. R ?a [] s \<and>
        push_at (dentry_cache v) pos e = push_at (dentry_cache v) pos ?new)))"
      by (rule runs_mono [OF number_law [OF R]], simp, elim conjE, simp,
          rule runs_mono [OF DirEntry_new_ok [OF _ fk]], assumption, use room slots in simp, elim conjE,
          rule runs_mono [OF release_law], assumption) simp
  qed
qed

lemma VFS_create_ok:
  assumes v: "vfs_ok a v" and p: "parse_path p = Inr pt"
    and at: "find_dentry (dentry_cache v) (parents pt) = Inr pos"
    and d: "d = de_number (dentry_at (dentry_cache v) pos)" and ty: "de_type (dentry_at (dentry_cache v) pos) = Dir"
    and c: "can_create a d (path_name pt)" and k: "first_free (files a) 0 (inode_limit a) = Some k"
    and room: "4 \<le> slots a"
  shows "runs (VFS_create vt p) v (\<lambda>r v'. r = Inr () \<and> vfs_ok (add_file k d (path_name pt) a) v' \<and>
    dentry_cache v' = push_at (dentry_cache v) pos (DirEntry File k (node_name (new_file File (path_name pt))) []))"
proof -
  from vfs_ok_at [OF v at] d obtain f where f: "files a d = Some f" by blast
  have kf: "files a k = None" "k < inode_limit a" using k by (auto simp: first_free_Some)
  then have ku: "k < U64_RANGE" using limit_law [OF vfs_ok_fs [OF v]] by simp
  have "k \<notin> set (numbers (dentry_cache v))"
    using tree_numbers [of a "dentry_cache v" k] v kf(1) by (auto simp: vfs_ok_def)
  with tree_ok_push [OF at _ _ d ty f kf(1) ku] distinct_push [OF at] v VFS_create_any [OF vfs_ok_fs [OF v] p at d c k room]
  show ?thesis by (auto simp: vfs_ok_def elim!: runs_mono)
qed

end

text \<open>Mounting, on any block device.\<close>

context block_device
begin

lemma VFS_new_ok:
  assumes op: "CAFS_open d = Inr (fs, st)" and rel: "cafs_rel fs n a [] st"
    and t: "tree_ok a t" "de_number t = 0" "distinct (numbers t)" "height t \<le> stack" and room: "0 < slots a"
  obtains v where "VFS_new stack d = Inr (fs, v)" and "file_system.vfs_ok (cafs_rel fs n) a v" and "dentry_cache v = t"
proof -
  obtain ty nm ds where tt: "t = DirEntry ty 0 nm ds" using t(2) by (cases t) simp
  with t(1) obtain f where f: "files a 0 = Some f" "ftype f = ty" "node_name f = nm" by auto
  have room': "length ([] :: (nat \<times> nat) list) < slots a" using room by simp
  have "runs (read_sub_dentry stack (cafs_vtable fs) (DirEntry ty 0 nm [])) s (\<lambda>x s'. x = t \<and> cafs_rel fs n a [] s')"
    if "cafs_rel fs n a [] s" for s
    using cafs.read_sub_dentry_ok [OF that room] t(1,4) tt by simp
  then have "runs (bnd (DirEntry_new (cafs_vtable fs) 0) (read_sub_dentry stack (cafs_vtable fs))) st
      (\<lambda>x s'. x = t \<and> cafs_rel fs n a [] s')"
    unfolding runs_bnd
    by (intro runs_mono [OF cafs.DirEntry_new_ok [OF rel f(1) room']]) (auto simp: f)
  then obtain st' where "bnd (DirEntry_new (cafs_vtable fs) 0) (read_sub_dentry stack (cafs_vtable fs)) st = Inr (t, st')"
    "cafs_rel fs n a [] st'" by (auto simp: runs_iff_result)
  with op t that [of "\<lparr>primary_partition = st', dentry_cache = t\<rparr>"] show thesis
    by (simp add: VFS_new_def cafs.vfs_ok_def)
qed

end

end
