(* ===== verification/Vfs_Properties.thy ===== *)
theory Vfs_Properties
  imports Vfs_Tree Cafs_Properties
begin

text \<open>
  What the virtual file system promises on top of CAFS on the in-memory device: paths parse
  and print, what is written under a path is read there and nowhere else, created files
  appear, and mounting again finds the same tree.
\<close>

section \<open>Mounting\<close>

abbreviation disk_vfs :: "cafs \<Rightarrow> nat \<Rightarrow> fs_abs \<Rightarrow> disk cafs_state vfs \<Rightarrow> bool" where
  "disk_vfs fs n \<equiv> file_system.vfs_ok (disk_dev.cafs_rel fs n)"

lemmas disk_vfs_def = file_system.vfs_ok_def [OF disk_dev.cafs_file_system]

lemma tree_ok_slots: "tree_ok (a\<lparr>slots := x\<rparr>) t = tree_ok a t"
  using tree_ok_cong [of t a "a\<lparr>slots := x\<rparr>"] tree_ok_cong [of t "a\<lparr>slots := x\<rparr>" a] by auto

text \<open>
  C8: mounting a flushed file system again finds exactly the tree of entries it had, as long as the
  stack is as deep as the tree.
\<close>

theorem vfs_remount:
  assumes "disk_vfs fs n a v" and "de_number (dentry_cache v) = 0" and "height (dentry_cache v) \<le> stack"
  shows "runs (on_fs CAFS_flush) v (\<lambda>_ v'. \<exists>v''. VFS_new stack (device (blk_cache (primary_partition v'))) = Inr (fs, v'') \<and>
    disk_vfs fs n (a\<lparr>slots := INODE_CACHE_SIZE\<rparr>) v'' \<and> dentry_cache v'' = dentry_cache v)"
proof -
  from assms(1) have rel: "disk_dev.cafs_rel fs n a [] (primary_partition v)" and t: "tree_ok a (dentry_cache v)"
    "distinct (numbers (dentry_cache v))" by (simp_all add: disk_vfs_def)
  show ?thesis
    unfolding on_fs_def runs_zoom
  proof (rule runs_mono [OF disk_dev.flush_open_rel [OF rel]], elim conjE exE)
    fix u and s' st'' :: "disk cafs_state"
    assume op: "CAFS_open (device (blk_cache s')) = Inr (fs, st'')"
      and rel': "disk_dev.cafs_rel fs n (a\<lparr>slots := INODE_CACHE_SIZE\<rparr>) [] st''"
    have t': "tree_ok (a\<lparr>slots := INODE_CACHE_SIZE\<rparr>) (dentry_cache v)" using t(1) by (simp add: tree_ok_slots)
    from disk_dev.VFS_new_ok [OF op rel' t' assms(2) t(2) assms(3)]
    show "\<exists>v''. VFS_new stack (device (blk_cache (primary_partition (v\<lparr>primary_partition := s'\<rparr>)))) = Inr (fs, v'') \<and>
        disk_vfs fs n (a\<lparr>slots := INODE_CACHE_SIZE\<rparr>) v'' \<and> dentry_cache v'' = dentry_cache v"
      by (auto simp: INODE_CACHE_SIZE_def)
  qed
qed

section \<open>A mounted device\<close>

text \<open>The tests' device, made, flushed and mounted.\<close>

definition root_only :: dentry where
  "root_only = DirEntry Dir 0 [47] []"

definition mounted_abs :: fs_abs where
  "mounted_abs = (fresh_abs 20480 2)\<lparr>slots := INODE_CACHE_SIZE\<rparr>"

lemma mounted_fields [simp]:
  "files mounted_abs = [0 \<mapsto> new_file Dir [47]]" "slots mounted_abs = 32" "spare mounted_abs = 8192"
  "capacity mounted_abs = 8192" "inode_limit mounted_abs = 8192"
  by (simp_all add: mounted_abs_def fresh_abs_def Let_def BLOCK_BITS_def BLOCK_SIZE_def INODE_CACHE_SIZE_def)

lemma root_only_ok: "tree_ok mounted_abs root_only" "distinct (numbers root_only)" "height root_only = 1" "de_number root_only = 0"
  by (simp_all add: root_only_def dir_entries_def)

lemma mounted:
  obtains fs st st' v where "CAFS_init (dyn_disk (Disk_new 20480)) 20480 2 = Inr (fs, st)"
    and "CAFS_flush st = Inr ((), st')" and "VFS_new 8 (device (blk_cache st')) = Inr (fs, v)"
    and "disk_vfs fs 20480 mounted_abs v" and "dentry_cache v = root_only"
proof -
  from disk_init_rel [OF tests_sizes(2,1)] obtain fs st where
    1: "CAFS_init (dyn_disk (Disk_new 20480)) 20480 2 = Inr (fs, st)" "disk_dev.cafs_rel fs 20480 (fresh_abs 20480 2) [] st" .
  from disk_dev.flush_open_rel [OF 1(2)] obtain st' st'' where 2: "CAFS_flush st = Inr ((), st')"
    "CAFS_open (device (blk_cache st')) = Inr (fs, st'')" "disk_dev.cafs_rel fs 20480 mounted_abs [] st''"
    by (auto simp: runs_iff_result mounted_abs_def)
  from disk_dev.VFS_new_ok [OF 2(2,3) root_only_ok(1,4,2), of 8] root_only_ok(3) obtain v where
    "VFS_new 8 (device (blk_cache st')) = Inr (fs, v)" "disk_vfs fs 20480 mounted_abs v" "dentry_cache v = root_only"
    by auto
  with 1(1) 2(1) show thesis by (rule that)
qed

theorem vfs_remount_witness:
  "\<exists>fs v. disk_vfs fs 20480 mounted_abs v \<and> dentry_cache v = root_only \<and>
     runs (on_fs CAFS_flush) v (\<lambda>_ v'. \<exists>v''. VFS_new 1 (device (blk_cache (primary_partition v'))) = Inr (fs, v'') \<and>
       VFS_ls_root v'' = [[47]])"
proof -
  from mounted obtain fs v where v: "disk_vfs fs 20480 mounted_abs v" "dentry_cache v = root_only" by metis
  from vfs_remount [OF v(1), of 1] v root_only_ok show ?thesis
    by (intro exI [of _ fs], intro exI [of _ v]) (auto simp: VFS_ls_root_def root_only_def elim!: runs_mono)
qed

section \<open>Paths\<close>

text \<open>
  A printed path parses to its components.
\<close>

theorem path_round_trip:
  assumes "\<forall>x \<in> set (ps @ [x]). 47 \<notin> set x"
  shows "parse_path (show_path (ps @ [x])) = Inr \<lparr>parents = ps, path_name = x\<rparr>"
  by (rule parse_show_path [OF assms])

theorem path_round_trip_witness:
  "parse_path [47, 97, 47, 98, 99] = Inr \<lparr>parents = [[97]], path_name = [98, 99]\<rparr>"
  using path_round_trip [of "[[97]]" "[98, 99]"] by (simp add: show_path_def)

text \<open>
  A path without a slash panics in \<open>parse_path\<close> (\<open>pop().unwrap()\<close> of an empty vector), so
  every operation of the virtual file system does.
\<close>

theorem path_without_slash_panics:
  assumes "47 \<notin> set p"
  shows "VFS_create vt p v = Inl UnwrapNone \<and> VFS_write vt p contents v = Inl UnwrapNone \<and>
    VFS_read_unstable vt p v = Inl UnwrapNone"
  using assms by (simp_all add: VFS_create_def VFS_write_def VFS_read_unstable_def parse_path_def split_on_no
      bnd_def pure_def)

theorem path_without_slash_panics_witness:
  "\<exists>fs v. disk_vfs fs 20480 mounted_abs v \<and> VFS_create (cafs_vtable fs) [97, 98] v = Inl UnwrapNone"
proof -
  from mounted obtain fs v where "disk_vfs fs 20480 mounted_abs v" by metis
  with path_without_slash_panics [of "[97, 98]" "cafs_vtable fs" v] show ?thesis by auto
qed

section \<open>Reading, writing and creating by path\<close>

text \<open>Two files created in the root of the mounted device.\<close>

definition abs_a :: fs_abs where
  "abs_a = add_file 1 0 [97] mounted_abs"

definition abs_ab :: fs_abs where
  "abs_ab = add_file 2 0 [98] abs_a"

definition tree_ab :: dentry where
  "tree_ab = DirEntry Dir 0 [47] [DirEntry File 1 [97] [], DirEntry File 2 [98] []]"

lemma abs_a_fields:
  "files abs_a = [0 \<mapsto> (new_file Dir [47])\<lparr>fdata := number_bytes 1\<rparr>, 1 \<mapsto> new_file File [97]]"
  "spare abs_a = 8191" "slots abs_a = 30" "inode_limit abs_a = 8192"
  by (simp_all add: abs_a_def add_file_def dir_append_def number_bytes_1 small_growth BLOCK_SIZE_def fun_upd_twist
      del: One_nat_def)

lemma abs_ab_fields:
  "files abs_ab 1 = Some (new_file File [97])" "files abs_ab 2 = Some (new_file File [98])" "slots abs_ab = 28" "0 < spare abs_ab"
  by (simp_all add: abs_ab_def add_file_def abs_a_fields dir_append_def length_number_bytes U64_RANGE_def small_growth
      BLOCK_SIZE_def)

lemma can_create_a:
  "can_create mounted_abs 0 [97]" "first_free (files mounted_abs) 0 (inode_limit mounted_abs) = Some 1"
  by (rule small_create [where d = "new_file Dir [47]"]) (simp_all add: BLOCK_SIZE_def NAME_LENGTH_LIMIT_def first_free_Some)

lemma can_create_b:
  "can_create abs_a 0 [98]" "first_free (files abs_a) 0 (inode_limit abs_a) = Some 2"
  by (rule small_create [where d = "(new_file Dir [47])\<lparr>fdata := number_bytes 1\<rparr>"])
    (auto simp: abs_a_fields BLOCK_SIZE_def NAME_LENGTH_LIMIT_def length_number_bytes U64_RANGE_def first_free_Some)

lemma mounted_two:
  obtains fs v where "disk_vfs fs 20480 abs_ab v" and "dentry_cache v = tree_ab"
proof -
  from mounted obtain fs v where v: "disk_vfs fs 20480 mounted_abs v" "dentry_cache v = root_only" by metis
  have p: "parse_path [47, 97] = Inr \<lparr>parents = [], path_name = [97]\<rparr>"
    "parse_path [47, 98] = Inr \<lparr>parents = [], path_name = [98]\<rparr>"
    by (simp_all add: parse_path_def)
  from disk_dev.cafs.VFS_create_ok [OF v(1) p(1), of "[]"] can_create_a v(2) obtain v1 where
    v1: "disk_vfs fs 20480 abs_a v1" "dentry_cache v1 = DirEntry Dir 0 [47] [DirEntry File 1 [97] []]"
    by (auto simp: runs_iff_result root_only_def abs_a_def)
  from disk_dev.cafs.VFS_create_ok [OF v1(1) p(2), of "[]"] can_create_b v1(2) obtain v2 where
    "disk_vfs fs 20480 abs_ab v2" "dentry_cache v2 = tree_ab"
    by (auto simp: runs_iff_result tree_ab_def abs_ab_def abs_a_fields)
  then show thesis by (rule that)
qed

text \<open>
  C7: what is written under the path of a regular file is read back there, a file with another
  number under another path reads as before, and the tree does not change.
\<close>

theorem vfs_write_read:
  assumes "disk_vfs fs n a v" and "0 < slots a"
    and "parse_path p = Inr pt" and "find_dentry (dentry_cache v) (parents pt @ [path_name pt]) = Inr pos"
    and "de_type (dentry_at (dentry_cache v) pos) = File"
    and "can_write a (de_number (dentry_at (dentry_cache v) pos)) contents"
    and "parse_path q = Inr qt" and "find_dentry (dentry_cache v) (parents qt @ [path_name qt]) = Inr pos'"
    and "de_number (dentry_at (dentry_cache v) pos') \<noteq> de_number (dentry_at (dentry_cache v) pos)"
    and "files a (de_number (dentry_at (dentry_cache v) pos')) = Some g"
  shows "runs (bnd (VFS_write (cafs_vtable fs) p contents) (\<lambda>_. bnd (VFS_read_unstable (cafs_vtable fs) p) (\<lambda>r.
    bnd (VFS_read_unstable (cafs_vtable fs) q) (\<lambda>r'. ret (r, r'))))) v
    (\<lambda>r v'. r = (Inr contents, Inr (fdata g)) \<and> dentry_cache v' = dentry_cache v)"
proof -
  let ?k = "de_number (dentry_at (dentry_cache v) pos)" and ?j = "de_number (dentry_at (dentry_cache v) pos')"
  let ?a = "set_data ?k contents a"
  from assms(6) obtain f where f: "files a ?k = Some f" by (auto simp: can_write_def split: option.splits)
  have a: "files ?a ?k = Some (f\<lparr>fdata := contents\<rparr>)" "files ?a ?j = Some g" "slots ?a = slots a"
    using f assms(9,10) by (simp_all add: set_data_def)
  have rd: "runs (VFS_read_unstable (cafs_vtable fs) q') v' (\<lambda>r v''. r = Inr (fdata h) \<and>
      disk_dev.cafs_rel fs n ?a [] (primary_partition v'') \<and> dentry_cache v'' = dentry_cache v)"
    if "disk_dev.cafs_rel fs n ?a [] (primary_partition v')" "dentry_cache v' = dentry_cache v" "parse_path q' = Inr q't"
      "find_dentry (dentry_cache v) (parents q't @ [path_name q't]) = Inr ps"
      "files ?a (de_number (dentry_at (dentry_cache v) ps)) = Some h" for v' :: "disk cafs_state vfs" and q' q't ps h
    using disk_dev.cafs.VFS_read_ok [OF that(1,3)] that(2,4,5) a(3) assms(2) by simp
  show ?thesis
    unfolding runs_bnd
  proof (rule runs_mono [OF disk_dev.cafs.VFS_write_ok [OF assms(1,3,4) refl assms(5,6,2)]], elim conjE)
    fix r v1
    assume v1: "disk_vfs fs n ?a v1" "dentry_cache v1 = dentry_cache v"
    have rel1: "disk_dev.cafs_rel fs n ?a [] (primary_partition v1)" using v1(1) by (simp add: disk_vfs_def)
    show "runs (VFS_read_unstable (cafs_vtable fs) p) v1 (\<lambda>r s. runs (VFS_read_unstable (cafs_vtable fs) q) s (\<lambda>r' s.
        runs (ret (r, r')) s (\<lambda>r v'. r = (Inr contents, Inr (fdata g)) \<and> dentry_cache v' = dentry_cache v)))"
      by (rule runs_mono [OF rd [OF rel1 v1(2) assms(3,4) a(1)]], elim conjE,
          rule runs_mono [OF rd [OF _ _ assms(7,8) a(2)]], assumption, assumption) (simp add: runs_ret)
  qed
qed

theorem vfs_write_read_witness:
  "\<exists>fs v. disk_vfs fs 20480 abs_ab v \<and> dentry_cache v = tree_ab \<and>
     runs (bnd (VFS_write (cafs_vtable fs) [47, 97] [7]) (\<lambda>_. bnd (VFS_read_unstable (cafs_vtable fs) [47, 97]) (\<lambda>r.
       bnd (VFS_read_unstable (cafs_vtable fs) [47, 98]) (\<lambda>r'. ret (r, r'))))) v
       (\<lambda>r v'. r = (Inr [7], Inr []) \<and> dentry_cache v' = tree_ab)"
proof -
  from mounted_two obtain fs v where v: "disk_vfs fs 20480 abs_ab v" "dentry_cache v = tree_ab" .
  have w: "can_write abs_ab 1 [7]"
    by (rule small_write [OF abs_ab_fields(1)]) (use abs_ab_fields(4) in \<open>simp_all add: BLOCK_SIZE_def\<close>)
  from vfs_write_read [OF v(1), of "[47, 97]" "\<lparr>parents = [], path_name = [97]\<rparr>" "[0]" "[7]" "[47, 98]"
      "\<lparr>parents = [], path_name = [98]\<rparr>" "[1]" "new_file File [98]"] v w abs_ab_fields
  show ?thesis by (intro exI [of _ fs], intro exI [of _ v]) (simp add: parse_path_def tree_ab_def)
qed

text \<open>The file behind a child of a directory is another one than the directory.\<close>

lemma child_file:
  assumes "disk_vfs fs n a v" and "find_dentry (dentry_cache v) xs = Inr pos" and "c \<in> set (subdirs (dentry_at (dentry_cache v) pos))"
  obtains g where "files a (de_number c) = Some g" and "de_number c \<noteq> de_number (dentry_at (dentry_cache v) pos)"
proof -
  have t: "tree_ok a (dentry_at (dentry_cache v) pos)" "distinct (numbers (dentry_at (dentry_cache v) pos))"
    using find_dentry_at [OF assms(2)] find_dentry_distinct [OF assms(2)] assms(1) by (auto simp: disk_vfs_def)
  obtain ty num nm ds where d: "dentry_at (dentry_cache v) pos = DirEntry ty num nm ds" by (cases "dentry_at (dentry_cache v) pos")
  from t(1) assms(3) have "tree_ok a c" by (simp add: d)
  then obtain g where "files a (de_number c) = Some g" by (cases c) auto
  moreover have "de_number c \<in> set (concat (map numbers ds))" using assms(3) by (auto simp: d intro!: bexI [of _ c])
  then have "de_number c \<noteq> num" using t(2) by (auto simp: d)
  ultimately show thesis using that by (simp add: d)
qed

text \<open>
  C9: creating a file under a directory makes it the last entry of the directory. If no entry had the name, the
  path reads as empty then. If one had it, creating succeeds all the same, and the path still reads as
  the old file: the new one cannot be reached.
\<close>

theorem vfs_create_visible:
  assumes "disk_vfs fs n a v" and "4 \<le> slots a" and "parse_path p = Inr pt"
    and "find_dentry (dentry_cache v) (parents pt) = Inr pos" and "de_type (dentry_at (dentry_cache v) pos) = Dir"
    and "can_create a (de_number (dentry_at (dentry_cache v) pos)) (path_name pt)"
    and "first_free (files a) 0 (inode_limit a) = Some k" and "0 \<notin> set (path_name pt)"
  shows "runs (bnd (VFS_create (cafs_vtable fs) p) (\<lambda>r. bnd (VFS_read_unstable (cafs_vtable fs) p) (\<lambda>r'. ret (r, r')))) v (\<lambda>(r, r') v'.
    r = Inr () \<and> dentry_cache v' = push_at (dentry_cache v) pos (DirEntry File k (path_name pt) []) \<and>
    (case find (\<lambda>c. de_name c = path_name pt) (subdirs (dentry_at (dentry_cache v) pos)) of
       None \<Rightarrow> r' = Inr []
     | Some c \<Rightarrow> \<exists>g. files a (de_number c) = Some g \<and> r' = Inr (fdata g)))"
proof -
  let ?d = "de_number (dentry_at (dentry_cache v) pos)" and ?new = "DirEntry File k (path_name pt) []"
  let ?a = "add_file k ?d (path_name pt) a" and ?old = "find (\<lambda>c. de_name c = path_name pt) (subdirs (dentry_at (dentry_cache v) pos))"
  from disk_dev.cafs.vfs_ok_at [OF assms(1,4)] obtain f where f: "files a ?d = Some f" by blast
  have k: "files a k = None" using assms(7) by (simp add: first_free_Some)
  note a = add_file_files [OF f k, of "path_name pt"]
  have sl: "slots ?a = slots a - 2" using f by (simp add: add_file_def)
  have nm: "node_name (new_file File (path_name pt)) = path_name pt" using assms(8) by simp
  from find_pushed [OF assms(4), of ?new] obtain pos' where pos': "find_dentry (push_at (dentry_cache v) pos ?new) (parents pt @ [path_name pt]) = Inr pos'"
    "dentry_at (push_at (dentry_cache v) pos ?new) pos' = (case ?old of None \<Rightarrow> ?new | Some c \<Rightarrow> c)" by auto
  obtain g where g: "files ?a (de_number (case ?old of None \<Rightarrow> ?new | Some c \<Rightarrow> c)) = Some g"
    "case ?old of None \<Rightarrow> fdata g = [] | Some c \<Rightarrow> files a (de_number c) = Some g"
  proof (cases ?old)
    case None
    with that [of "new_file File (path_name pt)"] a show thesis by (simp add: new_file_def)
  next
    case (Some c)
    then have c: "c \<in> set (subdirs (dentry_at (dentry_cache v) pos))" by (auto simp: find_Some_iff)
    obtain h where h: "files a (de_number c) = Some h" "de_number c \<noteq> ?d" by (rule child_file [OF assms(1,4) c])
    moreover have "de_number c \<noteq> k" using h(1) k by auto
    ultimately show thesis using that [of h] a Some by simp
  qed
  show ?thesis
    unfolding runs_bnd
  proof (rule runs_mono [OF disk_dev.cafs.VFS_create_ok [OF assms(1,3,4) refl assms(5-7,2)]], elim conjE)
    fix r v1
    assume v1: "r = Inr ()" "disk_vfs fs n ?a v1" "dentry_cache v1 = push_at (dentry_cache v) pos (DirEntry File k (node_name (new_file File (path_name pt))) [])"
    have rel1: "disk_dev.cafs_rel fs n ?a [] (primary_partition v1)" using v1(2) by (simp add: disk_vfs_def)
    show "runs (VFS_read_unstable (cafs_vtable fs) p) v1 (\<lambda>r' s. runs (ret (r, r')) s (\<lambda>(r, r') v'.
        r = Inr () \<and> dentry_cache v' = push_at (dentry_cache v) pos ?new \<and>
        (case ?old of None \<Rightarrow> r' = Inr [] | Some c \<Rightarrow> \<exists>g. files a (de_number c) = Some g \<and> r' = Inr (fdata g))))"
      by (rule runs_mono [OF disk_dev.cafs.VFS_read_ok [OF rel1 assms(3), of pos' g]])
        (use v1 pos' g sl assms(2) nm in \<open>auto simp: runs_ret split: option.splits\<close>)
  qed
qed

theorem vfs_create_visible_witness:
  "\<exists>fs v. disk_vfs fs 20480 mounted_abs v \<and>
     runs (bnd (VFS_create (cafs_vtable fs) [47, 97]) (\<lambda>r. bnd (VFS_read_unstable (cafs_vtable fs) [47, 97]) (\<lambda>r'. ret (r, r')))) v
       (\<lambda>(r, r') v'. r' = Inr [] \<and> VFS_ls_root v' = [[47], [97]])"
proof -
  from mounted obtain fs v where v: "disk_vfs fs 20480 mounted_abs v" "dentry_cache v = root_only" by metis
  have "runs (bnd (VFS_create (cafs_vtable fs) [47, 97]) (\<lambda>r. bnd (VFS_read_unstable (cafs_vtable fs) [47, 97]) (\<lambda>r'. ret (r, r')))) v
      (\<lambda>(r, r') v'. r = Inr () \<and> dentry_cache v' = push_at root_only [] (DirEntry File 1 [97] []) \<and> r' = Inr [])"
    using vfs_create_visible [OF v(1), of "[47, 97]" "\<lparr>parents = [], path_name = [97]\<rparr>" "[]" 1] v(2) can_create_a
    by (simp add: parse_path_def root_only_def)
  with v(1) show ?thesis
    by (intro exI [of _ fs], intro exI [of _ v]) (auto simp: VFS_ls_root_def root_only_def elim!: runs_mono)
qed

text \<open>
  The parent of a new file is not checked to be a directory: creating a file under a regular
  file succeeds and appends a directory entry to what the regular file contains.
\<close>

theorem vfs_create_under_file:
  assumes "disk_vfs fs n a v" and "4 \<le> slots a" and "parse_path p = Inr pt" and "parse_path q = Inr qt"
    and "parents pt = parents qt @ [path_name qt]"
    and "find_dentry (dentry_cache v) (parents pt) = Inr pos" and "de_type (dentry_at (dentry_cache v) pos) = File"
    and "can_create a (de_number (dentry_at (dentry_cache v) pos)) (path_name pt)"
    and "first_free (files a) 0 (inode_limit a) = Some k"
    and "files a (de_number (dentry_at (dentry_cache v) pos)) = Some f"
  shows "runs (bnd (VFS_create (cafs_vtable fs) p) (\<lambda>r. bnd (VFS_read_unstable (cafs_vtable fs) q) (\<lambda>r'. ret (r, r')))) v
    (\<lambda>r v'. r = (Inr (), Inr (dir_append (fdata f) (number_bytes k))))"
proof -
  let ?d = "de_number (dentry_at (dentry_cache v) pos)" and ?new = "DirEntry File k (node_name (new_file File (path_name pt))) []"
  let ?a = "add_file k ?d (path_name pt) a" and ?g = "f\<lparr>fdata := dir_append (fdata f) (number_bytes k)\<rparr>"
  have k: "files a k = None" using assms(9) by (simp add: first_free_Some)
  with assms(10) have "k \<noteq> ?d" by auto
  with add_file_files [OF assms(10) k] have a: "files ?a ?d = Some ?g" "slots ?a = slots a - 2"
    using assms(10) by (simp_all add: add_file_def)
  have at: "find_dentry (push_at (dentry_cache v) pos ?new) (parents pt) = Inr pos"
    "de_number (dentry_at (push_at (dentry_cache v) pos ?new) pos) = ?d"
    using find_push [OF assms(6)] by simp_all
  show ?thesis
    unfolding runs_bnd
  proof (rule runs_mono [OF disk_dev.cafs.VFS_create_any [OF disk_dev.cafs.vfs_ok_fs [OF assms(1)] assms(3,6) refl assms(8,9,2)]],
      elim conjE)
    fix r and v1 :: "disk cafs_state vfs"
    assume v1: "r = Inr ()" "disk_dev.cafs_rel fs n ?a [] (primary_partition v1)" "dentry_cache v1 = push_at (dentry_cache v) pos ?new"
    show "runs (VFS_read_unstable (cafs_vtable fs) q) v1 (\<lambda>r' s. runs (ret (r, r')) s
        (\<lambda>r v'. r = (Inr (), Inr (dir_append (fdata f) (number_bytes k)))))"
      by (rule runs_mono [OF disk_dev.cafs.VFS_read_ok [OF v1(2) assms(4), of pos ?g]])
        (use v1 at a assms(2,5) in \<open>auto simp: runs_ret\<close>)
  qed
qed

theorem vfs_create_under_file_witness:
  "\<exists>fs v. disk_vfs fs 20480 abs_ab v \<and>
     runs (bnd (VFS_create (cafs_vtable fs) [47, 97, 47, 98]) (\<lambda>r. bnd (VFS_read_unstable (cafs_vtable fs) [47, 97]) (\<lambda>r'. ret (r, r')))) v
       (\<lambda>r v'. r = (Inr (), Inr (number_bytes 3)))"
proof -
  from mounted_two obtain fs v where v: "disk_vfs fs 20480 abs_ab v" "dentry_cache v = tree_ab" .
  have c: "can_create abs_ab 1 [98]"
    by (rule small_create [OF abs_ab_fields(1)]) (use abs_ab_fields(4) in \<open>simp_all add: BLOCK_SIZE_def NAME_LENGTH_LIMIT_def\<close>)
  have k: "first_free (files abs_ab) 0 (inode_limit abs_ab) = Some 3"
    by (auto simp: abs_ab_def add_file_def abs_a_fields first_free_Some)
  from vfs_create_under_file [OF v(1), of "[47, 97, 47, 98]" "\<lparr>parents = [[97]], path_name = [98]\<rparr>" "[47, 97]"
      "\<lparr>parents = [], path_name = [97]\<rparr>" "[0]" 3 "new_file File [97]"] v c k abs_ab_fields
  show ?thesis by (intro exI [of _ fs], intro exI [of _ v]) (simp add: parse_path_def tree_ab_def dir_append_def)
qed

text \<open>
  C35: reading or writing a path with a component that is not there, its last one included, yields
  \<open>NotExist\<close> of the first such component and changes nothing; creating does so when a directory of the path is
  missing.
\<close>

theorem vfs_missing_component:
  assumes "parse_path p = Inr pt" and "parents pt @ [path_name pt] = ps @ x # qs" and "find_dentry (dentry_cache v) ps = Inr pos"
    and "\<forall>c \<in> set (subdirs (dentry_at (dentry_cache v) pos)). de_name c \<noteq> x"
  shows "VFS_read_unstable vt p v = Inr (Inl (NotExist x), v) \<and> VFS_write vt p contents v = Inr (Inl (NotExist x), v) \<and>
    (qs \<noteq> [] \<longrightarrow> VFS_create vt p v = Inr (Inl (NotExist x), v))"
proof -
  from find_missing [OF assms(3,4), of qs] assms(2) have "find_dentry (dentry_cache v) (parents pt @ [path_name pt]) = Inl (NotExist x)" by simp
  moreover have "find_dentry (dentry_cache v) (parents pt) = Inl (NotExist x)" if "qs \<noteq> []"
  proof -
    from that obtain qs' q where "qs = qs' @ [q]" by (metis rev_exhaust)
    with assms(2) have "parents pt = ps @ x # qs'" by simp
    with find_missing [OF assms(3,4), of qs'] show ?thesis by simp
  qed
  ultimately show ?thesis using assms(1)
    by (simp add: VFS_create_def VFS_write_def VFS_read_unstable_def bnd_def gets_def ret_def)
qed

theorem vfs_missing_component_witness:
  "\<exists>fs v. disk_vfs fs 20480 abs_ab v \<and> VFS_read_unstable (cafs_vtable fs) [47, 120] v = Inr (Inl (NotExist [120]), v) \<and>
     VFS_create (cafs_vtable fs) [47, 97, 47, 120, 47, 98] v = Inr (Inl (NotExist [120]), v)"
proof -
  from mounted_two obtain fs v where v: "disk_vfs fs 20480 abs_ab v" "dentry_cache v = tree_ab" .
  from vfs_missing_component [of "[47, 120]" "\<lparr>parents = [], path_name = [120]\<rparr>" "[]" "[120]" "[]" v "[]" "cafs_vtable fs" "[]"]
    vfs_missing_component [of "[47, 97, 47, 120, 47, 98]" "\<lparr>parents = [[97], [120]], path_name = [98]\<rparr>" "[[97]]" "[120]"
      "[[98]]" v "[0]" "cafs_vtable fs" "[]"] v
  show ?thesis by (intro exI [of _ fs], intro exI [of _ v]) (simp add: parse_path_def tree_ab_def)
qed

end
