(* ===== verification/Image.thy ===== *)
theory Image
  imports Vfs_Properties
begin

text \<open>
  \<^verbatim>\<open>src/fs/src/main.rs\<close>: the tool that makes a disk image with two files, and the reading of
  such an image back into an in-memory device (the repository's own test does that). The
  property is the whole way round: what the tool writes is a file system that mounts with
  both files in it. Writing \<^verbatim>\<open>cafs.bin\<close> is the result of \<open>create_img\<close>; the file
  \<^verbatim>\<open>rootfs/hello\<close> is an argument, \<open>None\<close> when it cannot be read.
\<close>

section \<open>The tool\<close>

definition put_file :: "cafs \<Rightarrow> u8 list \<Rightarrow> u8 list \<Rightarrow> ('d cafs_state, unit) rust" where
  "put_file fs name contents =
     bnd (CAFS_create fs 0 name) (\<lambda>inode.
     bnd (vt_inode_number (cafs_vtable fs) inode) (\<lambda>inode_number.
     CAFS_write fs inode_number contents))"

definition create_img :: "nat \<Rightarrow> u8 list option \<Rightarrow> rust_panic + u8 list" where
  "create_img sz hello =
     sbnd (u64_mul 2 sz) (\<lambda>d.
     let total_blocks = d * 2 ^ 10 mod U64_RANGE in
     sbnd (CAFS_init (dyn_disk (Disk_new total_blocks)) total_blocks 10) (\<lambda>(fs, st).
     sbnd (bnd (put_file fs (bytes_of ''test.txt'') (bytes_of ''Test File'')) (\<lambda>_.
           bnd (pure (case hello of None \<Rightarrow> Inl UnwrapNone | Some f \<Rightarrow> Inr f)) (\<lambda>file.
           bnd (put_file fs (bytes_of ''hello'') file) (\<lambda>_.
           CAFS_flush))) st) (\<lambda>(_, st').
     Inr (concat (data (dev (device (blk_cache st'))))))))"

datatype image_exit = Exit nat | Wrote "u8 list"

definition image_main :: "u8 list list \<Rightarrow> u8 list option \<Rightarrow> rust_panic + image_exit" where
  "image_main args hello =
     (if length args > 2 then Inr (Exit 64)
      else if length args = 2 then
        (case from_str_radix 10 (args ! 1) of
           None \<Rightarrow> Inl UnwrapNone
         | Some sz \<Rightarrow> sbnd (create_img sz hello) (\<lambda>img. Inr (Wrote img)))
      else sbnd (create_img 50 hello) (\<lambda>img. Inr (Wrote img)))"

definition disk_of_image :: "u8 list \<Rightarrow> disk" where
  "disk_of_image img =
     (let num_chunks = length img div BLOCK_SIZE;
          bs = map (\<lambda>i. take BLOCK_SIZE (drop (i * BLOCK_SIZE) img)) [0..<num_chunks] in
      \<lparr>total_blocks = length bs, data = bs\<rparr>)"

section \<open>Images and devices\<close>

lemma length_concat_blocks: "list_all (\<lambda>b. length b = n) bs \<Longrightarrow> length (concat bs) = length bs * n"
  by (induction bs) auto

lemma nth_block_concat:
  "list_all (\<lambda>b. length b = n) bs \<Longrightarrow> i < length bs \<Longrightarrow> take n (drop (i * n) (concat bs)) = bs ! i"
proof (induction bs arbitrary: i)
  case (Cons b bs)
  then show ?case by (cases i) auto
qed simp

lemma disk_of_concat:
  assumes "disk_inv d"
  shows "disk_of_image (concat (data d)) = d"
proof -
  have d: "list_all (\<lambda>b. length b = BLOCK_SIZE) (data d)" "total_blocks d = length (data d)"
    using assms by (simp_all add: disk_inv_def)
  have "length (concat (data d)) div BLOCK_SIZE = length (data d)"
    by (simp add: length_concat_blocks [OF d(1)])
  moreover have "map (\<lambda>i. take BLOCK_SIZE (drop (i * BLOCK_SIZE) (concat (data d)))) [0..<length (data d)] = data d"
    using nth_block_concat [OF d(1)] by (intro nth_equalityI) simp_all
  ultimately show ?thesis using d(2) by (simp add: disk_of_image_def)
qed

section \<open>What the tool puts on the device\<close>

abbreviation test_name :: "u8 list" where
  "test_name \<equiv> bytes_of ''test.txt''"

abbreviation hello_name :: "u8 list" where
  "hello_name \<equiv> bytes_of ''hello''"

definition image_abs :: "nat \<Rightarrow> u8 list \<Rightarrow> fs_abs" where
  "image_abs tb file = set_data 2 file (add_file 2 0 hello_name
     (set_data 1 (bytes_of ''Test File'') (add_file 1 0 test_name (fresh_abs tb 10))))"

definition image_tree :: dentry where
  "image_tree = DirEntry Dir 0 [47] [DirEntry File 1 test_name [], DirEntry File 2 hello_name []]"

text \<open>Three blocks at least: the root directory, the first file, and what \<^verbatim>\<open>hello\<close> needs.\<close>

definition image_fits :: "nat \<Rightarrow> u8 list \<Rightarrow> bool" where
  "image_fits tb file \<longleftrightarrow> tb < U64_RANGE \<and> sizes_ok tb tb 10 \<and> length file \<le> L4_MAX \<and>
     2 + growth 0 (length file) \<le> capacity (fresh_abs tb 10)"

lemma image_names:
  "length test_name = 8" "length hello_name = 5" "0 \<notin> set test_name" "0 \<notin> set hello_name"
  "47 \<notin> set test_name" "47 \<notin> set hello_name" "test_name \<noteq> hello_name" "length (bytes_of ''Test File'') = 9"
  by code_simp+

lemma image_fresh:
  "files (fresh_abs tb nb) = [0 \<mapsto> new_file Dir [47]]" "slots (fresh_abs tb nb) = 31"
  "inode_limit (fresh_abs tb nb) = nb * BLOCK_BITS" "spare (fresh_abs tb nb) = capacity (fresh_abs tb nb)"
  by (simp_all add: fresh_abs_def Let_def INODE_CACHE_SIZE_def)

lemma image_files:
  "files (image_abs tb file) =
     [0 \<mapsto> (new_file Dir [47])\<lparr>fdata := dir_append (number_bytes 1) (number_bytes 2)\<rparr>,
      1 \<mapsto> (new_file File test_name)\<lparr>fdata := bytes_of ''Test File''\<rparr>,
      2 \<mapsto> (new_file File hello_name)\<lparr>fdata := file\<rparr>]"
  "slots (image_abs tb file) = 27"
proof -
  have "number_bytes 1 \<noteq> []" using length_number_bytes [of 1] by (auto simp: U64_RANGE_def)
  then show "files (image_abs tb file) =
     [0 \<mapsto> (new_file Dir [47])\<lparr>fdata := dir_append (number_bytes 1) (number_bytes 2)\<rparr>,
      1 \<mapsto> (new_file File test_name)\<lparr>fdata := bytes_of ''Test File''\<rparr>,
      2 \<mapsto> (new_file File hello_name)\<lparr>fdata := file\<rparr>]" "slots (image_abs tb file) = 27"
    by (auto simp: image_abs_def set_data_def add_file_def image_fresh fun_eq_iff dir_append_def)
qed

lemma image_tree_ok: "tree_ok (image_abs tb file) image_tree" "distinct (numbers image_tree)" "height image_tree = 2"
  "de_number image_tree = 0"
proof -
  have nm: "node_name ((new_file Dir [47])\<lparr>fdata := x\<rparr>) = [47]"
    "node_name ((new_file File test_name)\<lparr>fdata := x\<rparr>) = test_name"
    "node_name ((new_file File hello_name)\<lparr>fdata := x\<rparr>) = hello_name" for x
    using new_file_simps(3) [of test_name File] new_file_simps(3) [of hello_name File] new_file_simps(3) [of "[47]" Dir]
      image_names by (simp_all add: node_name_def)
  have "dir_entries ((new_file Dir [47])\<lparr>fdata := number_bytes 1\<rparr>) = Inr [1]" by (rule dir_entries_1)
  from dir_entries_append [OF this, of 2]
  have "dir_entries ((new_file Dir [47])\<lparr>fdata := dir_append (number_bytes 1) (number_bytes 2)\<rparr>) = Inr [1, 2]"
    by (simp add: U64_RANGE_def)
  then show "tree_ok (image_abs tb file) image_tree"
    by (simp add: image_tree_def image_files nm) (simp add: dir_entries_def)
qed (simp_all add: image_tree_def)

context block_device
begin

lemma put_file_ok:
  assumes rel: "cafs_rel fs n a hs st" and c: "can_create a 0 name" "length hs + 3 \<le> slots a"
      "first_free (files a) 0 (inode_limit a) = Some k"
    and w: "can_write (add_file k 0 name a) k contents" "length hs + 1 < slots (add_file k 0 name a)"
  shows "runs (put_file fs name contents) st (\<lambda>_ st'. \<exists>h.
    cafs_rel fs n (set_data k contents (add_file k 0 name a)) ((h, k) # hs) st')"
  unfolding put_file_def runs_bnd
proof (rule runs_mono [OF cafs_create_law [OF rel c]])
  fix h st'
  assume rel: "cafs_rel fs n (add_file k 0 name a) ((h, k) # hs) st'"
  show "runs (vt_inode_number (cafs_vtable fs) h) st' (\<lambda>num s. runs (CAFS_write fs num contents) s (\<lambda>_ st'. \<exists>h.
      cafs_rel fs n (set_data k contents (add_file k 0 name a)) ((h, k) # hs) st'))"
  proof (rule runs_mono [OF cafs.number_law [OF rel]])
    show "(h, k) \<in> set ((h, k) # hs)" by simp
    fix num s
    assume "num = k \<and> cafs_rel fs n (add_file k 0 name a) ((h, k) # hs) s"
    then have num: "num = k" and rel': "cafs_rel fs n (add_file k 0 name a) ((h, k) # hs) s" by simp_all
    have "length ((h, k) # hs) < slots (add_file k 0 name a)" using w(2) by simp
    from cafs_write_law [OF rel' w(1) this] num show "runs (CAFS_write fs num contents) s (\<lambda>_ st'. \<exists>h.
        cafs_rel fs n (set_data k contents (add_file k 0 name a)) ((h, k) # hs) st')"
      by (auto elim: runs_mono)
  qed
qed

end

lemma image_steps:
  fixes tb :: nat
  defines "a0 \<equiv> fresh_abs tb 10"
  defines "a1 \<equiv> set_data 1 (bytes_of ''Test File'') (add_file 1 0 test_name a0)"
  assumes "image_fits tb file"
  shows "can_create a0 0 test_name" "first_free (files a0) 0 (inode_limit a0) = Some 1"
    "can_write (add_file 1 0 test_name a0) 1 (bytes_of ''Test File'')" "slots (add_file 1 0 test_name a0) = 29"
    "can_create a1 0 hello_name" "first_free (files a1) 0 (inode_limit a1) = Some 2" "slots a1 = 29"
    "can_write (add_file 2 0 hello_name a1) 2 file" "slots (add_file 2 0 hello_name a1) = 27"
proof -
  from assms(3) have fit: "length file \<le> L4_MAX" "2 + growth 0 (length file) \<le> spare a0"
    by (simp_all add: image_fits_def a0_def image_fresh)
  have nb: "length (number_bytes 1) = 10" "length (number_bytes 2) = 10"
    by (simp_all add: length_number_bytes U64_RANGE_def)
  then have nb1: "number_bytes 1 \<noteq> []" by auto
  have a0: "files a0 = [0 \<mapsto> new_file Dir [47]]" "slots a0 = 31" "inode_limit a0 = 10 * BLOCK_BITS"
    by (simp_all add: a0_def image_fresh)
  let ?b1 = "add_file 1 0 test_name a0"
  have b1: "files ?b1 = [0 \<mapsto> (new_file Dir [47])\<lparr>fdata := number_bytes 1\<rparr>, 1 \<mapsto> new_file File test_name]"
    "spare ?b1 = spare a0 - 1" "slots ?b1 = 29" "inode_limit ?b1 = 10 * BLOCK_BITS"
    using nb by (simp_all add: add_file_def a0 dir_append_def small_growth BLOCK_SIZE_def fun_upd_twist)
  have a1: "files a1 = [0 \<mapsto> (new_file Dir [47])\<lparr>fdata := number_bytes 1\<rparr>,
      1 \<mapsto> (new_file File test_name)\<lparr>fdata := bytes_of ''Test File''\<rparr>]"
    "spare a1 = spare a0 - 2" "slots a1 = 29" "inode_limit a1 = 10 * BLOCK_BITS"
    using image_names(8) by (auto simp: a1_def set_data_def b1 small_growth BLOCK_SIZE_def simp del: One_nat_def)
  let ?b2 = "add_file 2 0 hello_name a1"
  have b2: "files ?b2 2 = Some (new_file File hello_name)" "spare ?b2 = spare a0 - 2" "slots ?b2 = 27"
    using nb nb1 by (simp_all add: add_file_def a1 dir_append_def small_growth BLOCK_SIZE_def)
  show "can_create a0 0 test_name"
    by (rule small_create [where d = "new_file Dir [47]"])
      (use fit a0 image_names in \<open>simp_all add: BLOCK_SIZE_def NAME_LENGTH_LIMIT_def\<close>)
  show "first_free (files a0) 0 (inode_limit a0) = Some 1" "first_free (files a1) 0 (inode_limit a1) = Some 2"
    by (auto simp: a0 a1 first_free_Some BLOCK_BITS_def BLOCK_SIZE_def)
  show "can_write ?b1 1 (bytes_of ''Test File'')"
    by (rule small_write [where f = "new_file File test_name"])
      (use fit b1 image_names in \<open>simp_all add: BLOCK_SIZE_def\<close>)
  show "slots ?b1 = 29" "slots a1 = 29" "slots ?b2 = 27" by (fact b1 a1 b2)+
  have g: "growth 10 21 = 0" by (simp add: small_growth BLOCK_SIZE_def)
  show "can_create a1 0 hello_name"
    using nb image_names one_block(4) [of 21] by (simp add: can_create_def a1 g NAME_LENGTH_LIMIT_def BLOCK_SIZE_def)
  show "can_write ?b2 2 file"
    using fit by (simp add: can_write_def b2 data_count_def)
qed

lemma create_img_ok:
  assumes tb: "tb = 2048 * sz" and fits: "image_fits tb file"
  obtains fs d where "create_img sz (Some file) = Inr (concat (data d))" and "disk_inv d" and "total_blocks d = tb"
    and "holds fs tb (image_abs tb file) (\<lambda>i. if i < tb then disk_block d i else [])"
proof -
  from fits have n: "tb < U64_RANGE" "sizes_ok tb tb 10" by (simp_all add: image_fits_def)
  have mul: "u64_mul 2 sz = Inr (2 * sz)" "2 * sz * 2 ^ 10 mod U64_RANGE = tb"
    using n(1) tb by (simp_all add: u64_mul_def)
  from disk_init_rel [OF n] obtain fs st where i: "CAFS_init (dyn_disk (Disk_new tb)) tb 10 = Inr (fs, st)"
    and rel: "disk_dev.cafs_rel fs tb (fresh_abs tb 10) [] st" .
  let ?a1 = "set_data 1 (bytes_of ''Test File'') (add_file 1 0 test_name (fresh_abs tb 10))"
  note steps = image_steps [OF fits]
  have put1: "runs (put_file fs test_name (bytes_of ''Test File'')) st (\<lambda>_ st'. \<exists>h. disk_dev.cafs_rel fs tb ?a1 [(h, 1)] st')"
    using disk_dev.put_file_ok [OF rel steps(1) _ steps(2,3)] steps(4) by (simp add: image_fresh)
  have put2: "runs (put_file fs hello_name file) st' (\<lambda>_ st'. \<exists>h'. disk_dev.cafs_rel fs tb (image_abs tb file) [(h', 2), (h, 1)] st')"
    if "disk_dev.cafs_rel fs tb ?a1 [(h, 1)] st'" for st' h
    using disk_dev.put_file_ok [OF that steps(5) _ steps(6,8)] steps(7,9) by (simp add: image_abs_def)
  have "runs (bnd (put_file fs test_name (bytes_of ''Test File'')) (\<lambda>_. bnd (put_file fs hello_name file) (\<lambda>_. CAFS_flush))) st
    (\<lambda>_ st'. dev_ok disk_vtable disk_inv (device (blk_cache st')) \<and> total_blocks (dev (device (blk_cache st'))) = tb \<and>
      holds fs tb (image_abs tb file) (\<lambda>i. if i < tb then disk_block (dev (device (blk_cache st'))) i else []))"
    unfolding runs_bnd
    by (rule runs_mono [OF put1], elim exE, rule runs_mono [OF put2], assumption, elim exE,
        rule runs_mono [OF disk_dev.flush_holds], assumption) simp
  then obtain st' where st': "bnd (put_file fs test_name (bytes_of ''Test File'')) (\<lambda>_. bnd (put_file fs hello_name file)
      (\<lambda>_. CAFS_flush)) st = Inr ((), st')" "dev_ok disk_vtable disk_inv (device (blk_cache st'))"
    "total_blocks (dev (device (blk_cache st'))) = tb"
    "holds fs tb (image_abs tb file) (\<lambda>i. if i < tb then disk_block (dev (device (blk_cache st'))) i else [])"
    by (auto simp: runs_iff_result)
  have "create_img sz (Some file) = Inr (concat (data (dev (device (blk_cache st')))))"
    unfolding create_img_def mul sbnd_simps Let_def by (simp add: i st'(1))
  with st'(2-4) show thesis by (intro that) (simp_all add: dev_ok_def)
qed

text \<open>Mounting a device that holds the image, of whatever kind it is.\<close>

definition mounted_image :: "nat \<Rightarrow> u8 list \<Rightarrow> fs_abs" where
  "mounted_image n file = (image_abs n file)\<lparr>slots := INODE_CACHE_SIZE\<rparr>"

lemma image_paths:
  "parse_path (bytes_of ''/test.txt'') = Inr \<lparr>parents = [], path_name = test_name\<rparr>"
  "parse_path (bytes_of ''/hello'') = Inr \<lparr>parents = [], path_name = hello_name\<rparr>"
  by (simp_all add: parse_path_def) code_simp+

lemma image_find: "find_dentry image_tree [test_name] = Inr [0]" "find_dentry image_tree [hello_name] = Inr [1]"
  "de_number (dentry_at image_tree [0]) = 1" "de_number (dentry_at image_tree [1]) = 2"
  using image_names(7) by (simp_all add: image_tree_def)

lemma mounted_image_files: "files (mounted_image n file) = files (image_abs n file)" "0 < slots (mounted_image n file)"
  by (simp_all add: mounted_image_def INODE_CACHE_SIZE_def)

context block_device
begin

lemma mount_image:
  assumes d: "dev_ok vt dinv d" "cap (dev d) = n" and stack: "2 \<le> stack"
    and h: "holds fs n (image_abs n file) (\<lambda>i. if i < n then blk (dev d) i else [])"
  obtains v where "VFS_new stack d = Inr (fs, v)" and "dentry_cache v = image_tree"
    and "cafs_rel fs n (mounted_image n file) [] (primary_partition v)"
proof -
  from open_holds [OF d h] obtain st where op: "CAFS_open d = Inr (fs, st)" "cafs_rel fs n (mounted_image n file) [] st"
    unfolding mounted_image_def .
  have t: "tree_ok (mounted_image n file) image_tree" "height image_tree \<le> stack" "0 < slots (mounted_image n file)"
    using image_tree_ok stack by (simp_all add: tree_ok_slots mounted_image_def INODE_CACHE_SIZE_def)
  from VFS_new_ok [OF op t(1) image_tree_ok(4,2) t(2,3)] that show thesis
    by (auto simp: cafs.vfs_ok_def)
qed

lemma read_image:
  assumes rel: "cafs_rel fs n (mounted_image n file) [] (primary_partition v)" and t: "dentry_cache v = image_tree"
  shows "runs (VFS_read_unstable (cafs_vtable fs) (bytes_of ''/test.txt'')) v (\<lambda>r v'. r = Inr (bytes_of ''Test File'') \<and>
      cafs_rel fs n (mounted_image n file) [] (primary_partition v') \<and> dentry_cache v' = image_tree)"
    and "runs (VFS_read_unstable (cafs_vtable fs) (bytes_of ''/hello'')) v (\<lambda>r v'. r = Inr file \<and>
      cafs_rel fs n (mounted_image n file) [] (primary_partition v') \<and> dentry_cache v' = image_tree)"
  using cafs.VFS_read_ok [OF rel image_paths(1), of "[0]"] cafs.VFS_read_ok [OF rel image_paths(2), of "[1]"]
  by (simp_all only: t image_find mounted_image_files image_files append_Nil path.simps) simp_all

end

text \<open>
  C12: the image the tool writes for a device with enough room mounts as a file system whose root
  has exactly the files \<^verbatim>\<open>test.txt\<close> and \<^verbatim>\<open>hello\<close>, with the text and the program the tool was given.
\<close>

theorem image_mounts:
  assumes "image_fits (2048 * sz) file"
  shows "\<exists>img fs v. create_img sz (Some file) = Inr img \<and> length img = 1048576 * sz \<and>
    VFS_new 2 (dyn_disk (disk_of_image img)) = Inr (fs, v) \<and>
    VFS_ls_root v = [bytes_of ''/'', bytes_of ''test.txt'', bytes_of ''hello''] \<and>
    runs (bnd (VFS_read_unstable (cafs_vtable fs) (bytes_of ''/test.txt'')) (\<lambda>r.
      bnd (VFS_read_unstable (cafs_vtable fs) (bytes_of ''/hello'')) (\<lambda>r'. ret (r, r')))) v
      (\<lambda>r _. r = (Inr (bytes_of ''Test File''), Inr file))"
proof -
  let ?n = "2048 * sz"
  from create_img_ok [OF refl assms] obtain fs d where c: "create_img sz (Some file) = Inr (concat (data d))"
    and d: "disk_inv d" "total_blocks d = ?n" and h: "holds fs ?n (image_abs ?n file) (\<lambda>i. if i < ?n then disk_block d i else [])" .
  have dd: "dev (dyn_disk d) = d" by (simp add: dyn_disk_def)
  have dev: "dev_ok disk_vtable disk_inv (dyn_disk d)" "total_blocks (dev (dyn_disk d)) = ?n"
    using d by (simp_all add: dev_ok_def dyn_disk_def)
  have h': "holds fs ?n (image_abs ?n file) (\<lambda>i. if i < ?n then disk_block (dev (dyn_disk d)) i else [])"
    unfolding dd by (rule h)
  from disk_dev.mount_image [OF dev le_refl h'] obtain v where v: "VFS_new 2 (dyn_disk d) = Inr (fs, v)"
    "dentry_cache v = image_tree" "disk_dev.cafs_rel fs ?n (mounted_image ?n file) [] (primary_partition v)" .
  have "length (concat (data d)) = 1048576 * sz"
    using length_concat_blocks [of BLOCK_SIZE "data d"] d by (simp add: disk_inv_def BLOCK_SIZE_def)
  moreover have "VFS_ls_root v = [bytes_of ''/'', bytes_of ''test.txt'', bytes_of ''hello'']"
    by (simp add: VFS_ls_root_def v(2) image_tree_def) code_simp
  moreover have "runs (bnd (VFS_read_unstable (cafs_vtable fs) (bytes_of ''/test.txt'')) (\<lambda>r.
      bnd (VFS_read_unstable (cafs_vtable fs) (bytes_of ''/hello'')) (\<lambda>r'. ret (r, r')))) v
      (\<lambda>r _. r = (Inr (bytes_of ''Test File''), Inr file))"
    unfolding runs_bnd
    by (rule runs_mono [OF disk_dev.read_image(1) [OF v(3,2)]], elim conjE,
        rule runs_mono [OF disk_dev.read_image(2)], assumption, assumption) (simp add: runs_ret)
  ultimately show ?thesis using c v(1) disk_of_concat [OF d(1)] by auto
qed

text \<open>The default size of 50 MiB.\<close>

lemma default_fits: "image_fits 102400 [127, 69, 76, 70]"
  by (simp add: image_fits_def sizes_ok_def fresh_abs_def Let_def BLOCK_BITS_def BLOCK_SIZE_def U64_RANGE_def
      layout_consts small_growth)

theorem image_mounts_witness:
  "\<exists>img fs v. create_img 50 (Some [127, 69, 76, 70]) = Inr img \<and> length img = 52428800 \<and>
    VFS_new 2 (dyn_disk (disk_of_image img)) = Inr (fs, v) \<and>
    VFS_ls_root v = [bytes_of ''/'', bytes_of ''test.txt'', bytes_of ''hello''] \<and>
    runs (bnd (VFS_read_unstable (cafs_vtable fs) (bytes_of ''/test.txt'')) (\<lambda>r.
      bnd (VFS_read_unstable (cafs_vtable fs) (bytes_of ''/hello'')) (\<lambda>r'. ret (r, r')))) v
      (\<lambda>r _. r = (Inr (bytes_of ''Test File''), Inr [127, 69, 76, 70]))"
  using image_mounts [of 50 "[127, 69, 76, 70]"] default_fits by simp

end
