(* ===== verification/Frame.thy ===== *)
theory Frame
  imports Prelude
begin

text \<open>
  \<^verbatim>\<open>src/kernel/src/memory/frame.rs\<close>: the allocator of physical frames, a vector of ranges of
  free frames. \<open>PhysFrame\<close> belongs to the crate \<^verbatim>\<open>x86_64\<close>; its operations are an argument of every
  definition, and the locale \<open>phys_frames\<close> states what that crate documents of them: frames are
  numbered, adding and subtracting page counts works on the numbers and panics outside the physical
  address space, the order is the order of the numbers, addresses are numbers times 4096, and
  \<open>PhysAddr::new\<close> and \<open>VirtAddr::new\<close> accept valid addresses as they are.
\<close>

section \<open>Frames and ranges\<close>

record 'f phys_frame_ops =
  pf_add :: "'f \<Rightarrow> nat \<Rightarrow> rust_panic + 'f"
  pf_sub :: "'f \<Rightarrow> nat \<Rightarrow> rust_panic + 'f"
  pf_less :: "'f \<Rightarrow> 'f \<Rightarrow> bool"
  pf_containing_address :: "nat \<Rightarrow> 'f"
  pf_start_address :: "'f \<Rightarrow> nat"
  phys_addr_new :: "nat \<Rightarrow> rust_panic + nat"
  virt_addr_new :: "nat \<Rightarrow> rust_panic + nat"

record 'f memory_range =
  mr_start :: 'f
  mr_pages :: nat

definition end_frame :: "'f phys_frame_ops \<Rightarrow> 'f memory_range \<Rightarrow> rust_panic + 'f" where
  "end_frame ops r = sbnd (pf_add ops (mr_start r) (mr_pages r)) (\<lambda>f. pf_sub ops f 1)"

record 'f frame_allocator =
  segments :: "'f memory_range list"

definition FrameAllocator_new :: "'f memory_range list \<Rightarrow> 'f frame_allocator" where
  "FrameAllocator_new v = \<lparr>segments = v\<rparr>"

definition set_segments :: "'f memory_range list \<Rightarrow> ('f frame_allocator, unit) rust" where
  "set_segments ss = upd (\<lambda>fa. fa\<lparr>segments := ss\<rparr>)"

section \<open>Allocation\<close>

definition FrameAllocator_allocate :: "'f phys_frame_ops \<Rightarrow> ('f frame_allocator, 'f option) rust" where
  "FrameAllocator_allocate ops =
     bnd (gets segments) (\<lambda>ss.
       case ss of
         [] \<Rightarrow> ret None
       | s # rest \<Rightarrow>
           bnd (if mr_pages s = 1 then set_segments rest
                else bnd (pure (pf_add ops (mr_start s) 1)) (\<lambda>start.
                     bnd (pure (u64_sub (mr_pages s) 1)) (\<lambda>pages.
                     set_segments (\<lparr>mr_start = start, mr_pages = pages\<rparr> # rest)))) (\<lambda>_.
           ret (Some (mr_start s))))"

definition FrameAllocator_alloc_range :: "'f phys_frame_ops \<Rightarrow> nat \<Rightarrow> ('f frame_allocator, 'f option) rust" where
  "FrameAllocator_alloc_range ops pages =
     bnd (gets segments) (\<lambda>ss.
       case find_pos (\<lambda>seg. mr_pages seg \<ge> pages) ss of
         None \<Rightarrow> ret None
       | Some i \<Rightarrow>
           let s = ss ! i in
           bnd (if mr_pages s = pages then set_segments (take i ss @ drop (Suc i) ss)
                else bnd (pure (pf_add ops (mr_start s) pages)) (\<lambda>start.
                     bnd (pure (u64_sub (mr_pages s) pages)) (\<lambda>p.
                     set_segments (ss[i := \<lparr>mr_start = start, mr_pages = p\<rparr>])))) (\<lambda>_.
           ret (Some (mr_start s))))"

section \<open>Deallocation\<close>

datatype merge_side = Not | Left | Right

text \<open>
  The loop over the ranges: the side on which a range grew, the position where the loop stopped,
  and the ranges. A position is an \<open>i32\<close> in the code, with -1 for \<open>None\<close>.
\<close>

fun dealloc_loop ::
    "'f phys_frame_ops \<Rightarrow> 'f \<Rightarrow> nat \<Rightarrow> 'f memory_range list \<Rightarrow>
     rust_panic + (merge_side \<times> nat option \<times> 'f memory_range list)" where
  "dealloc_loop ops addr i [] = Inr (Not, None, [])"
| "dealloc_loop ops addr i (s # ss) =
     sbnd (end_frame ops s) (\<lambda>e.
     sbnd (pf_add ops e 1) (\<lambda>e1.
     if pf_less ops e1 addr then
       sbnd (dealloc_loop ops addr (Suc i) ss) (\<lambda>(ok, idx, ss'). Inr (ok, idx, s # ss'))
     else if e1 = addr then
       sbnd (u64_add (mr_pages s) 1) (\<lambda>p. Inr (Right, Some i, s\<lparr>mr_pages := p\<rparr> # ss))
     else
       sbnd (pf_add ops addr 1) (\<lambda>a1.
       if mr_start s = a1 then
         sbnd (u64_add (mr_pages s) 1) (\<lambda>p. Inr (Left, Some i, s\<lparr>mr_start := addr, mr_pages := p\<rparr> # ss))
       else if pf_less ops a1 (mr_start s) then Inr (Not, Some i, s # ss)
       else sbnd (dealloc_loop ops addr (Suc i) ss) (\<lambda>(ok, idx, ss'). Inr (ok, idx, s # ss')))))"

text \<open>Two neighbours become one when the first ends where the second starts.\<close>

definition merge_at ::
    "'f phys_frame_ops \<Rightarrow> nat \<Rightarrow> 'f memory_range list \<Rightarrow> rust_panic + 'f memory_range list" where
  "merge_at ops i ss =
     sbnd (end_frame ops (ss ! i)) (\<lambda>e.
     sbnd (pf_add ops e 1) (\<lambda>e1.
     if e1 = mr_start (ss ! Suc i) then
       sbnd (u64_add (mr_pages (ss ! i)) (mr_pages (ss ! Suc i))) (\<lambda>p.
       Inr (take i ss @ (ss ! i)\<lparr>mr_pages := p\<rparr> # drop (Suc (Suc i)) ss))
     else Inr ss))"

definition FrameAllocator_deallocate :: "'f phys_frame_ops \<Rightarrow> 'f \<Rightarrow> ('f frame_allocator, unit) rust" where
  "FrameAllocator_deallocate ops addr =
     bnd (gets segments) (\<lambda>ss.
       if ss = [] then set_segments [\<lparr>mr_start = addr, mr_pages = 1\<rparr>]
       else
         bnd (pure (dealloc_loop ops addr 0 ss)) (\<lambda>(ok, idx, ss').
           case idx of
             None \<Rightarrow> set_segments (ss' @ [\<lparr>mr_start = addr, mr_pages = 1\<rparr>])
           | Some i \<Rightarrow>
               (case ok of
                  Not \<Rightarrow> set_segments (take i ss' @ \<lparr>mr_start = addr, mr_pages = 1\<rparr> # drop i ss')
                | Left \<Rightarrow> if i \<noteq> 0 then bnd (pure (merge_at ops (i - 1) ss')) set_segments else set_segments ss'
                | Right \<Rightarrow> if i \<noteq> length ss' - 1 then bnd (pure (merge_at ops i ss')) set_segments
                    else set_segments ss')))"

section \<open>Numbered frames\<close>

text \<open>A virtual address is canonical when bits 47 to 63 agree.\<close>

definition canonical :: "nat \<Rightarrow> bool" where
  "canonical a \<longleftrightarrow> a < 2 ^ 47 \<or> 2 ^ 64 - 2 ^ 47 \<le> a \<and> a < 2 ^ 64"

locale phys_frames =
  fixes ops :: "'f phys_frame_ops"
    and num :: "'f \<Rightarrow> nat"
    and lim :: nat
  assumes num_inj: "num f = num g \<Longrightarrow> f = g"
    and num_lim: "num f < lim"
    and less_law: "pf_less ops f g \<longleftrightarrow> num f < num g"
    and add_law: "num f + k < lim \<Longrightarrow> \<exists>g. pf_add ops f k = Inr g \<and> num g = num f + k"
    and sub_law: "k \<le> num f \<Longrightarrow> \<exists>g. pf_sub ops f k = Inr g \<and> num g = num f - k"
    and start_law: "pf_start_address ops f = num f * 4096"
    and containing_law: "a < lim * 4096 \<Longrightarrow> num (pf_containing_address ops a) = a div 4096"
    and addr_law: "a < lim * 4096 \<Longrightarrow> phys_addr_new ops a = Inr a"
    and virt_law: "canonical a \<Longrightarrow> virt_addr_new ops a = Inr a"
    and lim_range: "lim * 4096 \<le> U64_RANGE"

text \<open>The frames of the architecture: 52-bit physical addresses, 4 KiB pages.\<close>

definition x86_frames :: "40 word phys_frame_ops" where
  "x86_frames = \<lparr>
     pf_add = (\<lambda>f k. if unat f + k < 2 ^ 40 then Inr (of_nat (unat f + k)) else Inl BadAddress),
     pf_sub = (\<lambda>f k. if k \<le> unat f then Inr (of_nat (unat f - k)) else Inl ArithOverflow),
     pf_less = (\<lambda>f g. f < g),
     pf_containing_address = (\<lambda>a. of_nat (a div 4096)),
     pf_start_address = (\<lambda>f. unat f * 4096),
     phys_addr_new = (\<lambda>a. if a < 2 ^ 52 then Inr a else Inl BadAddress),
     virt_addr_new = (\<lambda>a. if canonical a then Inr a else Inl BadAddress)\<rparr>"

lemma unat_of_nat_40: "n < 2 ^ 40 \<Longrightarrow> unat (of_nat n :: 40 word) = n"
  by (simp add: unat_of_nat)

lemma unat_40: "unat (f :: 40 word) < 2 ^ 40"
  using unsigned_less [of f, where ?'a = nat] by simp

interpretation x86: phys_frames x86_frames unat "2 ^ 40"
proof (unfold_locales, goal_cases)
  case (1 f g)
  then show ?case by (simp add: word_unat_eq_iff)
next
  case (2 f)
  show ?case by (rule unat_40)
next
  case (4 f k)
  then show ?case using unat_of_nat_40 [of "unat f + k"] by (simp add: x86_frames_def)
next
  case (5 k f)
  have "unat f - k < 2 ^ 40" using unat_40 [of f] by simp
  then show ?case using 5 unat_of_nat_40 [of "unat f - k"] by (simp add: x86_frames_def)
next
  case (7 a)
  then have "a div 4096 < 2 ^ 40" by (simp add: less_mult_imp_div_less)
  then show ?case using unat_of_nat_40 [of "a div 4096"] by (simp add: x86_frames_def)
qed (simp_all add: x86_frames_def word_less_nat_alt U64_RANGE_def)

section \<open>Free frames\<close>

definition fin :: "('f \<Rightarrow> nat) \<Rightarrow> 'f memory_range \<Rightarrow> nat" where
  "fin num r = num (mr_start r) + mr_pages r"

definition frames_of :: "('f \<Rightarrow> nat) \<Rightarrow> 'f memory_range \<Rightarrow> nat set" where
  "frames_of num r = {num (mr_start r)..<fin num r}"

definition free_frames :: "('f \<Rightarrow> nat) \<Rightarrow> 'f memory_range list \<Rightarrow> nat set" where
  "free_frames num ss = (\<Union>r \<in> set ss. frames_of num r)"

text \<open>
  Ranges in ascending order, none empty, with gaps of at least \<open>g\<close> frames: 0 when only overlaps
  are excluded, 1 when neighbours are merged.
\<close>

definition ranges_ok :: "('f \<Rightarrow> nat) \<Rightarrow> nat \<Rightarrow> nat \<Rightarrow> 'f memory_range list \<Rightarrow> bool" where
  "ranges_ok num lim g ss \<longleftrightarrow> (\<forall>r \<in> set ss. 0 < mr_pages r \<and> fin num r < lim) \<and>
     sorted_wrt (\<lambda>r t. fin num r + g \<le> num (mr_start t)) ss"

lemma ranges_ok_simps [simp]:
  "ranges_ok num lim g []"
  "ranges_ok num lim g (r # ss) \<longleftrightarrow> 0 < mr_pages r \<and> fin num r < lim \<and>
     (\<forall>t \<in> set ss. fin num r + g \<le> num (mr_start t)) \<and> ranges_ok num lim g ss"
  by (auto simp: ranges_ok_def)

lemma ranges_ok_append:
  "ranges_ok num lim g (xs @ ys) \<longleftrightarrow> ranges_ok num lim g xs \<and> ranges_ok num lim g ys \<and>
     (\<forall>r \<in> set xs. \<forall>t \<in> set ys. fin num r + g \<le> num (mr_start t))"
  by (auto simp: ranges_ok_def sorted_wrt_append)

lemma free_frames_simps [simp]:
  "free_frames num [] = {}" "free_frames num (r # ss) = frames_of num r \<union> free_frames num ss"
  "free_frames num (xs @ ys) = free_frames num xs \<union> free_frames num ys"
  by (auto simp: free_frames_def)

lemma frames_ne: "0 < mr_pages r \<Longrightarrow> num (mr_start r) \<in> frames_of num r"
  by (simp add: frames_of_def fin_def)

lemma free_empty: "ranges_ok num lim g ss \<Longrightarrow> free_frames num ss = {} \<longleftrightarrow> ss = []"
  using frames_ne [of "hd ss" num] by (cases ss) auto

text \<open>Everything after a range lies beyond its end.\<close>

lemma frames_after:
  assumes "\<forall>t \<in> set ss. e \<le> num (mr_start t)"
  shows "x \<in> free_frames num ss \<Longrightarrow> e \<le> x"
  using assms by (fastforce simp: free_frames_def frames_of_def)

lemma frames_before:
  assumes "\<forall>t \<in> set ss. fin num t \<le> e"
  shows "x \<in> free_frames num ss \<Longrightarrow> x < e"
  using assms by (fastforce simp: free_frames_def frames_of_def)

context phys_frames
begin

lemma end_frame_ok:
  assumes "0 < mr_pages r" and "fin num r < lim"
  obtains e e1 where "end_frame ops r = Inr e" and "pf_add ops e 1 = Inr e1" and "num e1 = fin num r"
proof -
  from assms(2) add_law [of "mr_start r" "mr_pages r"] obtain f where f: "pf_add ops (mr_start r) (mr_pages r) = Inr f"
    "num f = fin num r" by (auto simp: fin_def)
  with assms(1) sub_law [of 1 f] obtain e where e: "pf_sub ops f 1 = Inr e" "num e = fin num r - 1" by (auto simp: fin_def)
  have "num e + 1 = fin num r" using e(2) assms(1) by (simp add: fin_def)
  moreover from this add_law [of e 1] assms(2) obtain e1 where "pf_add ops e 1 = Inr e1" "num e1 = num e + 1" by auto
  ultimately show thesis using that [of e e1] f(1) e(1) by (simp add: end_frame_def)
qed

lemma pages_range: "fin num r < lim \<Longrightarrow> mr_pages r < U64_RANGE"
  using lim_range by (simp add: fin_def)

lemma num_eq: "num f = num g \<longleftrightarrow> f = g"
  using num_inj by blast

text \<open>A range without its first frames.\<close>

lemma drop_front:
  assumes "k < mr_pages s" and "fin num s < lim"
  obtains f where "pf_add ops (mr_start s) k = Inr f" and "u64_sub (mr_pages s) k = Inr (mr_pages s - k)"
    and "num f = num (mr_start s) + k" and "fin num \<lparr>mr_start = f, mr_pages = mr_pages s - k\<rparr> = fin num s"
    and "frames_of num \<lparr>mr_start = f, mr_pages = mr_pages s - k\<rparr> = frames_of num s - {num (mr_start s)..<num (mr_start s) + k}"
proof -
  from assms add_law [of "mr_start s" k] obtain f where f: "pf_add ops (mr_start s) k = Inr f" "num f = num (mr_start s) + k"
    by (auto simp: fin_def)
  with assms that [of f] show thesis by (auto simp: u64_sub_def fin_def frames_of_def)
qed

lemma allocate_ok:
  assumes ok: "ranges_ok num lim g ss"
  shows "runs (FrameAllocator_allocate ops) \<lparr>segments = ss\<rparr> (\<lambda>r fa. case r of
      None \<Rightarrow> free_frames num ss = {} \<and> segments fa = ss
    | Some f \<Rightarrow> num f \<in> free_frames num ss \<and> (\<forall>x \<in> free_frames num ss. num f \<le> x) \<and>
        free_frames num (segments fa) = free_frames num ss - {num f} \<and> ranges_ok num lim g (segments fa))"
proof (cases ss)
  case (Cons s rest)
  with ok have s: "0 < mr_pages s" "fin num s < lim" "\<forall>t \<in> set rest. fin num s + g \<le> num (mr_start t)" "ranges_ok num lim g rest"
    by simp_all
  have after: "fin num s \<le> x" if "x \<in> free_frames num rest" for x
    by (rule frames_after [OF _ that]) (use s(3) in auto)
  have least: "num (mr_start s) \<in> free_frames num ss" "\<forall>x \<in> free_frames num ss. num (mr_start s) \<le> x"
    "num (mr_start s) \<notin> free_frames num rest"
    using frames_ne [OF s(1), of num] after s(1) by (fastforce simp: Cons frames_of_def fin_def)+
  show ?thesis
  proof (cases "mr_pages s = 1")
    case True
    then have "frames_of num s = {num (mr_start s)}" by (auto simp: frames_of_def fin_def)
    with True least s(4) show ?thesis
      by (simp add: FrameAllocator_allocate_def set_segments_def Cons wp)
  next
    case False
    with s(1) have "1 < mr_pages s" by simp
    from drop_front [OF this s(2)] obtain f where f: "pf_add ops (mr_start s) 1 = Inr f" "u64_sub (mr_pages s) 1 = Inr (mr_pages s - 1)"
      "fin num \<lparr>mr_start = f, mr_pages = mr_pages s - 1\<rparr> = fin num s"
      "frames_of num \<lparr>mr_start = f, mr_pages = mr_pages s - 1\<rparr> = frames_of num s - {num (mr_start s)}"
      by auto
    with False least s show ?thesis
      by (auto simp add: FrameAllocator_allocate_def set_segments_def Cons wp simp del: One_nat_def)
  qed
qed (simp add: FrameAllocator_allocate_def wp)

text \<open>With merged neighbours a run of free frames lies within one range.\<close>

lemma run_in_range:
  assumes "ranges_ok num lim 1 ss" and "0 < k" and "{a..<a + k} \<subseteq> free_frames num ss"
  shows "\<exists>s \<in> set ss. {a..<a + k} \<subseteq> frames_of num s"
  using assms
proof (induction ss)
  case (Cons s rest)
  have after: "fin num s + 1 \<le> x" if "x \<in> free_frames num rest" for x
    by (rule frames_after [OF _ that]) (use Cons.prems(1) in simp)
  have "a \<in> {a..<a + k}" using Cons.prems(2) by simp
  then have a: "a \<in> free_frames num (s # rest)" using Cons.prems(3) by blast
  show ?case
  proof (cases "a \<in> frames_of num s")
    case True
    have "a + k \<le> fin num s"
    proof (rule ccontr)
      assume "\<not> a + k \<le> fin num s"
      then have "fin num s \<in> {a..<a + k}" using True by (simp add: frames_of_def)
      then have "fin num s \<in> free_frames num rest" using Cons.prems(3) by (auto simp: frames_of_def)
      with after show False by fastforce
    qed
    with True show ?thesis by (auto simp: frames_of_def)
  next
    case False
    then have "fin num s + 1 \<le> a" using a after by simp
    then have "{a..<a + k} \<inter> frames_of num s = {}" by (auto simp: frames_of_def)
    then have "{a..<a + k} \<subseteq> free_frames num rest" using Cons.prems(3) by auto
    with Cons show ?thesis by auto
  qed
qed simp

lemma frames_disjoint:
  assumes "ranges_ok num lim g (pre @ s # post)"
  shows "free_frames num pre \<inter> frames_of num s = {}" "free_frames num post \<inter> frames_of num s = {}"
proof -
  have "\<forall>t \<in> set pre. fin num t \<le> num (mr_start s)" "\<forall>t \<in> set post. fin num s \<le> num (mr_start t)"
    using assms by (fastforce simp: ranges_ok_append)+
  from frames_before [OF this(1)] frames_after [OF this(2)]
  show "free_frames num pre \<inter> frames_of num s = {}" "free_frames num post \<inter> frames_of num s = {}"
    by (fastforce simp: frames_of_def)+
qed

lemma alloc_range_ok:
  assumes ok: "ranges_ok num lim g ss" and k: "0 < k"
  shows "runs (FrameAllocator_alloc_range ops k) \<lparr>segments = ss\<rparr> (\<lambda>r fa. case r of
      None \<Rightarrow> (\<forall>s \<in> set ss. mr_pages s < k) \<and> segments fa = ss
    | Some f \<Rightarrow> (\<exists>i < length ss. find_pos (\<lambda>s. k \<le> mr_pages s) ss = Some i \<and> f = mr_start (ss ! i)) \<and>
        free_frames num (segments fa) = free_frames num ss - {num f..<num f + k} \<and> ranges_ok num lim g (segments fa))"
proof (cases "find_pos (\<lambda>s. k \<le> mr_pages s) ss")
  case None
  then have "\<forall>s \<in> set ss. mr_pages s < k" by (auto simp: find_pos_None)
  with None show ?thesis by (simp add: FrameAllocator_alloc_range_def wp)
next
  case (Some i)
  then have i: "i < length ss" "k \<le> mr_pages (ss ! i)" by (simp_all add: find_pos_Some)
  define pre s post where "pre = take i ss" and "s = ss ! i" and "post = drop (Suc i) ss"
  have ss: "ss = pre @ s # post" unfolding pre_def s_def post_def using i(1) by (rule id_take_nth_drop)
  have len: "length pre = i" using i(1) by (simp add: pre_def)
  have upd: "ss[i := x] = pre @ x # post" for x by (simp add: ss len [symmetric])
  have s: "fin num s < lim" using ok by (simp add: ss ranges_ok_append)
  have s2: "k \<le> mr_pages s" using i(2) by (simp add: s_def)
  note dis = frames_disjoint [OF ok [unfolded ss]]
  have sub: "{num (mr_start s)..<num (mr_start s) + k} \<subseteq> frames_of num s" using s2 by (auto simp: frames_of_def fin_def)
  show ?thesis
  proof (cases "mr_pages s = k")
    case True
    have "frames_of num s = {num (mr_start s)..<num (mr_start s) + k}" using True by (simp add: frames_of_def fin_def)
    then have "free_frames num (pre @ post) = free_frames num ss - {num (mr_start s)..<num (mr_start s) + k}"
      using dis by (auto simp: ss)
    moreover have "ranges_ok num lim g (pre @ post)" using ok by (auto simp: ss ranges_ok_append)
    ultimately show ?thesis
      using True Some i(1) by (simp add: FrameAllocator_alloc_range_def set_segments_def wp Let_def s_def pre_def post_def)
  next
    case False
    then have "k < mr_pages s" using s2 by simp
    from drop_front [OF this s] obtain f where f: "pf_add ops (mr_start s) k = Inr f" "u64_sub (mr_pages s) k = Inr (mr_pages s - k)"
      "num f = num (mr_start s) + k" "fin num \<lparr>mr_start = f, mr_pages = mr_pages s - k\<rparr> = fin num s"
      "frames_of num \<lparr>mr_start = f, mr_pages = mr_pages s - k\<rparr> = frames_of num s - {num (mr_start s)..<num (mr_start s) + k}" .
    let ?s = "\<lparr>mr_start = f, mr_pages = mr_pages s - k\<rparr>"
    have "free_frames num (ss[i := ?s]) = free_frames num ss - {num (mr_start s)..<num (mr_start s) + k}"
      using dis f(5) sub by (auto simp: upd) (auto simp: ss)
    moreover have "ranges_ok num lim g (pre @ ?s # post)"
      using ok [unfolded ss] f(3,4) \<open>k < mr_pages s\<close> by (fastforce simp: ranges_ok_append)
    then have "ranges_ok num lim g (ss[i := ?s])" by (simp only: upd)
    ultimately show ?thesis
      using False Some i(1) f(1,2) by (simp add: FrameAllocator_alloc_range_def set_segments_def wp Let_def s_def)
  qed
qed

text \<open>
  Where the loop stops for a frame that is not free: behind all ranges that end before the frame,
  at the range the frame extends at either end, or at the first range further on.
\<close>

inductive stops :: "'f \<Rightarrow> 'f memory_range list \<Rightarrow> merge_side \<Rightarrow> nat option \<Rightarrow> 'f memory_range list \<Rightarrow> bool" for f where
  stop_end: "\<forall>s \<in> set pre. fin num s < num f \<Longrightarrow> stops f pre Not None pre"
| stop_before: "\<forall>s \<in> set pre. fin num s < num f \<Longrightarrow> num f + 1 < num (mr_start s) \<Longrightarrow>
    stops f (pre @ s # post) Not (Some (length pre)) (pre @ s # post)"
| stop_left: "\<forall>s \<in> set pre. fin num s < num f \<Longrightarrow> num (mr_start s) = num f + 1 \<Longrightarrow>
    stops f (pre @ s # post) Left (Some (length pre)) (pre @ s\<lparr>mr_start := f, mr_pages := Suc (mr_pages s)\<rparr> # post)"
| stop_right: "\<forall>s \<in> set pre. fin num s < num f \<Longrightarrow> fin num s = num f \<Longrightarrow>
    stops f (pre @ s # post) Right (Some (length pre)) (pre @ s\<lparr>mr_pages := Suc (mr_pages s)\<rparr> # post)"

lemma stops_Cons:
  assumes "stops f ss ok idx ss'" and "fin num s < num f"
  shows "stops f (s # ss) ok (map_option Suc idx) (s # ss')"
  using assms(1)
proof cases
  case stop_end
  with assms(2) stops.stop_end [of "s # ss" f] show ?thesis by simp
next
  case (stop_before pre t post)
  with assms(2) stops.stop_before [of "s # pre" f t post] show ?thesis by simp
next
  case (stop_left pre t post)
  with assms(2) stops.stop_left [of "s # pre" f t post] show ?thesis by simp
next
  case (stop_right pre t post)
  with assms(2) stops.stop_right [of "s # pre" f t post] show ?thesis by simp
qed

lemma dealloc_loop_stops:
  assumes "ranges_ok num lim g ss" and "num f \<notin> free_frames num ss" and "num f + 1 < lim"
  shows "\<exists>ok idx ss'. dealloc_loop ops f i ss = Inr (ok, map_option ((+) i) idx, ss') \<and> stops f ss ok idx ss'"
  using assms(1,2)
proof (induction ss arbitrary: i)
  case Nil
  show ?case using stop_end [of "[]" f] by simp
next
  case (Cons s ss)
  from Cons.prems have s: "0 < mr_pages s" "fin num s < lim" "num f \<notin> frames_of num s" by simp_all
  from end_frame_ok [OF s(1,2)] obtain e e1 where e: "end_frame ops s = Inr e" "pf_add ops e 1 = Inr e1" "num e1 = fin num s" .
  from assms(3) add_law [of f 1] obtain a1 where a1: "pf_add ops f 1 = Inr a1" "num a1 = num f + 1" by blast
  have p: "u64_add (mr_pages s) 1 = Inr (Suc (mr_pages s))"
    using s(2) lim_range by (simp add: u64_add_def fin_def)
  consider "fin num s < num f" | "fin num s = num f" | "num (mr_start s) = num f + 1" | "num f + 1 < num (mr_start s)"
    using s(3) by (fastforce simp: frames_of_def)
  then show ?case
  proof cases
    case 1
    from Cons.prems have "ranges_ok num lim g ss" "num f \<notin> free_frames num ss" by simp_all
    from Cons.IH [OF this, of "Suc i"] obtain ok idx ss' where
      IH: "dealloc_loop ops f (Suc i) ss = Inr (ok, map_option ((+) (Suc i)) idx, ss')" "stops f ss ok idx ss'" by blast
    have "map_option ((+) (Suc i)) idx = map_option ((+) i) (map_option Suc idx)" by (cases idx) simp_all
    then show ?thesis
      using IH(1) 1 e stops_Cons [OF IH(2) 1] by (intro exI [of _ ok] exI [of _ "map_option Suc idx"] exI [of _ "s # ss'"])
        (simp add: less_law)
  next
    case 2
    then have "e1 = f" using e(3) num_eq by metis
    then show ?thesis
      using 2 e p stop_right [of "[]" f s ss]
      by (intro exI [of _ Right] exI [of _ "Some 0"] exI [of _ "s\<lparr>mr_pages := Suc (mr_pages s)\<rparr> # ss"]) (simp add: less_law u64_add_def)
  next
    case 3
    then have "mr_start s = a1" "e1 \<noteq> f" "\<not> num e1 < num f"
      using a1(2) e(3) s(1) num_inj [of "mr_start s" a1] by (auto simp: fin_def)
    then show ?thesis
      using 3 e a1 p stop_left [of "[]" f s ss]
      by (intro exI [of _ Left] exI [of _ "Some 0"] exI [of _ "s\<lparr>mr_start := f, mr_pages := Suc (mr_pages s)\<rparr> # ss"]) (simp add: less_law u64_add_def)
  next
    case 4
    then have "mr_start s \<noteq> a1" "e1 \<noteq> f" "\<not> num e1 < num f" using a1(2) e(3) s(1) by (auto simp: fin_def)
    then show ?thesis
      using 4 e a1 stop_before [of "[]" f s ss]
      by (intro exI [of _ Not] exI [of _ "Some 0"] exI [of _ "s # ss"]) (simp add: less_law u64_add_def)
  qed
qed

lemma merge_at_ok:
  assumes "0 < mr_pages s" and "fin num s < lim" and "fin num t < lim"
  shows "merge_at ops (length pre) (pre @ s # t # post) =
    Inr (if fin num s = num (mr_start t) then pre @ s\<lparr>mr_pages := mr_pages s + mr_pages t\<rparr> # post else pre @ s # t # post)"
proof -
  from end_frame_ok [OF assms(1,2)] obtain e e1 where e: "end_frame ops s = Inr e" "pf_add ops e 1 = Inr e1" "num e1 = fin num s" .
  have "(e1 = mr_start t) = (fin num s = num (mr_start t))" using e(3) num_eq by metis
  moreover have "u64_add (mr_pages s) (mr_pages t) = Inr (mr_pages s + mr_pages t)" if "fin num s = num (mr_start t)"
    using that assms(3) lim_range by (simp add: u64_add_def fin_def)
  ultimately show ?thesis using e by (cases "fin num s = num (mr_start t)") (simp_all add: merge_at_def nth_append u64_add_def)
qed

text \<open>
  The ranges after a frame that is not free is put back: as a range of its own before a later one, at the start
  of a range, or at the end of one, where the range that follows may join.
\<close>

lemma ranges_before:
  assumes "ranges_ok num lim g (pre @ s # post)" and "\<forall>t \<in> set pre. fin num t < num f"
    and "num f + 1 < num (mr_start s)" and "num f + 1 < lim" and "g \<le> 1"
  shows "ranges_ok num lim g (pre @ \<lparr>mr_start = f, mr_pages = 1\<rparr> # s # post)"
proof -
  have "\<forall>t \<in> set post. num (mr_start s) \<le> num (mr_start t)" using assms(1) by (auto simp: ranges_ok_append fin_def)
  with assms(3,5) have "\<forall>t \<in> set post. num f + 1 + g \<le> num (mr_start t)" by fastforce
  with assms show ?thesis by (auto simp: ranges_ok_append fin_def)
qed

lemma grown_left:
  assumes "num (mr_start s) = num f + 1"
  shows "fin num (s\<lparr>mr_start := f, mr_pages := Suc (mr_pages s)\<rparr>) = fin num s"
    and "frames_of num (s\<lparr>mr_start := f, mr_pages := Suc (mr_pages s)\<rparr>) = insert (num f) (frames_of num s)"
  using assms by (auto simp: fin_def frames_of_def)

lemma merge_left:
  assumes "ranges_ok num lim g (pre @ s # post)" and "\<forall>t \<in> set pre. fin num t < num f"
    and "num (mr_start s) = num f + 1" and "pre \<noteq> []"
  shows "merge_at ops (length pre - 1) (pre @ s\<lparr>mr_start := f, mr_pages := Suc (mr_pages s)\<rparr> # post) =
    Inr (pre @ s\<lparr>mr_start := f, mr_pages := Suc (mr_pages s)\<rparr> # post)"
proof -
  let ?s = "s\<lparr>mr_start := f, mr_pages := Suc (mr_pages s)\<rparr>"
  from assms(4) obtain pre' p where pre: "pre = pre' @ [p]" by (metis rev_exhaust)
  have "0 < mr_pages p" "fin num p < num f" "fin num p < lim" "fin num ?s < lim"
    using assms(1,2) grown_left(1) [OF assms(3)] by (auto simp: pre ranges_ok_append)
  with merge_at_ok [of p ?s pre' post] show ?thesis by (simp add: pre)
qed

lemma grown_right:
  assumes "fin num s = num f"
  shows "fin num (s\<lparr>mr_pages := Suc (mr_pages s)\<rparr>) = num f + 1"
    and "frames_of num (s\<lparr>mr_pages := Suc (mr_pages s)\<rparr>) = insert (num f) (frames_of num s)"
  using assms by (auto simp: fin_def frames_of_def)

lemma ranges_apart:
  assumes ok: "ranges_ok num lim g (pre @ s # t # rest)" and s: "fin num s = num f"
    and t: "num f + 1 < num (mr_start t)" and lim: "num f + 1 < lim" and g: "g \<le> 1"
  shows "ranges_ok num lim g (pre @ s\<lparr>mr_pages := Suc (mr_pages s)\<rparr> # t # rest)"
proof -
  have "\<forall>r \<in> set rest. num (mr_start t) \<le> num (mr_start r)" using ok by (auto simp: ranges_ok_append fin_def)
  then have "\<forall>r \<in> set (t # rest). num f + 1 + g \<le> num (mr_start r)" using t g by fastforce
  with ok lim grown_right(1) [OF s] show ?thesis by (auto simp: ranges_ok_append)
qed

lemma ranges_joined:
  assumes ok: "ranges_ok num lim g (pre @ s # t # rest)" and s: "fin num s = num f" and t: "num f + 1 = num (mr_start t)"
  defines "m \<equiv> s\<lparr>mr_pages := Suc (mr_pages s) + mr_pages t\<rparr>"
  shows "ranges_ok num lim g (pre @ m # rest)" and "frames_of num m = insert (num f) (frames_of num s \<union> frames_of num t)"
proof -
  have fin: "fin num m = fin num t" using s t by (simp add: fin_def m_def)
  with ok show "ranges_ok num lim g (pre @ m # rest)" by (auto simp: ranges_ok_append m_def)
  have "0 < mr_pages t" using ok by (simp add: ranges_ok_append)
  with fin s t show "frames_of num m = insert (num f) (frames_of num s \<union> frames_of num t)"
    by (auto simp: frames_of_def fin_def m_def)
qed

text \<open>What the routine does with the place the search stopped at.\<close>

lemma stops_ok:
  assumes ok: "ranges_ok num lim g ss" and f: "num f \<notin> free_frames num ss" "num f + 1 < lim" and g: "g \<le> 1"
    and st: "stops f ss side idx ss'"
  shows "runs (case idx of
      None \<Rightarrow> set_segments (ss' @ [\<lparr>mr_start = f, mr_pages = 1\<rparr>])
    | Some i \<Rightarrow> (case side of Not \<Rightarrow> set_segments (take i ss' @ \<lparr>mr_start = f, mr_pages = 1\<rparr> # drop i ss')
        | Left \<Rightarrow> if i \<noteq> 0 then bnd (pure (merge_at ops (i - 1) ss')) set_segments else set_segments ss'
        | Right \<Rightarrow> if i \<noteq> length ss' - 1 then bnd (pure (merge_at ops i ss')) set_segments else set_segments ss'))
      \<lparr>segments = ss\<rparr> (\<lambda>_ fa.
        free_frames num (segments fa) = insert (num f) (free_frames num ss) \<and> ranges_ok num lim g (segments fa))"
  using st
proof cases
  case stop_end
  then have "ranges_ok num lim g (ss @ [\<lparr>mr_start = f, mr_pages = 1\<rparr>])"
    using ok f(2) g by (fastforce simp: ranges_ok_append fin_def)
  with stop_end show ?thesis by (simp add: set_segments_def wp frames_of_def fin_def)
next
  case (stop_before pre s post)
  then show ?thesis using ranges_before [of g pre s post f] ok f(2) g
    by (simp add: set_segments_def wp frames_of_def fin_def)
next
  case (stop_left pre s post)
  note s = grown_left [OF stop_left(6)]
  have "ranges_ok num lim g (pre @ s\<lparr>mr_start := f, mr_pages := Suc (mr_pages s)\<rparr> # post)"
    using ok g s(1) stop_left(1,5) by (fastforce simp: ranges_ok_append)
  with stop_left s(2) merge_left [of g pre s post f] ok show ?thesis
    by (cases "pre = []") (auto simp: set_segments_def wp)
next
  case (stop_right pre s post)
  note s = grown_right [OF stop_right(6)]
  show ?thesis
  proof (cases post)
    case Nil
    with stop_right ok f s show ?thesis by (auto simp: set_segments_def wp ranges_ok_append)
  next
    case (Cons t rest)
    have t: "fin num t < lim" "0 < mr_pages t" "num f \<notin> frames_of num t" "num f \<le> num (mr_start t)"
      using ok f stop_right(1,6) by (auto simp: Cons ranges_ok_append)
    then have t': "num f + 1 \<le> num (mr_start t)" by (auto simp: frames_of_def fin_def)
    have ok': "ranges_ok num lim g (pre @ s # t # rest)" using ok stop_right(1) by (simp add: Cons)
    show ?thesis
      using stop_right s t' f(2) g t(1) merge_at_ok [of "s\<lparr>mr_pages := Suc (mr_pages s)\<rparr>" t pre rest]
        ranges_apart [OF ok' stop_right(6)] ranges_joined [OF ok' stop_right(6)]
      by (cases "num f + 1 = num (mr_start t)") (simp_all add: set_segments_def wp Cons, auto)
  qed
qed

text \<open>Freeing a frame that is not free.\<close>

lemma deallocate_ok:
  assumes ok: "ranges_ok num lim g ss" and f: "num f \<notin> free_frames num ss" "num f + 1 < lim" and g: "g \<le> 1"
  shows "runs (FrameAllocator_deallocate ops f) \<lparr>segments = ss\<rparr> (\<lambda>_ fa.
    free_frames num (segments fa) = insert (num f) (free_frames num ss) \<and> ranges_ok num lim g (segments fa))"
proof (cases "ss = []")
  case True
  with f show ?thesis
    by (simp add: FrameAllocator_deallocate_def set_segments_def wp frames_of_def fin_def)
next
  case False
  from dealloc_loop_stops [OF ok f, of 0] obtain side idx ss' where
    "dealloc_loop ops f 0 ss = Inr (side, map_option ((+) 0) idx, ss')" and st: "stops f ss side idx ss'" by blast
  then have "dealloc_loop ops f 0 ss = Inr (side, idx, ss')" by (cases idx) simp_all
  with False stops_ok [OF ok f g st] show ?thesis by (simp add: FrameAllocator_deallocate_def wp)
qed

text \<open>Freeing a frame that is free already: it ends up in two ranges.\<close>

lemma dealloc_loop_free:
  assumes "ranges_ok num lim 1 ss" and "num f \<in> free_frames num ss"
  shows "\<exists>pre s post. ss = pre @ s # post \<and> num f \<in> frames_of num s \<and>
    dealloc_loop ops f i ss = Inr (Not, if post = [] then None else Some (i + Suc (length pre)), ss)"
  using assms
proof (induction ss arbitrary: i)
  case (Cons t rest)
  from Cons.prems(1) have t: "0 < mr_pages t" "fin num t < lim" by simp_all
  from end_frame_ok [OF t] obtain e e1 where e: "end_frame ops t = Inr e" "pf_add ops e 1 = Inr e1" "num e1 = fin num t" .
  show ?case
  proof (cases "num f \<in> frames_of num t")
    case True
    then have ft: "num (mr_start t) \<le> num f" "num f < fin num t" by (simp_all add: frames_of_def)
    then have "num f + 1 < lim" using t(2) by simp
    then obtain a1 where a1: "pf_add ops f 1 = Inr a1" "num a1 = num f + 1" using add_law by blast
    have skip: "dealloc_loop ops f i (t # rest) =
        sbnd (dealloc_loop ops f (Suc i) rest) (\<lambda>(ok, idx, ss'). Inr (ok, idx, t # ss'))"
      using ft e a1 by (auto simp: less_law)
    have "dealloc_loop ops f (Suc i) rest = Inr (Not, if rest = [] then None else Some (Suc i), rest)"
    proof (cases rest)
      case (Cons r rest')
      with Cons.prems(1) have r: "0 < mr_pages r" "fin num r < lim" "fin num t + 1 \<le> num (mr_start r)" by simp_all
      from end_frame_ok [OF r(1,2)] obtain e' e1' where
        "end_frame ops r = Inr e'" "pf_add ops e' 1 = Inr e1'" "num e1' = fin num r" .
      moreover have "num f + 1 < num (mr_start r)" "num f < fin num r" using r(3) ft by (simp_all add: fin_def)
      ultimately show ?thesis using a1 Cons by (auto simp: less_law)
    qed simp
    with skip True show ?thesis by (intro exI [of _ "[]"] exI [of _ t] exI [of _ rest]) simp
  next
    case False
    with Cons.prems have fr: "ranges_ok num lim 1 rest" "num f \<in> free_frames num rest" by simp_all
    have "fin num t + 1 \<le> num f" by (rule frames_after [OF _ fr(2)]) (use Cons.prems(1) in simp)
    then have skip: "dealloc_loop ops f i (t # rest) =
        sbnd (dealloc_loop ops f (Suc i) rest) (\<lambda>(ok, idx, ss'). Inr (ok, idx, t # ss'))"
      using e by (simp add: less_law)
    from Cons.IH [OF fr, of "Suc i"] obtain pre s post where "rest = pre @ s # post" "num f \<in> frames_of num s"
      "dealloc_loop ops f (Suc i) rest = Inr (Not, if post = [] then None else Some (Suc i + Suc (length pre)), rest)" by blast
    with skip show ?thesis by (intro exI [of _ "t # pre"] exI [of _ s] exI [of _ post]) simp
  qed
qed simp

lemma deallocate_twice:
  assumes "ranges_ok num lim 1 ss" and "num f \<in> free_frames num ss"
  shows "runs (FrameAllocator_deallocate ops f) \<lparr>segments = ss\<rparr> (\<lambda>_ fa. \<exists>pre s post. ss = pre @ s # post \<and>
    num f \<in> frames_of num s \<and> segments fa = pre @ s # \<lparr>mr_start = f, mr_pages = 1\<rparr> # post)"
proof -
  from dealloc_loop_free [OF assms, of 0] obtain pre s post where ss: "ss = pre @ s # post" "num f \<in> frames_of num s"
    "dealloc_loop ops f 0 ss = Inr (Not, if post = [] then None else Some (Suc (length pre)), ss)" by auto
  have "runs (FrameAllocator_deallocate ops f) \<lparr>segments = ss\<rparr> (\<lambda>_ fa. segments fa = pre @ s # \<lparr>mr_start = f, mr_pages = 1\<rparr> # post)"
    using ss by (auto simp: FrameAllocator_deallocate_def set_segments_def wp)
  with ss(1,2) show ?thesis by (auto elim!: runs_mono)
qed

text \<open>Merged ranges are determined by the set of free frames.\<close>

lemma fin_not_free: "ranges_ok num lim 1 (s # ss) \<Longrightarrow> fin num s \<notin> free_frames num (s # ss)"
  using frames_after [of ss "fin num s + 1" num "fin num s"] by (auto simp: frames_of_def)

lemma ranges_unique:
  assumes "ranges_ok num lim 1 ss" and "ranges_ok num lim 1 ss'" and "free_frames num ss = free_frames num ss'"
  shows "ss = ss'"
  using assms
proof (induction ss arbitrary: ss')
  case Nil
  then show ?case using free_empty [of num lim 1 ss'] by simp
next
  case (Cons s rest)
  have "free_frames num ss' \<noteq> {}" using free_empty [OF Cons.prems(1)] Cons.prems(3) by blast
  then have "ss' \<noteq> []" by (cases ss') simp_all
  then obtain s' rest' where ss': "ss' = s' # rest'" by (cases ss') auto
  have ge: "fin num t + 1 \<le> x" if "x \<in> free_frames num ts" "ranges_ok num lim 1 (t # ts)" for t x ts
    by (rule frames_after [OF _ that(1)]) (use that(2) in simp)
  have least: "num (mr_start t) \<le> x" if "x \<in> free_frames num (t # ts)" "ranges_ok num lim 1 (t # ts)" for t x ts
    using that ge [of x ts t] by (auto simp: frames_of_def fin_def)
  have "num (mr_start s) \<in> free_frames num ss'" "num (mr_start s') \<in> free_frames num (s # rest)"
    using frames_ne [of s num] frames_ne [of s' num] Cons.prems by (auto simp: ss')
  then have start: "num (mr_start s) = num (mr_start s')"
    using least [of _ s rest] least [of _ s' rest'] Cons.prems by (simp add: ss' order_antisym)
  have le: "fin num t' \<le> fin num t"
    if "num (mr_start t) = num (mr_start t')" "ranges_ok num lim 1 (t # ts)" "free_frames num (t' # ts') \<subseteq> free_frames num (t # ts)" for t t' ts ts'
  proof (rule ccontr)
    assume "\<not> fin num t' \<le> fin num t"
    then have "fin num t \<in> frames_of num t'" using that(1) by (simp add: frames_of_def fin_def)
    with that(3) fin_not_free [OF that(2)] show False by auto
  qed
  have "fin num s = fin num s'"
    using le [OF start Cons.prems(1)] le [OF start [symmetric] Cons.prems(2) [unfolded ss']] Cons.prems(3)
    unfolding ss' by (metis order_antisym order_refl)
  then have s: "s = s'" using start num_inj [of "mr_start s" "mr_start s'"] by (cases s; cases s') (simp add: fin_def)
  have "free_frames num ts = free_frames num (t # ts) - frames_of num t" if "ranges_ok num lim 1 (t # ts)" for t ts
    using frames_disjoint(2) [of 1 "[]" t ts] that by auto
  then have "free_frames num rest = free_frames num rest'" using Cons.prems s by (metis ss')
  with Cons s show ?case by (simp add: ss')
qed

end

end
