(* ===== verification/Memory.thy ===== *)
theory Memory
  imports Frame
begin

text \<open>
  \<^verbatim>\<open>src/kernel/src/memory/mod.rs\<close>, the global functions of \<^verbatim>\<open>frame.rs\<close>, the memory provider of the
  drivers (\<^verbatim>\<open>src/kernel/src/drivers/provider.rs\<close>) and the kernel heap
  (\<^verbatim>\<open>src/kernel/src/allocator.rs\<close>). The kernel's statics are the fields of one record. The type of
  memory that counts as free and the page table register are arguments: they come from the firmware
  and the processor.
\<close>

section \<open>The kernel's view of physical memory\<close>

record 'f memory =
  FRAME :: "'f frame_allocator option"
  PHYSICAL_MEMORY_OFFSET :: nat
  KERNEL_P4_TABLE :: nat

definition PAGE_SIZE :: nat where
  "PAGE_SIZE = 2 ^ 12"

definition init_frame :: "'f memory_range list \<Rightarrow> ('f memory, unit) rust" where
  "init_frame v = upd (\<lambda>m. m\<lparr>FRAME := Some (FrameAllocator_new v)\<rparr>)"

definition with_frame :: "('f frame_allocator, 'a) rust \<Rightarrow> ('f memory, 'a) rust" where
  "with_frame m = (\<lambda>s.
     case FRAME s of
       None \<Rightarrow> Inl UnwrapNone
     | Some fa \<Rightarrow> (case m fa of Inl e \<Rightarrow> Inl e | Inr (x, fa') \<Rightarrow> Inr (x, s\<lparr>FRAME := Some fa'\<rparr>)))"

definition frame_alloc :: "'f phys_frame_ops \<Rightarrow> ('f memory, 'f option) rust" where
  "frame_alloc ops = with_frame (FrameAllocator_allocate ops)"

definition frame_alloc_range :: "'f phys_frame_ops \<Rightarrow> nat \<Rightarrow> ('f memory, 'f option) rust" where
  "frame_alloc_range ops pages = with_frame (FrameAllocator_alloc_range ops pages)"

definition frame_dealloc :: "'f phys_frame_ops \<Rightarrow> 'f \<Rightarrow> ('f memory, unit) rust" where
  "frame_dealloc ops addr = with_frame (FrameAllocator_deallocate ops addr)"

datatype 'f frame = Frame 'f

definition FrameAllocator_allocate_frame :: "'f phys_frame_ops \<Rightarrow> ('f frame_allocator, 'f frame option) rust" where
  "FrameAllocator_allocate_frame ops =
     bnd (FrameAllocator_allocate ops) (\<lambda>r. ret (case r of None \<Rightarrow> None | Some phys_frame \<Rightarrow> Some (Frame phys_frame)))"

fun Frame_drop :: "'f phys_frame_ops \<Rightarrow> 'f frame \<Rightarrow> ('f memory, unit) rust" where
  "Frame_drop ops (Frame f) = frame_dealloc ops f"

record 't memory_descriptor =
  md_ty :: 't
  md_phys_start :: nat
  md_page_count :: nat

definition memory_init ::
    "'f phys_frame_ops \<Rightarrow> 't \<Rightarrow> nat \<Rightarrow> nat \<Rightarrow> 't memory_descriptor list \<Rightarrow> ('f memory, unit) rust" where
  "memory_init ops conventional cr3 offset descriptors =
     bnd (upd (\<lambda>m. m\<lparr>PHYSICAL_MEMORY_OFFSET := offset, KERNEL_P4_TABLE := cr3\<rparr>)) (\<lambda>_.
     bnd (map_each (filter (\<lambda>x. md_ty x = conventional) descriptors) (\<lambda>x.
       bnd (pure (phys_addr_new ops (md_phys_start x))) (\<lambda>a.
       ret \<lparr>mr_start = pf_containing_address ops a, mr_pages = md_page_count x\<rparr>))) init_frame)"

definition to_virt_addr :: "'f phys_frame_ops \<Rightarrow> nat \<Rightarrow> ('f memory, nat) rust" where
  "to_virt_addr ops phys =
     bnd (gets PHYSICAL_MEMORY_OFFSET) (\<lambda>off. pure (sbnd (u64_add phys off) (virt_addr_new ops)))"

definition to_phys_addr :: "'f phys_frame_ops \<Rightarrow> nat \<Rightarrow> ('f memory, nat) rust" where
  "to_phys_addr ops virt =
     bnd (gets PHYSICAL_MEMORY_OFFSET) (\<lambda>off. pure (sbnd (u64_sub virt off) (phys_addr_new ops)))"

section \<open>Memory for drivers\<close>

definition virtio_dma_alloc :: "'f phys_frame_ops \<Rightarrow> nat \<Rightarrow> ('f memory, nat) rust" where
  "virtio_dma_alloc ops pages =
     bnd (frame_alloc_range ops pages) (\<lambda>r.
       case r of None \<Rightarrow> panic UnwrapNone | Some paddr \<Rightarrow> pure (phys_addr_new ops (pf_start_address ops paddr)))"

definition virtio_dma_dealloc :: "'f phys_frame_ops \<Rightarrow> nat \<Rightarrow> nat \<Rightarrow> ('f memory, unit) rust" where
  "virtio_dma_dealloc ops paddr pages =
     (let frame = pf_containing_address ops paddr in
      for_each [0..<pages] (\<lambda>i. bnd (pure (pf_add ops frame i)) (frame_dealloc ops)))"

definition alloc_dma :: "'f phys_frame_ops \<Rightarrow> nat \<Rightarrow> ('f memory, nat \<times> nat) rust" where
  "alloc_dma ops sz =
     bnd (pure (div_ceil sz PAGE_SIZE)) (\<lambda>pages.
     bnd (virtio_dma_alloc ops pages) (\<lambda>paddr.
     bnd (to_virt_addr ops paddr) (\<lambda>vaddr.
     ret (vaddr, paddr))))"

definition dealloc_dma :: "'f phys_frame_ops \<Rightarrow> nat \<Rightarrow> nat \<Rightarrow> ('f memory, unit) rust" where
  "dealloc_dma ops vaddr sz =
     bnd (to_phys_addr ops vaddr) (\<lambda>paddr.
     bnd (pure (div_ceil sz PAGE_SIZE)) (\<lambda>pages.
     virtio_dma_dealloc ops paddr pages))"

section \<open>The heap\<close>

record alloc_layout =
  lay_size :: nat
  lay_align :: nat

definition HEAP_START :: nat where
  "HEAP_START = 0xffff900040000000"

definition Allocator_alloc :: "alloc_layout \<Rightarrow> (nat, nat) rust" where
  "Allocator_alloc layout =
     bnd (gets (\<lambda>v. v)) (\<lambda>v.
     bnd (pure (sbnd (u64_add v (lay_align layout)) (\<lambda>x. u64_sub x (v mod lay_align layout)))) (\<lambda>start.
     bnd (pure (u64_add start (lay_size layout))) (\<lambda>v'.
     bnd (upd (\<lambda>_. v')) (\<lambda>_.
     ret start))))"

definition Allocator_dealloc :: "nat \<Rightarrow> alloc_layout \<Rightarrow> (nat, unit) rust" where
  "Allocator_dealloc ptr layout = ret ()"

end
