(* ===== verification/Kernel_Disk.thy ===== *)
theory Kernel_Disk
  imports Image Memory
begin

text \<open>
  The kernel's disk: \<^verbatim>\<open>src/kernel/src/drivers/ahci.rs\<close>, the partition device and the start of the file
  system in \<^verbatim>\<open>src/kernel/src/drivers/pci.rs\<close>, the global file system of \<^verbatim>\<open>src/kernel/src/fs/mod.rs\<close> and the
  start of the first process (\<^verbatim>\<open>src/kernel/src/process/mod.rs\<close>). The AHCI driver and the reader of the
  partition table are crates: their functions are arguments. The locale \<open>ahci_drive\<close> states what the
  driver promises, that blocks read back what was written; it gives a block device for every partition
  whose invariant also says that nothing outside the partition changes.
\<close>

section \<open>The drive\<close>

record 'a ahci_ops =
  ahci_new :: "nat \<Rightarrow> nat \<Rightarrow> 'a option"
  ahci_read_block :: "'a \<Rightarrow> nat \<Rightarrow> u8 list \<Rightarrow> rust_panic + u8 list"
  ahci_write_block :: "'a \<Rightarrow> nat \<Rightarrow> u8 list \<Rightarrow> rust_panic + 'a"

definition AHCIDriver_read_block :: "'a ahci_ops \<Rightarrow> 'a \<Rightarrow> nat \<Rightarrow> u8 list \<Rightarrow> rust_panic + u8 list" where
  "AHCIDriver_read_block ops driver bid buf = ahci_read_block ops driver bid buf"

definition AHCIDriver_write_block :: "'a ahci_ops \<Rightarrow> 'a \<Rightarrow> nat \<Rightarrow> u8 list \<Rightarrow> rust_panic + 'a" where
  "AHCIDriver_write_block ops driver bid buf = ahci_write_block ops driver bid buf"

definition ahci_init :: "'a ahci_ops \<Rightarrow> nat option \<Rightarrow> nat \<Rightarrow> nat \<Rightarrow> 'a option" where
  "ahci_init ops irq header sz = ahci_new ops header sz"

section \<open>The partition device\<close>

record 'a blk =
  blk_offset :: nat
  blk_driver :: 'a

definition BLK_read_block :: "'a ahci_ops \<Rightarrow> 'a blk \<Rightarrow> nat \<Rightarrow> u8 list \<Rightarrow> rust_panic + u8 list" where
  "BLK_read_block ops b bid buf =
     (if length buf \<noteq> BLOCK_SIZE then Inl AssertFailed
      else sbnd (u64_add bid (blk_offset b)) (\<lambda>i. AHCIDriver_read_block ops (blk_driver b) i buf))"

definition BLK_write_block :: "'a ahci_ops \<Rightarrow> 'a blk \<Rightarrow> nat \<Rightarrow> u8 list \<Rightarrow> rust_panic + 'a blk" where
  "BLK_write_block ops b bid buf =
     (if length buf \<noteq> BLOCK_SIZE then Inl AssertFailed
      else sbnd (u64_add bid (blk_offset b)) (\<lambda>i.
           sbnd (AHCIDriver_write_block ops (blk_driver b) i buf) (\<lambda>d. Inr (b\<lparr>blk_driver := d\<rparr>))))"

definition blk_vtable :: "'a ahci_ops \<Rightarrow> 'a blk block_device_vtable" where
  "blk_vtable ops = \<lparr>vt_read_block = BLK_read_block ops, vt_write_block = BLK_write_block ops\<rparr>"

section \<open>Starting the file system\<close>

definition PARTITION_UUID :: "u8 list" where
  "PARTITION_UUID = bytes_of ''0c421611-8e4a-464e-b683-96265fc14532''"

record 'g gpt_entry =
  partition_type_guid :: 'g
  ge_starting_lba :: nat
  ge_ending_lba :: nat
  ge_name :: "u8 list"

record 'g partition =
  starting_lba :: nat
  ending_lba :: nat
  pt_name :: "u8 list"
  pt_guid :: 'g

text \<open>
  What the crates for partition tables provide: reading the table from the first blocks of the drive
  (every step of that is unwrapped in the code) and parsing a GUID.
\<close>

record 'g gpt_ops =
  read_gpt :: "u8 list \<Rightarrow> rust_panic + 'g gpt_entry list"
  guid_from_str :: "u8 list \<Rightarrow> 'g option"

fun collect_partitions :: "'g gpt_ops \<Rightarrow> 'g gpt_entry list \<Rightarrow> rust_panic + 'g partition list" where
  "collect_partitions gpt [] = Inr []"
| "collect_partitions gpt (p # ps) =
     (case guid_from_str gpt PARTITION_UUID of
        None \<Rightarrow> Inl UnwrapNone
      | Some g \<Rightarrow>
          if partition_type_guid p \<noteq> g then collect_partitions gpt ps
          else sbnd (collect_partitions gpt ps) (\<lambda>rest.
            Inr (\<lparr>starting_lba = ge_starting_lba p, ending_lba = ge_ending_lba p, pt_name = ge_name p,
                   pt_guid = partition_type_guid p\<rparr> # rest)))"

fun read_blocks :: "'a ahci_ops \<Rightarrow> 'a \<Rightarrow> nat list \<Rightarrow> rust_panic + u8 list" where
  "read_blocks ops driver [] = Inr []"
| "read_blocks ops driver (i # is) =
     sbnd (AHCIDriver_read_block ops driver i (replicate 512 0)) (\<lambda>buf.
     sbnd (read_blocks ops driver is) (\<lambda>rest. Inr (buf @ rest)))"

record ('f, 'a) kernel =
  kernel_memory :: "'f memory"
  kernel_vfs :: "(cafs \<times> 'a blk cafs_state vfs) option"

definition on_memory :: "('f memory, 'x) rust \<Rightarrow> (('f, 'a) kernel, 'x) rust" where
  "on_memory m = zoom kernel_memory (\<lambda>s k. k\<lparr>kernel_memory := s\<rparr>) m"

definition init_sata ::
    "nat \<Rightarrow> 'f phys_frame_ops \<Rightarrow> 'a ahci_ops \<Rightarrow> 'g gpt_ops \<Rightarrow> nat option \<Rightarrow> nat \<Rightarrow> nat \<Rightarrow> (('f, 'a) kernel, unit) rust" where
  "init_sata stack fops ops gpt irq bar_addr bar_len =
     bnd (on_memory (to_virt_addr fops bar_addr)) (\<lambda>vaddr.
       case ahci_init ops irq vaddr bar_len of
         None \<Rightarrow> ret ()
       | Some driver \<Rightarrow>
           bnd (pure (read_blocks ops driver [0..<2048])) (\<lambda>gpt_data.
           bnd (pure (read_gpt gpt gpt_data)) (\<lambda>entries.
           bnd (pure (collect_partitions gpt entries)) (\<lambda>partitions.
           bnd (pure (index partitions 0)) (\<lambda>p.
           let blk = \<lparr>blk_offset = starting_lba p, blk_driver = driver\<rparr> in
           bnd (pure (VFS_new stack \<lparr>vtable = blk_vtable ops, dev = blk\<rparr>)) (\<lambda>cafs.
           upd (\<lambda>k. k\<lparr>kernel_vfs := Some cafs\<rparr>)))))))"

section \<open>The first process\<close>

definition hello_contents :: "(('f, 'a) kernel, u8 list) rust" where
  "hello_contents = (\<lambda>k.
     case kernel_vfs k of
       None \<Rightarrow> Inl UnwrapNone
     | Some (fs, v) \<Rightarrow>
         (case VFS_read_unstable (cafs_vtable fs) (bytes_of ''/hello'') v of
            Inl e \<Rightarrow> Inl e
          | Inr (Inl e, v') \<Rightarrow> Inl UnwrapNone
          | Inr (Inr contents, v') \<Rightarrow> Inr (contents, k\<lparr>kernel_vfs := Some (fs, v')\<rparr>)))"

text \<open>The result is the length that is logged; \<open>align\<close> is the alignment of the header of an ELF file.\<close>

definition process_init :: "nat \<Rightarrow> (('f, 'a) kernel, nat) rust" where
  "process_init align =
     bnd hello_contents (\<lambda>contents.
     bnd (require (18446620929482082386 AND (align - 1) = 0) AssertFailed) (\<lambda>_.
     ret (length contents)))"

text \<open>The counter \<open>PROCESS_COUNT\<close> as the state: the process identifiers are handed out from it.\<close>

definition process_next :: "(nat, nat) rust" where
  "process_next =
     bnd (gets (\<lambda>pc. pc)) (\<lambda>pc.
     bnd (pure (u64_add pc 1)) (\<lambda>pc'.
     bnd (upd (\<lambda>_. pc')) (\<lambda>_.
     pure (u64_sub pc' 1))))"

lemma process_next_result:
  "process_next pc = (if pc + 1 < U64_RANGE then Inr (pc, pc + 1) else Inl ArithOverflow)"
  by (simp add: process_next_def bnd_def gets_def upd_def pure_def u64_add_def u64_sub_def)

section \<open>Drives that keep what is written\<close>

locale ahci_drive =
  fixes ops :: "'a ahci_ops"
    and drive_ok :: "'a \<Rightarrow> bool"
    and drive_size :: "'a \<Rightarrow> nat"
    and medium :: "'a \<Rightarrow> nat \<Rightarrow> u8 list"
  assumes drive_read:
      "drive_ok d \<Longrightarrow> i < drive_size d \<Longrightarrow> length buf = BLOCK_SIZE \<Longrightarrow> ahci_read_block ops d i buf = Inr (medium d i)"
    and drive_write:
      "drive_ok d \<Longrightarrow> i < drive_size d \<Longrightarrow> length buf = BLOCK_SIZE \<Longrightarrow>
       \<exists>d'. ahci_write_block ops d i buf = Inr d' \<and> drive_ok d' \<and> drive_size d' = drive_size d \<and>
            (\<forall>j<drive_size d. medium d' j = (if j = i then buf else medium d j))"
    and drive_length: "drive_ok d \<Longrightarrow> i < drive_size d \<Longrightarrow> length (medium d i) = BLOCK_SIZE"
    and drive_bound: "drive_ok d \<Longrightarrow> drive_size d < U64_RANGE"
begin

text \<open>
  A partition of \<open>len\<close> blocks at \<open>off\<close> on a drive of \<open>cnt\<close> blocks that holds \<open>M\<close> outside the partition.
\<close>

definition part_inv :: "nat \<Rightarrow> nat \<Rightarrow> nat \<Rightarrow> (nat \<Rightarrow> u8 list) \<Rightarrow> 'a blk \<Rightarrow> bool" where
  "part_inv off len cnt M b \<longleftrightarrow> blk_offset b = off \<and> drive_ok (blk_driver b) \<and> drive_size (blk_driver b) = cnt \<and>
     off + len \<le> cnt \<and> (\<forall>j<cnt. j < off \<or> off + len \<le> j \<longrightarrow> medium (blk_driver b) j = M j)"

end

sublocale ahci_drive \<subseteq> part: block_device "blk_vtable ops" "part_inv off len cnt M" "\<lambda>_. len"
  "\<lambda>b i. medium (blk_driver b) (off + i)" for off len cnt M
proof (unfold_locales, goal_cases)
  case (1 b i buf)
  then have "u64_add i (blk_offset b) = Inr (off + i)" using drive_bound [of "blk_driver b"] by (auto simp: part_inv_def)
  with 1 drive_read [of "blk_driver b" "off + i" buf] show ?case
    by (simp add: blk_vtable_def BLK_read_block_def AHCIDriver_read_block_def part_inv_def u64_add_def add.commute)
next
  case (2 b i buf)
  then have b: "drive_ok (blk_driver b)" "drive_size (blk_driver b) = cnt" "off + len \<le> cnt" "blk_offset b = off"
    "\<forall>j<cnt. j < off \<or> off + len \<le> j \<longrightarrow> medium (blk_driver b) j = M j"
    by (simp_all add: part_inv_def)
  then have add: "u64_add i (blk_offset b) = Inr (off + i)" using 2(2) drive_bound [of "blk_driver b"] by auto
  from b 2 drive_write [of "blk_driver b" "off + i" buf] obtain d' where
    d': "ahci_write_block ops (blk_driver b) (off + i) buf = Inr d'" "drive_ok d'" "drive_size d' = cnt"
    "\<forall>j<cnt. medium d' j = (if j = off + i then buf else medium (blk_driver b) j)" by auto
  have "part_inv off len cnt M (b\<lparr>blk_driver := d'\<rparr>)" using b d' 2(2) by (auto simp: part_inv_def)
  moreover have "\<forall>j<len. medium d' (off + j) = (if j = i then buf else medium (blk_driver b) (off + j))"
    using d'(4) b(3) by simp
  ultimately show ?case
    using add d'(1) 2(3) by (auto simp: blk_vtable_def BLK_write_block_def AHCIDriver_write_block_def u64_add_def add.commute)
next
  case (3 b i)
  then show ?case using drive_length by (simp add: part_inv_def)
next
  case (4 b)
  then show ?case using drive_bound [of "blk_driver b"] by (auto simp: part_inv_def)
qed

text \<open>An in-memory device serves as a drive.\<close>

definition disk_drive :: "disk \<Rightarrow> disk ahci_ops" where
  "disk_drive d = \<lparr>ahci_new = (\<lambda>header sz. Some d), ahci_read_block = Disk_read_block, ahci_write_block = Disk_write_block\<rparr>"

interpretation disk_ahci: ahci_drive "disk_drive d" disk_inv total_blocks disk_block for d
proof (unfold_locales, goal_cases)
  case (2 d i buf)
  then show ?case using disk_dev.write_law [of d i buf] by (simp add: disk_drive_def disk_vtable_def)
qed (use disk_dev.read_law disk_dev.blk_length disk_dev.cap_bound in \<open>auto simp: disk_drive_def disk_vtable_def\<close>)

end
