(* ===== verification/Memory_Properties.thy ===== *)
theory Memory_Properties
  imports Memory
begin

text \<open>
  What the kernel's allocators promise. The frame allocator is a set of frame numbers: it hands out
  the least free frame, or the first run of free frames that is long enough, and takes frames
  back. Memory for drivers that is given back leaves the allocator as it was. The heap hands out
  disjoint, aligned blocks.
\<close>

section \<open>Frames as a set\<close>

datatype 'f frame_op = OpAlloc | OpAllocRange nat | OpDealloc 'f

fun frame_perform :: "'f phys_frame_ops \<Rightarrow> 'f frame_op \<Rightarrow> ('f frame_allocator, 'f option) rust" where
  "frame_perform ops OpAlloc = FrameAllocator_allocate ops"
| "frame_perform ops (OpAllocRange k) = FrameAllocator_alloc_range ops k"
| "frame_perform ops (OpDealloc f) = bnd (FrameAllocator_deallocate ops f) (\<lambda>_. ret None)"

text \<open>
  The specification on sets of numbers; \<open>None\<close> for requests outside it: an empty range, a frame
  that is free already, the last frame of the address space.
\<close>

fun frame_spec :: "('f \<Rightarrow> nat) \<Rightarrow> nat \<Rightarrow> 'f frame_op \<Rightarrow> nat set \<Rightarrow> (nat option \<times> nat set) option" where
  "frame_spec num lim OpAlloc F = Some (if F = {} then (None, F) else (Some (Min F), F - {Min F}))"
| "frame_spec num lim (OpAllocRange k) F =
     (if k = 0 then None
      else if \<exists>a. {a..<a + k} \<subseteq> F then
        (let a = (LEAST a. {a..<a + k} \<subseteq> F) in Some (Some a, F - {a..<a + k}))
      else Some (None, F))"
| "frame_spec num lim (OpDealloc f) F =
     (if num f \<in> F \<or> lim \<le> num f + 1 then None else Some (None, insert (num f) F))"

fun frame_spec_run :: "('f \<Rightarrow> nat) \<Rightarrow> nat \<Rightarrow> 'f frame_op list \<Rightarrow> nat set \<Rightarrow> (nat option list \<times> nat set) option" where
  "frame_spec_run num lim [] F = Some ([], F)"
| "frame_spec_run num lim (x # xs) F =
     (case frame_spec num lim x F of
        None \<Rightarrow> None
      | Some (r, F') \<Rightarrow> (case frame_spec_run num lim xs F' of None \<Rightarrow> None | Some (rs, F'') \<Rightarrow> Some (r # rs, F'')))"

lemma finite_free: "finite (free_frames num ss)"
  by (simp add: free_frames_def frames_of_def)

context phys_frames
begin

text \<open>First fit: the range found holds the least run of free frames that is long enough.\<close>

lemma first_fit_least:
  assumes ok: "ranges_ok num lim 1 ss" and k: "0 < k" and i: "find_pos (\<lambda>s. k \<le> mr_pages s) ss = Some i"
  shows "{num (mr_start (ss ! i))..<num (mr_start (ss ! i)) + k} \<subseteq> free_frames num ss"
    and "(LEAST a. {a..<a + k} \<subseteq> free_frames num ss) = num (mr_start (ss ! i))"
proof -
  from i have i': "i < length ss" "k \<le> mr_pages (ss ! i)" "\<forall>j<i. \<not> k \<le> mr_pages (ss ! j)" by (simp_all add: find_pos_Some)
  show run: "{num (mr_start (ss ! i))..<num (mr_start (ss ! i)) + k} \<subseteq> free_frames num ss"
    using i'(1,2) by (force simp: free_frames_def frames_of_def fin_def)
  show "(LEAST a. {a..<a + k} \<subseteq> free_frames num ss) = num (mr_start (ss ! i))"
  proof (rule Least_equality, rule run)
    fix a
    assume a: "{a..<a + k} \<subseteq> free_frames num ss"
    from run_in_range [OF ok k a] obtain j where j: "j < length ss" "{a..<a + k} \<subseteq> frames_of num (ss ! j)"
      by (auto simp: in_set_conv_nth)
    then have "num (mr_start (ss ! j)) \<le> a \<and> a + k \<le> fin num (ss ! j)" using k by (simp add: frames_of_def)
    then have "k \<le> mr_pages (ss ! j)" and le: "num (mr_start (ss ! j)) \<le> a" by (simp_all add: fin_def)
    then have "i \<le> j" using i'(3) by (meson not_le)
    moreover have "fin num (ss ! i) + 1 \<le> num (mr_start (ss ! j))" if "i < j"
      using ok j(1) that by (simp add: ranges_ok_def sorted_wrt_iff_nth_less)
    ultimately have "num (mr_start (ss ! i)) \<le> num (mr_start (ss ! j))"
      by (cases "i = j") (auto simp: fin_def)
    with le show "num (mr_start (ss ! i)) \<le> a" by simp
  qed
qed

lemma frame_perform_ok:
  assumes ok: "ranges_ok num lim 1 ss" and sp: "frame_spec num lim x (free_frames num ss) = Some (r, F)"
  shows "runs (frame_perform ops x) \<lparr>segments = ss\<rparr> (\<lambda>r' fa. map_option num r' = r \<and>
    free_frames num (segments fa) = F \<and> ranges_ok num lim 1 (segments fa))"
proof (cases x)
  case OpAlloc
  have "num f = Min (free_frames num ss)" if "num f \<in> free_frames num ss" "\<forall>x \<in> free_frames num ss. num f \<le> x" for f
    using that finite_free [of num ss] by (intro Min_eqI [symmetric]) auto
  with sp OpAlloc ok show ?thesis
    by (auto split: option.splits if_splits intro!: runs_mono [OF allocate_ok [OF ok]] simp del: One_nat_def)
next
  case (OpAllocRange k)
  then have k: "0 < k" using sp by (auto split: if_splits)
  show ?thesis
    unfolding OpAllocRange frame_perform.simps
  proof (rule runs_mono [OF alloc_range_ok [OF ok k]], goal_cases)
    case (1 r' fa)
    show ?case
    proof (cases r')
      case None
      with 1 have none: "\<forall>s \<in> set ss. mr_pages s < k" "segments fa = ss" by simp_all
      have "\<not> {a..<a + k} \<subseteq> free_frames num ss" for a
        using run_in_range [OF ok k, of a] none(1) k by (force simp: frames_of_def fin_def)
      with None none ok sp k show ?thesis by (auto simp: OpAllocRange)
    next
      case (Some f)
      with 1 obtain i where "find_pos (\<lambda>s. k \<le> mr_pages s) ss = Some i" "f = mr_start (ss ! i)"
        and fa: "free_frames num (segments fa) = free_frames num ss - {num f..<num f + k}" "ranges_ok num lim 1 (segments fa)"
        by auto
      with first_fit_least [OF ok k] have "{num f..<num f + k} \<subseteq> free_frames num ss"
        "(LEAST a. {a..<a + k} \<subseteq> free_frames num ss) = num f" by metis+
      with Some fa sp k show ?thesis by (auto simp: OpAllocRange Let_def split: if_splits)
    qed
  qed
next
  case (OpDealloc f)
  with sp have f: "num f \<notin> free_frames num ss" "num f + 1 < lim" "r = None" "F = insert (num f) (free_frames num ss)"
    by (auto split: if_splits)
  from deallocate_ok [OF ok f(1,2)] f(3,4) OpDealloc show ?thesis by (auto simp: runs_bnd runs_ret elim!: runs_mono)
qed

lemma frame_run_ok:
  "ranges_ok num lim 1 ss \<Longrightarrow> frame_spec_run num lim xs (free_frames num ss) = Some (rs, F) \<Longrightarrow>
   runs (map_each xs (frame_perform ops)) \<lparr>segments = ss\<rparr> (\<lambda>rs' fa. map (map_option num) rs' = rs \<and>
     free_frames num (segments fa) = F \<and> ranges_ok num lim 1 (segments fa))"
proof (induction xs arbitrary: ss rs)
  case (Cons x xs)
  from Cons.prems(2) obtain r F1 rs1 where x: "frame_spec num lim x (free_frames num ss) = Some (r, F1)"
    "frame_spec_run num lim xs F1 = Some (rs1, F)" "rs = r # rs1" by (auto split: option.splits prod.splits)
  show ?case
    unfolding map_each.simps runs_bnd
  proof (rule runs_mono [OF frame_perform_ok [OF Cons.prems(1) x(1)]], goal_cases)
    case (1 r' fa)
    then have "fa = \<lparr>segments = segments fa\<rparr>" "frame_spec_run num lim xs (free_frames num (segments fa)) = Some (rs1, F)"
      using x(2) by simp_all
    with 1 Cons.IH [of "segments fa" rs1] x(3) show ?case by (auto simp: runs_ret elim!: runs_mono)
  qed
qed (simp add: runs_ret)

end

text \<open>
  C10: on merged ranges the frame allocator answers every sequence of requests as the set of free
  frame numbers does: the least free frame, the least run of frames of the wanted length and
  \<open>None\<close> only when there is no such run; frames given back are free and ranges stay merged.
\<close>

theorem frame_refines_set:
  assumes "phys_frames ops num lim" and "ranges_ok num lim 1 ss"
    and "frame_spec_run num lim xs (free_frames num ss) = Some (rs, F)"
  shows "runs (map_each xs (frame_perform ops)) \<lparr>segments = ss\<rparr> (\<lambda>rs' fa. map (map_option num) rs' = rs \<and>
    free_frames num (segments fa) = F \<and> ranges_ok num lim 1 (segments fa))"
  by (rule phys_frames.frame_run_ok [OF assms])

definition sample_ranges :: "40 word memory_range list" where
  "sample_ranges = [\<lparr>mr_start = 1, mr_pages = 3\<rparr>, \<lparr>mr_start = 10, mr_pages = 2\<rparr>]"

lemma sample_ranges:
  "ranges_ok unat (2 ^ 40) 1 sample_ranges" "free_frames unat sample_ranges = {1, 2, 3, 10, 11}"
  by (auto simp: sample_ranges_def fin_def frames_of_def)

lemma sample_spec:
  "frame_spec_run unat (2 ^ 40) [OpAlloc, OpAllocRange 2, OpDealloc (1 :: 40 word)] {1, 2, 3, 10, 11} =
     Some ([Some 1, Some 2, None], {1, 10, 11})"
proof -
  have "(LEAST a. {a..<a + 2} \<subseteq> {2, 3, 10, 11 :: nat}) = 2"
  proof (rule Least_equality)
    show "y \<ge> 2" if "{y..<y + 2} \<subseteq> {2, 3, 10, 11 :: nat}" for y
    proof -
      have "y \<in> {y..<y + 2}" by simp
      with that have "y \<in> {2, 3, 10, 11}" by blast
      then show ?thesis by auto
    qed
  qed auto
  moreover have "{2..<4} \<subseteq> {2, 3, 10, 11 :: nat}" by auto
  then have "\<exists>a. {a..<a + 2} \<subseteq> {2, 3, 10, 11 :: nat}" by (intro exI [of _ 2]) simp
  moreover have "{2, 3, 10, 11} - {2..<4} = {10, 11 :: nat}" by auto
  moreover have "{1, 2, 3, 10, 11} - {1} = {2, 3, 10, 11 :: nat}" by auto
  ultimately show ?thesis by (simp add: Let_def)
qed

theorem frame_refines_set_witness:
  "runs (map_each [OpAlloc, OpAllocRange 2, OpDealloc 1] (frame_perform x86_frames)) \<lparr>segments = sample_ranges\<rparr>
     (\<lambda>rs' fa. map (map_option unat) rs' = [Some 1, Some 2, None] \<and> free_frames unat (segments fa) = {1, 10, 11} \<and>
        ranges_ok unat (2 ^ 40) 1 (segments fa))"
  by (rule frame_refines_set [OF x86.phys_frames_axioms sample_ranges(1)]) (unfold sample_ranges(2), rule sample_spec)

text \<open>
  C40: the allocator does not notice a frame that is given back twice: the frame is in two ranges
  afterwards, to be handed out twice.
\<close>

theorem frame_double_free:
  assumes "phys_frames ops num lim" and "ranges_ok num lim 1 ss" and "num f \<in> free_frames num ss"
  shows "runs (FrameAllocator_deallocate ops f) \<lparr>segments = ss\<rparr> (\<lambda>_ fa.
    2 \<le> length (filter (\<lambda>r. num f \<in> frames_of num r) (segments fa)))"
  by (rule runs_mono [OF phys_frames.deallocate_twice [OF assms]]) (auto simp: frames_of_def fin_def)

theorem frame_double_free_witness:
  "runs (FrameAllocator_deallocate x86_frames 2) \<lparr>segments = sample_ranges\<rparr> (\<lambda>_ fa.
     2 \<le> length (filter (\<lambda>r. 2 \<in> frames_of unat r) (segments fa)))"
  using frame_double_free [OF x86.phys_frames_axioms sample_ranges(1), of 2] by (simp add: sample_ranges(2))

section \<open>The allocator's own test\<close>

definition frame_at :: "'f phys_frame_ops \<Rightarrow> nat \<Rightarrow> ('s, 'f) rust" where
  "frame_at ops n = bnd (pure (phys_addr_new ops (n * 2 ^ 12))) (\<lambda>a. ret (pf_containing_address ops a))"

definition range_at :: "'f phys_frame_ops \<Rightarrow> nat \<Rightarrow> nat \<Rightarrow> ('s, 'f memory_range) rust" where
  "range_at ops n pages = bnd (frame_at ops n) (\<lambda>f. ret \<lparr>mr_start = f, mr_pages = pages\<rparr>)"

definition assert_segment :: "'f phys_frame_ops \<Rightarrow> nat \<Rightarrow> nat \<Rightarrow> nat \<Rightarrow> ('f frame_allocator, unit) rust" where
  "assert_segment ops i n pages =
     bnd (gets segments) (\<lambda>ss.
     bnd (pure (index ss i)) (\<lambda>s.
     bnd (range_at ops n pages) (\<lambda>r. require (s = r) AssertFailed)))"

definition dealloc_at :: "'f phys_frame_ops \<Rightarrow> nat \<Rightarrow> ('f frame_allocator, unit) rust" where
  "dealloc_at ops n = bnd (frame_at ops n) (FrameAllocator_deallocate ops)"

definition case_1 :: "'f phys_frame_ops \<Rightarrow> ('f frame_allocator, unit) rust" where
  "case_1 ops =
     bnd (map_each [(1, 10), (200, 1), (203, 218), (500, 101), (602, 1), (1000, 31)] (\<lambda>(n, p). range_at ops n p)) (\<lambda>v.
     bnd (set_segments v) (\<lambda>_.
     bnd (FrameAllocator_allocate ops) (\<lambda>_.
     bnd (assert_segment ops 0 2 9) (\<lambda>_.
     bnd (dealloc_at ops 11) (\<lambda>_.
     bnd (assert_segment ops 0 2 10) (\<lambda>_.
     bnd (dealloc_at ops 1) (\<lambda>_.
     bnd (assert_segment ops 0 1 11) (\<lambda>_.
     bnd (dealloc_at ops 0) (\<lambda>_.
     bnd (assert_segment ops 0 0 12) (\<lambda>_.
     bnd (FrameAllocator_allocate ops) (\<lambda>_.
     bnd (FrameAllocator_allocate ops) (\<lambda>_.
     bnd (dealloc_at ops 0) (\<lambda>_.
     bnd (assert_segment ops 0 0 1) (\<lambda>_.
     bnd (assert_segment ops 1 2 10) (\<lambda>_.
     bnd (FrameAllocator_allocate ops) (\<lambda>_.
     bnd (dealloc_at ops 199) (\<lambda>_.
     bnd (assert_segment ops 1 199 2) (\<lambda>_.
     bnd (frame_at ops 200) (\<lambda>f.
     bnd (gets segments) (\<lambda>ss.
     bnd (pure (index ss 1)) (\<lambda>s.
     bnd (pure (u64_sub (mr_pages s) 1)) (\<lambda>p.
     bnd (set_segments (ss[1 := \<lparr>mr_start = f, mr_pages = p\<rparr>])) (\<lambda>_.
     bnd (dealloc_at ops 201) (\<lambda>_.
     bnd (assert_segment ops 1 200 2) (\<lambda>_.
     bnd (dealloc_at ops 202) (\<lambda>_.
     bnd (assert_segment ops 1 200 221) (\<lambda>_.
     bnd (assert_segment ops 2 500 101) (\<lambda>_.
     bnd (dealloc_at ops 450) (\<lambda>_.
     bnd (dealloc_at ops 601) (\<lambda>_.
     bnd (assert_segment ops 3 500 103) (\<lambda>_.
     bnd (assert_segment ops 4 1000 31) (\<lambda>_.
     bnd (dealloc_at ops 2000) (\<lambda>_.
     bnd (gets (\<lambda>fa. length (segments fa))) (\<lambda>n.
     assert_segment ops (n - 1) 2000 1))))))))))))))))))))))))))))))))))"

text \<open>
  The repository's test of the frame allocator passes on the model: every assertion of
  \<open>case_1\<close> holds.
\<close>

theorem frame_case_1_passes: "runs (case_1 x86_frames) \<lparr>segments = []\<rparr> (\<lambda>_ _. True)"
  unfolding case_1_def
  by (simp add: wp set_segments_def assert_segment_def range_at_def dealloc_at_def frame_at_def index_def
      FrameAllocator_allocate_def FrameAllocator_deallocate_def end_frame_def merge_at_def x86_frames_def u64_sub_def u64_add_def
      U64_RANGE_def)

section \<open>Memory for drivers\<close>

lemma runs_with_frame:
  "FRAME m = Some fa \<Longrightarrow> runs (with_frame c) m Q \<longleftrightarrow> runs c fa (\<lambda>x fa'. Q x (m\<lparr>FRAME := Some fa'\<rparr>))"
  by (auto simp: runs_def with_frame_def split: sum.splits)

text \<open>The addresses of free frames stay within the part of the address space where memory is mapped.\<close>

definition window_ok :: "nat \<Rightarrow> nat set \<Rightarrow> bool" where
  "window_ok off F \<longleftrightarrow> 2 ^ 64 - 2 ^ 47 \<le> off \<and> (\<forall>x \<in> F. off + (x + 1) * 4096 \<le> U64_RANGE)"

context phys_frames
begin

lemma virtio_dma_alloc_ok:
  assumes m: "FRAME m = Some \<lparr>segments = ss\<rparr>" and ok: "ranges_ok num lim 1 ss" and k: "0 < k"
    and run: "{a..<a + k} \<subseteq> free_frames num ss"
  shows "runs (virtio_dma_alloc ops k) m (\<lambda>p m'. \<exists>b ss'. p = b * 4096 \<and> {b..<b + k} \<subseteq> free_frames num ss \<and>
    m' = m\<lparr>FRAME := Some \<lparr>segments = ss'\<rparr>\<rparr> \<and> ranges_ok num lim 1 ss' \<and>
    free_frames num ss' = free_frames num ss - {b..<b + k})"
  unfolding virtio_dma_alloc_def runs_bnd frame_alloc_range_def runs_with_frame [OF m]
proof (rule runs_mono [OF alloc_range_ok [OF ok k]], goal_cases)
  case (1 r fa)
  show ?case
  proof (cases r)
    case None
    with 1 run_in_range [OF ok k run] k show ?thesis by (force simp: frames_of_def fin_def)
  next
    case (Some f)
    with 1 obtain i where "find_pos (\<lambda>s. k \<le> mr_pages s) ss = Some i" "f = mr_start (ss ! i)"
      and fa: "free_frames num (segments fa) = free_frames num ss - {num f..<num f + k}" "ranges_ok num lim 1 (segments fa)"
      by auto
    with first_fit_least(1) [OF ok k] have "{num f..<num f + k} \<subseteq> free_frames num ss" by metis
    moreover have "phys_addr_new ops (pf_start_address ops f) = Inr (num f * 4096)"
      using num_lim [of f] by (simp add: start_law addr_law)
    ultimately show ?thesis
      using Some fa by (simp add: runs_ret) (intro exI [of _ "segments fa"], simp)
  qed
qed

lemma virtio_dma_dealloc_ok:
  assumes m: "FRAME m = Some \<lparr>segments = ss'\<rparr>" and ok: "ranges_ok num lim 1 ss" "ranges_ok num lim 1 ss'"
    and run: "{b..<b + k} \<subseteq> free_frames num ss" "free_frames num ss' = free_frames num ss - {b..<b + k}" and k: "0 < k"
  shows "runs (virtio_dma_dealloc ops (b * 4096) k) m (\<lambda>_ m'. m' = m\<lparr>FRAME := Some \<lparr>segments = ss\<rparr>\<rparr>)"
proof -
  have lt: "x + 1 < lim" if "x \<in> free_frames num ss" for x
    using that ok(1) by (fastforce simp: free_frames_def frames_of_def ranges_ok_def)
  have "b \<in> {b..<b + k}" using k by simp
  then have "b + 1 < lim" using run(1) lt by blast
  then have frame: "num (pf_containing_address ops (b * 4096)) = b" using containing_law [of "b * 4096"] by simp
  have "runs (for_each xs (\<lambda>i. bnd (pure (pf_add ops (pf_containing_address ops (b * 4096)) i)) (frame_dealloc ops))) m'
      (\<lambda>_ m''. m'' = m\<lparr>FRAME := Some \<lparr>segments = ss\<rparr>\<rparr>)"
    if "j \<le> k" "xs = [j..<k]" "m' = m\<lparr>FRAME := Some \<lparr>segments = ss''\<rparr>\<rparr>" "ranges_ok num lim 1 ss''"
      "free_frames num ss'' = free_frames num ss - {b + j..<b + k}" for xs j m' ss''
    using that
  proof (induction xs arbitrary: j m' ss'')
    case Nil
    then have "\<not> j < k" by (cases "j < k") (simp_all add: upt_conv_Cons)
    then have "j = k" using Nil(1) by simp
    with Nil(5) have "free_frames num ss'' = free_frames num ss" by simp
    then have "ss'' = ss" by (rule ranges_unique [OF Nil(4) ok(1)])
    with Nil(3) show ?case by (simp add: runs_ret)
  next
    case (Cons x xs)
    from Cons.prems(2) [symmetric] have j: "x = j" "j < k" "xs = [Suc j..<k]" by (auto simp: upt_eq_Cons_conv)
    have free: "b + j \<in> free_frames num ss" using run(1) j(2) by auto
    then obtain g where g: "pf_add ops (pf_containing_address ops (b * 4096)) j = Inr g" "num g = b + j"
      using add_law [of "pf_containing_address ops (b * 4096)" j] frame lt [OF free] by auto
    have m': "FRAME m' = Some \<lparr>segments = ss''\<rparr>" using Cons.prems(3) by simp
    have f: "num g \<notin> free_frames num ss''" "num g + 1 < lim"
      unfolding Cons.prems(5) g(2) using j(2) lt [OF free] by simp_all
    have eq: "insert (num g) (free_frames num ss'') = free_frames num ss - {b + Suc j..<b + k}"
      unfolding Cons.prems(5) g(2) using free j(2) by auto
    have step: "runs (for_each xs (\<lambda>i. bnd (pure (pf_add ops (pf_containing_address ops (b * 4096)) i)) (frame_dealloc ops)))
        (m'\<lparr>FRAME := Some fa\<rparr>) (\<lambda>_ m''. m'' = m\<lparr>FRAME := Some \<lparr>segments = ss\<rparr>\<rparr>)"
      if "free_frames num (segments fa) = insert (num g) (free_frames num ss'')" "ranges_ok num lim 1 (segments fa)" for fa
      by (rule Cons.IH [of "Suc j" _ "segments fa"]) (use that j Cons.prems(3) eq in simp_all)
    have "runs (frame_dealloc ops g) m' (\<lambda>_ s. runs (for_each xs (\<lambda>i. bnd (pure (pf_add ops (pf_containing_address ops (b * 4096)) i))
        (frame_dealloc ops))) s (\<lambda>_ m''. m'' = m\<lparr>FRAME := Some \<lparr>segments = ss\<rparr>\<rparr>))"
      unfolding frame_dealloc_def [of ops g] runs_with_frame [OF m']
      by (rule runs_mono [OF deallocate_ok [OF Cons.prems(4) f order_refl]], elim conjE) (rule step)
    then show ?case by (simp add: runs_bnd j(1) g(1) runs_ret)
  qed
  from this [of 0 "[0..<k]" m ss'] m ok(2) run(2) show ?thesis by (simp add: virtio_dma_dealloc_def)
qed

lemma dma_addresses:
  assumes "window_ok off F" and "b \<in> F"
  shows "sbnd (u64_add (b * 4096) off) (virt_addr_new ops) = Inr (off + b * 4096)"
proof -
  have "off + b * 4096 < U64_RANGE" "2 ^ 64 - 2 ^ 47 \<le> off" using assms by (force simp: window_ok_def)+
  then show ?thesis by (simp add: u64_add_def add.commute virt_law canonical_def U64_RANGE_def)
qed

lemma alloc_dma_ok:
  assumes m: "FRAME m = Some \<lparr>segments = ss\<rparr>" and ok: "ranges_ok num lim 1 ss" and sz: "0 < sz" "sz + 4096 < U64_RANGE"
    and run: "{a..<a + cdiv sz 4096} \<subseteq> free_frames num ss" and win: "window_ok (PHYSICAL_MEMORY_OFFSET m) (free_frames num ss)"
  shows "runs (alloc_dma ops sz) m (\<lambda>(v, p) m'. \<exists>b ss'. p = b * 4096 \<and> v = PHYSICAL_MEMORY_OFFSET m + p \<and>
    {b..<b + cdiv sz 4096} \<subseteq> free_frames num ss \<and> m' = m\<lparr>FRAME := Some \<lparr>segments = ss'\<rparr>\<rparr> \<and> ranges_ok num lim 1 ss' \<and>
    free_frames num ss' = free_frames num ss - {b..<b + cdiv sz 4096})"
proof -
  have k: "div_ceil sz PAGE_SIZE = Inr (cdiv sz 4096)" "0 < cdiv sz 4096"
    using sz cdiv_eq_0_iff [of 4096 sz] by (auto simp: PAGE_SIZE_def cdiv_def)
  show ?thesis
    unfolding alloc_dma_def k(1) pure_Inr bnd_ret runs_bnd
  proof (rule runs_mono [OF virtio_dma_alloc_ok [OF m ok k(2) run]], elim exE conjE)
    fix p b ss' and m' :: "'f memory"
    assume a: "p = b * 4096" "{b..<b + cdiv sz 4096} \<subseteq> free_frames num ss" "m' = m\<lparr>FRAME := Some \<lparr>segments = ss'\<rparr>\<rparr>"
      "ranges_ok num lim 1 ss'" "free_frames num ss' = free_frames num ss - {b..<b + cdiv sz 4096}"
    have "b \<in> {b..<b + cdiv sz 4096}" using k(2) by simp
    with a(2) have "b \<in> free_frames num ss" by blast
    from dma_addresses [OF win this] a show "runs (to_virt_addr ops p) m' (\<lambda>v s. runs (ret (v, p)) s (\<lambda>(v, p) m'. \<exists>b ss'.
        p = b * 4096 \<and> v = PHYSICAL_MEMORY_OFFSET m + p \<and> {b..<b + cdiv sz 4096} \<subseteq> free_frames num ss \<and>
        m' = m\<lparr>FRAME := Some \<lparr>segments = ss'\<rparr>\<rparr> \<and> ranges_ok num lim 1 ss' \<and>
        free_frames num ss' = free_frames num ss - {b..<b + cdiv sz 4096}))"
      by (auto simp: to_virt_addr_def runs_bnd runs_gets runs_pure runs_ret)
  qed
qed

lemma dealloc_dma_ok:
  assumes m: "FRAME m = Some \<lparr>segments = ss'\<rparr>" and ok: "ranges_ok num lim 1 ss" "ranges_ok num lim 1 ss'"
    and run: "{b..<b + cdiv sz 4096} \<subseteq> free_frames num ss" "free_frames num ss' = free_frames num ss - {b..<b + cdiv sz 4096}"
    and sz: "0 < sz" "sz + 4096 < U64_RANGE"
  shows "runs (dealloc_dma ops (PHYSICAL_MEMORY_OFFSET m + b * 4096) sz) m (\<lambda>_ m'. m' = m\<lparr>FRAME := Some \<lparr>segments = ss\<rparr>\<rparr>)"
proof -
  have k: "div_ceil sz PAGE_SIZE = Inr (cdiv sz 4096)" "0 < cdiv sz 4096"
    using sz cdiv_eq_0_iff [of 4096 sz] by (auto simp: PAGE_SIZE_def cdiv_def)
  have "b \<in> {b..<b + cdiv sz 4096}" using k(2) by simp
  then have "b \<in> free_frames num ss" using run(1) by blast
  then have "b < lim" using ok(1) by (fastforce simp: free_frames_def frames_of_def ranges_ok_def)
  then have "phys_addr_new ops (b * 4096) = Inr (b * 4096)" by (simp add: addr_law)
  with virtio_dma_dealloc_ok [OF m ok run k(2)] k(1) show ?thesis
    by (simp add: dealloc_dma_def to_phys_addr_def runs_bnd runs_gets runs_pure u64_sub_def)
qed

end



section \<open>The heap\<close>

text \<open>
  C33: as long as the address space lasts, the heap hands out aligned blocks that lie behind each
  other, so no two of them overlap; a block costs at most its size and one alignment.
\<close>

theorem heap_blocks_disjoint:
  assumes "\<forall>l \<in> set ls. 0 < lay_align l" and "v + sum_list (map (\<lambda>l. lay_align l + lay_size l) ls) < U64_RANGE"
  shows "runs (map_each ls Allocator_alloc) v (\<lambda>ps v'. length ps = length ls \<and>
    (\<forall>i < length ls. lay_align (ls ! i) dvd ps ! i \<and> v < ps ! i \<and> ps ! i + lay_size (ls ! i) \<le> v') \<and>
    (\<forall>j < length ls. \<forall>i < j. ps ! i + lay_size (ls ! i) \<le> ps ! j) \<and>
    v \<le> v' \<and> v' \<le> v + sum_list (map (\<lambda>l. lay_align l + lay_size l) ls))"
  using assms
proof (induction ls arbitrary: v)
  case (Cons l ls)
  let ?p = "v + lay_align l - v mod lay_align l"
  have al: "v mod lay_align l < lay_align l" using Cons.prems(1) by simp
  have "?p = (v - v mod lay_align l) + lay_align l" using mod_less_eq_dividend [of v "lay_align l"] by simp
  then have "lay_align l dvd ?p" using dvd_minus_mod [of "lay_align l" v] by (metis dvd_add dvd_refl)
  then have p: "lay_align l dvd ?p" "v < ?p" "?p \<le> v + lay_align l" using al by simp_all
  let ?v = "?p + lay_size l"
  have fit: "?v + sum_list (map (\<lambda>l. lay_align l + lay_size l) ls) < U64_RANGE" using Cons.prems(2) p(3) by simp
  have step: "Allocator_alloc l v = Inr (?p, ?v)"
    using fit Cons.prems(2) al by (simp add: Allocator_alloc_def bnd_def gets_def pure_def upd_def ret_def u64_add_def u64_sub_def)
  have "\<forall>l \<in> set ls. 0 < lay_align l" using Cons.prems(1) by simp
  note IH = Cons.IH [OF this fit]
  show ?case
    unfolding map_each.simps runs_bnd
    by (simp add: runs_def [of "Allocator_alloc l"] step, rule runs_mono [OF IH])
      (use p in \<open>auto simp: runs_ret less_Suc_eq_0_disj nth_Cons' split: if_splits\<close>)
qed (simp add: runs_ret)

theorem heap_blocks_disjoint_witness:
  "runs (map_each [\<lparr>lay_size = 24, lay_align = 8\<rparr>, \<lparr>lay_size = 3, lay_align = 1\<rparr>, \<lparr>lay_size = 64, lay_align = 64\<rparr>] Allocator_alloc) HEAP_START
     (\<lambda>ps v'. length ps = 3 \<and> v' \<le> HEAP_START + 164)"
  using heap_blocks_disjoint [of "[\<lparr>lay_size = 24, lay_align = 8\<rparr>, \<lparr>lay_size = 3, lay_align = 1\<rparr>, \<lparr>lay_size = 64, lay_align = 64\<rparr>]" HEAP_START]
  by (auto simp: HEAP_START_def U64_RANGE_def simp del: map_each.simps elim!: runs_mono)

end
