(* ===== verification/Kernel_Properties.thy ===== *)
theory Kernel_Properties
  imports Kernel_Disk Memory_Properties
begin

text \<open>
  From the image tool to the kernel: a drive with a partition that holds the tool's image is found,
  mounted and read by the kernel, and the rest of the drive is left alone.
\<close>

context block_device
begin

lemma cafs_rel_dev: "cafs_rel fs n a hs st \<Longrightarrow> dinv (dev (device (blk_cache st)))"
  by (auto simp: cafs_rel_def fs_state_def store_at_def cm_ok_def dev_ok_def)

end

lemma collect_partitions_ok:
  assumes "guid_from_str gpt PARTITION_UUID = Some g"
  shows "collect_partitions gpt es = Inr (map (\<lambda>p. \<lparr>starting_lba = ge_starting_lba p, ending_lba = ge_ending_lba p,
    pt_name = ge_name p, pt_guid = partition_type_guid p\<rparr>) (filter (\<lambda>p. partition_type_guid p = g) es))"
  using assms by (induction es) auto

lemma runs_on_memory: "runs (on_memory m) k Q \<longleftrightarrow> runs m (kernel_memory k) (\<lambda>x s. Q x (k\<lparr>kernel_memory := s\<rparr>))"
  by (simp add: on_memory_def runs_zoom)

lemma to_virt_addr_ok:
  assumes "phys_frames fops num lim" and "canonical (a + PHYSICAL_MEMORY_OFFSET m)"
  shows "runs (to_virt_addr fops a) m (\<lambda>v m'. v = a + PHYSICAL_MEMORY_OFFSET m \<and> m' = m)"
proof -
  have "a + PHYSICAL_MEMORY_OFFSET m < U64_RANGE" using assms(2) by (auto simp: canonical_def U64_RANGE_def)
  then show ?thesis
    using phys_frames.virt_law [OF assms] by (simp add: to_virt_addr_def runs_bnd runs_gets u64_add_def runs_ret)
qed

context ahci_drive
begin

lemma read_blocks_ok:
  "drive_ok d \<Longrightarrow> \<forall>i \<in> set is. i < drive_size d \<Longrightarrow> read_blocks ops d is = Inr (concat (map (medium d) is))"
  by (induction "is") (simp_all add: AHCIDriver_read_block_def drive_read BLOCK_SIZE_def)

lemma init_sata_ok:
  assumes fr: "phys_frames fops num lim" "canonical (bar_addr + PHYSICAL_MEMORY_OFFSET (kernel_memory k))"
    and d: "ahci_new ops (bar_addr + PHYSICAL_MEMORY_OFFSET (kernel_memory k)) bar_len = Some d" "drive_ok d"
      "drive_size d = cnt" "2048 \<le> cnt"
    and gpt: "read_gpt gpt (concat (map (medium d) [0..<2048])) = Inr ents" "guid_from_str gpt PARTITION_UUID = Some g"
      "filter (\<lambda>p. partition_type_guid p = g) ents = e # es"
    and part: "off = ge_starting_lba e" "off + n \<le> cnt"
      "holds fs n (image_abs n file) (\<lambda>i. if i < n then medium d (off + i) else [])" and stack: "2 \<le> stack"
  shows "runs (init_sata stack fops ops gpt irq bar_addr bar_len) k (\<lambda>_ k'. \<exists>v. k' = k\<lparr>kernel_vfs := Some (fs, v)\<rparr> \<and>
    dentry_cache v = image_tree \<and> part.cafs_rel off n cnt (medium d) fs n (mounted_image n file) [] (primary_partition v))"
proof -
  let ?dev = "\<lparr>vtable = blk_vtable ops, dev = \<lparr>blk_offset = off, blk_driver = d\<rparr>\<rparr>"
  have dev: "dev_ok (blk_vtable ops) (part_inv off n cnt (medium d)) ?dev"
    using d part by (simp add: dev_ok_def part_inv_def)
  have h: "holds fs n (image_abs n file) (\<lambda>i. if i < n then medium (blk_driver (dev ?dev)) (off + i) else [])"
    unfolding dyn_block_device.simps blk.simps by (rule part(3))
  from part.mount_image [OF dev refl stack h] obtain v where v: "VFS_new stack ?dev = Inr (fs, v)"
    "dentry_cache v = image_tree" "part.cafs_rel off n cnt (medium d) fs n (mounted_image n file) [] (primary_partition v)" .
  have rd: "read_blocks ops d [0..<2048] = Inr (concat (map (medium d) [0..<2048]))"
    using d(2-4) by (intro read_blocks_ok) auto
  have p: "collect_partitions gpt ents = Inr (\<lparr>starting_lba = off, ending_lba = ge_ending_lba e, pt_name = ge_name e,
      pt_guid = partition_type_guid e\<rparr> # map (\<lambda>p. \<lparr>starting_lba = ge_starting_lba p, ending_lba = ge_ending_lba p,
      pt_name = ge_name p, pt_guid = partition_type_guid p\<rparr>) es)"
    using collect_partitions_ok [OF gpt(2), of ents] gpt(3) part(1) by simp
  show ?thesis
    unfolding init_sata_def runs_bnd runs_on_memory
    by (rule runs_mono [OF to_virt_addr_ok [OF fr]])
      (use v in \<open>auto simp: ahci_init_def d(1) rd gpt(1) p index_def Let_def runs_upd\<close>)
qed

lemma boot_image:
  assumes "phys_frames fops num lim"
    and "canonical (bar_addr + PHYSICAL_MEMORY_OFFSET (kernel_memory k))"
    and "ahci_new ops (bar_addr + PHYSICAL_MEMORY_OFFSET (kernel_memory k)) bar_len = Some d" and "drive_ok d"
    and "2048 \<le> drive_size d"
    and "read_gpt gpt (concat (map (medium d) [0..<2048])) = Inr ents" and "guid_from_str gpt PARTITION_UUID = Some g"
    and "filter (\<lambda>p. partition_type_guid p = g) ents = e # es"
    and "ge_starting_lba e + 2048 * sz \<le> drive_size d"
    and "image_fits (2048 * sz) file" and "create_img sz (Some file) = Inr img"
    and "\<forall>i < 2048 * sz. medium d (ge_starting_lba e + i) = take BLOCK_SIZE (drop (i * BLOCK_SIZE) img)" and "2 \<le> stack"
  shows "runs (bnd (init_sata stack fops ops gpt irq bar_addr bar_len) (\<lambda>_. hello_contents)) k (\<lambda>r k'. r = file \<and>
    (\<exists>fs v. kernel_vfs k' = Some (fs, v) \<and> (\<forall>j < drive_size d. j < ge_starting_lba e \<or> ge_starting_lba e + 2048 * sz \<le> j \<longrightarrow>
       medium (blk_driver (dev (device (blk_cache (primary_partition v))))) j = medium d j)))"
proof -
  let ?n = "2048 * sz" and ?off = "ge_starting_lba e"
  from create_img_ok [OF refl assms(10)] obtain fs d' where d': "create_img sz (Some file) = Inr (concat (data d'))" "disk_inv d'"
    "total_blocks d' = ?n" "holds fs ?n (image_abs ?n file) (\<lambda>i. if i < ?n then disk_block d' i else [])" .
  have img: "img = concat (data d')" using d'(1) assms(11) by simp
  have "medium d (?off + i) = disk_block d' i" if "i < ?n" for i
    using assms(12) that nth_block_concat [of BLOCK_SIZE "data d'" i] d'(2,3) by (simp add: img disk_inv_def disk_block_def)
  then have "(\<lambda>i. if i < ?n then disk_block d' i else []) = (\<lambda>i. if i < ?n then medium d (?off + i) else [])"
    by (simp add: fun_eq_iff)
  with d'(4) have h: "holds fs ?n (image_abs ?n file) (\<lambda>i. if i < ?n then medium d (?off + i) else [])" by simp
  note rel = init_sata_ok [OF assms(1-4) refl assms(5-8) refl assms(9) h assms(13), of irq]
  have rd: "runs hello_contents (k\<lparr>kernel_vfs := Some (fs, v)\<rparr>) (\<lambda>r k'. r = file \<and> (\<exists>fs v. kernel_vfs k' = Some (fs, v) \<and>
      (\<forall>j < drive_size d. j < ?off \<or> ?off + ?n \<le> j \<longrightarrow>
        medium (blk_driver (dev (device (blk_cache (primary_partition v))))) j = medium d j)))"
    if "part.cafs_rel ?off ?n (drive_size d) (medium d) fs ?n (mounted_image ?n file) [] (primary_partition v)" "dentry_cache v = image_tree" for v
  proof -
    from part.read_image(2) [OF that] obtain v' where v': "VFS_read_unstable (cafs_vtable fs) (bytes_of ''/hello'') v = Inr (Inr file, v')"
      "part.cafs_rel ?off ?n (drive_size d) (medium d) fs ?n (mounted_image ?n file) [] (primary_partition v')"
      by (auto simp: runs_iff_result)
    have "part_inv ?off ?n (drive_size d) (medium d) (dev (device (blk_cache (primary_partition v'))))"
      by (rule part.cafs_rel_dev [OF v'(2)])
    with v'(1) show ?thesis by (simp add: runs_def hello_contents_def part_inv_def)
  qed
  show ?thesis
    unfolding runs_bnd by (rule runs_mono [OF rel]) (use rd in auto)
qed

end

text \<open>
  C4: a kernel that finds a partition with the tool's image mounts it and reads the program
  \<^verbatim>\<open>hello\<close> as the tool was given it; the blocks of the drive outside the partition are as before.
\<close>

theorem kernel_boots_image:
  assumes "ahci_drive ops drive_ok drive_size medium" and "phys_frames fops num lim"
    and "canonical (bar_addr + PHYSICAL_MEMORY_OFFSET (kernel_memory k))"
    and "ahci_new ops (bar_addr + PHYSICAL_MEMORY_OFFSET (kernel_memory k)) bar_len = Some d" and "drive_ok d"
    and "2048 \<le> drive_size d"
    and "read_gpt gpt (concat (map (medium d) [0..<2048])) = Inr ents" and "guid_from_str gpt PARTITION_UUID = Some g"
    and "filter (\<lambda>p. partition_type_guid p = g) ents = e # es"
    and "ge_starting_lba e + 2048 * sz \<le> drive_size d"
    and "image_fits (2048 * sz) file" and "create_img sz (Some file) = Inr img"
    and "\<forall>i < 2048 * sz. medium d (ge_starting_lba e + i) = take BLOCK_SIZE (drop (i * BLOCK_SIZE) img)" and "2 \<le> stack"
  shows "runs (bnd (init_sata stack fops ops gpt irq bar_addr bar_len) (\<lambda>_. hello_contents)) k (\<lambda>r k'. r = file \<and>
    (\<exists>fs v. kernel_vfs k' = Some (fs, v) \<and> (\<forall>j < drive_size d. j < ge_starting_lba e \<or> ge_starting_lba e + 2048 * sz \<le> j \<longrightarrow>
       medium (blk_driver (dev (device (blk_cache (primary_partition v))))) j = medium d j)))"
  by (rule ahci_drive.boot_image [OF assms])

text \<open>A drive with the image of the tool's default size behind 2048 empty blocks.\<close>

definition sample_gpt :: "unit gpt_ops" where
  "sample_gpt = \<lparr>read_gpt = (\<lambda>_. Inr [\<lparr>partition_type_guid = (), ge_starting_lba = 2048, ge_ending_lba = 104447, ge_name = []\<rparr>]),
     guid_from_str = (\<lambda>_. Some ())\<rparr>"

definition sample_kernel :: "(40 word, disk) kernel" where
  "sample_kernel = \<lparr>kernel_memory = \<lparr>FRAME = None, PHYSICAL_MEMORY_OFFSET = 0xffff900000000000, KERNEL_P4_TABLE = 0\<rparr>, kernel_vfs = None\<rparr>"

definition sample_drive :: "disk \<Rightarrow> disk" where
  "sample_drive d = \<lparr>total_blocks = 2048 + total_blocks d, data = replicate 2048 (replicate BLOCK_SIZE 0) @ data d\<rparr>"

definition sample_entry :: "unit gpt_entry" where
  "sample_entry = \<lparr>partition_type_guid = (), ge_starting_lba = 2048, ge_ending_lba = 104447, ge_name = []\<rparr>"

lemma sample_gpt_simps:
  "read_gpt sample_gpt xs = Inr [sample_entry]" "guid_from_str sample_gpt ys = Some ()"
  "filter (\<lambda>p. partition_type_guid p = ()) [sample_entry] = [sample_entry]" "ge_starting_lba sample_entry = 2048"
  by (simp_all add: sample_gpt_def sample_entry_def)

lemma sample_drive_blocks:
  assumes "disk_inv d" and "total_blocks d = 102400"
  shows "disk_inv (sample_drive d)" "total_blocks (sample_drive d) = 104448"
    "\<forall>i < 2048 * 50. disk_block (sample_drive d) (2048 + i) = take BLOCK_SIZE (drop (i * BLOCK_SIZE) (concat (data d)))"
  using assms nth_block_concat [of BLOCK_SIZE "data d"]
  by (auto simp: disk_inv_def sample_drive_def list_all_iff U64_RANGE_def disk_block_def nth_append)

lemma sample_image:
  obtains d where "create_img 50 (Some [127, 69, 76, 70]) = Inr (concat (data d))"
    and "canonical (0xfebf1000 + PHYSICAL_MEMORY_OFFSET (kernel_memory sample_kernel))"
    and "ahci_new (disk_drive (sample_drive d)) (0xfebf1000 + PHYSICAL_MEMORY_OFFSET (kernel_memory sample_kernel)) 4096 = Some (sample_drive d)"
    and "disk_inv (sample_drive d)" and "2048 \<le> total_blocks (sample_drive d)"
    and "ge_starting_lba sample_entry + 2048 * 50 \<le> total_blocks (sample_drive d)"
    and "\<forall>i < 2048 * 50. disk_block (sample_drive d) (ge_starting_lba sample_entry + i) = take BLOCK_SIZE (drop (i * BLOCK_SIZE) (concat (data d)))"
proof -
  have fits: "image_fits (2048 * 50) [127, 69, 76, 70]" using default_fits by simp
  from create_img_ok [OF refl fits] obtain fs d where img: "create_img 50 (Some [127, 69, 76, 70]) = Inr (concat (data d))"
    and d: "disk_inv d" "total_blocks d = 2048 * 50" .
  have "total_blocks d = 102400" using d(2) by simp
  note drive = sample_drive_blocks [OF d(1) this]
  show thesis
    by (rule that [OF img]) (use drive in \<open>simp_all add: sample_kernel_def canonical_def disk_drive_def sample_gpt_simps\<close>)
qed

theorem kernel_boots_image_witness:
  "\<exists>d. runs (bnd (init_sata 2 x86_frames (disk_drive d) sample_gpt None 0xfebf1000 4096) (\<lambda>_. hello_contents)) sample_kernel
    (\<lambda>r k'. r = [127, 69, 76, 70] \<and> (\<exists>fs v. kernel_vfs k' = Some (fs, v) \<and> (\<forall>j < total_blocks d. j < 2048 \<or> 2048 + 2048 * 50 \<le> j \<longrightarrow>
       disk_block (blk_driver (dev (device (blk_cache (primary_partition v))))) j = disk_block d j)))"
proof -
  have fits: "image_fits (2048 * 50) [127, 69, 76, 70]" using default_fits by simp
  from sample_image obtain d where d: "create_img 50 (Some [127, 69, 76, 70]) = Inr (concat (data d))"
    "canonical (0xfebf1000 + PHYSICAL_MEMORY_OFFSET (kernel_memory sample_kernel))"
    "ahci_new (disk_drive (sample_drive d)) (0xfebf1000 + PHYSICAL_MEMORY_OFFSET (kernel_memory sample_kernel)) 4096 = Some (sample_drive d)"
    "disk_inv (sample_drive d)" "2048 \<le> total_blocks (sample_drive d)"
    "ge_starting_lba sample_entry + 2048 * 50 \<le> total_blocks (sample_drive d)"
    "\<forall>i < 2048 * 50. disk_block (sample_drive d) (ge_starting_lba sample_entry + i) = take BLOCK_SIZE (drop (i * BLOCK_SIZE) (concat (data d)))" .
  from kernel_boots_image [OF disk_ahci.ahci_drive_axioms x86.phys_frames_axioms d(2-5)
      sample_gpt_simps(1,2,3) d(6) fits d(1,7) order_refl, of None]
  show ?thesis unfolding sample_gpt_simps(4) by blast
qed

text \<open>
  The start of the first process panics once \<^verbatim>\<open>hello\<close> has been read: the address in its assertion is
  not a multiple of eight, the alignment of the header of a 64-bit ELF file.
\<close>

theorem process_init_panics:
  assumes "runs hello_contents k (\<lambda>_ _. True)"
  shows "process_init 8 k = Inl AssertFailed"
  using assms by (auto simp: process_init_def bnd_def runs_iff_result require_def panic_def)

theorem process_init_panics_witness:
  "\<exists>d k. runs (init_sata 2 x86_frames (disk_drive d) sample_gpt None 0xfebf1000 4096) sample_kernel (\<lambda>_ k'. k' = k) \<and>
     process_init 8 k = Inl AssertFailed"
proof -
  have fits: "image_fits (2048 * 50) [127, 69, 76, 70]" using default_fits by simp
  from sample_image obtain d where d: "create_img 50 (Some [127, 69, 76, 70]) = Inr (concat (data d))"
    "canonical (0xfebf1000 + PHYSICAL_MEMORY_OFFSET (kernel_memory sample_kernel))"
    "ahci_new (disk_drive (sample_drive d)) (0xfebf1000 + PHYSICAL_MEMORY_OFFSET (kernel_memory sample_kernel)) 4096 = Some (sample_drive d)"
    "disk_inv (sample_drive d)" "2048 \<le> total_blocks (sample_drive d)"
    "ge_starting_lba sample_entry + 2048 * 50 \<le> total_blocks (sample_drive d)"
    "\<forall>i < 2048 * 50. disk_block (sample_drive d) (ge_starting_lba sample_entry + i) = take BLOCK_SIZE (drop (i * BLOCK_SIZE) (concat (data d)))" .
  note run = disk_ahci.boot_image [OF x86.phys_frames_axioms d(2-5) sample_gpt_simps(1,2,3) d(6) fits d(1,7) order_refl,
      of None, unfolded runs_bnd]
  from run obtain k where "init_sata 2 x86_frames (disk_drive (sample_drive d)) sample_gpt None 0xfebf1000 4096 sample_kernel = Inr ((), k)"
    "runs hello_contents k (\<lambda>_ _. True)" by (fastforce simp: runs_iff_result)
  then show ?thesis
    using process_init_panics [of k] by (intro exI [of _ "sample_drive d"] exI [of _ k]) (simp add: runs_def)
qed

end
