(* ===== verification/Logger.thy ===== *)
theory Logger
  imports Rust_Str
begin

text \<open>
  The screen logger of the kernel, \<^verbatim>\<open>src/kernel/src/logger.rs\<close>. The frame buffer is a list of bytes, a
  character is its code point. The font, the serial port and the texts that \<open>format!\<close> makes of the
  arguments of a record come from outside the repository: they are arguments. Reading or writing beyond
  the frame buffer through the raw pointers of \<open>ptr::copy\<close> is \<open>BadAddress\<close>.
\<close>

section \<open>Data\<close>

datatype pixel_format = Rgb | Bgr | Bitmask | BltOnly

datatype level = Error | Warn | Info | Debug | Trace

record graphic_info =
  gi_resolution :: "nat \<times> nat"
  gi_pixel_format :: pixel_format
  gi_stride :: nat
  fb_size :: nat

record rgb =
  red :: u8
  green :: u8
  blue :: u8

definition to_rgb_pixel :: "rgb \<Rightarrow> u8 list" where
  "to_rgb_pixel c = [red c, green c, blue c, 0]"

definition to_bgr_pixel :: "rgb \<Rightarrow> u8 list" where
  "to_bgr_pixel c = [blue c, green c, red c, 0]"

fun rgb_from :: "u8 \<times> u8 \<times> u8 \<Rightarrow> rgb" where
  "rgb_from (r, g, b) = \<lparr>red = r, green = g, blue = b\<rparr>"

text \<open>What the crates provide: glyphs of a width and rows of intensities, a port that takes characters.\<close>

record glyph =
  gl_width :: nat
  gl_bitmap :: "u8 list list"

record 'p console_ops =
  get_bitmap :: "nat \<Rightarrow> glyph option"
  port_write_char :: "nat \<Rightarrow> 'p \<Rightarrow> 'p option"
  port_send :: "u8 \<Rightarrow> 'p \<Rightarrow> 'p"

text \<open>\<open>Logger\<close>, with the serial port beside it.\<close>

record 'p logger =
  hor_res :: nat
  ver_res :: nat
  pix_format :: pixel_format
  stride :: nat
  bytes_per_pixel :: nat
  font_size :: nat
  palette :: rgb
  framebuffer :: "u8 list"
  x_pos :: nat
  y_pos :: nat
  serial :: 'p

definition SIZE20 :: nat where
  "SIZE20 = 20"

definition BACKGROUND_PIXEL :: rgb where
  "BACKGROUND_PIXEL = \<lparr>red = 40, green = 44, blue = 52\<rparr>"

section \<open>Colours\<close>

definition set_palette :: "level \<Rightarrow> ('p logger, unit) rust" where
  "set_palette lv =
     (let rgb = (case lv of
          Error \<Rightarrow> (210, 114, 119)
        | Warn \<Rightarrow> (223, 193, 132)
        | Info \<Rightarrow> (115, 173, 233)
        | Debug \<Rightarrow> (161, 193, 129)
        | Trace \<Rightarrow> (220, 223, 228))
      in upd (\<lambda>l. l\<lparr>palette := rgb_from rgb\<rparr>))"

text \<open>\<open>((p - b) as i32 * intensity) / 255 + b as i32\<close>: the subtraction is of \<open>u8\<close> and checked.\<close>

definition blend :: "u8 \<Rightarrow> u8 \<Rightarrow> nat \<Rightarrow> rust_panic + nat" where
  "blend p b intensity =
     (if unat b \<le> unat p then Inr ((unat p - unat b) * intensity div 255 + unat b) else Inl ArithOverflow)"

definition get_color :: "'p logger \<Rightarrow> nat \<Rightarrow> rust_panic + u8 list" where
  "get_color l intensity =
     sbnd (blend (red (palette l)) (red BACKGROUND_PIXEL) intensity) (\<lambda>r.
     sbnd (blend (green (palette l)) (green BACKGROUND_PIXEL) intensity) (\<lambda>g.
     sbnd (blend (blue (palette l)) (blue BACKGROUND_PIXEL) intensity) (\<lambda>b.
     Inr (case pix_format l of
            Rgb \<Rightarrow> [of_nat r, of_nat g, of_nat b, 0]
          | Bgr \<Rightarrow> [of_nat b, of_nat g, of_nat r, 0]
          | _ \<Rightarrow> [0, 0, 0, 0]))))"

definition background :: "pixel_format \<Rightarrow> u8 list" where
  "background f =
     (case f of Rgb \<Rightarrow> to_rgb_pixel BACKGROUND_PIXEL | Bgr \<Rightarrow> to_bgr_pixel BACKGROUND_PIXEL | _ \<Rightarrow> [0, 0, 0, 0])"

section \<open>The frame buffer\<close>

text \<open>\<open>for i in start..framebuffer.len() { framebuffer[i] = background[i % 4] }\<close>\<close>

definition fill_from :: "nat \<Rightarrow> u8 list \<Rightarrow> u8 list \<Rightarrow> u8 list" where
  "fill_from start bg fb = take start fb @ map (\<lambda>i. bg ! (i mod 4)) [start..<length fb]"

text \<open>\<open>ptr::copy(src, dst, count)\<close> with \<open>dst\<close> the start of the frame buffer.\<close>

definition ptr_copy :: "nat \<Rightarrow> nat \<Rightarrow> u8 list \<Rightarrow> rust_panic + u8 list" where
  "ptr_copy src n fb =
     (if src + n \<le> length fb then Inr (take n (drop src fb) @ drop n fb) else Inl BadAddress)"

definition carriage_return :: "('p logger, unit) rust" where
  "carriage_return = upd (\<lambda>l. l\<lparr>x_pos := 0\<rparr>)"

definition newline :: "('p logger, unit) rust" where
  "newline =
     bnd (gets (\<lambda>l. l)) (\<lambda>l.
     bnd (pure (u64_add (y_pos l) (font_size l))) (\<lambda>y.
     bnd (upd (\<lambda>l. l\<lparr>y_pos := y\<rparr>)) (\<lambda>_.
     carriage_return)))"

definition clear :: "'p console_ops \<Rightarrow> ('p logger, unit) rust" where
  "clear ops =
     bnd (upd (\<lambda>l. l\<lparr>x_pos := 0, y_pos := 0\<rparr>)) (\<lambda>_.
     bnd (upd (\<lambda>l. l\<lparr>framebuffer := fill_from 0 (background (pix_format l)) (framebuffer l)\<rparr>)) (\<lambda>_.
     upd (\<lambda>l. l\<lparr>serial := port_send ops 10 (serial l)\<rparr>)))"

text \<open>\<open>Logger::new\<close>; \<open>mem\<close> is what the memory at \<open>fb_addr\<close> holds.\<close>

definition Logger_new :: "'p console_ops \<Rightarrow> graphic_info \<Rightarrow> u8 list \<Rightarrow> 'p \<Rightarrow> rust_panic + 'p logger" where
  "Logger_new ops info mem port =
     sbnd (u64_mul (fst (gi_resolution info)) (snd (gi_resolution info))) (\<lambda>pixels.
     if pixels = 0 then Inl ArithOverflow
     else
       sbnd (clear ops \<lparr>hor_res = fst (gi_resolution info), ver_res = snd (gi_resolution info),
              pix_format = gi_pixel_format info, stride = gi_stride info, bytes_per_pixel = fb_size info div pixels,
              font_size = SIZE20, palette = rgb_from (0, 0, 0), framebuffer = take (fb_size info) mem, x_pos = 0, y_pos = 0,
              serial = port\<rparr>) (\<lambda>(_, l). Inr l))"

section \<open>Characters\<close>

definition write_pixel :: "nat \<Rightarrow> nat \<Rightarrow> u8 \<Rightarrow> ('p logger, unit) rust" where
  "write_pixel x y intensity =
     bnd (gets (\<lambda>l. l)) (\<lambda>l.
     bnd (pure (sbnd (u64_mul y (stride l)) (\<lambda>r. u64_add r x))) (\<lambda>pixel_offset.
     bnd (pure (get_color l (unat intensity))) (\<lambda>color.
     bnd (pure (u64_mul pixel_offset (bytes_per_pixel l))) (\<lambda>byte_offset.
     bnd (pure (u64_add byte_offset (bytes_per_pixel l))) (\<lambda>byte_end.
     bnd (require (byte_end \<le> length (framebuffer l) \<and> bytes_per_pixel l \<le> 4) IndexOutOfBounds) (\<lambda>_.
     upd (\<lambda>l. l\<lparr>framebuffer := take byte_offset (framebuffer l) @ take (bytes_per_pixel l) color @ drop byte_end (framebuffer l)\<rparr>)))))))"

definition write_row :: "nat \<Rightarrow> u8 list \<Rightarrow> ('p logger, unit) rust" where
  "write_row y row =
     for_each (enumerate 0 row) (\<lambda>(x, byte).
       bnd (gets (\<lambda>l. l)) (\<lambda>l.
       bnd (pure (u64_add (x_pos l) x)) (\<lambda>px.
       bnd (pure (u64_add (y_pos l) y)) (\<lambda>py.
       write_pixel px py byte))))"

definition write_rendered_char :: "glyph \<Rightarrow> ('p logger, unit) rust" where
  "write_rendered_char g =
     bnd (for_each (enumerate 0 (gl_bitmap g)) (\<lambda>(y, row). write_row y row)) (\<lambda>_.
     bnd (gets x_pos) (\<lambda>x.
     bnd (pure (u64_add x (gl_width g))) (\<lambda>x'.
     upd (\<lambda>l. l\<lparr>x_pos := x'\<rparr>))))"

text \<open>The part of \<open>write_char\<close> that moves the screen up when the line does not fit.\<close>

definition scroll :: "('p logger, unit) rust" where
  "scroll =
     bnd (gets (\<lambda>l. l)) (\<lambda>l.
     bnd (pure (u64_sub (ver_res l) (y_pos l))) (\<lambda>below.
     bnd (pure (u64_sub (font_size l) below)) (\<lambda>rows.
     bnd (pure (sbnd (u64_mul rows (stride l)) (\<lambda>p. u64_mul p (bytes_per_pixel l)))) (\<lambda>src.
     bnd (pure (index (framebuffer l) src)) (\<lambda>_.
     bnd (pure (u64_sub (ver_res l) (font_size l))) (\<lambda>kept.
     bnd (pure (sbnd (u64_mul kept (stride l)) (\<lambda>p. u64_mul p (bytes_per_pixel l)))) (\<lambda>n.
     bnd (pure (ptr_copy src n (framebuffer l))) (\<lambda>fb.
     upd (\<lambda>l. l\<lparr>y_pos := kept, framebuffer := fill_from n (background (pix_format l)) fb\<rparr>)))))))))"

definition write_char :: "'p console_ops \<Rightarrow> nat \<Rightarrow> ('p logger, unit) rust" where
  "write_char ops c =
     bnd (gets serial) (\<lambda>p.
     bnd (pure (case port_write_char ops c p of None \<Rightarrow> Inl UnwrapNone | Some p' \<Rightarrow> Inr p')) (\<lambda>p'.
     bnd (upd (\<lambda>l. l\<lparr>serial := p'\<rparr>)) (\<lambda>_.
     if c = 10 then newline
     else if c = 13 then carriage_return
     else
       bnd (pure (case get_bitmap ops c of None \<Rightarrow> Inl UnwrapNone | Some g \<Rightarrow> Inr g)) (\<lambda>g.
       bnd (gets (\<lambda>l. l)) (\<lambda>l.
       bnd (pure (u64_add (x_pos l) (gl_width g))) (\<lambda>right.
       bnd (if right \<ge> hor_res l then newline else ret ()) (\<lambda>_.
       bnd (gets (\<lambda>l. l)) (\<lambda>l.
       bnd (pure (u64_sub (ver_res l) (font_size l))) (\<lambda>kept.
       bnd (if y_pos l > kept then scroll else ret ()) (\<lambda>_.
       write_rendered_char g))))))))))"

definition write_str :: "'p console_ops \<Rightarrow> nat list \<Rightarrow> ('p logger, unit) rust" where
  "write_str ops s = for_each s (write_char ops)"

section \<open>Records\<close>

text \<open>\<open>str::lines\<close>: a line ends in a line feed or in a carriage return and a line feed; a last line may be without.\<close>

fun lines_acc :: "nat list \<Rightarrow> nat list \<Rightarrow> nat list list" where
  "lines_acc cur [] = (if cur = [] then [] else [rev cur])"
| "lines_acc cur (c # cs) =
     (if c = 10 then rev (case cur of [] \<Rightarrow> [] | d # ds \<Rightarrow> (if d = 13 then ds else cur)) # lines_acc [] cs
      else lines_acc (c # cur) cs)"

definition lines :: "nat list \<Rightarrow> nat list list" where
  "lines s = lines_acc [] s"

definition level_name :: "level \<Rightarrow> nat list" where
  "level_name lv = map of_char (case lv of
     Error \<Rightarrow> ''ERROR'' | Warn \<Rightarrow> ''WARN'' | Info \<Rightarrow> ''INFO'' | Debug \<Rightarrow> ''DEBUG'' | Trace \<Rightarrow> ''TRACE'')"

definition pad_left :: "nat \<Rightarrow> nat \<Rightarrow> nat list \<Rightarrow> nat list" where
  "pad_left c n s = replicate (n - length s) c @ s"

text \<open>The level padded to five, the file name padded to twelve and the line number of at least three digits.\<close>

definition log_prefix :: "level \<Rightarrow> nat list \<Rightarrow> nat \<Rightarrow> nat list" where
  "log_prefix lv fname line =
     map of_char ''['' @ pad_left 32 5 (level_name lv) @ map of_char '']: '' @ pad_left 32 12 fname @
     map of_char ''@'' @ pad_left 48 3 (map unat (show_radix 10 line)) @ map of_char '': ''"

text \<open>\<open>Logger::write\<close>; \<open>s\<close> is the formatted message.\<close>

definition Logger_write :: "'p console_ops \<Rightarrow> level \<Rightarrow> nat list \<Rightarrow> nat list \<Rightarrow> nat \<Rightarrow> ('p logger, unit) rust" where
  "Logger_write ops lv s fname line =
     bnd (set_palette lv) (\<lambda>_.
     let prefix = log_prefix lv fname line; ls = lines s; first = (case ls of [] \<Rightarrow> [] | l # _ \<Rightarrow> l) in
     bnd (write_str ops (prefix @ first @ [10])) (\<lambda>_.
     bnd (for_each (tl ls) (\<lambda>l. write_str ops (prefix @ l @ [10]))) (\<lambda>_.
     if s \<noteq> [] \<and> last s = 10 then write_str ops (prefix @ [10]) else ret ())))"

text \<open>
  \<open>LockedLogger\<close>: the spin lock is free again when \<open>log\<close> returns, so a record that is logged from inside
  another one waits forever.
\<close>

record 'p locked_logger =
  log_locked :: bool
  log_inner :: "'p logger"

definition LockedLogger_new :: "'p console_ops \<Rightarrow> graphic_info \<Rightarrow> u8 list \<Rightarrow> 'p \<Rightarrow> rust_panic + 'p locked_logger" where
  "LockedLogger_new ops info mem port =
     sbnd (Logger_new ops info mem port) (\<lambda>l. Inr \<lparr>log_locked = False, log_inner = l\<rparr>)"

definition force_unlock :: "('p locked_logger, unit) rust" where
  "force_unlock = upd (\<lambda>l. l\<lparr>log_locked := False\<rparr>)"

record log_record =
  rec_level :: level
  rec_args :: "nat list"
  rec_file :: "nat list option"
  rec_line :: "nat option"

definition log_log :: "'p console_ops \<Rightarrow> log_record \<Rightarrow> ('p locked_logger, unit) rust" where
  "log_log ops r =
     bnd (gets log_locked) (\<lambda>locked.
     bnd (require (\<not> locked) Deadlock) (\<lambda>_.
     zoom log_inner (\<lambda>l s. s\<lparr>log_inner := l\<rparr>)
       (Logger_write ops (rec_level r) (rec_args r)
         (case rec_file r of None \<Rightarrow> map of_char ''<unknown file>'' | Some f \<Rightarrow> f)
         (case rec_line r of None \<Rightarrow> 0 | Some n \<Rightarrow> n))))"

end
