(* ===== verification/Logger_Screen.thy ===== *)
theory Logger_Screen
  imports Logger
begin

text \<open>
  What the logger shows. The screen is a picture of pixels with a cursor; the locale \<open>console\<close> states what
  the font and the serial port promise, and inside it the byte operations on the frame buffer are shown to
  draw glyphs, wrap lines and scroll on that picture without ever leaving the buffer.
\<close>

section \<open>Colours\<close>

definition shade :: "u8 \<Rightarrow> u8 \<Rightarrow> nat \<Rightarrow> u8" where
  "shade p b i = of_nat ((unat p - unat b) * i div 255 + unat b)"

definition bright :: "rgb \<Rightarrow> bool" where
  "bright c \<longleftrightarrow> red BACKGROUND_PIXEL \<le> red c \<and> green BACKGROUND_PIXEL \<le> green c \<and> blue BACKGROUND_PIXEL \<le> blue c"

definition color :: "pixel_format \<Rightarrow> rgb \<Rightarrow> u8 \<Rightarrow> u8 list" where
  "color f c b =
     (let r = shade (red c) (red BACKGROUND_PIXEL) (unat b);
          g = shade (green c) (green BACKGROUND_PIXEL) (unat b);
          bl = shade (blue c) (blue BACKGROUND_PIXEL) (unat b)
      in case f of Rgb \<Rightarrow> [r, g, bl, 0] | Bgr \<Rightarrow> [bl, g, r, 0] | _ \<Rightarrow> [0, 0, 0, 0])"

lemma get_color_ok: "bright (palette l) \<Longrightarrow> get_color l (unat b) = Inr (color (pix_format l) (palette l) b)"
  by (cases "pix_format l") (simp_all add: get_color_def blend_def bright_def color_def shade_def Let_def word_le_nat_alt)

lemma length_color [simp]: "length (color f c b) = 4"
  by (simp add: color_def Let_def split: pixel_format.split)

lemma length_background [simp]: "length (background f) = 4"
  by (simp add: background_def to_rgb_pixel_def to_bgr_pixel_def split: pixel_format.split)

lemma shade_range:
  assumes "b \<le> p" and "i \<le> 255"
  shows "b \<le> shade p b i" and "shade p b i \<le> p" and "shade p b 0 = b" and "shade p b 255 = p"
proof -
  have "(unat p - unat b) * i div 255 \<le> unat p - unat b"
    using div_le_mono [OF mult_le_mono2 [OF assms(2), of "unat p - unat b"], of 255] by simp
  then have le: "(unat p - unat b) * i div 255 + unat b \<le> unat p" using assms(1) by (simp add: word_le_nat_alt)
  moreover have "unat p < 256" using unsigned_less [of p, where ?'a = nat] by simp
  ultimately have u: "unat (shade p b i) = (unat p - unat b) * i div 255 + unat b"
    by (simp only: shade_def unat_of_nat) simp
  show "b \<le> shade p b i" "shade p b i \<le> p" using le by (simp_all add: word_le_nat_alt u)
  show "shade p b 0 = b" "shade p b 255 = p" using assms(1) by (simp_all add: shade_def word_le_nat_alt)
qed

section \<open>Pixels\<close>

definition pixel :: "nat \<Rightarrow> u8 list \<Rightarrow> nat \<Rightarrow> nat \<Rightarrow> u8 list" where
  "pixel st fb x y = take 4 (drop ((y * st + x) * 4) fb)"

lemma pixel_offset_inj: "x < st \<Longrightarrow> x' < st \<Longrightarrow> y * st + x = y' * st + x' \<longleftrightarrow> x = x' \<and> (y :: nat) = y'"
proof
  assume x: "x < st" "x' < st" and eq: "y * st + x = y' * st + x'"
  from x eq have "y = y'" by (metis add.commute div_mult_self1 div_less add_0 less_nat_zero_code)
  with eq show "x = x' \<and> y = y'" by simp
qed auto

lemma pixel_inside: "x < st \<Longrightarrow> y < v \<Longrightarrow> v * st * 4 \<le> n \<Longrightarrow> (y * st + x) * 4 + 4 \<le> (n :: nat)"
proof -
  assume a: "x < st" "y < v" "v * st * 4 \<le> n"
  have "y * st + x + 1 \<le> Suc y * st" using a(1) by simp
  also have "\<dots> \<le> v * st" using a(2) by (intro mult_le_mono1) simp
  finally have "(y * st + x + 1) * 4 \<le> v * st * 4" by (rule mult_le_mono1)
  then have "(y * st + x) * 4 + 4 \<le> v * st * 4" by (simp only: add_mult_distrib mult_1)
  then show ?thesis using a(3) by (rule le_trans)
qed

text \<open>Overwriting four bytes at a multiple of four.\<close>

definition overwrite :: "nat \<Rightarrow> u8 list \<Rightarrow> u8 list \<Rightarrow> u8 list" where
  "overwrite k c fb = take k fb @ c @ drop (k + 4) fb"

lemma overwrite_simps:
  assumes "k + 4 \<le> length fb" and "length c = 4"
  shows "length (overwrite k c fb) = length fb"
    and "i < length fb \<Longrightarrow> overwrite k c fb ! i = (if k \<le> i \<and> i < k + 4 then c ! (i - k) else fb ! i)"
  using assms by (auto simp: overwrite_def nth_append)

lemma slice_overwrite:
  assumes "p * 4 + 4 \<le> length fb" and "length c = 4"
  shows "take 4 (drop (q * 4) (overwrite (p * 4) c fb)) = (if q = p then c else take 4 (drop (q * 4) fb))"
proof (rule nth_equalityI)
  show "length (take 4 (drop (q * 4) (overwrite (p * 4) c fb))) = length (if q = p then c else take 4 (drop (q * 4) fb))"
    using assms by (auto simp: overwrite_simps(1))
next
  fix i
  assume "i < length (take 4 (drop (q * 4) (overwrite (p * 4) c fb)))"
  then have i: "i < 4" "q * 4 + i < length fb" using assms by (auto simp: overwrite_simps(1))
  then show "take 4 (drop (q * 4) (overwrite (p * 4) c fb)) ! i = (if q = p then c else take 4 (drop (q * 4) fb)) ! i"
    using assms by (cases q p rule: linorder_cases) (simp_all add: overwrite_simps)
qed

lemma pixel_overwrite:
  assumes "x < st" and "y < v" and "v * st * 4 \<le> length fb" and "length c = 4" and "x' < st"
  shows "pixel st (overwrite ((y * st + x) * 4) c fb) x' y' = (if x' = x \<and> y' = y then c else pixel st fb x' y')"
  using slice_overwrite [OF pixel_inside [OF assms(1,2,3)] assms(4)] assms(1,5)
  by (simp add: pixel_def pixel_offset_inj del: distrib_right_numeral)

section \<open>The state of a screen\<close>

text \<open>
  The mode of the screen: pixels of four bytes, rows that lie inside the buffer, room for more than one line
  and for the widest glyph.
\<close>

definition screen_ok :: "nat \<Rightarrow> 'p logger \<Rightarrow> bool" where
  "screen_ok w l \<longleftrightarrow> font_size l = SIZE20 \<and> SIZE20 < ver_res l \<and> w < hor_res l \<and> hor_res l \<le> stride l \<and>
     bytes_per_pixel l = 4 \<and> ver_res l * stride l * 4 \<le> length (framebuffer l) \<and> length (framebuffer l) < 2 ^ 63"

text \<open>Where the next character goes: on a line of the screen, or at the start of the line below the last one.\<close>

definition on_line :: "'p logger \<Rightarrow> bool" where
  "on_line l \<longleftrightarrow> x_pos l < hor_res l \<and> y_pos l + SIZE20 \<le> ver_res l"

definition cursor_ok :: "'p logger \<Rightarrow> bool" where
  "cursor_ok l \<longleftrightarrow> on_line l \<or> x_pos l = 0 \<and> y_pos l \<le> ver_res l"

lemma screen_bounds:
  assumes "screen_ok w l"
  shows "ver_res l < 2 ^ 63" and "stride l < 2 ^ 63" and "hor_res l < 2 ^ 63" and "w < 2 ^ 63"
    and "ver_res l * stride l < 2 ^ 63" and "0 < stride l" and "0 < ver_res l"
proof -
  show s: "0 < stride l" and v: "0 < ver_res l" using assms by (auto simp: screen_ok_def)
  show p: "ver_res l * stride l < 2 ^ 63" using assms by (auto simp: screen_ok_def)
  have "ver_res l \<le> ver_res l * stride l" "stride l \<le> ver_res l * stride l" using s v by simp_all
  with p show "ver_res l < 2 ^ 63" "stride l < 2 ^ 63" by linarith+
  with assms show "hor_res l < 2 ^ 63" "w < 2 ^ 63" by (auto simp: screen_ok_def)
qed

text \<open>Drawing: some pixels get the colour of an intensity, everything else stays.\<close>

definition painted :: "'p logger \<Rightarrow> 'p logger \<Rightarrow> (nat \<Rightarrow> nat \<Rightarrow> u8 option) \<Rightarrow> bool" where
  "painted l l' f \<longleftrightarrow>
     (\<exists>fb. l' = l\<lparr>framebuffer := fb\<rparr> \<and> length fb = length (framebuffer l) \<and>
        (\<forall>x y. x < stride l \<longrightarrow> y < ver_res l \<longrightarrow> pixel (stride l) fb x y =
           (case f x y of Some b \<Rightarrow> color (pix_format l) (palette l) b | None \<Rightarrow> pixel (stride l) (framebuffer l) x y)))"

lemma painted_none: "(\<And>x y. f x y = None) \<Longrightarrow> painted l l f"
  unfolding painted_def by (rule exI [of _ "framebuffer l"]) simp

lemma painted_trans:
  assumes "painted l l1 f" and "painted l1 l2 g"
    and "\<And>x y. x < stride l \<Longrightarrow> y < ver_res l \<Longrightarrow> h x y = (case g x y of Some b \<Rightarrow> Some b | None \<Rightarrow> f x y)"
  shows "painted l l2 h"
proof -
  from assms(1) obtain fb1 where 1: "l1 = l\<lparr>framebuffer := fb1\<rparr>" "length fb1 = length (framebuffer l)"
    "\<And>x y. x < stride l \<Longrightarrow> y < ver_res l \<Longrightarrow> pixel (stride l) fb1 x y =
       (case f x y of Some b \<Rightarrow> color (pix_format l) (palette l) b | None \<Rightarrow> pixel (stride l) (framebuffer l) x y)"
    by (auto simp: painted_def)
  from assms(2) obtain fb2 where 2: "l2 = l\<lparr>framebuffer := fb2\<rparr>" "length fb2 = length (framebuffer l)"
    "\<And>x y. x < stride l \<Longrightarrow> y < ver_res l \<Longrightarrow> pixel (stride l) fb2 x y =
       (case g x y of Some b \<Rightarrow> color (pix_format l) (palette l) b | None \<Rightarrow> pixel (stride l) fb1 x y)"
    by (auto simp: painted_def 1(1,2) cong: option.case_cong)
  show ?thesis
    unfolding painted_def by (rule exI [of _ fb2]) (auto simp: 1(3) 2 assms(3) split: option.splits)
qed

lemma painted_keeps:
  assumes "painted l l' f"
  shows "screen_ok w l' = screen_ok w l" and "palette l' = palette l" and "x_pos l' = x_pos l" and "y_pos l' = y_pos l"
    and "hor_res l' = hor_res l" and "ver_res l' = ver_res l" and "stride l' = stride l" and "pix_format l' = pix_format l"
    and "serial l' = serial l" and "font_size l' = font_size l"
  using assms by (auto simp: painted_def screen_ok_def)

lemma write_pixel_ok:
  assumes "screen_ok w l" and "bright (palette l)" and "x < hor_res l" and "y < ver_res l"
  shows "runs (write_pixel x y b) l (\<lambda>_ l'. painted l l' (\<lambda>x' y'. if x' = x \<and> y' = y then Some b else None))"
proof -
  have s: "x < stride l" "ver_res l * stride l * 4 \<le> length (framebuffer l)" "bytes_per_pixel l = 4"
    using assms by (auto simp: screen_ok_def)
  have i: "(y * stride l + x) * 4 + 4 \<le> length (framebuffer l)" by (rule pixel_inside [OF s(1) assms(4) s(2)])
  moreover have "length (framebuffer l) < 2 ^ 63" using assms(1) by (simp add: screen_ok_def)
  ultimately have u: "(y * stride l + x) * 4 + 4 < U64_RANGE" by (simp add: U64_RANGE_def)
  have "painted l (l\<lparr>framebuffer := overwrite ((y * stride l + x) * 4) (color (pix_format l) (palette l) b) (framebuffer l)\<rparr>)
      (\<lambda>x' y'. if x' = x \<and> y' = y then Some b else None)"
    unfolding painted_def
    by (rule exI [of _ "overwrite ((y * stride l + x) * 4) (color (pix_format l) (palette l) b) (framebuffer l)"])
      (use i in \<open>simp add: overwrite_simps pixel_overwrite [OF s(1) assms(4) s(2)] del: distrib_right_numeral\<close>)
  moreover from u have "y * stride l + x < U64_RANGE" "y * stride l < U64_RANGE" by (simp_all add: U64_RANGE_def)
  ultimately show ?thesis
    using i u by (simp add: write_pixel_def wp sbnd_eq_Inr get_color_ok [OF assms(2)] s(3) overwrite_def del: distrib_right_numeral)
qed

text \<open>A row and a glyph, as pictures.\<close>

definition row_at :: "nat \<Rightarrow> nat \<Rightarrow> u8 list \<Rightarrow> nat \<Rightarrow> nat \<Rightarrow> u8 option" where
  "row_at x0 y0 row x y = (if y = y0 \<and> x0 \<le> x \<and> x < x0 + length row then Some (row ! (x - x0)) else None)"

definition glyph_at :: "nat \<Rightarrow> nat \<Rightarrow> u8 list list \<Rightarrow> nat \<Rightarrow> nat \<Rightarrow> u8 option" where
  "glyph_at x0 y0 rows x y = (if y0 \<le> y \<and> y < y0 + length rows then row_at x0 y (rows ! (y - y0)) x y else None)"

lemma write_row_ok:
  assumes "screen_ok w l" and "bright (palette l)" and "x_pos l + n + length row \<le> hor_res l" and "y_pos l + y < ver_res l"
  shows "runs (for_each (enumerate n row) (\<lambda>(x, byte).
       bnd (gets (\<lambda>l. l)) (\<lambda>l. bnd (pure (u64_add (x_pos l) x)) (\<lambda>px. bnd (pure (u64_add (y_pos l) y)) (\<lambda>py.
       write_pixel px py byte))))) l
     (\<lambda>_ l'. painted l l' (row_at (x_pos l + n) (y_pos l + y) row))"
  using assms
proof (induction row arbitrary: n l)
  case Nil
  then show ?case by (simp add: wp painted_none row_at_def)
next
  case (Cons b row)
  have u: "x_pos l + n < U64_RANGE" "y_pos l + y < U64_RANGE"
    using screen_bounds [OF Cons.prems(1)] Cons.prems(3,4) by (simp_all add: U64_RANGE_def)
  have x: "x_pos l + n < hor_res l" using Cons.prems(3) by simp
  show ?case
  proof (simp add: wp u del: enumerate_Suc_eq, rule runs_mono [OF write_pixel_ok [OF Cons.prems(1,2) x Cons.prems(4)]])
    fix l1
    assume p: "painted l l1 (\<lambda>x' y'. if x' = x_pos l + n \<and> y' = y_pos l + y then Some b else None)"
    note k = painted_keeps [OF p]
    have h: "row_at (x_pos l + n) (y_pos l + y) (b # row) x' y' =
        (case row_at (x_pos l1 + Suc n) (y_pos l1 + y) row x' y' of Some c \<Rightarrow> Some c
         | None \<Rightarrow> if x' = x_pos l + n \<and> y' = y_pos l + y then Some b else None)" for x' y'
      by (auto simp: row_at_def k nth_Cons' less_Suc_eq_le)
    show "runs (for_each (enumerate (Suc n) row) (\<lambda>(x, byte).
         bnd (gets (\<lambda>l. l)) (\<lambda>l. bnd (pure (u64_add (x_pos l) x)) (\<lambda>px. bnd (pure (u64_add (y_pos l) y)) (\<lambda>py.
         write_pixel px py byte))))) l1 (\<lambda>_ l'. painted l l' (row_at (x_pos l + n) (y_pos l + y) (b # row)))"
      by (rule runs_mono [OF Cons.IH]) (use Cons.prems k in \<open>auto intro: painted_trans [OF p _ h]\<close>)
  qed
qed

lemma write_rows_ok:
  assumes "screen_ok w l" and "bright (palette l)" and "x_pos l + wd \<le> hor_res l" and "\<forall>row \<in> set rows. length row = wd"
    and "y_pos l + n + length rows \<le> ver_res l"
  shows "runs (for_each (enumerate n rows) (\<lambda>(y, row). write_row y row)) l
     (\<lambda>_ l'. painted l l' (glyph_at (x_pos l) (y_pos l + n) rows))"
  using assms
proof (induction rows arbitrary: n l)
  case Nil
  then show ?case by (simp add: wp) (rule painted_none, auto simp: glyph_at_def)
next
  case (Cons row rows)
  have r: "x_pos l + 0 + length row \<le> hor_res l" "y_pos l + n < ver_res l" using Cons.prems by auto
  show ?case
  proof (simp add: wp del: enumerate_Suc_eq, rule runs_mono [OF write_row_ok [OF Cons.prems(1,2) r, folded write_row_def]])
    fix u l1
    assume p: "painted l l1 (row_at (x_pos l + 0) (y_pos l + n) row)"
    note k = painted_keeps [OF p]
    have h: "glyph_at (x_pos l) (y_pos l + n) (row # rows) x' y' =
        (case glyph_at (x_pos l1) (y_pos l1 + Suc n) rows x' y' of Some c \<Rightarrow> Some c
         | None \<Rightarrow> row_at (x_pos l + 0) (y_pos l + n) row x' y')" for x' y'
      by (auto simp: glyph_at_def row_at_def k nth_Cons' split: option.splits)
    show "runs (for_each (enumerate (Suc n) rows) (\<lambda>(y, row). write_row y row)) l1
        (\<lambda>_ l'. painted l l' (glyph_at (x_pos l) (y_pos l + n) (row # rows)))"
      by (rule runs_mono [OF Cons.IH]) (use Cons.prems k in \<open>auto intro: painted_trans [OF p _ h]\<close>)
  qed
qed

section \<open>Scrolling\<close>

lemma pixel_nth:
  "(y * st + x) * 4 + 4 \<le> length fb \<Longrightarrow> pixel st fb x y = map (\<lambda>i. fb ! ((y * st + x) * 4 + i)) [0..<4]"
  by (rule nth_equalityI) (simp_all add: pixel_def del: distrib_right_numeral)

lemma fill_from_nth:
  "k \<le> length fb \<Longrightarrow> i < length fb \<Longrightarrow> fill_from k bg fb ! i = (if i < k then fb ! i else bg ! (i mod 4))"
  by (auto simp: fill_from_def nth_append)

lemma length_fill_from [simp]: "k \<le> length fb \<Longrightarrow> length (fill_from k bg fb) = length fb"
  by (simp add: fill_from_def)

lemma pixel_fill:
  assumes "k * st * 4 \<le> length fb" and "x < st" and "(y * st + x) * 4 + 4 \<le> length fb" and "length bg = 4"
  shows "pixel st (fill_from (k * st * 4) bg fb) x y = (if y < k then pixel st fb x y else bg)"
proof (cases "y < k")
  case True
  from pixel_inside [OF assms(2) True order_refl] True assms show ?thesis
    by (simp add: pixel_nth fill_from_nth del: distrib_right_numeral)
next
  case False
  then have "k * st \<le> y * st + x" by (simp add: mult_le_mono1 trans_le_add1)
  then have ge: "k * st * 4 \<le> (y * st + x) * 4" by (rule mult_le_mono1)
  have "bg = map (\<lambda>i. bg ! i) [0..<4]" using assms(4) map_nth [of bg] by simp
  moreover have "pixel st (fill_from (k * st * 4) bg fb) x y = map (\<lambda>i. bg ! i) [0..<4]"
  proof -
    have "\<not> (y * st + x) * 4 + i < k * st * 4" for i using ge by linarith
    then show ?thesis using assms(1,3) by (simp add: pixel_nth fill_from_nth del: distrib_right_numeral)
  qed
  ultimately show ?thesis using False by simp
qed

lemma ptr_copy_nth:
  assumes "src + n \<le> length fb"
  obtains fb' where "ptr_copy src n fb = Inr fb'" and "length fb' = length fb"
    and "\<And>i. i < n \<Longrightarrow> fb' ! i = fb ! (src + i)"
  using assms by (auto simp: ptr_copy_def nth_append)

lemma scroll_ok:
  assumes "screen_ok w l" and "y_pos l \<le> ver_res l" and "ver_res l < y_pos l + SIZE20"
  shows "runs scroll l (\<lambda>_ l'. \<exists>fb. l' = l\<lparr>y_pos := ver_res l - SIZE20, framebuffer := fb\<rparr> \<and> length fb = length (framebuffer l) \<and>
     (\<forall>x y. x < stride l \<longrightarrow> y < ver_res l \<longrightarrow> pixel (stride l) fb x y =
        (if y < ver_res l - SIZE20 then pixel (stride l) (framebuffer l) x (y + (y_pos l + SIZE20 - ver_res l))
         else background (pix_format l))))"
proof -
  define st v up kept where "st = stride l" and "v = ver_res l" and "up = y_pos l + SIZE20 - v" and "kept = v - SIZE20"
  have s: "font_size l = SIZE20" "SIZE20 < v" "bytes_per_pixel l = 4" "v * st * 4 \<le> length (framebuffer l)"
    "length (framebuffer l) < 2 ^ 63" "0 < st"
    using assms(1) screen_bounds(6) [OF assms(1)] by (simp_all add: screen_ok_def st_def v_def)
  have up: "up \<le> SIZE20" "up + kept \<le> v" "up < v" "kept \<le> v"
    and d: "SIZE20 - (v - y_pos l) = up" "v - y_pos l \<le> SIZE20" "y_pos l \<le> v" "v - SIZE20 = kept" "SIZE20 \<le> v"
    using assms(2,3) s(2) by (auto simp: up_def kept_def v_def)
  have le: "a * st * 4 \<le> length (framebuffer l)" if "a \<le> v" for a
    using that s(4) by (meson le_trans mult_le_mono1)
  have u: "a * st * 4 < U64_RANGE" "a * st < U64_RANGE" if "a \<le> v" for a
    using le [OF that] s(5) by (simp_all add: U64_RANGE_def)
  have sum: "up * st * 4 + kept * st * 4 \<le> length (framebuffer l)"
    using le [OF up(2)] by (simp add: add_mult_distrib)
  have idx: "up * st * 4 < length (framebuffer l)"
    using s(4,6) up(3) by (meson le_less_trans less_le_trans mult_less_mono1 zero_less_numeral)
  obtain fb where fb: "ptr_copy (up * st * 4) (kept * st * 4) (framebuffer l) = Inr fb"
    "length fb = length (framebuffer l)" "\<And>i. i < kept * st * 4 \<Longrightarrow> fb ! i = framebuffer l ! (up * st * 4 + i)"
    using ptr_copy_nth [OF sum] by blast
  have pix: "pixel st (fill_from (kept * st * 4) (background (pix_format l)) fb) x y =
      (if y < kept then pixel st (framebuffer l) x (y + up) else background (pix_format l))" if "x < st" "y < v" for x y
  proof -
    have "pixel st fb x y = pixel st (framebuffer l) x (y + up)" if y: "y < kept"
      using pixel_inside [OF \<open>x < st\<close> y order_refl] pixel_inside [OF \<open>x < st\<close> \<open>y < v\<close> s(4)]
        pixel_inside [OF \<open>x < st\<close> _ s(4), of "y + up"] y up(2) fb(2,3)
      by (simp add: pixel_nth algebra_simps)
    then show ?thesis
      using pixel_fill [of kept st fb x y "background (pix_format l)"] le [OF up(4)] fb(2) that
        pixel_inside [OF that s(4)] by simp
  qed
  have eqs: "stride l = st" "ver_res l = v" by (simp_all add: st_def v_def)
  have run: "runs scroll l (\<lambda>_ l'. l' = l\<lparr>y_pos := kept, framebuffer := fill_from (kept * st * 4) (background (pix_format l)) fb\<rparr>)"
    using u [OF less_imp_le [OF up(3)]] u [OF up(4)]
    by (simp add: scroll_def wp eqs s(1,3) d idx sbnd_eq_Inr fb(1))
  have "v - SIZE20 = kept" "y_pos l + SIZE20 - v = up" by (simp_all add: kept_def up_def)
  with pix fb(2) le [OF up(4)] show ?thesis
    by (intro runs_mono [OF run] exI [of _ "fill_from (kept * st * 4) (background (pix_format l)) fb"]) (simp add: eqs)
qed

section \<open>The display\<close>

text \<open>What a person sees: a cursor and a picture. \<open>display_put\<close> is the terminal that the logger means to be.\<close>

record display =
  d_x :: nat
  d_y :: nat
  d_pic :: "nat \<Rightarrow> nat \<Rightarrow> u8 list"

definition picture :: "'p logger \<Rightarrow> nat \<Rightarrow> nat \<Rightarrow> u8 list" where
  "picture l x y = (if x < stride l \<and> y < ver_res l then pixel (stride l) (framebuffer l) x y else [])"

definition display_of :: "'p logger \<Rightarrow> display" where
  "display_of l = \<lparr>d_x = x_pos l, d_y = y_pos l, d_pic = picture l\<rparr>"

text \<open>A line that does not fit moves the picture up by the missing rows.\<close>

definition display_scroll :: "'p logger \<Rightarrow> display \<Rightarrow> display" where
  "display_scroll m d =
     (if d_y d + SIZE20 \<le> ver_res m then d
      else d\<lparr>d_y := ver_res m - SIZE20, d_pic := (\<lambda>x y.
        if x < stride m \<and> y < ver_res m
        then (if y < ver_res m - SIZE20 then d_pic d x (y + (d_y d + SIZE20 - ver_res m)) else background (pix_format m))
        else [])\<rparr>)"

definition display_wrap :: "'p logger \<Rightarrow> glyph \<Rightarrow> display \<Rightarrow> display" where
  "display_wrap m g d = (if hor_res m \<le> d_x d + gl_width g then d\<lparr>d_x := 0, d_y := d_y d + SIZE20\<rparr> else d)"

definition display_draw :: "'p logger \<Rightarrow> glyph \<Rightarrow> display \<Rightarrow> display" where
  "display_draw m g d =
     d\<lparr>d_x := d_x d + gl_width g, d_pic := (\<lambda>x y.
        case glyph_at (d_x d) (d_y d) (gl_bitmap g) x y of
          Some b \<Rightarrow> color (pix_format m) (palette m) b
        | None \<Rightarrow> d_pic d x y)\<rparr>"

definition display_put :: "'p logger \<Rightarrow> glyph \<Rightarrow> display \<Rightarrow> display" where
  "display_put m g d = display_draw m g (display_scroll m (display_wrap m g d))"

text \<open>What no character changes.\<close>

definition same_mode :: "'p logger \<Rightarrow> 'p logger \<Rightarrow> bool" where
  "same_mode l l' \<longleftrightarrow> hor_res l' = hor_res l \<and> ver_res l' = ver_res l \<and> pix_format l' = pix_format l \<and> stride l' = stride l \<and>
     bytes_per_pixel l' = bytes_per_pixel l \<and> font_size l' = font_size l \<and> palette l' = palette l \<and>
     length (framebuffer l') = length (framebuffer l)"

lemma same_mode_refl [simp]: "same_mode l l"
  by (simp add: same_mode_def)

lemma same_mode_trans: "same_mode l l1 \<Longrightarrow> same_mode l1 l2 \<Longrightarrow> same_mode l l2"
  by (simp add: same_mode_def)

lemma same_mode_screen: "same_mode l l' \<Longrightarrow> screen_ok w l \<Longrightarrow> screen_ok w l'"
  by (simp add: same_mode_def screen_ok_def)

lemma same_mode_display:
  assumes "same_mode l l'"
  shows "display_draw l' g d = display_draw l g d" and "display_scroll l' d = display_scroll l d" and "display_wrap l' g d = display_wrap l g d"
  using assms
  by (simp_all add: same_mode_def display_draw_def display_scroll_def display_wrap_def cong: option.case_cong if_cong)

text \<open>What the serial port gets.\<close>

definition port_char :: "'p console_ops \<Rightarrow> nat \<Rightarrow> 'p \<Rightarrow> 'p" where
  "port_char ops c p = (case port_write_char ops c p of None \<Rightarrow> p | Some p' \<Rightarrow> p')"

text \<open>The characters the logger can print inside a line.\<close>

definition shown :: "'p console_ops \<Rightarrow> nat \<Rightarrow> bool" where
  "shown ops c \<longleftrightarrow> c = 13 \<or> c \<noteq> 10 \<and> get_bitmap ops c \<noteq> None"

definition text_ok :: "'p console_ops \<Rightarrow> nat list \<Rightarrow> bool" where
  "text_ok ops s \<longleftrightarrow> (\<forall>c \<in> set s. c = 10 \<or> shown ops c)"

definition record_ok :: "'p console_ops \<Rightarrow> log_record \<Rightarrow> bool" where
  "record_ok ops r \<longleftrightarrow> text_ok ops (rec_args r) \<and> (\<forall>f. rec_file r = Some f \<longrightarrow> (\<forall>c \<in> set f. shown ops c))"

lemma lines_acc_set: "l \<in> set (lines_acc cur s) \<Longrightarrow> 10 \<notin> set cur \<Longrightarrow> set l \<subseteq> set cur \<union> set s - {10}"
proof (induction s arbitrary: cur)
  case Nil
  then show ?case by (auto split: if_splits)
next
  case (Cons c s)
  from Cons.prems show ?case
    using Cons.IH [of "[]"] Cons.IH [of "c # cur"] by (cases "c = 10") (force split: list.splits if_splits)+
qed

lemma lines_set: "l \<in> set (lines s) \<Longrightarrow> set l \<subseteq> set s - {10}"
  using lines_acc_set [of l "[]" s] by (simp add: lines_def)

locale console =
  fixes ops :: "'p console_ops"
    and widest :: nat
  assumes glyph_shape: "get_bitmap ops c = Some g \<Longrightarrow>
      length (gl_bitmap g) = SIZE20 \<and> (\<forall>row \<in> set (gl_bitmap g). length row = gl_width g) \<and> gl_width g \<le> widest"
    and ascii_glyphs: "32 \<le> c \<Longrightarrow> c \<le> 126 \<Longrightarrow> \<exists>g. get_bitmap ops c = Some g \<and> 0 < gl_width g"
    and port_ready: "\<exists>p'. port_write_char ops c p = Some p'"
begin

lemma rendered_char_ok:
  assumes "screen_ok widest l" and "bright (palette l)" and "get_bitmap ops c = Some g"
    and "x_pos l + gl_width g < hor_res l" and "y_pos l + SIZE20 \<le> ver_res l"
  shows "runs (write_rendered_char g) l (\<lambda>_ l'. same_mode l l' \<and> serial l' = serial l \<and> on_line l' \<and>
    display_of l' = display_draw l g (display_of l))"
proof -
  have g: "length (gl_bitmap g) = SIZE20" "\<forall>row \<in> set (gl_bitmap g). length row = gl_width g"
    using glyph_shape [OF assms(3)] by simp_all
  have u: "x_pos l + gl_width g < U64_RANGE" using assms(4) screen_bounds(3) [OF assms(1)] by (simp add: U64_RANGE_def)
  have le: "x_pos l + gl_width g \<le> hor_res l" "y_pos l + 0 + length (gl_bitmap g) \<le> ver_res l" using assms(4,5) g(1) by simp_all
  have inside: "x < stride l \<and> y < ver_res l" if "glyph_at (x_pos l) (y_pos l) (gl_bitmap g) x y = Some b" for x y b
    using that le g(2) assms(1) by (auto simp: glyph_at_def row_at_def screen_ok_def split: if_splits)
  show ?thesis
    unfolding write_rendered_char_def runs_bnd
  proof (rule runs_mono [OF write_rows_ok [OF assms(1,2) le(1) g(2) le(2)]])
    fix u' l1
    assume p: "painted l l1 (glyph_at (x_pos l) (y_pos l + 0) (gl_bitmap g))"
    then obtain fb where fb: "l1 = l\<lparr>framebuffer := fb\<rparr>" "length fb = length (framebuffer l)"
      "\<And>x y. x < stride l \<Longrightarrow> y < ver_res l \<Longrightarrow> pixel (stride l) fb x y =
         (case glyph_at (x_pos l) (y_pos l) (gl_bitmap g) x y of Some b \<Rightarrow> color (pix_format l) (palette l) b
          | None \<Rightarrow> pixel (stride l) (framebuffer l) x y)"
      by (auto simp: painted_def)
    have "display_of (l1\<lparr>x_pos := x_pos l + gl_width g\<rparr>) = display_draw l g (display_of l)"
      using inside by (auto simp: display_of_def display_draw_def picture_def fb fun_eq_iff split: option.splits)
    with u assms(4,5) show "runs (gets x_pos) l1 (\<lambda>a s'. runs (pure (u64_add a (gl_width g))) s' (\<lambda>a s'.
        runs (upd (\<lambda>l. l\<lparr>x_pos := a\<rparr>)) s' (\<lambda>_ l'. same_mode l l' \<and> serial l' = serial l \<and> on_line l' \<and>
          display_of l' = display_draw l g (display_of l))))"
      by (simp add: wp fb(1,2) same_mode_def on_line_def)
  qed
qed

text \<open>Before a glyph is drawn the line is wrapped if it is full and the screen is scrolled if it is full.\<close>

lemma wrap_ok:
  assumes "screen_ok widest l" and "cursor_ok l" and "get_bitmap ops c = Some g"
  shows "runs (if x_pos l + gl_width g \<ge> hor_res l then newline else ret ()) l (\<lambda>_ l'. same_mode l l' \<and> serial l' = serial l \<and>
    x_pos l' + gl_width g < hor_res l \<and> y_pos l' \<le> ver_res l \<and> display_of l' = display_wrap l g (display_of l))"
proof -
  have w: "gl_width g < hor_res l" using glyph_shape [OF assms(3)] assms(1) by (simp add: screen_ok_def)
  have "y_pos l + SIZE20 \<le> ver_res l" if "hor_res l \<le> x_pos l + gl_width g"
    using that w assms(2) by (auto simp: cursor_ok_def on_line_def)
  moreover have "font_size l = SIZE20" "ver_res l < U64_RANGE"
    using assms(1) screen_bounds(1) [OF assms(1)] by (simp_all add: screen_ok_def U64_RANGE_def)
  ultimately show ?thesis
    using w assms(2)
    by (auto simp: newline_def carriage_return_def wp same_mode_def display_of_def display_wrap_def picture_def fun_eq_iff
      cursor_ok_def on_line_def)
qed

lemma scroll_display:
  assumes "screen_ok widest l" and "y_pos l \<le> ver_res l"
  shows "runs (if y_pos l > ver_res l - SIZE20 then scroll else ret ()) l (\<lambda>_ l'. same_mode l l' \<and> serial l' = serial l \<and>
    x_pos l' = x_pos l \<and> y_pos l' + SIZE20 \<le> ver_res l \<and> display_of l' = display_scroll l (display_of l))"
proof (cases "y_pos l > ver_res l - SIZE20")
  case True
  have v: "SIZE20 < ver_res l" using assms(1) by (simp add: screen_ok_def)
  with True have big: "ver_res l < y_pos l + SIZE20" by simp
  have "runs scroll l (\<lambda>_ l'. same_mode l l' \<and> serial l' = serial l \<and> x_pos l' = x_pos l \<and> y_pos l' + SIZE20 \<le> ver_res l \<and>
      display_of l' = display_scroll l (display_of l))"
    by (rule runs_mono [OF scroll_ok [OF assms big]])
      (use v big assms(2) in \<open>auto simp: same_mode_def display_of_def display_scroll_def picture_def fun_eq_iff\<close>)
  with True show ?thesis by simp
next
  case False
  with assms(1) show ?thesis by (auto simp: wp screen_ok_def display_scroll_def display_of_def)
qed

lemma write_char_ok:
  assumes "screen_ok widest l" and "bright (palette l)" and "cursor_ok l"
    and "get_bitmap ops c = Some g" and "c \<noteq> 10" and "c \<noteq> 13"
  shows "runs (write_char ops c) l (\<lambda>_ l'. same_mode l l' \<and> on_line l' \<and> display_of l' = display_put l g (display_of l) \<and> serial l' = port_char ops c (serial l))"
proof -
  from port_ready obtain p' where p': "port_write_char ops c (serial l) = Some p'" by blast
  define l0 where "l0 = l\<lparr>serial := p'\<rparr>"
  have m: "same_mode l l0" "display_of l0 = display_of l" "x_pos l0 = x_pos l" "hor_res l0 = hor_res l"
    by (simp_all add: l0_def same_mode_def display_of_def picture_def fun_eq_iff)
  have ok: "screen_ok widest l0" "cursor_ok l0"
    using same_mode_screen [OF m(1) assms(1)] assms(3) by (simp_all add: l0_def cursor_ok_def on_line_def)
  have u: "x_pos l + gl_width g < U64_RANGE"
    using glyph_shape [OF assms(4)] screen_bounds(3,4) [OF assms(1)] assms(1,3)
    by (auto simp: U64_RANGE_def screen_ok_def cursor_ok_def on_line_def)
  have kept: "u64_sub (ver_res l') (font_size l') = Inr (ver_res l - SIZE20)" if "same_mode l l'" for l' :: "'p logger"
    using that assms(1) by (simp add: same_mode_def screen_ok_def)
  have "runs (write_char ops c) l Q \<longleftrightarrow>
      runs (if x_pos l0 + gl_width g \<ge> hor_res l0 then newline else ret ()) l0 (\<lambda>_ l1.
        runs (pure (u64_sub (ver_res l1) (font_size l1))) l1 (\<lambda>kept l1.
        runs (if y_pos l1 > kept then scroll else ret ()) l1 (\<lambda>_ l2. runs (write_rendered_char g) l2 Q)))" for Q
    unfolding write_char_def using assms(4,5,6) u by (simp add: runs_bnd runs_gets runs_upd runs_pure p' l0_def)
  moreover have "runs (if x_pos l0 + gl_width g \<ge> hor_res l0 then newline else ret ()) l0 (\<lambda>_ l1.
        runs (pure (u64_sub (ver_res l1) (font_size l1))) l1 (\<lambda>kept l1.
        runs (if y_pos l1 > kept then scroll else ret ()) l1 (\<lambda>_ l2. runs (write_rendered_char g) l2
          (\<lambda>_ l'. same_mode l l' \<and> on_line l' \<and> display_of l' = display_put l g (display_of l) \<and> serial l' = port_char ops c (serial l)))))"
  proof (rule runs_mono [OF wrap_ok [OF ok assms(4)]])
    fix l1 :: "'p logger"
    assume 1: "same_mode l0 l1 \<and> serial l1 = serial l0 \<and> x_pos l1 + gl_width g < hor_res l0 \<and> y_pos l1 \<le> ver_res l0 \<and>
      display_of l1 = display_wrap l0 g (display_of l0)"
    have m1: "same_mode l l1" using same_mode_trans m(1) 1 by blast
    have y1: "y_pos l1 \<le> ver_res l1" using 1 m(1) by (simp add: same_mode_def)
    show "runs (pure (u64_sub (ver_res l1) (font_size l1))) l1 (\<lambda>kept l1.
        runs (if y_pos l1 > kept then scroll else ret ()) l1 (\<lambda>_ l2. runs (write_rendered_char g) l2
          (\<lambda>_ l'. same_mode l l' \<and> on_line l' \<and> display_of l' = display_put l g (display_of l) \<and> serial l' = port_char ops c (serial l))))"
      unfolding kept [OF m1] pure_Inr runs_ret
    proof (rule runs_mono)
      show "runs (if y_pos l1 > ver_res l - SIZE20 then scroll else ret ()) l1 (\<lambda>_ l2. same_mode l1 l2 \<and> serial l2 = serial l1 \<and>
          x_pos l2 = x_pos l1 \<and> y_pos l2 + SIZE20 \<le> ver_res l1 \<and> display_of l2 = display_scroll l1 (display_of l1))"
        using scroll_display [OF same_mode_screen [OF m1 assms(1)] y1] m1 by (simp only: same_mode_def)
      fix u l2
      assume 2: "same_mode l1 l2 \<and> serial l2 = serial l1 \<and> x_pos l2 = x_pos l1 \<and> y_pos l2 + SIZE20 \<le> ver_res l1 \<and>
        display_of l2 = display_scroll l1 (display_of l1)"
      have m2: "same_mode l l2" using same_mode_trans m1 2 by blast
      have pre: "bright (palette l2)" "x_pos l2 + gl_width g < hor_res l2" "y_pos l2 + SIZE20 \<le> ver_res l2"
        using 1 2 m(1) assms(2) by (auto simp: same_mode_def)
      have d: "display_draw l2 g (display_of l2) = display_put l g (display_of l)"
        using 1 2 m(2) by (simp add: display_put_def same_mode_display [OF m2] same_mode_display [OF m1] same_mode_display [OF m(1)])
      have s: "serial l2 = port_char ops c (serial l)" using 1 2 p' by (simp add: l0_def port_char_def)
      show "runs (write_rendered_char g) l2 (\<lambda>_ l'. same_mode l l' \<and> on_line l' \<and> display_of l' = display_put l g (display_of l) \<and> serial l' = port_char ops c (serial l))"
        by (rule runs_mono [OF rendered_char_ok [OF same_mode_screen [OF m2 assms(1)] pre(1) assms(4) pre(2,3)]])
          (use same_mode_trans [OF m2] in \<open>simp add: d s\<close>)
    qed
  qed
  ultimately show ?thesis by simp
qed

end

end
