(* ===== verification/Logger_Text.thy ===== *)
theory Logger_Text
  imports Logger_Screen
begin

text \<open>
  Whole records. The terminal takes a text character by character; a record is the text that has the prefix before
  every line of its message. Inside the locale \<open>console\<close> the logger is shown to do to the frame buffer and
  to the serial port what the terminal and the port do with that text.
\<close>

section \<open>The terminal\<close>

definition display_char :: "'p console_ops \<Rightarrow> 'p logger \<Rightarrow> nat \<Rightarrow> display \<Rightarrow> display" where
  "display_char ops m c d =
     (if c = 10 then d\<lparr>d_x := 0, d_y := d_y d + SIZE20\<rparr>
      else if c = 13 then d\<lparr>d_x := 0\<rparr>
      else (case get_bitmap ops c of None \<Rightarrow> d | Some g \<Rightarrow> display_put m g d))"

definition display_text :: "'p console_ops \<Rightarrow> 'p logger \<Rightarrow> nat list \<Rightarrow> display \<Rightarrow> display" where
  "display_text ops m s d = fold (display_char ops m) s d"

definition port_text :: "'p console_ops \<Rightarrow> nat list \<Rightarrow> 'p \<Rightarrow> 'p" where
  "port_text ops s p = fold (port_char ops) s p"

lemma text_append [simp]:
  "display_text ops m (s @ t) d = display_text ops m t (display_text ops m s d)"
  "port_text ops (s @ t) p = port_text ops t (port_text ops s p)"
  by (simp_all add: display_text_def port_text_def)

lemma text_Nil [simp]: "display_text ops m [] d = d" "port_text ops [] p = p"
  by (simp_all add: display_text_def port_text_def)

text \<open>The terminal looks at the mode and the colour of a logger only.\<close>

lemma same_mode_text:
  assumes "same_mode l l'"
  shows "display_text ops l' s d = display_text ops l s d"
proof -
  have "display_char ops l' = display_char ops l"
    by (simp add: fun_eq_iff display_char_def display_put_def same_mode_display [OF assms] cong: option.case_cong)
  then show ?thesis by (simp add: display_text_def)
qed

section \<open>Records\<close>

definition level_color :: "level \<Rightarrow> rgb" where
  "level_color lv =
     (case lv of
        Error \<Rightarrow> \<lparr>red = 210, green = 114, blue = 119\<rparr>
      | Warn \<Rightarrow> \<lparr>red = 223, green = 193, blue = 132\<rparr>
      | Info \<Rightarrow> \<lparr>red = 115, green = 173, blue = 233\<rparr>
      | Debug \<Rightarrow> \<lparr>red = 161, green = 193, blue = 129\<rparr>
      | Trace \<Rightarrow> \<lparr>red = 220, green = 223, blue = 228\<rparr>)"

text \<open>The lines of a message: what is between its line feeds, without a carriage return before a line feed.\<close>

fun fields :: "nat list \<Rightarrow> nat list list" where
  "fields [] = [[]]"
| "fields (c # cs) = (if c = 10 then [] # fields cs else (c # hd (fields cs)) # tl (fields cs))"

definition strip_cr :: "nat list \<Rightarrow> nat list" where
  "strip_cr l = (if l \<noteq> [] \<and> last l = 13 then butlast l else l)"

definition message_lines :: "nat list \<Rightarrow> nat list list" where
  "message_lines s = map strip_cr (butlast (fields s)) @ [last (fields s)]"

definition record_prefix :: "log_record \<Rightarrow> nat list" where
  "record_prefix r = log_prefix (rec_level r) (case rec_file r of None \<Rightarrow> map of_char ''<unknown file>'' | Some f \<Rightarrow> f)
     (case rec_line r of None \<Rightarrow> 0 | Some n \<Rightarrow> n)"

definition record_text :: "log_record \<Rightarrow> nat list" where
  "record_text r = concat (map (\<lambda>x. record_prefix r @ x @ [10]) (message_lines (rec_args r)))"

definition terminal_record :: "'p console_ops \<Rightarrow> 'p logger \<Rightarrow> log_record \<Rightarrow> display \<Rightarrow> display" where
  "terminal_record ops m r d = display_text ops (m\<lparr>palette := level_color (rec_level r)\<rparr>) (record_text r) d"

text \<open>
  The records \<open>rs\<close> were logged: the mode is the same, the screen is what the terminal made of them and the serial
  port got their text.
\<close>

definition logged :: "'p console_ops \<Rightarrow> log_record list \<Rightarrow> 'p logger \<Rightarrow> 'p logger \<Rightarrow> bool" where
  "logged ops rs l l' \<longleftrightarrow> same_mode (l\<lparr>palette := palette l'\<rparr>) l' \<and>
     display_of l' = fold (terminal_record ops l) rs (display_of l) \<and>
     serial l' = port_text ops (concat (map record_text rs)) (serial l)"

lemma same_mode_terminal:
  assumes "same_mode (l\<lparr>palette := palette l'\<rparr>) l'"
  shows "terminal_record ops l' r = terminal_record ops l r"
proof -
  have "same_mode (l\<lparr>palette := level_color (rec_level r)\<rparr>) (l'\<lparr>palette := level_color (rec_level r)\<rparr>)"
    using assms by (simp add: same_mode_def)
  from same_mode_text [OF this] show ?thesis by (simp add: terminal_record_def fun_eq_iff)
qed

lemma logged_Nil [simp]: "logged ops [] l l"
  by (simp add: logged_def)

lemma logged_trans:
  assumes "logged ops rs l l1" and "logged ops rs' l1 l2"
  shows "logged ops (rs @ rs') l l2"
proof -
  have "same_mode (l\<lparr>palette := palette l2\<rparr>) l2" using assms by (simp add: logged_def same_mode_def)
  moreover have "same_mode (l\<lparr>palette := palette l1\<rparr>) l1" using assms(1) by (simp add: logged_def)
  then have "terminal_record ops l1 = terminal_record ops l" by (intro ext) (simp add: same_mode_terminal)
  ultimately show ?thesis using assms by (simp add: logged_def)
qed

text \<open>A logger that can take the next record.\<close>

definition log_ready :: "nat \<Rightarrow> 'p locked_logger \<Rightarrow> bool" where
  "log_ready w l \<longleftrightarrow> screen_ok w (log_inner l) \<and> cursor_ok (log_inner l) \<and> \<not> log_locked l"

lemma fields_ne [simp]: "fields s \<noteq> []"
  by (cases s) simp_all

lemma fields_cat: "10 \<notin> set xs \<Longrightarrow> fields (xs @ 10 # ys) = xs # fields ys"
  by (induction xs) auto

lemma fields_one: "10 \<notin> set xs \<Longrightarrow> fields xs = [xs]"
  by (induction xs) auto

lemma message_lines_cat: "10 \<notin> set xs \<Longrightarrow> message_lines (xs @ 10 # ys) = strip_cr xs # message_lines ys"
  by (simp add: message_lines_def fields_cat)

lemma message_lines_one: "10 \<notin> set xs \<Longrightarrow> message_lines xs = [xs]"
  by (simp add: message_lines_def fields_one)

text \<open>\<open>str::lines\<close> and the test for a final line feed yield these lines.\<close>

lemma lines_acc_message:
  "10 \<notin> set cur \<Longrightarrow> message_lines (rev cur @ s) =
     (if cur = [] \<and> s = [] then [[]] else lines_acc cur s @ (if s \<noteq> [] \<and> last s = 10 then [[]] else []))"
proof (induction s arbitrary: cur)
  case Nil
  then show ?case using message_lines_one [of "rev cur"] by simp
next
  case (Cons c s)
  show ?case
  proof (cases "c = 10")
    case True
    have "strip_cr (rev cur) = rev (case cur of [] \<Rightarrow> [] | d # ds \<Rightarrow> if d = 13 then ds else cur)"
      by (cases cur) (simp_all add: strip_cr_def)
    with True Cons.prems Cons.IH [of "[]"] message_lines_cat [of "rev cur" s] show ?thesis by simp
  next
    case False
    with Cons.prems Cons.IH [of "c # cur"] show ?thesis by simp
  qed
qed

lemma lines_acc_ne: "lines_acc cur s = [] \<longleftrightarrow> cur = [] \<and> s = []"
  by (induction s arbitrary: cur) simp_all

lemma message_lines_lines:
  "message_lines s = (case lines s of [] \<Rightarrow> [] | l # _ \<Rightarrow> l) # tl (lines s) @ (if s \<noteq> [] \<and> last s = 10 then [[]] else [])"
proof (cases "s = []")
  case False
  then have "lines s \<noteq> []" by (simp add: lines_def lines_acc_ne)
  with False lines_acc_message [of "[]" s] show ?thesis by (simp add: lines_def split: list.split)
qed (simp add: message_lines_def lines_def)

lemma message_lines_set: "x \<in> set (message_lines s) \<Longrightarrow> set x \<subseteq> set s - {10}"
  using lines_set [of x s] lines_set [of "hd (lines s)" s]
  by (auto simp: message_lines_lines dest: list.set_sel(2) split: list.splits if_splits)

section \<open>The logger as a terminal\<close>

context console
begin

definition writing :: "'p logger \<Rightarrow> bool" where
  "writing l \<longleftrightarrow> screen_ok widest l \<and> bright (palette l)"

text \<open>What a text does to a logger.\<close>

definition wrote :: "nat list \<Rightarrow> 'p logger \<Rightarrow> 'p logger \<Rightarrow> bool" where
  "wrote s l l' \<longleftrightarrow> same_mode l l' \<and> display_of l' = display_text ops l s (display_of l) \<and> serial l' = port_text ops s (serial l)"

lemma writing_same: "same_mode l l' \<Longrightarrow> writing l \<Longrightarrow> writing l'"
  using same_mode_screen [of l l' widest] by (auto simp: writing_def same_mode_def)

lemma wrote_writing: "wrote s l l' \<Longrightarrow> writing l \<Longrightarrow> writing l'"
  using writing_same [of l l'] by (simp add: wrote_def)

lemma wrote_Nil [simp]: "wrote [] l l"
  by (simp add: wrote_def)

lemma wrote_trans: "wrote s l l1 \<Longrightarrow> wrote t l1 l2 \<Longrightarrow> wrote (s @ t) l l2"
  using same_mode_trans same_mode_text [of l l1] by (auto simp: wrote_def)

lemma write_glyph:
  assumes "writing l" and "cursor_ok l" and "shown ops c" and "c \<noteq> 13"
  shows "runs (write_char ops c) l (\<lambda>_ l'. wrote [c] l l' \<and> on_line l')"
proof -
  from assms(3,4) obtain g where g: "get_bitmap ops c = Some g" "c \<noteq> 10" by (auto simp: shown_def)
  with assms show ?thesis
    by (intro runs_mono [OF write_char_ok]) (auto simp: writing_def wrote_def display_text_def display_char_def port_text_def)
qed

lemma shown_ok:
  assumes "writing l" and "on_line l" and "shown ops c"
  shows "runs (write_char ops c) l (\<lambda>_ l'. wrote [c] l l' \<and> on_line l')"
proof (cases "c = 13")
  case True
  from port_ready obtain p' where "port_write_char ops c (serial l) = Some p'" by blast
  with True assms(1,2) show ?thesis
    by (auto simp: write_char_def wp carriage_return_def on_line_def wrote_def same_mode_def display_text_def display_char_def
      display_of_def picture_def fun_eq_iff port_text_def port_char_def)
next
  case False
  with assms show ?thesis by (intro write_glyph) (simp_all add: cursor_ok_def)
qed

lemma shown_text_ok:
  assumes "writing l" and "on_line l" and "\<forall>c \<in> set s. shown ops c"
  shows "runs (write_str ops s) l (\<lambda>_ l'. wrote s l l' \<and> on_line l')"
  using assms
proof (induction s arbitrary: l)
  case Nil
  then show ?case by (simp add: write_str_def wp)
next
  case (Cons c s)
  have c: "shown ops c" using Cons.prems(3) by simp
  have "runs (write_str ops s) l1 (\<lambda>_ l'. wrote (c # s) l l' \<and> on_line l')" if "wrote [c] l l1" "on_line l1" for l1
    by (rule runs_mono [OF Cons.IH [OF wrote_writing [OF that(1) Cons.prems(1)] that(2)]])
      (use Cons.prems(3) wrote_trans [OF that(1)] in auto)
  then show ?case
    unfolding write_str_def by (simp add: runs_bnd, intro runs_mono [OF shown_ok [OF Cons.prems(1,2) c]]) simp
qed

lemma end_of_line_ok:
  assumes "writing l" and "on_line l"
  shows "runs (write_char ops 10) l (\<lambda>_ l'. wrote [10] l l' \<and> cursor_ok l')"
proof -
  from port_ready obtain p' where "port_write_char ops 10 (serial l) = Some p'" by blast
  moreover have "font_size l = SIZE20" "ver_res l < U64_RANGE" "y_pos l + SIZE20 \<le> ver_res l"
    using assms screen_bounds(1) [of widest l] by (simp_all add: writing_def screen_ok_def U64_RANGE_def on_line_def)
  ultimately show ?thesis
    by (simp add: write_char_def wp newline_def carriage_return_def cursor_ok_def wrote_def same_mode_def display_text_def
      display_char_def display_of_def picture_def fun_eq_iff port_text_def port_char_def)
qed

text \<open>A line that starts with a glyph: the cursor may be below the screen before it.\<close>

lemma line_ok:
  assumes "writing l" and "cursor_ok l" and "\<forall>c \<in> set (c # s). shown ops c" and "c \<noteq> 13"
  shows "runs (write_str ops (c # s @ [10])) l (\<lambda>_ l'. wrote (c # s @ [10]) l l' \<and> cursor_ok l')"
proof -
  have c: "shown ops c" using assms(3) by simp
  have rest: "runs (write_str ops (s @ [10])) l1 (\<lambda>_ l'. wrote (c # s @ [10]) l l' \<and> cursor_ok l')" if "wrote [c] l l1" "on_line l1" for l1
  proof -
    note w1 = wrote_writing [OF that(1) assms(1)]
    have "runs (write_char ops 10) l2 (\<lambda>_ l'. wrote (c # s @ [10]) l l' \<and> cursor_ok l')" if "wrote s l1 l2" "on_line l2" for l2
      by (rule runs_mono [OF end_of_line_ok [OF wrote_writing [OF that(1) w1] that(2)]])
        (use wrote_trans [OF wrote_trans [OF \<open>wrote [c] l l1\<close> that(1)]] in auto)
    then show ?thesis
      unfolding write_str_def runs_for_each_append
      by (intro runs_mono [OF shown_text_ok [OF w1 that(2), unfolded write_str_def]]) (use assms(3) in \<open>auto simp: wp\<close>)
  qed
  show ?thesis
    unfolding write_str_def
    by (simp add: runs_bnd, rule runs_mono [OF write_glyph [OF assms(1,2) c assms(4)]])
      (use rest in \<open>simp add: write_str_def\<close>)
qed

lemma ascii_shown: "32 \<le> c \<Longrightarrow> c \<le> 126 \<Longrightarrow> shown ops c"
  using ascii_glyphs [of c] by (auto simp: shown_def)

lemma prefix_shape:
  assumes "\<forall>c \<in> set f. shown ops c"
  obtains t where "log_prefix lv f n = 91 # t" and "\<forall>c \<in> set (91 # t). shown ops c"
proof (rule that [of "tl (log_prefix lv f n)"])
  show p: "log_prefix lv f n = 91 # tl (log_prefix lv f n)" by (simp add: log_prefix_def)
  have "shown ops c" if "c \<in> set (level_name lv)" for c
    using that by (intro ascii_shown) (auto simp: level_name_def split: level.splits)
  moreover have "shown ops c" if "c \<in> set (map unat (show_radix 10 n))" for c
    using that show_radix_bytes [of 10 _ n] by (intro ascii_shown) fastforce+
  ultimately have "\<forall>c \<in> set (log_prefix lv f n). shown ops c"
    using assms by (auto simp: log_prefix_def pad_left_def intro: ascii_shown)
  with p show "\<forall>c \<in> set (91 # tl (log_prefix lv f n)). shown ops c" by metis
qed

lemma bright_color: "bright (level_color lv)"
  by (cases lv) (simp_all add: level_color_def bright_def BACKGROUND_PIXEL_def)

lemma set_palette_color: "set_palette lv = upd (\<lambda>l. l\<lparr>palette := level_color lv\<rparr>)"
  by (cases lv) (simp_all add: set_palette_def level_color_def)

text \<open>The lines of a record, one after the other.\<close>

lemma lines_ok:
  assumes "writing l" and "cursor_ok l" and "\<forall>c \<in> set f. shown ops c" and "\<forall>x \<in> set xs. \<forall>c \<in> set x. shown ops c"
  shows "runs (for_each xs (\<lambda>x. write_str ops (log_prefix lv f n @ x @ [10]))) l
    (\<lambda>_ l'. wrote (concat (map (\<lambda>x. log_prefix lv f n @ x @ [10]) xs)) l l' \<and> cursor_ok l')"
  using assms(1,2,4)
proof (induction xs arbitrary: l)
  case Nil
  then show ?case by (simp add: wp)
next
  case (Cons x xs)
  obtain t where t: "log_prefix lv f n = 91 # t" "\<forall>c \<in> set (91 # t). shown ops c" by (rule prefix_shape [OF assms(3)])
  have line: "runs (write_str ops (log_prefix lv f n @ x @ [10])) l (\<lambda>_ l'. wrote (log_prefix lv f n @ x @ [10]) l l' \<and> cursor_ok l')"
    using line_ok [OF Cons.prems(1,2), of 91 "t @ x"] t Cons.prems(3) by auto
  have "runs (for_each xs (\<lambda>x. write_str ops (log_prefix lv f n @ x @ [10]))) l1
      (\<lambda>_ l'. wrote (concat (map (\<lambda>x. log_prefix lv f n @ x @ [10]) (x # xs))) l l' \<and> cursor_ok l')"
    if "wrote (log_prefix lv f n @ x @ [10]) l l1" "cursor_ok l1" for l1
    by (rule runs_mono [OF Cons.IH [OF wrote_writing [OF that(1) Cons.prems(1)] that(2)]])
      (use Cons.prems(3) wrote_trans [OF that(1)] in auto)
  then show ?case by (simp add: runs_bnd, intro runs_mono [OF line]) blast
qed

lemma Logger_write_lines:
  "runs (Logger_write ops lv s f n) l Q \<longleftrightarrow>
   runs (for_each (message_lines s) (\<lambda>x. write_str ops (log_prefix lv f n @ x @ [10]))) (l\<lparr>palette := level_color lv\<rparr>) Q"
  by (simp add: Logger_write_def set_palette_color Let_def message_lines_lines runs_bnd runs_upd runs_for_each_append runs_ret)

lemma Logger_write_ok:
  assumes "screen_ok widest l" and "cursor_ok l" and "text_ok ops s" and "\<forall>c \<in> set f. shown ops c"
  shows "runs (Logger_write ops lv s f n) l (\<lambda>_ l'. cursor_ok l' \<and>
    wrote (concat (map (\<lambda>x. log_prefix lv f n @ x @ [10]) (message_lines s))) (l\<lparr>palette := level_color lv\<rparr>) l')"
  unfolding Logger_write_lines
proof (rule runs_mono [OF lines_ok])
  show "writing (l\<lparr>palette := level_color lv\<rparr>)" "cursor_ok (l\<lparr>palette := level_color lv\<rparr>)"
    using assms(1,2) bright_color by (simp_all add: writing_def screen_ok_def cursor_ok_def on_line_def)
  show "\<forall>x \<in> set (message_lines s). \<forall>c \<in> set x. shown ops c"
    using message_lines_set assms(3) by (fastforce simp: text_ok_def)
qed (use assms(4) in auto)

lemma log_log_ok:
  assumes "log_ready widest l" and "record_ok ops r"
  shows "runs (log_log ops r) l (\<lambda>_ l'. log_ready widest l' \<and>
    logged ops [r] (log_inner l) (log_inner l'))"
proof -
  let ?f = "case rec_file r of None \<Rightarrow> map of_char ''<unknown file>'' | Some f \<Rightarrow> f" and ?l = "log_inner l"
  let ?n = "case rec_line r of None \<Rightarrow> 0 | Some n \<Rightarrow> n" and ?p = "?l\<lparr>palette := level_color (rec_level r)\<rparr>"
  have l: "screen_ok widest ?l" "cursor_ok ?l" "\<not> log_locked l" using assms(1) by (simp_all add: log_ready_def)
  have f: "\<forall>c \<in> set ?f. shown ops c"
    using assms(2) by (auto simp: record_ok_def intro!: ascii_shown split: option.splits)
  have t: "text_ok ops (rec_args r)" using assms(2) by (simp add: record_ok_def)
  have s: "screen_ok widest ?p" "display_of ?p = display_of ?l" "serial ?p = serial ?l"
    using l(1) by (simp_all add: screen_ok_def display_of_def picture_def fun_eq_iff)
  have "runs (Logger_write ops (rec_level r) (rec_args r) ?f ?n) ?l (\<lambda>_ l'. screen_ok widest l' \<and> cursor_ok l' \<and>
      logged ops [r] ?l l')"
  proof (rule runs_mono [OF Logger_write_ok [OF l(1,2) t f]], elim conjE)
    fix u l'
    assume c: "cursor_ok l'" and w: "wrote (concat (map (\<lambda>x. log_prefix (rec_level r) ?f ?n @ x @ [10]) (message_lines (rec_args r)))) ?p l'"
    have m: "same_mode ?p l'" using w by (simp add: wrote_def)
    then have "same_mode (?l\<lparr>palette := palette l'\<rparr>) l'" by (simp add: same_mode_def)
    with c w same_mode_screen [OF m s(1)] show "screen_ok widest l' \<and> cursor_ok l' \<and> logged ops [r] ?l l'"
      by (simp add: wrote_def logged_def terminal_record_def record_text_def record_prefix_def s(2,3))
  qed
  with l(3) show ?thesis by (simp add: log_log_def wp log_ready_def)
qed

lemma log_logs_ok:
  assumes "log_ready widest l" and "\<forall>r \<in> set rs. record_ok ops r"
  shows "runs (for_each rs (log_log ops)) l (\<lambda>_ l'. log_ready widest l' \<and> logged ops rs (log_inner l) (log_inner l'))"
  using assms
proof (induction rs arbitrary: l)
  case Nil
  then show ?case by (simp add: wp)
next
  case (Cons r rs)
  have r: "record_ok ops r" using Cons.prems(2) by simp
  have "runs (for_each rs (log_log ops)) l1 (\<lambda>_ l'. log_ready widest l' \<and> logged ops (r # rs) (log_inner l) (log_inner l'))"
    if "log_ready widest l1" "logged ops [r] (log_inner l) (log_inner l1)" for l1
    by (rule runs_mono [OF Cons.IH [OF that(1)]]) (use Cons.prems(2) logged_trans [OF that(2)] in auto)
  then show ?case by (simp add: runs_bnd, intro runs_mono [OF log_log_ok [OF Cons.prems(1) r]]) blast
qed

end

end
