(* ===== verification/Logger_Properties.thy ===== *)
theory Logger_Properties
  imports Logger_Text
begin

text \<open>
  The properties of the logger. The instance of \<open>console\<close> has a font of solid blocks for the printable
  ASCII characters and a serial port that records what is sent.
\<close>

section \<open>A console\<close>

definition block_glyph :: glyph where
  "block_glyph = \<lparr>gl_width = 11, gl_bitmap = replicate SIZE20 (replicate 11 255)\<rparr>"

definition block_console :: "nat list console_ops" where
  "block_console = \<lparr>get_bitmap = (\<lambda>c. if 32 \<le> c \<and> c \<le> 126 then Some block_glyph else None),
     port_write_char = (\<lambda>c p. Some (p @ [c])), port_send = (\<lambda>b p. p @ [unat b])\<rparr>"

interpretation block: console block_console 11
  by unfold_locales (auto simp: block_console_def block_glyph_def split: if_splits)

section \<open>Modes\<close>

text \<open>
  A graphics mode the logger can draw in: pixels of four bytes, more than a line high, wider than a glyph,
  rows padded by less than a quarter.
\<close>

definition mode_ok :: "nat \<Rightarrow> graphic_info \<Rightarrow> bool" where
  "mode_ok w info \<longleftrightarrow> (case gi_resolution info of (hor, ver) \<Rightarrow>
     SIZE20 < ver \<and> w < hor \<and> hor \<le> gi_stride info \<and> 4 * gi_stride info < 5 * hor \<and>
     fb_size info = ver * gi_stride info * 4 \<and> fb_size info < 2 ^ 63)"

lemma mode_pixels:
  assumes "fb_size info = ver * gi_stride info * 4" and "hor \<le> gi_stride info" and "0 < ver" and "0 < hor" and "fb_size info < 2 ^ 63"
  shows "hor * ver < U64_RANGE" and "hor * ver \<noteq> 0" and "4 * gi_stride info < 5 * hor \<Longrightarrow> fb_size info div (hor * ver) = 4"
    and "5 * hor \<le> 4 * gi_stride info \<Longrightarrow> 5 \<le> fb_size info div (hor * ver)"
proof -
  have le: "hor * ver \<le> ver * gi_stride info" using assms(2) by (simp add: mult.commute)
  also have "\<dots> \<le> fb_size info" using assms(1) by simp
  also have "\<dots> < U64_RANGE" using assms(5) by (simp add: U64_RANGE_def)
  finally show "hor * ver < U64_RANGE" .
  show nz: "hor * ver \<noteq> 0" using assms(3,4) by simp
  {
    assume lt: "4 * gi_stride info < 5 * hor"
    have "fb_size info < 5 * (hor * ver)"
      using mult_strict_right_mono [OF lt, of ver] assms(1,3) by (simp add: algebra_simps)
    moreover have "4 * (hor * ver) \<le> fb_size info" using le assms(1) by simp
    ultimately show "fb_size info div (hor * ver) = 4" using nz by (intro div_nat_eqI) (simp_all add: algebra_simps)
  }
  {
    assume "5 * hor \<le> 4 * gi_stride info"
    then have "5 * (hor * ver) \<le> fb_size info"
      using mult_le_mono1 [of "5 * hor" "4 * gi_stride info" ver] assms(1) by (simp add: algebra_simps)
    then show "5 \<le> fb_size info div (hor * ver)" using nz by (simp add: less_eq_div_iff_mult_less_eq)
  }
qed

lemma Logger_new_ok:
  assumes "gi_resolution info = (hor, ver)" and "hor * ver < U64_RANGE" and "hor * ver \<noteq> 0" and "length mem = fb_size info"
  shows "\<exists>fb port'. Logger_new ops info mem port = Inr \<lparr>hor_res = hor, ver_res = ver, pix_format = gi_pixel_format info,
     stride = gi_stride info, bytes_per_pixel = fb_size info div (hor * ver), font_size = SIZE20, palette = rgb_from (0, 0, 0),
     framebuffer = fb, x_pos = 0, y_pos = 0, serial = port'\<rparr> \<and> length fb = fb_size info"
  using assms by (simp add: Logger_new_def clear_def bnd_def upd_def sbnd_def u64_mul_def)

text \<open>
  C28: on every graphics mode that the boot loader can pass, the logger starts, and no sequence of records
  makes it panic, write outside the frame buffer or keep its lock, as long as the font has the characters.
\<close>

theorem logger_never_panics:
  assumes "console ops w" and "mode_ok w info" and "length mem = fb_size info" and "\<forall>r \<in> set rs. record_ok ops r"
  shows "\<exists>l0. LockedLogger_new ops info mem port = Inr l0 \<and>
    runs (for_each rs (log_log ops)) l0 (\<lambda>_ l. screen_ok w (log_inner l) \<and> cursor_ok (log_inner l) \<and> \<not> log_locked l)"
proof -
  obtain hor ver where res: "gi_resolution info = (hor, ver)" by fastforce
  from assms(2) res have m: "fb_size info = ver * gi_stride info * 4" "hor \<le> gi_stride info" "0 < ver" "0 < hor"
    "fb_size info < 2 ^ 63" "4 * gi_stride info < 5 * hor" "SIZE20 < ver" "w < hor"
    by (auto simp: mode_ok_def)
  note px = mode_pixels [OF m(1-5)]
  from Logger_new_ok [OF res px(1,2) assms(3), of ops port] px(3) [OF m(6)] m
  obtain l where l: "Logger_new ops info mem port = Inr l" "screen_ok w l" "cursor_ok l"
    by (auto simp: screen_ok_def cursor_ok_def on_line_def)
  have "runs (for_each rs (log_log ops)) \<lparr>log_locked = False, log_inner = l\<rparr>
      (\<lambda>_ l. screen_ok w (log_inner l) \<and> cursor_ok (log_inner l) \<and> \<not> log_locked l)"
    by (rule runs_mono [OF console.log_logs_ok [OF assms(1) _ assms(4)]]) (use l in \<open>simp_all add: log_ready_def\<close>)
  with l(1) show ?thesis by (simp add: LockedLogger_new_def)
qed

definition small_mode :: graphic_info where
  "small_mode = \<lparr>gi_resolution = (100, 30), gi_pixel_format = Rgb, gi_stride = 110, fb_size = 13200\<rparr>"

definition hello_record :: log_record where
  "hello_record = \<lparr>rec_level = Info, rec_args = [104, 105, 10], rec_file = None, rec_line = Some 7\<rparr>"

theorem logger_never_panics_witness:
  "\<exists>l0. LockedLogger_new block_console small_mode (replicate 13200 0) [] = Inr l0 \<and>
    runs (for_each [hello_record, hello_record] (log_log block_console)) l0
      (\<lambda>_ l. screen_ok 11 (log_inner l) \<and> cursor_ok (log_inner l) \<and> \<not> log_locked l)"
  by (rule logger_never_panics [OF block.console_axioms])
    (auto simp: mode_ok_def small_mode_def SIZE20_def record_ok_def text_ok_def hello_record_def shown_def block_console_def)

text \<open>
  C11: after any sequence of records the frame buffer and the cursor are what a terminal makes of their text,
  and the serial port got exactly that text. The text of a record has, for every line of its message, a line with the
  prefix of level, file and number before it; the terminal draws each glyph in the colour of the level at the
  cursor and nowhere else, wraps a full line and scrolls a full screen.
\<close>

theorem logger_refines_display:
  assumes "console ops w" and "screen_ok w (log_inner l)" and "cursor_ok (log_inner l)" and "\<not> log_locked l"
    and "\<forall>r \<in> set rs. record_ok ops r"
  shows "runs (for_each rs (log_log ops)) l (\<lambda>_ l'.
    display_of (log_inner l') = fold (terminal_record ops (log_inner l)) rs (display_of (log_inner l)) \<and>
    serial (log_inner l') = port_text ops (concat (map record_text rs)) (serial (log_inner l)) \<and>
    cursor_ok (log_inner l') \<and> \<not> log_locked l')"
  by (rule runs_mono [OF console.log_logs_ok [OF assms(1) _ assms(5)]])
    (use assms(2-4) in \<open>simp_all add: log_ready_def logged_def\<close>)

definition small_logger :: "nat list logger" where
  "small_logger = \<lparr>hor_res = 100, ver_res = 30, pix_format = Rgb, stride = 110, bytes_per_pixel = 4, font_size = SIZE20,
     palette = rgb_from (115, 173, 233), framebuffer = replicate 13200 0, x_pos = 95, y_pos = 10, serial = []\<rparr>"

theorem logger_refines_display_witness:
  "runs (for_each [\<lparr>rec_level = Warn, rec_args = [97, 10, 98], rec_file = Some [102], rec_line = Some 7\<rparr>] (log_log block_console))
     \<lparr>log_locked = False, log_inner = small_logger\<rparr> (\<lambda>_ l'. \<not> log_locked l' \<and>
     serial (log_inner l') = map of_char ''[ WARN]:            f@007: a'' @ [10] @ map of_char ''[ WARN]:            f@007: b'' @ [10])"
proof (rule runs_mono [OF logger_refines_display [OF block.console_axioms]], goal_cases)
  case (5 u l')
  have p: "port_text block_console s q = q @ s" for s q
    by (induction s arbitrary: q) (simp_all add: port_text_def port_char_def block_console_def)
  have "show_radix 10 7 = [55]" by (simp add: show_radix.simps digit_byte_def)
  moreover have "replicate 11 32 = [32, 32, 32, 32, 32, 32, 32, 32, 32, 32, 32 :: nat]" "replicate 2 48 = [48, 48 :: nat]"
    by (simp_all only: numeral_eq_Suc pred_numeral_simps replicate.simps BitM.simps)
  ultimately show ?case
    using 5 by (simp add: p record_text_def message_lines_def record_prefix_def log_prefix_def pad_left_def level_name_def strip_cr_def
      small_logger_def)
qed (auto simp: small_logger_def screen_ok_def cursor_ok_def on_line_def SIZE20_def record_ok_def text_ok_def shown_def block_console_def)

text \<open>
  The colours of a glyph lie between the background and the colour of the level, and reach both.
\<close>

theorem logger_colors_bounded:
  "runs (set_palette lv) l (\<lambda>_ l'. \<exists>c. get_color l' (unat (b :: u8)) = Inr c \<and>
     (let ink = (case pix_format l of Rgb \<Rightarrow> to_rgb_pixel (palette l') | Bgr \<Rightarrow> to_bgr_pixel (palette l') | _ \<Rightarrow> [0, 0, 0, 0]) in
      length c = 4 \<and> (\<forall>i<4. background (pix_format l) ! i \<le> c ! i \<and> c ! i \<le> ink ! i) \<and>
      (b = 0 \<longrightarrow> c = background (pix_format l)) \<and> (b = 255 \<longrightarrow> c = ink)))"
proof -
  define p where "p = level_color lv"
  have br: "bright p" unfolding p_def by (rule block.bright_color)
  have b: "unat b \<le> 255" using unsigned_less [of b, where ?'a = nat] by simp
  note sh = shade_range [OF _ b]
  have "\<forall>i<4. background f ! i \<le> color f p b ! i \<and> color f p b ! i \<le>
      (case f of Rgb \<Rightarrow> to_rgb_pixel p | Bgr \<Rightarrow> to_bgr_pixel p | _ \<Rightarrow> [0, 0, 0, 0]) ! i" for f
    using br sh by (cases f) (auto simp: color_def Let_def background_def to_rgb_pixel_def to_bgr_pixel_def bright_def
      less_Suc_eq numeral_eq_Suc)
  moreover have "b = 0 \<longrightarrow> color f p b = background f" for f
    using br sh(3) by (cases f) (auto simp: color_def background_def to_rgb_pixel_def to_bgr_pixel_def bright_def)
  moreover have "b = 255 \<longrightarrow> color f p b = (case f of Rgb \<Rightarrow> to_rgb_pixel p | Bgr \<Rightarrow> to_bgr_pixel p | _ \<Rightarrow> [0, 0, 0, 0])" for f
    using br sh(4) by (cases f) (auto simp: color_def to_rgb_pixel_def to_bgr_pixel_def bright_def)
  ultimately show ?thesis
    using get_color_ok [of "l\<lparr>palette := p\<rparr>" b] br
    by (simp add: block.set_palette_color wp Let_def p_def [symmetric] cong: pixel_format.case_cong)
qed

theorem logger_colors_bounded_witness:
  "runs (set_palette Info) small_logger (\<lambda>_ l'. get_color l' 255 = Inr (to_rgb_pixel (palette l')))"
  by (rule runs_mono [OF logger_colors_bounded [of Info small_logger 255]]) (simp add: small_logger_def Let_def)

lemma write_pixel_wide:
  assumes "5 \<le> bytes_per_pixel l" and "bytes_per_pixel l < U64_RANGE" and "bright (palette l)"
  shows "write_pixel 0 0 b l = Inl IndexOutOfBounds"
proof -
  have "\<not> bytes_per_pixel l \<le> 4" using assms(1) by simp
  with assms(2) show ?thesis
    by (simp add: write_pixel_def bnd_def gets_def pure_def u64_mul_def u64_add_def U64_RANGE_def get_color_ok [OF assms(3)]
      require_def panic_def)
qed

lemma write_glyph_wide:
  assumes "5 \<le> bytes_per_pixel l" and "bytes_per_pixel l < U64_RANGE" and "bright (palette l)"
    and "x_pos l = 0" and "y_pos l = 0" and "gl_bitmap g = (b # row) # rows"
  shows "write_rendered_char g l = Inl IndexOutOfBounds"
  using write_pixel_wide [OF assms(1-3)] assms(4-6)
  by (simp add: write_rendered_char_def write_row_def bnd_def gets_def pure_def u64_add_def U64_RANGE_def)

context console
begin

lemma write_char_wide:
  assumes "5 \<le> bytes_per_pixel l" and "bytes_per_pixel l < U64_RANGE" and "bright (palette l)" and "x_pos l = 0" and "y_pos l = 0"
    and "font_size l = SIZE20" and "SIZE20 < ver_res l" and "widest < hor_res l" and "hor_res l < U64_RANGE"
  shows "write_char ops 91 l = Inl IndexOutOfBounds"
proof -
  obtain g where g: "get_bitmap ops 91 = Some g" "0 < gl_width g" using ascii_glyphs [of 91] by auto
  from glyph_shape [OF g(1)] obtain r rows where r: "gl_bitmap g = r # rows" "length r = gl_width g" "gl_width g \<le> widest"
    by (cases "gl_bitmap g") (auto simp: SIZE20_def)
  with g(2) obtain b row where b: "r = b # row" by (cases r) auto
  from port_ready obtain p' where p': "port_write_char ops 91 (serial l) = Some p'" by blast
  have "write_rendered_char g (l\<lparr>serial := p'\<rparr>) = Inl IndexOutOfBounds"
    using assms by (intro write_glyph_wide [where b = b and row = row and rows = rows]) (simp_all add: r b)
  with assms g r(3) p' show ?thesis
    by (simp add: write_char_def bnd_def gets_def pure_def upd_def ret_def u64_add_def u64_sub_def)
qed

lemma log_log_wide:
  assumes "5 \<le> bytes_per_pixel l" and "bytes_per_pixel l < U64_RANGE" and "x_pos l = 0" and "y_pos l = 0"
    and "font_size l = SIZE20" and "SIZE20 < ver_res l" and "widest < hor_res l" and "hor_res l < U64_RANGE"
  shows "log_log ops r \<lparr>log_locked = False, log_inner = l\<rparr> = Inl IndexOutOfBounds"
proof -
  define p where "p = level_color (rec_level r)"
  have "bright p" unfolding p_def by (rule bright_color)
  with assms have "write_char ops 91 (l\<lparr>palette := p\<rparr>) = Inl IndexOutOfBounds" by (intro write_char_wide) simp_all
  moreover have "log_prefix lv f n = 91 # tl (log_prefix lv f n)" for lv f n by (simp add: log_prefix_def)
  ultimately have "bnd (write_str ops (log_prefix lv f n @ x)) k (l\<lparr>palette := p\<rparr>) = Inl IndexOutOfBounds"
    for lv f n x and k :: "unit \<Rightarrow> ('p logger, unit) rust"
    by (metis append_Cons bnd_def for_each.simps(2) old.sum.simps(5) write_str_def)
  then have "Logger_write ops (rec_level r) x f n l = Inl IndexOutOfBounds" for x f n
    unfolding Logger_write_def set_palette_color Let_def p_def [symmetric] bnd_upd by simp
  then show ?thesis by (simp add: log_log_def bnd_gets zoom_def)
qed

end

text \<open>
  The size of a pixel is computed from the visible width although rows are padded: when a row has a
  quarter more pixels than are visible, a pixel seems to have five bytes and the first record panics.
\<close>

theorem logger_padded_rows_panic:
  assumes "console ops w" and "gi_resolution info = (hor, ver)" and "SIZE20 < ver" and "w < hor"
    and "5 * hor \<le> 4 * gi_stride info" and "fb_size info = ver * gi_stride info * 4" and "fb_size info < 2 ^ 63"
    and "length mem = fb_size info"
  shows "\<exists>l0. LockedLogger_new ops info mem port = Inr l0 \<and> log_log ops r l0 = Inl IndexOutOfBounds"
proof -
  have m: "hor \<le> gi_stride info" "0 < ver" "0 < hor" "gi_stride info \<noteq> 0" using assms(3,4,5) by auto
  note px = mode_pixels [OF assms(6) m(1-3) assms(7)]
  from Logger_new_ok [OF assms(2) px(1,2) assms(8), of ops port]
  obtain l where l: "Logger_new ops info mem port = Inr l" "bytes_per_pixel l = fb_size info div (hor * ver)" "x_pos l = 0" "y_pos l = 0"
    "font_size l = SIZE20" "ver_res l = ver" "hor_res l = hor" by auto
  have "bytes_per_pixel l < U64_RANGE"
    using l(2) assms(7) le_less_trans [OF div_le_dividend, of "fb_size info" U64_RANGE] by (simp add: U64_RANGE_def)
  moreover have "hor < U64_RANGE" using le_less_trans [OF mult_le_mono2 [of 1 ver hor] px(1)] m(2) by simp
  ultimately have "log_log ops r \<lparr>log_locked = False, log_inner = l\<rparr> = Inl IndexOutOfBounds"
    using l px(4) [OF assms(5)] assms(3,4) by (intro console.log_log_wide [OF assms(1)]) simp_all
  with l(1) show ?thesis by (simp add: LockedLogger_new_def)
qed

theorem logger_padded_rows_panic_witness:
  "\<exists>l0. LockedLogger_new block_console \<lparr>gi_resolution = (16, 30), gi_pixel_format = Bgr, gi_stride = 20, fb_size = 2400\<rparr>
      (replicate 2400 0) [] = Inr l0 \<and> log_log block_console hello_record l0 = Inl IndexOutOfBounds"
  by (rule logger_padded_rows_panic [OF block.console_axioms, where hor = 16 and ver = 30]) (simp_all add: SIZE20_def)

end
