(* ===== verification/Interrupts.thy ===== *)
theory Interrupts
  imports Logger Memory
begin

text \<open>
  Interrupts of the kernel: the vectors (\<^verbatim>\<open>src/kernel/src/arch/x64/interrupt/mod.rs\<close>), the interrupt
  descriptor table and its handlers (\<^verbatim>\<open>idt.rs\<close>), the acknowledgement (\<^verbatim>\<open>apic.rs\<close>), the counters of the
  devices (\<^verbatim>\<open>device/pit.rs\<close>, \<^verbatim>\<open>device/timer.rs\<close>), the stack for double faults (\<^verbatim>\<open>gdt.rs\<close>) and the panic
  handler of \<^verbatim>\<open>src/kernel/src/lib.rs\<close>. The texts that the crates print for a stack frame are arguments.
\<close>

section \<open>Vectors\<close>

datatype irq_vector = IRQ_Keyboard | IRQ_PIT | IRQ_Timer | IRQ_Error | IRQ_Spurious

fun IrqVector_as_u8 :: "irq_vector \<Rightarrow> nat" where
  "IrqVector_as_u8 IRQ_Keyboard = 1"
| "IrqVector_as_u8 IRQ_PIT = 2"
| "IrqVector_as_u8 IRQ_Timer = 16"
| "IrqVector_as_u8 IRQ_Error = 28"
| "IrqVector_as_u8 IRQ_Spurious = 29"

definition IOAPIC_OFFSET :: nat where
  "IOAPIC_OFFSET = 0x20"

definition with_offset :: "irq_vector \<Rightarrow> rust_panic + nat" where
  "with_offset v = (if IrqVector_as_u8 v + IOAPIC_OFFSET < 256 then Inr (IrqVector_as_u8 v + IOAPIC_OFFSET) else Inl ArithOverflow)"

section \<open>State\<close>

text \<open>
  The statics the handlers use. \<open>LAPIC\<close> says whether its lock is held; \<open>eois\<close> counts the acknowledgements it got;
  \<open>port_reads\<close> are the ports that were read; \<open>halted\<close> says that the processor is in the endless loop of the panic handler.
\<close>

record 'p machine =
  LOGGER :: "'p locked_logger"
  LAPIC :: "bool option"
  eois :: nat
  PIT_COUNT :: nat
  TIMER_COUNT :: nat
  port_reads :: "nat list"
  halted :: bool

definition apic_eoi :: "('p machine, unit) rust" where
  "apic_eoi =
     bnd (gets LAPIC) (\<lambda>lapic.
       case lapic of
         None \<Rightarrow> panic UnwrapNone
       | Some locked \<Rightarrow>
           bnd (require (\<not> locked) Deadlock) (\<lambda>_.
           upd (\<lambda>m. m\<lparr>eois := Suc (eois m)\<rparr>)))"

text \<open>A record logged by \<open>error!\<close>.\<close>

definition str :: "string \<Rightarrow> nat list" where
  "str s = map of_char s"

definition error_at :: "'p console_ops \<Rightarrow> nat list \<Rightarrow> nat \<Rightarrow> nat list \<Rightarrow> ('p machine, unit) rust" where
  "error_at ops fname line msg =
     zoom LOGGER (\<lambda>l m. m\<lparr>LOGGER := l\<rparr>)
       (log_log ops \<lparr>rec_level = Error, rec_args = msg, rec_file = Some fname, rec_line = Some line\<rparr>)"

definition log_error :: "'p console_ops \<Rightarrow> nat \<Rightarrow> nat list \<Rightarrow> ('p machine, unit) rust" where
  "log_error ops line msg = error_at ops (str ''src/arch/x64/interrupt/idt.rs'') line msg"

text \<open>The panic handler logs what \<open>PanicInfo\<close> prints and goes into its endless loop.\<close>

definition panic_handler :: "'p console_ops \<Rightarrow> nat list \<Rightarrow> ('p machine, unit) rust" where
  "panic_handler ops info = bnd (error_at ops (str ''src/lib.rs'') 32 info) (\<lambda>_. upd (\<lambda>m. m\<lparr>halted := True\<rparr>))"

section \<open>Handlers\<close>

datatype handler =
    divide_error_handler | debug_handler | non_maskable_interrupt_handler | breakpoint_handler | overflow_handler
  | bound_range_exceeded_handler | invalid_opcode_handler | device_not_available_handler | double_fault_handler
  | invalid_tss_handler | segment_not_present_handler | stack_segment_fault_handler | general_protection_fault_handler
  | page_fault_handler | x87_floating_point_handler | alignment_check_handler | machine_check_handler
  | simd_floating_point_handler | virtualization_handler | vmm_communication_exception_handler | security_exception_handler
  | apic_error_handler | spurious_interrupt_handler | timer_interrupt_handler | keyboard_interrupt_handler | pit_handler

text \<open>
  What a handler is called with: the printed stack frame, the error code and its print, and what the panic
  handler prints for a panic with a given message.
\<close>

record interrupt_frame =
  frame_text :: "nat list"
  error_code :: nat
  page_fault_text :: "nat list"
  panic_text :: "nat list \<Rightarrow> nat list"

definition exception_text :: "string \<Rightarrow> interrupt_frame \<Rightarrow> nat list" where
  "exception_text name f = str ''EXCEPTION: '' @ str name @ [10] @ frame_text f"

definition code_text :: "interrupt_frame \<Rightarrow> nat list" where
  "code_text f = str ''error_code: '' @ map unat (show_radix 10 (error_code f))"

text \<open>The handlers that print name, code and frame one after the other.\<close>

definition log_three :: "'p console_ops \<Rightarrow> nat \<Rightarrow> string \<Rightarrow> interrupt_frame \<Rightarrow> ('p machine, unit) rust" where
  "log_three ops line name f =
     bnd (log_error ops line (str ''EXCEPTION: '' @ str name)) (\<lambda>_.
     bnd (log_error ops (line + 1) (code_text f)) (\<lambda>_.
     log_error ops (line + 2) (frame_text f)))"

fun handle :: "'p console_ops \<Rightarrow> handler \<Rightarrow> interrupt_frame \<Rightarrow> ('p machine, unit) rust" where
  "handle ops divide_error_handler f = log_error ops 66 (exception_text ''DIVIDE_ERROR'' f)"
| "handle ops debug_handler f = log_error ops 70 (exception_text ''DEBUG'' f)"
| "handle ops non_maskable_interrupt_handler f = log_error ops 74 (exception_text ''NON_MASKABLE_INTERRUPT'' f)"
| "handle ops breakpoint_handler f = log_error ops 78 (exception_text ''BREAKPOINT'' f)"
| "handle ops overflow_handler f = log_error ops 82 (exception_text ''OVERFLOW'' f)"
| "handle ops bound_range_exceeded_handler f = log_error ops 86 (exception_text ''BOUND_RANGE_EXCEEDED'' f)"
| "handle ops invalid_opcode_handler f = log_error ops 90 (exception_text ''INVALID_OPCODE'' f)"
| "handle ops device_not_available_handler f = log_error ops 94 (exception_text ''DEVICE_NOT_AVAILABLE'' f)"
| "handle ops double_fault_handler f =
     bnd (log_error ops 101 (str ''EXCEPTION: DOUBLE_FAULT'')) (\<lambda>_.
     bnd (log_error ops 102 (code_text f)) (\<lambda>_.
     panic_handler ops (panic_text f (frame_text f))))"
| "handle ops invalid_tss_handler f = log_three ops 107 ''INVALID_TSS'' f"
| "handle ops segment_not_present_handler f = log_three ops 116 ''SEGMENT_NOT_PRESENT'' f"
| "handle ops stack_segment_fault_handler f = log_three ops 125 ''STACK_SEGMENT_FAULT'' f"
| "handle ops general_protection_fault_handler f = log_three ops 134 ''GENERAL_PROTECTION_FAULT'' f"
| "handle ops page_fault_handler f =
     bnd (log_error ops 143 (exception_text ''PAGE_FAULT'' f)) (\<lambda>_.
     log_error ops 144 (str ''error_code: '' @ page_fault_text f))"
| "handle ops x87_floating_point_handler f = log_error ops 148 (exception_text ''X87_FLOATING_POINT'' f)"
| "handle ops alignment_check_handler f = log_error ops 155 (exception_text ''ALIGNMENT_CHECK'' f)"
| "handle ops machine_check_handler f = panic_handler ops (panic_text f (exception_text ''MACHINE_CHECK'' f))"
| "handle ops simd_floating_point_handler f = log_error ops 163 (exception_text ''SIMD_FLOATING_POINT'' f)"
| "handle ops virtualization_handler f = log_error ops 167 (exception_text ''VIRTUALIZATION'' f)"
| "handle ops vmm_communication_exception_handler f =
     bnd (log_error ops 174 (exception_text ''VMM_COMMUNICATION_EXCEPTION'' f)) (\<lambda>_. log_error ops 175 (code_text f))"
| "handle ops security_exception_handler f =
     bnd (log_error ops 182 (exception_text ''SECURITY_EXCEPTION'' f)) (\<lambda>_. log_error ops 183 (code_text f))"
| "handle ops apic_error_handler f = log_error ops 187 (exception_text ''APIC_ERROR'' f)"
| "handle ops spurious_interrupt_handler f = log_error ops 191 (exception_text ''SPURIOUS_INTERRUPT'' f)"
| "handle ops timer_interrupt_handler f =
     bnd (gets TIMER_COUNT) (\<lambda>n.
     bnd (pure (u64_add n 1)) (\<lambda>n'.
     bnd (upd (\<lambda>m. m\<lparr>TIMER_COUNT := n'\<rparr>)) (\<lambda>_.
     apic_eoi)))"
| "handle ops keyboard_interrupt_handler f =
     bnd (upd (\<lambda>m. m\<lparr>port_reads := port_reads m @ [0x60]\<rparr>)) (\<lambda>_.
     apic_eoi)"
| "handle ops pit_handler f =
     bnd (gets PIT_COUNT) (\<lambda>n.
     bnd (pure (u64_add n 1)) (\<lambda>n'.
     bnd (upd (\<lambda>m. m\<lparr>PIT_COUNT := n'\<rparr>)) (\<lambda>_.
     apic_eoi)))"

section \<open>The table\<close>

text \<open>An entry is a handler and, if it has one, the stack of the task state segment it runs on.\<close>

type_synonym idt = "nat \<rightharpoonup> handler \<times> nat option"

definition DOUBLE_FAULT_IST_INDEX :: nat where
  "DOUBLE_FAULT_IST_INDEX = 0"

text \<open>The exceptions in the order of the code, with the vectors their fields of the table have on x86.\<close>

definition exception_entries :: "(nat \<times> handler \<times> nat option) list" where
  "exception_entries =
     [(0, divide_error_handler, None), (1, debug_handler, None), (2, non_maskable_interrupt_handler, None),
      (3, breakpoint_handler, None), (4, overflow_handler, None), (5, bound_range_exceeded_handler, None),
      (6, invalid_opcode_handler, None), (7, device_not_available_handler, None),
      (8, double_fault_handler, Some DOUBLE_FAULT_IST_INDEX),
      (10, invalid_tss_handler, None), (11, segment_not_present_handler, None), (12, stack_segment_fault_handler, None),
      (13, general_protection_fault_handler, None), (14, page_fault_handler, None), (16, x87_floating_point_handler, None),
      (17, alignment_check_handler, None), (18, machine_check_handler, None), (19, simd_floating_point_handler, None),
      (20, virtualization_handler, None), (29, vmm_communication_exception_handler, None), (30, security_exception_handler, None)]"

definition irq_entries :: "(irq_vector \<times> handler) list" where
  "irq_entries = [(IRQ_PIT, pit_handler), (IRQ_Timer, timer_interrupt_handler), (IRQ_Keyboard, keyboard_interrupt_handler),
     (IRQ_Error, apic_error_handler), (IRQ_Spurious, spurious_interrupt_handler)]"

definition set_exception :: "nat \<times> handler \<times> nat option \<Rightarrow> (idt, unit) rust" where
  "set_exception = (\<lambda>(v, e). upd (\<lambda>t. t(v \<mapsto> e)))"

text \<open>\<open>idt[v.with_offset()]\<close>: the crate refuses indices outside the table.\<close>

definition set_irq :: "irq_vector \<times> handler \<Rightarrow> (idt, unit) rust" where
  "set_irq = (\<lambda>(v, h).
     bnd (pure (with_offset v)) (\<lambda>i.
     bnd (require (i < 256) IndexOutOfBounds) (\<lambda>_.
     upd (\<lambda>t. t(i \<mapsto> (h, None))))))"

definition idt_init :: "(idt, unit) rust" where
  "idt_init =
     bnd (upd (\<lambda>_. Map.empty)) (\<lambda>_.
     bnd (for_each exception_entries set_exception) (\<lambda>_.
     for_each irq_entries set_irq))"

text \<open>An interrupt: the processor looks up the vector and calls the handler; a vector without an entry faults.\<close>

definition dispatch :: "'p console_ops \<Rightarrow> idt \<Rightarrow> nat \<Rightarrow> interrupt_frame \<Rightarrow> ('p machine, unit) rust" where
  "dispatch ops t v f = (case t v of None \<Rightarrow> panic BadAddress | Some (h, _) \<Rightarrow> handle ops h f)"

section \<open>The stack for double faults\<close>

text \<open>
  \<open>Vec::with_capacity(4096 * 5).leak()\<close> takes memory from the heap; the leaked slice has the length of the
  vector, which is empty. The result is the entry of the interrupt stack table.
\<close>

definition DOUBLE_FAULT_STACK :: nat where
  "DOUBLE_FAULT_STACK = 4096 * 5"

definition gdt_init :: "'f phys_frame_ops \<Rightarrow> (nat, nat) rust" where
  "gdt_init ops =
     bnd (Allocator_alloc \<lparr>lay_size = DOUBLE_FAULT_STACK, lay_align = 1\<rparr>) (\<lambda>ptr.
     let stack_len = length ([] :: u8 list) in
     bnd (pure (virt_addr_new ops ptr)) (\<lambda>stack_start.
     pure (sbnd (u64_add stack_start stack_len) (virt_addr_new ops))))"

end
