(* ===== verification/Interrupt_Properties.thy ===== *)
theory Interrupt_Properties
  imports Interrupts Logger_Properties
begin

text \<open>
  The properties of the interrupt handlers and of the stack for double faults. The handlers call the logger,
  so what they promise rests on the lemmas of the locale \<open>console\<close>.
\<close>

section \<open>The table\<close>

definition exception_vectors :: "nat set" where
  "exception_vectors = {0, 1, 2, 3, 4, 5, 6, 7, 8, 10, 11, 12, 13, 14, 16, 17, 18, 19, 20, 29, 30}"

definition the_idt :: idt where
  "the_idt = (case idt_init Map.empty of Inr (_, t) \<Rightarrow> t | Inl e \<Rightarrow> Map.empty)"

lemmas idt_simps = idt_init_def exception_entries_def irq_entries_def set_exception_def set_irq_def with_offset_def IOAPIC_OFFSET_def

lemma idt_init_runs: "idt_init t = Inr ((), the_idt)"
  by (simp add: the_idt_def idt_simps bnd_upd bnd_def ret_def upd_def)

lemma the_idt_eq: "the_idt = map_of (rev (exception_entries @ [(34, pit_handler, None), (48, timer_interrupt_handler, None),
   (33, keyboard_interrupt_handler, None), (60, apic_error_handler, None), (61, spurious_interrupt_handler, None)]))"
  by (simp add: the_idt_def idt_simps bnd_upd bnd_def ret_def upd_def fun_eq_iff)

lemma offsets:
  "with_offset IRQ_Keyboard = Inr 33" "with_offset IRQ_PIT = Inr 34" "with_offset IRQ_Timer = Inr 48"
  "with_offset IRQ_Error = Inr 60" "with_offset IRQ_Spurious = Inr 61"
  by (simp_all add: with_offset_def IOAPIC_OFFSET_def)

lemma offset_image: "{i. \<exists>v. with_offset v = Inr i} = {33, 34, 48, 60, 61}"
proof -
  have "(\<exists>v. with_offset v = Inr i) \<longleftrightarrow> i \<in> {33, 34, 48, 60, 61}" for i
  proof
    assume "\<exists>v. with_offset v = Inr i"
    then obtain v where "with_offset v = Inr i" ..
    then show "i \<in> {33, 34, 48, 60, 61}" by (cases v) (simp_all add: offsets)
  next
    assume "i \<in> {33, 34, 48, 60, 61}"
    then show "\<exists>v. with_offset v = Inr i" using offsets by auto
  qed
  then show ?thesis by auto
qed

text \<open>The handlers by vector: the exceptions as the architecture numbers them, then the request lines.\<close>

lemma the_idt_irqs:
  "the_idt 33 = Some (keyboard_interrupt_handler, None)" "the_idt 34 = Some (pit_handler, None)"
  "the_idt 48 = Some (timer_interrupt_handler, None)" "the_idt 60 = Some (apic_error_handler, None)"
  "the_idt 61 = Some (spurious_interrupt_handler, None)"
  by (simp_all add: the_idt_eq exception_entries_def)

lemma the_idt_exceptions:
  "the_idt 0 = Some (divide_error_handler, None)" "the_idt (Suc 0) = Some (debug_handler, None)"
  "the_idt 2 = Some (non_maskable_interrupt_handler, None)" "the_idt 3 = Some (breakpoint_handler, None)"
  "the_idt 4 = Some (overflow_handler, None)" "the_idt 5 = Some (bound_range_exceeded_handler, None)"
  "the_idt 6 = Some (invalid_opcode_handler, None)" "the_idt 7 = Some (device_not_available_handler, None)"
  "the_idt 8 = Some (double_fault_handler, Some DOUBLE_FAULT_IST_INDEX)" "the_idt 10 = Some (invalid_tss_handler, None)"
  "the_idt 11 = Some (segment_not_present_handler, None)" "the_idt 12 = Some (stack_segment_fault_handler, None)"
  "the_idt 13 = Some (general_protection_fault_handler, None)" "the_idt 14 = Some (page_fault_handler, None)"
  "the_idt 16 = Some (x87_floating_point_handler, None)" "the_idt 17 = Some (alignment_check_handler, None)"
  "the_idt 18 = Some (machine_check_handler, None)" "the_idt 19 = Some (simd_floating_point_handler, None)"
  "the_idt 20 = Some (virtualization_handler, None)" "the_idt 29 = Some (vmm_communication_exception_handler, None)"
  "the_idt 30 = Some (security_exception_handler, None)"
  by (simp_all add: the_idt_eq exception_entries_def)

text \<open>
  C26: the interrupt table has the handler of every exception at the vector that the architecture gives the
  exception, the handler of every request line at the number of the line plus the offset, and nothing else; no
  line takes the vector of an exception or of another line, and only the double fault changes the stack.
\<close>

theorem idt_well_formed:
  "runs idt_init t (\<lambda>_ t'.
     (\<forall>(v, h) \<in> {(0, divide_error_handler), (1, debug_handler), (2, non_maskable_interrupt_handler), (3, breakpoint_handler),
        (4, overflow_handler), (5, bound_range_exceeded_handler), (6, invalid_opcode_handler), (7, device_not_available_handler),
        (8, double_fault_handler), (10, invalid_tss_handler), (11, segment_not_present_handler), (12, stack_segment_fault_handler),
        (13, general_protection_fault_handler), (14, page_fault_handler), (16, x87_floating_point_handler), (17, alignment_check_handler),
        (18, machine_check_handler), (19, simd_floating_point_handler), (20, virtualization_handler),
        (29, vmm_communication_exception_handler), (30, security_exception_handler)}. map_option fst (t' v) = Some h) \<and>
     (\<forall>(v, h) \<in> {(IRQ_Keyboard, keyboard_interrupt_handler), (IRQ_PIT, pit_handler), (IRQ_Timer, timer_interrupt_handler),
        (IRQ_Error, apic_error_handler), (IRQ_Spurious, spurious_interrupt_handler)}.
        \<exists>i. with_offset v = Inr i \<and> i = IrqVector_as_u8 v + 32 \<and> t' i = Some (h, None)) \<and>
     dom t' = exception_vectors \<union> {i. \<exists>v. with_offset v = Inr i} \<and>
     (\<forall>v i. with_offset v = Inr i \<longrightarrow> i \<notin> exception_vectors) \<and> (\<forall>v w. with_offset v = with_offset w \<longrightarrow> v = w) \<and>
     (\<forall>i h s. t' i = Some (h, Some s) \<longleftrightarrow> i = 8 \<and> h = double_fault_handler \<and> s = DOUBLE_FAULT_IST_INDEX))"
proof -
  have "dom the_idt = exception_vectors \<union> {33, 34, 48, 60, 61}"
    by (simp add: the_idt_eq exception_entries_def exception_vectors_def) blast
  moreover have "v = w" if "with_offset v = with_offset w" for v w
    using that by (cases v; cases w) (simp_all add: offsets)
  moreover have "i \<notin> exception_vectors" if "with_offset v = Inr i" for v i
    using that by (cases v) (auto simp: offsets exception_vectors_def)
  moreover have "the_idt i = Some (h, Some s) \<longleftrightarrow> i = 8 \<and> h = double_fault_handler \<and> s = DOUBLE_FAULT_IST_INDEX" for i h s
  proof
    assume "the_idt i = Some (h, Some s)"
    from map_of_SomeD [OF this [unfolded the_idt_eq]] show "i = 8 \<and> h = double_fault_handler \<and> s = DOUBLE_FAULT_IST_INDEX"
      by (auto simp: exception_entries_def)
  qed (simp add: the_idt_exceptions)
  ultimately show ?thesis
    by (simp add: runs_def idt_init_runs offset_image offsets the_idt_irqs the_idt_exceptions)
qed

theorem idt_well_formed_witness:
  "runs idt_init Map.empty (\<lambda>_ t'. t' 34 = Some (pit_handler, None) \<and> dom t' = exception_vectors \<union> {33, 34, 48, 60, 61})"
  by (rule runs_mono [OF idt_well_formed [of Map.empty]], elim conjE) (simp add: offset_image offsets)

section \<open>Exceptions\<close>

text \<open>A machine whose logger is ready, and a frame whose print the font can show.\<close>

definition logger_ready :: "nat \<Rightarrow> 'p machine \<Rightarrow> bool" where
  "logger_ready w m \<longleftrightarrow> log_ready w (LOGGER m)"

definition frame_printable :: "'p console_ops \<Rightarrow> interrupt_frame \<Rightarrow> bool" where
  "frame_printable ops f \<longleftrightarrow> text_ok ops (frame_text f) \<and> text_ok ops (page_fault_text f) \<and>
     (\<forall>s. text_ok ops s \<longrightarrow> text_ok ops (panic_text f s))"

text \<open>The messages \<open>msgs\<close> were logged as errors, and nothing else changed.\<close>

definition reported :: "'p console_ops \<Rightarrow> nat \<Rightarrow> nat list list \<Rightarrow> 'p machine \<Rightarrow> 'p machine \<Rightarrow> bool" where
  "reported ops w msgs m m' \<longleftrightarrow> (\<exists>l rs. m' = m\<lparr>LOGGER := l\<rparr> \<and> log_ready w l \<and> map rec_args rs = msgs \<and>
     (\<forall>r \<in> set rs. rec_level r = Error) \<and> logged ops rs (log_inner (LOGGER m)) (log_inner l))"

lemma reportedI:
  "log_ready w l \<Longrightarrow> map rec_args rs = msgs \<Longrightarrow> \<forall>r \<in> set rs. rec_level r = Error \<Longrightarrow>
   logged ops rs (log_inner (LOGGER m)) (log_inner l) \<Longrightarrow> reported ops w msgs m (m\<lparr>LOGGER := l\<rparr>)"
  unfolding reported_def by blast

lemma reported_ready: "reported ops w xs m m' \<Longrightarrow> logger_ready w m'"
  by (auto simp: reported_def logger_ready_def)

lemma reported_trans:
  assumes "reported ops w xs m m1" and "reported ops w ys m1 m2"
  shows "reported ops w (xs @ ys) m m2"
proof -
  from assms(1) obtain l rs where l: "m1 = m\<lparr>LOGGER := l\<rparr>" "map rec_args rs = xs" "\<forall>r \<in> set rs. rec_level r = Error"
    "logged ops rs (log_inner (LOGGER m)) (log_inner l)" by (auto simp: reported_def)
  from assms(2) obtain l' rs' where l': "m2 = m1\<lparr>LOGGER := l'\<rparr>" "log_ready w l'" "map rec_args rs' = ys"
    "\<forall>r \<in> set rs'. rec_level r = Error" "logged ops rs' (log_inner (LOGGER m1)) (log_inner l')" by (auto simp: reported_def)
  have "logged ops (rs @ rs') (log_inner (LOGGER m)) (log_inner l')" using l(1,4) l'(5) by (auto intro: logged_trans)
  from reportedI [OF l'(2) _ _ this, of "xs @ ys"] l l' show ?thesis by auto
qed

definition ascii_text :: "nat list \<Rightarrow> bool" where
  "ascii_text s \<longleftrightarrow> (\<forall>c \<in> set s. 32 \<le> c \<and> c \<le> 126)"

lemma text_ok_append [simp]: "text_ok ops (s @ t) \<longleftrightarrow> text_ok ops s \<and> text_ok ops t"
  by (auto simp: text_ok_def)

lemma text_ok_newline [simp]: "text_ok ops [10]" "text_ok ops (10 # s) \<longleftrightarrow> text_ok ops s"
  by (auto simp: text_ok_def)

context console
begin

lemma ascii_text_ok: "ascii_text s \<Longrightarrow> text_ok ops s"
  by (auto simp: ascii_text_def text_ok_def intro: ascii_shown)

lemma code_text_ok: "text_ok ops (code_text f)"
proof -
  have "c \<in> set (map unat (show_radix 10 n)) \<Longrightarrow> 32 \<le> c \<and> c \<le> 126" for c n
    using show_radix_bytes [of 10 _ n] by fastforce
  then have "ascii_text (map unat (show_radix 10 (error_code f)))" by (auto simp: ascii_text_def)
  moreover have "ascii_text (str ''error_code: '')" by (simp add: ascii_text_def str_def)
  ultimately show ?thesis by (simp add: code_text_def ascii_text_ok)
qed

lemma error_at_ok:
  assumes "logger_ready widest m" and "text_ok ops msg" and "ascii_text fname"
  shows "runs (error_at ops fname line msg) m (\<lambda>_ m'. reported ops widest [msg] m m')"
proof -
  let ?r = "\<lparr>rec_level = Error, rec_args = msg, rec_file = Some fname, rec_line = Some line\<rparr>"
  have "record_ok ops ?r" using assms(2,3) by (auto simp: record_ok_def ascii_text_def intro: ascii_shown)
  then have "runs (log_log ops ?r) (LOGGER m) (\<lambda>_ l'. log_ready widest l' \<and> logged ops [?r] (log_inner (LOGGER m)) (log_inner l'))"
    using assms(1) by (intro log_log_ok) (simp_all add: logger_ready_def)
  then show ?thesis
    unfolding error_at_def runs_zoom
    by (rule runs_mono) (auto intro!: reportedI [of _ _ "[?r]"])
qed

lemma log_error_ok:
  "logger_ready widest m \<Longrightarrow> text_ok ops msg \<Longrightarrow> runs (log_error ops line msg) m (\<lambda>_ m'. reported ops widest [msg] m m')"
  unfolding log_error_def by (rule error_at_ok) (simp_all add: ascii_text_def str_def)

lemma log_errors_ok:
  assumes "logger_ready widest m" and "text_ok ops msg"
    and "\<And>m1. logger_ready widest m1 \<Longrightarrow> runs k m1 (\<lambda>_ m'. reported ops widest msgs m1 m')"
  shows "runs (bnd (log_error ops line msg) (\<lambda>_. k)) m (\<lambda>_ m'. reported ops widest (msg # msgs) m m')"
proof -
  have "runs k m1 (\<lambda>_ m'. reported ops widest (msg # msgs) m m')" if "reported ops widest [msg] m m1" for m1
    by (rule runs_mono [OF assms(3) [OF reported_ready [OF that]]]) (use reported_trans [OF that] in auto)
  then show ?thesis unfolding runs_bnd by (intro runs_mono [OF log_error_ok [OF assms(1,2)]]) blast
qed

lemma labels_ok: "text_ok ops (str ''EXCEPTION: '')" "text_ok ops (str ''error_code: '')"
  by (auto simp: ascii_text_def str_def intro!: ascii_text_ok)

lemma exception_text_ok:
  "ascii_text (str name) \<Longrightarrow> text_ok ops (frame_text f) \<Longrightarrow> text_ok ops (exception_text name f)"
  by (simp add: exception_text_def labels_ok ascii_text_ok)

lemma log_three_ok:
  assumes "logger_ready widest m" and "ascii_text (str name)" and "text_ok ops (frame_text f)"
  shows "runs (log_three ops line name f) m
    (\<lambda>_ m'. reported ops widest [str ''EXCEPTION: '' @ str name, code_text f, frame_text f] m m')"
proof -
  have "text_ok ops (str ''EXCEPTION: '' @ str name)"
    using assms(2) by (simp add: labels_ok ascii_text_ok)
  then show ?thesis
    unfolding log_three_def by (intro log_errors_ok log_error_ok assms code_text_ok)
qed

text \<open>The panic handler: the message is the last thing the kernel does.\<close>

lemma panic_handler_ok:
  assumes "logger_ready widest m" and "text_ok ops msg"
  shows "runs (panic_handler ops msg) m (\<lambda>_ m'. \<exists>m1. reported ops widest [msg] m m1 \<and> m' = m1\<lparr>halted := True\<rparr>)"
  unfolding panic_handler_def runs_bnd
  by (rule runs_mono [OF error_at_ok [OF assms]]) (auto simp: ascii_text_def str_def runs_upd)

lemma double_fault_ok:
  assumes "logger_ready widest m" and "text_ok ops a" and "text_ok ops b" and "text_ok ops c"
  shows "runs (bnd (log_error ops i a) (\<lambda>_. bnd (log_error ops j b) (\<lambda>_. panic_handler ops c))) m
    (\<lambda>_ m'. \<exists>m1. reported ops widest [a, b, c] m m1 \<and> m' = m1\<lparr>halted := True\<rparr>)"
proof -
  have "runs (panic_handler ops c) m2 (\<lambda>_ m'. \<exists>m1. reported ops widest [a, b, c] m m1 \<and> m' = m1\<lparr>halted := True\<rparr>)"
    if "reported ops widest [a, b] m m2" for m2
    by (rule runs_mono [OF panic_handler_ok [OF reported_ready [OF that] assms(4)]]) (use reported_trans [OF that] in auto)
  moreover have "runs (bnd (log_error ops i a) (\<lambda>_. log_error ops j b)) m (\<lambda>_ m'. reported ops widest [a, b] m m')"
    by (intro log_errors_ok log_error_ok assms)
  ultimately show ?thesis unfolding runs_bnd by (elim runs_mono) blast
qed

end

section \<open>Reports\<close>

text \<open>What the architecture calls the exceptions.\<close>

definition exception_name :: "nat \<Rightarrow> string" where
  "exception_name v = the (map_of
     [(0, ''DIVIDE_ERROR''), (1, ''DEBUG''), (2, ''NON_MASKABLE_INTERRUPT''), (3, ''BREAKPOINT''), (4, ''OVERFLOW''),
      (5, ''BOUND_RANGE_EXCEEDED''), (6, ''INVALID_OPCODE''), (7, ''DEVICE_NOT_AVAILABLE''), (8, ''DOUBLE_FAULT''),
      (10, ''INVALID_TSS''), (11, ''SEGMENT_NOT_PRESENT''), (12, ''STACK_SEGMENT_FAULT''), (13, ''GENERAL_PROTECTION_FAULT''),
      (14, ''PAGE_FAULT''), (16, ''X87_FLOATING_POINT''), (17, ''ALIGNMENT_CHECK''), (18, ''MACHINE_CHECK''),
      (19, ''SIMD_FLOATING_POINT''), (20, ''VIRTUALIZATION''), (29, ''VMM_COMMUNICATION_EXCEPTION''), (30, ''SECURITY_EXCEPTION'')] v)"

text \<open>
  The messages of an exception: its name with the stack frame on the next lines, and the error code if there is one
  and it is not zero by definition; four exceptions give the frame a message of its own, the two fatal ones
  print through the panic handler.
\<close>

definition exception_messages :: "nat \<Rightarrow> interrupt_frame \<Rightarrow> nat list list" where
  "exception_messages v f =
     (let title = str ''EXCEPTION: '' @ str (exception_name v); full = title @ [10] @ frame_text f;
          code = str ''error_code: '' @ map unat (show_radix 10 (error_code f)) in
      if v \<in> {10, 11, 12, 13} then [title, code, frame_text f]
      else if v = 14 then [full, str ''error_code: '' @ page_fault_text f]
      else if v \<in> {29, 30} then [full, code]
      else if v = 8 then [title, code, panic_text f (frame_text f)]
      else if v = 18 then [panic_text f full]
      else [full])"

lemma exception_messages_simps:
  "exception_messages 0 f = [exception_text ''DIVIDE_ERROR'' f]" "exception_messages (Suc 0) f = [exception_text ''DEBUG'' f]"
  "exception_messages 2 f = [exception_text ''NON_MASKABLE_INTERRUPT'' f]" "exception_messages 3 f = [exception_text ''BREAKPOINT'' f]"
  "exception_messages 4 f = [exception_text ''OVERFLOW'' f]" "exception_messages 5 f = [exception_text ''BOUND_RANGE_EXCEEDED'' f]"
  "exception_messages 6 f = [exception_text ''INVALID_OPCODE'' f]" "exception_messages 7 f = [exception_text ''DEVICE_NOT_AVAILABLE'' f]"
  "exception_messages 8 f = [str ''EXCEPTION: DOUBLE_FAULT'', code_text f, panic_text f (frame_text f)]"
  "exception_messages 10 f = [str ''EXCEPTION: '' @ str ''INVALID_TSS'', code_text f, frame_text f]"
  "exception_messages 11 f = [str ''EXCEPTION: '' @ str ''SEGMENT_NOT_PRESENT'', code_text f, frame_text f]"
  "exception_messages 12 f = [str ''EXCEPTION: '' @ str ''STACK_SEGMENT_FAULT'', code_text f, frame_text f]"
  "exception_messages 13 f = [str ''EXCEPTION: '' @ str ''GENERAL_PROTECTION_FAULT'', code_text f, frame_text f]"
  "exception_messages 14 f = [exception_text ''PAGE_FAULT'' f, str ''error_code: '' @ page_fault_text f]"
  "exception_messages 16 f = [exception_text ''X87_FLOATING_POINT'' f]" "exception_messages 17 f = [exception_text ''ALIGNMENT_CHECK'' f]"
  "exception_messages 18 f = [panic_text f (exception_text ''MACHINE_CHECK'' f)]"
  "exception_messages 19 f = [exception_text ''SIMD_FLOATING_POINT'' f]" "exception_messages 20 f = [exception_text ''VIRTUALIZATION'' f]"
  "exception_messages 29 f = [exception_text ''VMM_COMMUNICATION_EXCEPTION'' f, code_text f]"
  "exception_messages 30 f = [exception_text ''SECURITY_EXCEPTION'' f, code_text f]"
  by (simp_all add: exception_messages_def exception_name_def exception_text_def code_text_def Let_def str_def)

context console
begin

lemma dispatch_reports:
  assumes "logger_ready widest m" and "frame_printable ops f" and "v \<in> exception_vectors" and "v \<noteq> 8" and "v \<noteq> 18"
  shows "runs (dispatch ops the_idt v f) m (\<lambda>_ m'. reported ops widest (exception_messages v f) m m')"
proof -
  have f: "text_ok ops (frame_text f)" "text_ok ops (str ''error_code: '' @ page_fault_text f)"
    using assms(2) by (simp_all add: frame_printable_def labels_ok)
  from assms(3-5) show ?thesis
    unfolding exception_vectors_def
    by (elim insertE emptyE; simp add: dispatch_def the_idt_exceptions exception_messages_simps)
      (intro log_errors_ok log_error_ok log_three_ok exception_text_ok code_text_ok f assms(1); simp add: ascii_text_def str_def)+
qed

lemma dispatch_stops:
  assumes "logger_ready widest m" and "frame_printable ops f" and "v = 8 \<or> v = 18"
  shows "runs (dispatch ops the_idt v f) m (\<lambda>_ m'. \<exists>m1. reported ops widest (exception_messages v f) m m1 \<and> m' = m1\<lparr>halted := True\<rparr>)"
proof -
  have t: "text_ok ops (panic_text f (frame_text f))" "text_ok ops (panic_text f (exception_text ''MACHINE_CHECK'' f))"
    using assms(2) exception_text_ok [of "''MACHINE_CHECK''" f] by (simp_all add: frame_printable_def ascii_text_def str_def)
  have d: "text_ok ops (str ''EXCEPTION: DOUBLE_FAULT'')" by (rule ascii_text_ok) (simp add: ascii_text_def str_def)
  from assms(3) show ?thesis
    by (elim disjE; simp add: dispatch_def the_idt_exceptions exception_messages_simps)
      (intro double_fault_ok panic_handler_ok assms(1) t d code_text_ok)+
qed

end

text \<open>
  C24: every exception is reported: its messages (name and stack frame, and the error code where there is one) are
  logged as errors on the screen and on the serial port, in this order and without others. Nothing else changes and
  the interrupted code goes on, except that a double fault and a machine check leave the kernel in the endless loop
  of the panic handler.
\<close>

theorem exceptions_handled:
  assumes "console ops w" and "idt_init t0 = Inr ((), t)" and "logger_ready w m" and "frame_printable ops f" and "v \<in> exception_vectors"
    and "\<not> halted m"
  shows "runs (dispatch ops t v f) m (\<lambda>_ m'. \<exists>l rs. m' = m\<lparr>LOGGER := l, halted := (v = 8 \<or> v = 18)\<rparr> \<and> log_ready w l \<and>
    map rec_args rs = exception_messages v f \<and> (\<forall>r \<in> set rs. rec_level r = Error) \<and>
    logged ops rs (log_inner (LOGGER m)) (log_inner l))"
proof -
  have t: "t = the_idt" using assms(2) idt_init_runs [of t0] by simp
  have h: "m\<lparr>LOGGER := l, halted := False\<rparr> = m\<lparr>LOGGER := l\<rparr>" for l using assms(6) by (cases m) simp
  show ?thesis
  proof (cases "v = 8 \<or> v = 18")
    case True
    from console.dispatch_stops [OF assms(1,3,4) True] show ?thesis
      unfolding t by (rule runs_mono) (use True in \<open>auto simp: reported_def\<close>)
  next
    case False
    then have "v \<noteq> 8" "v \<noteq> 18" by simp_all
    from console.dispatch_reports [OF assms(1,3-5) this] show ?thesis
      unfolding t by (rule runs_mono) (use False h in \<open>auto simp: reported_def\<close>)
  qed
qed

definition sample_frame :: interrupt_frame where
  "sample_frame = \<lparr>frame_text = [102], error_code = 3, page_fault_text = [112], panic_text = (\<lambda>s. 33 # s)\<rparr>"

definition sample_machine :: "nat list machine" where
  "sample_machine = \<lparr>LOGGER = \<lparr>log_locked = False, log_inner = small_logger\<rparr>, LAPIC = Some False, eois = 0, PIT_COUNT = 4,
     TIMER_COUNT = 9, port_reads = [], halted = False\<rparr>"

lemma sample_ready: "logger_ready 11 sample_machine" "frame_printable block_console sample_frame"
  by (simp_all add: logger_ready_def log_ready_def sample_machine_def small_logger_def screen_ok_def cursor_ok_def on_line_def SIZE20_def
    frame_printable_def sample_frame_def text_ok_def shown_def block_console_def)

theorem exceptions_handled_witness:
  "runs (dispatch block_console the_idt 18 sample_frame) sample_machine (\<lambda>_ m'. halted m') \<and>
   runs (dispatch block_console the_idt 3 sample_frame) sample_machine (\<lambda>_ m'. \<not> halted m' \<and> PIT_COUNT m' = 4 \<and>
     (\<exists>r. rec_args r = map of_char ''EXCEPTION: BREAKPOINT'' @ [10, 102] \<and>
       serial (log_inner (LOGGER m')) = port_text block_console (record_text r) []))"
proof
  have h: "\<not> halted sample_machine" by (simp add: sample_machine_def)
  note e = exceptions_handled [OF block.console_axioms idt_init_runs sample_ready _ h]
  show "runs (dispatch block_console the_idt 18 sample_frame) sample_machine (\<lambda>_ m'. halted m')"
    by (rule runs_mono [OF e]) (auto simp: exception_vectors_def)
  show "runs (dispatch block_console the_idt 3 sample_frame) sample_machine (\<lambda>_ m'. \<not> halted m' \<and> PIT_COUNT m' = 4 \<and>
     (\<exists>r. rec_args r = map of_char ''EXCEPTION: BREAKPOINT'' @ [10, 102] \<and>
       serial (log_inner (LOGGER m')) = port_text block_console (record_text r) []))"
    by (rule runs_mono [OF e]) (auto simp: exception_vectors_def exception_messages_simps exception_text_def str_def sample_frame_def
      logged_def sample_machine_def small_logger_def)
qed

text \<open>
  An exception in code that is logging never returns: the handler waits for the lock of the logger.
\<close>

theorem exception_while_logging_deadlocks:
  assumes "idt_init t0 = Inr ((), t)" and "log_locked (LOGGER m)" and "v \<in> exception_vectors"
  shows "dispatch ops t v f m = Inl Deadlock"
proof -
  have t: "t = the_idt" using assms(1) idt_init_runs [of t0] by simp
  have e: "error_at ops fname line msg m = Inl Deadlock" for fname line msg
    using assms(2) by (simp add: error_at_def zoom_def log_log_def bnd_gets panic_apply)
  from assms(3) show ?thesis
    unfolding exception_vectors_def t
    by (elim insertE emptyE) (simp_all add: dispatch_def the_idt_exceptions log_error_def log_three_def panic_handler_def bnd_def e)
qed

theorem exception_while_logging_deadlocks_witness:
  "dispatch block_console the_idt 14 sample_frame (sample_machine\<lparr>LOGGER := \<lparr>log_locked = True, log_inner = small_logger\<rparr>\<rparr>) = Inl Deadlock"
  by (rule exception_while_logging_deadlocks [OF idt_init_runs]) (simp_all add: exception_vectors_def)

text \<open>
  C25: the request lines of the timers count and acknowledge once, the keyboard takes the byte from its port and
  acknowledges once; all three wait forever when they interrupt code that holds the local APIC.
\<close>

theorem irqs_acknowledged:
  assumes "idt_init t0 = Inr ((), t)" and "PIT_COUNT m + 1 < U64_RANGE" and "TIMER_COUNT m + 1 < U64_RANGE"
    and "with_offset v = Inr i" and "v \<in> {IRQ_PIT, IRQ_Timer, IRQ_Keyboard}"
  shows "(LAPIC m = Some False \<longrightarrow> runs (dispatch ops t i f) m (\<lambda>_ m'.
      m' = m\<lparr>eois := eois m + 1, PIT_COUNT := PIT_COUNT m + (if v = IRQ_PIT then 1 else 0),
             TIMER_COUNT := TIMER_COUNT m + (if v = IRQ_Timer then 1 else 0),
             port_reads := port_reads m @ (if v = IRQ_Keyboard then [0x60] else [])\<rparr>)) \<and>
    (LAPIC m = Some True \<longrightarrow> dispatch ops t i f m = Inl Deadlock)"
proof (rule conjI; rule impI)
  have t: "t = the_idt" using assms(1) idt_init_runs [of t0] by simp
  show "runs (dispatch ops t i f) m (\<lambda>_ m'.
      m' = m\<lparr>eois := eois m + 1, PIT_COUNT := PIT_COUNT m + (if v = IRQ_PIT then 1 else 0),
             TIMER_COUNT := TIMER_COUNT m + (if v = IRQ_Timer then 1 else 0),
             port_reads := port_reads m @ (if v = IRQ_Keyboard then [0x60] else [])\<rparr>)" if "LAPIC m = Some False"
    using assms(2-5) that by (cases v) (auto simp: offsets t dispatch_def the_idt_irqs wp apic_eoi_def)
  show "dispatch ops t i f m = Inl Deadlock" if "LAPIC m = Some True"
    using assms(2-5) that
    by (cases v) (auto simp: offsets t dispatch_def the_idt_irqs apic_eoi_def bnd_gets bnd_upd u64_add_def panic_apply)
qed

theorem irqs_acknowledged_witness:
  "runs (dispatch block_console the_idt 34 sample_frame) sample_machine
     (\<lambda>_ m'. m' = sample_machine\<lparr>eois := 1, PIT_COUNT := 5, TIMER_COUNT := 9\<rparr>) \<and>
   dispatch block_console the_idt 34 sample_frame (sample_machine\<lparr>LAPIC := Some True\<rparr>) = Inl Deadlock"
  using irqs_acknowledged [OF idt_init_runs, of sample_machine IRQ_PIT 34]
    irqs_acknowledged [OF idt_init_runs, of "sample_machine\<lparr>LAPIC := Some True\<rparr>" IRQ_PIT 34]
  by (simp add: sample_machine_def offsets U64_RANGE_def)

section \<open>The stack for double faults\<close>

text \<open>
  The stack the double fault handler gets has no room: its pointer is the lowest address of the memory that
  was reserved for it, and a stack grows downwards.
\<close>

theorem double_fault_stack_empty:
  assumes "phys_frames ops num lim" and "canonical (v + 1)" and "v + 1 + DOUBLE_FAULT_STACK < U64_RANGE"
  shows "runs (gdt_init ops) v (\<lambda>ist v'. v' = ist + DOUBLE_FAULT_STACK \<and>
    (\<forall>k. 0 < k \<longrightarrow> k \<le> ist \<longrightarrow> ist - k \<notin> {v' - DOUBLE_FAULT_STACK ..< v'}))"
  using assms(2,3) phys_frames.virt_law [OF assms(1,2)]
  by (auto simp: gdt_init_def Allocator_alloc_def wp sbnd_eq_Inr Let_def)

theorem double_fault_stack_empty_witness:
  "runs (gdt_init x86_frames) HEAP_START (\<lambda>ist v'. v' = ist + DOUBLE_FAULT_STACK \<and>
    (\<forall>k. 0 < k \<longrightarrow> k \<le> ist \<longrightarrow> ist - k \<notin> {v' - DOUBLE_FAULT_STACK ..< v'}))"
  by (rule double_fault_stack_empty [OF x86.phys_frames_axioms])
    (simp_all add: canonical_def HEAP_START_def DOUBLE_FAULT_STACK_def U64_RANGE_def)

end
