(* ===== verification/Timer.thy ===== *)
theory Timer
  imports Interrupts
begin

text \<open>
  The timers, \<^verbatim>\<open>src/kernel/src/arch/x64/device/pit.rs\<close> and \<^verbatim>\<open>timer.rs\<close>. \<open>timer::init\<close> runs with interrupts
  enabled and shares the lock of the local APIC with the handlers, so it is a step relation: one step per
  access to shared state, an interrupt between any two of them, and the counter of the local APIC running
  down all the time. The local APIC holds an interrupt back while one of the same or of a higher class is in service,
  that is, until it is acknowledged; a masked timer goes on counting without raising interrupts.
\<close>

section \<open>The programmable interval timer\<close>

definition PERIOD_FS :: nat where
  "PERIOD_FS = 838095110"

definition CHAN0_DIVISOR :: nat where
  "CHAN0_DIVISOR = 1193"

definition RATE :: nat where
  "RATE = CHAN0_DIVISOR * PERIOD_FS div 1000000"

definition MODE_2 :: u8 where
  "MODE_2 = push_bit 1 0b010"

definition ACCESS_LATCH :: u8 where
  "ACCESS_LATCH = push_bit 4 0b00"

definition ACCESS_LOHI :: u8 where
  "ACCESS_LOHI = push_bit 4 0b11"

definition SELECT_CHAN0 :: u8 where
  "SELECT_CHAN0 = push_bit 6 0b00"

text \<open>What \<open>pit::init\<close> writes, as pairs of a port and a byte.\<close>

definition CHAN0 :: nat where
  "CHAN0 = 0x40"

definition CONTROL :: nat where
  "CONTROL = 0x43"

definition pit_init :: "(nat \<times> u8) list" where
  "pit_init =
     [(CONTROL, SELECT_CHAN0 OR ACCESS_LOHI OR MODE_2), (CHAN0, of_nat CHAN0_DIVISOR), (CHAN0, of_nat (CHAN0_DIVISOR div 2 ^ 8))]"

text \<open>\<open>pit::read\<close>, of the two bytes the latched channel gives.\<close>

definition pit_read :: "u8 \<Rightarrow> u8 \<Rightarrow> nat" where
  "pit_read low high = CHAN0_DIVISOR - (unat high * 2 ^ 8 + unat low)"

section \<open>Calibrating the local APIC\<close>

text \<open>The places of \<open>timer::init\<close> and \<open>set_apic_timer\<close>.\<close>

datatype main_pc =
    ReadCount | Enable | Wait2 | LockStart | ReadStart | UnlockStart
  | Wait102 | LockEnd | ReadEnd | UnlockEnd | Disable | Subtract
  | LockSet | DisableTimer | SetMode | SetInitial | EnableTimer | UnlockSet | Done | Crashed

text \<open>The places of an interrupt handler, and who holds the lock of the local APIC.\<close>

datatype handler_pc = CountPit | CountTimer | LockEoi | Eoi | UnlockEoi

datatype owner = Main_Thread | Handler_Thread

datatype timer_mode = OneShot | Periodic

record timer_sys =
  main :: main_pc
  irq :: "handler_pc option"
  lapic_lock :: "owner option"
  if_flag :: bool
  pit_on :: bool
  pit_count :: nat
  timer_count :: nat
  pit_start :: nat
  lapic_now :: nat
  lapic_start :: nat
  lapic_end :: nat
  divisor :: nat
  timer_enabled :: bool
  timer_pending :: bool
  timer_mode :: timer_mode
  lapic_initial :: nat
  in_service :: "nat list"

text \<open>The statements of \<open>timer::init\<close>; a busy loop is left when its condition is false.\<close>

inductive main_step :: "timer_sys \<Rightarrow> timer_sys \<Rightarrow> bool" where
  read_count: "main s = ReadCount \<Longrightarrow> main_step s (s\<lparr>pit_start := pit_count s, main := Enable\<rparr>)"
| enable: "main s = Enable \<Longrightarrow> main_step s (s\<lparr>if_flag := True, main := Wait2\<rparr>)"
| wait2: "main s = Wait2 \<Longrightarrow> pit_start s + 2 < U64_RANGE \<Longrightarrow> pit_start s + 2 \<le> pit_count s \<Longrightarrow> main_step s (s\<lparr>main := LockStart\<rparr>)"
| wait2_overflow: "main s = Wait2 \<Longrightarrow> U64_RANGE \<le> pit_start s + 2 \<Longrightarrow> main_step s (s\<lparr>main := Crashed\<rparr>)"
| lock_start: "main s = LockStart \<Longrightarrow> lapic_lock s = None \<Longrightarrow> main_step s (s\<lparr>lapic_lock := Some Main_Thread, main := ReadStart\<rparr>)"
| read_start: "main s = ReadStart \<Longrightarrow> main_step s (s\<lparr>lapic_start := lapic_now s, main := UnlockStart\<rparr>)"
| unlock_start: "main s = UnlockStart \<Longrightarrow> main_step s (s\<lparr>lapic_lock := None, main := Wait102\<rparr>)"
| wait102: "main s = Wait102 \<Longrightarrow> pit_start s + 102 < U64_RANGE \<Longrightarrow> pit_start s + 102 \<le> pit_count s \<Longrightarrow> main_step s (s\<lparr>main := LockEnd\<rparr>)"
| wait102_overflow: "main s = Wait102 \<Longrightarrow> U64_RANGE \<le> pit_start s + 102 \<Longrightarrow> main_step s (s\<lparr>main := Crashed\<rparr>)"
| lock_end: "main s = LockEnd \<Longrightarrow> lapic_lock s = None \<Longrightarrow> main_step s (s\<lparr>lapic_lock := Some Main_Thread, main := ReadEnd\<rparr>)"
| read_end: "main s = ReadEnd \<Longrightarrow> main_step s (s\<lparr>lapic_end := lapic_now s, main := UnlockEnd\<rparr>)"
| unlock_end: "main s = UnlockEnd \<Longrightarrow> main_step s (s\<lparr>lapic_lock := None, main := Disable\<rparr>)"
| disable: "main s = Disable \<Longrightarrow> main_step s (s\<lparr>pit_on := False, main := Subtract\<rparr>)"
| subtract: "main s = Subtract \<Longrightarrow> lapic_end s \<le> lapic_start s \<Longrightarrow> main_step s (s\<lparr>divisor := lapic_start s - lapic_end s, main := LockSet\<rparr>)"
| subtract_overflow: "main s = Subtract \<Longrightarrow> lapic_start s < lapic_end s \<Longrightarrow> main_step s (s\<lparr>main := Crashed\<rparr>)"
| lock_set: "main s = LockSet \<Longrightarrow> lapic_lock s = None \<Longrightarrow> main_step s (s\<lparr>lapic_lock := Some Main_Thread, main := DisableTimer\<rparr>)"
| disable_timer: "main s = DisableTimer \<Longrightarrow> main_step s (s\<lparr>timer_enabled := False, main := SetMode\<rparr>)"
| set_mode: "main s = SetMode \<Longrightarrow> main_step s (s\<lparr>timer_mode := Periodic, main := SetInitial\<rparr>)"
| set_initial: "main s = SetInitial \<Longrightarrow> main_step s (s\<lparr>lapic_initial := divisor s, lapic_now := divisor s, main := EnableTimer\<rparr>)"
| enable_timer: "main s = EnableTimer \<Longrightarrow> main_step s (s\<lparr>timer_enabled := True, main := UnlockSet\<rparr>)"
| unlock_set: "main s = UnlockSet \<Longrightarrow> main_step s (s\<lparr>lapic_lock := None, main := Done\<rparr>)"

text \<open>
  The handlers \<open>pit_handler\<close>, \<open>timer_interrupt_handler\<close> and \<open>keyboard_interrupt_handler\<close>: count or read the port, then take
  the lock, acknowledge and give the lock back. An interrupt is taken between two statements when interrupts are
  on and no interrupt of its class or a higher one is in service; the handler itself is not interrupted. The class of
  an interrupt is its vector divided by 16, and the acknowledgement ends the service of the last one taken.
\<close>

definition vector_of :: "irq_vector \<Rightarrow> nat" where
  "vector_of v = IrqVector_as_u8 v + IOAPIC_OFFSET"

definition delivers :: "irq_vector \<Rightarrow> timer_sys \<Rightarrow> bool" where
  "delivers v s \<longleftrightarrow> irq s = None \<and> if_flag s \<and> (\<forall>u \<in> set (in_service s). u div 16 < vector_of v div 16)"

inductive irq_step :: "timer_sys \<Rightarrow> timer_sys \<Rightarrow> bool" where
  pit_irq: "delivers IRQ_PIT s \<Longrightarrow> pit_on s \<Longrightarrow> irq_step s (s\<lparr>irq := Some CountPit, in_service := vector_of IRQ_PIT # in_service s\<rparr>)"
| timer_irq: "delivers IRQ_Timer s \<Longrightarrow> timer_pending s \<Longrightarrow>
    irq_step s (s\<lparr>irq := Some CountTimer, timer_pending := False, in_service := vector_of IRQ_Timer # in_service s\<rparr>)"
| keyboard_irq: "delivers IRQ_Keyboard s \<Longrightarrow> irq_step s (s\<lparr>irq := Some LockEoi, in_service := vector_of IRQ_Keyboard # in_service s\<rparr>)"
| count_pit: "irq s = Some CountPit \<Longrightarrow> pit_count s + 1 < U64_RANGE \<Longrightarrow> irq_step s (s\<lparr>pit_count := pit_count s + 1, irq := Some LockEoi\<rparr>)"
| count_timer: "irq s = Some CountTimer \<Longrightarrow> timer_count s + 1 < U64_RANGE \<Longrightarrow>
    irq_step s (s\<lparr>timer_count := timer_count s + 1, irq := Some LockEoi\<rparr>)"
| count_overflow: "irq s = Some CountPit \<and> U64_RANGE \<le> pit_count s + 1 \<or> irq s = Some CountTimer \<and> U64_RANGE \<le> timer_count s + 1 \<Longrightarrow>
    irq_step s (s\<lparr>irq := None, if_flag := False, main := Crashed\<rparr>)"
| lock_eoi: "irq s = Some LockEoi \<Longrightarrow> lapic_lock s = None \<Longrightarrow> irq_step s (s\<lparr>lapic_lock := Some Handler_Thread, irq := Some Eoi\<rparr>)"
| eoi: "irq s = Some Eoi \<Longrightarrow> irq_step s (s\<lparr>in_service := tl (in_service s), irq := Some UnlockEoi\<rparr>)"
| unlock_eoi: "irq s = Some UnlockEoi \<Longrightarrow> irq_step s (s\<lparr>lapic_lock := None, irq := None\<rparr>)"

text \<open>
  The local APIC counts down, masked or not, and starts again in periodic mode. At zero it raises its interrupt
  if it is not masked.
\<close>

inductive clock_step :: "timer_sys \<Rightarrow> timer_sys \<Rightarrow> bool" where
  tick: "0 < lapic_now s \<Longrightarrow> clock_step s
    (s\<lparr>lapic_now := lapic_now s - 1, timer_pending := timer_pending s \<or> lapic_now s = 1 \<and> timer_enabled s\<rparr>)"
| reload: "timer_mode s = Periodic \<Longrightarrow> lapic_now s = 0 \<Longrightarrow> clock_step s (s\<lparr>lapic_now := lapic_initial s\<rparr>)"

text \<open>The single processor runs the interrupted code only while no handler is active.\<close>

inductive step :: "timer_sys \<Rightarrow> timer_sys \<Rightarrow> bool" where
  main: "irq s = None \<Longrightarrow> main_step s s' \<Longrightarrow> step s s'"
| irq: "irq_step s s' \<Longrightarrow> step s s'"
| clock: "clock_step s s' \<Longrightarrow> step s s'"

inductive_cases main_stepE: "main_step s s'"
inductive_cases irq_stepE: "irq_step s s'"
inductive_cases clock_stepE: "clock_step s s'"
inductive_cases stepE: "step s s'"

text \<open>How \<open>device::init\<close> calls it: interrupts off, the interval timer on, the local APIC counting down once.\<close>

definition timer_init_state :: "nat \<Rightarrow> nat \<Rightarrow> timer_sys" where
  "timer_init_state pit now = \<lparr>main = ReadCount, irq = None, lapic_lock = None, if_flag = False, pit_on = True, pit_count = pit,
     timer_count = 0, pit_start = 0, lapic_now = now, lapic_start = 0, lapic_end = 0, divisor = 0, timer_enabled = True,
     timer_pending = False, timer_mode = OneShot, lapic_initial = 2 ^ 32 - 1, in_service = []\<rparr>"

section \<open>Waiting\<close>

text \<open>\<open>sleep\<close> waits until the counter is at this value; \<open>10 * sec\<close> is an \<open>i32\<close> and is then cast.\<close>

definition sleep_end :: "nat \<Rightarrow> int \<Rightarrow> rust_panic + nat" where
  "sleep_end n sec =
     (if - (2 ^ 31) \<le> 10 * sec \<and> 10 * sec < 2 ^ 31 then u64_add n (nat ((10 * sec) mod 2 ^ 64)) else Inl ArithOverflow)"

end
