(* ===== verification/Timer_Properties.thy ===== *)
theory Timer_Properties
  imports Timer
begin

text \<open>
  What the calibration of the local APIC guarantees: an invariant of all interleavings (by rule induction over
  the steps), that it can finish exactly when no interrupt caught it holding the lock, and that such an interrupt
  stops the kernel for good.
\<close>

section \<open>The invariant\<close>

text \<open>Places in the order of the program.\<close>

fun place :: "main_pc \<Rightarrow> nat" where
  "place ReadCount = 0" | "place Enable = 1" | "place Wait2 = 2" | "place LockStart = 3" | "place ReadStart = 4"
| "place UnlockStart = 5" | "place Wait102 = 6" | "place LockEnd = 7" | "place ReadEnd = 8" | "place UnlockEnd = 9"
| "place Disable = 10" | "place Subtract = 11" | "place LockSet = 12" | "place DisableTimer = 13" | "place SetMode = 14"
| "place SetInitial = 15" | "place EnableTimer = 16" | "place UnlockSet = 17" | "place Done = 18" | "place Crashed = 19"

definition holding :: "main_pc set" where
  "holding = {ReadStart, UnlockStart, ReadEnd, UnlockEnd, DisableTimer, SetMode, SetInitial, EnableTimer, UnlockSet}"

definition lock_inv :: "timer_sys \<Rightarrow> bool" where
  "lock_inv s \<longleftrightarrow> (main s \<noteq> Crashed \<longrightarrow> (lapic_lock s = Some Main_Thread \<longleftrightarrow> main s \<in> holding)) \<and>
     (lapic_lock s = Some Handler_Thread \<longleftrightarrow> irq s \<in> {Some Eoi, Some UnlockEoi}) \<and>
     (main s \<noteq> Crashed \<longrightarrow> (if_flag s \<longleftrightarrow> 2 \<le> place (main s))) \<and>
     (irq s \<noteq> None \<longrightarrow> 2 \<le> place (main s))"

definition count_inv :: "nat \<Rightarrow> timer_sys \<Rightarrow> bool" where
  "count_inv pit s \<longleftrightarrow> pit \<le> pit_count s \<and> (main s \<noteq> ReadCount \<longrightarrow> pit_start s = pit) \<and> (main s = ReadCount \<longrightarrow> pit_count s = pit) \<and>
     (7 \<le> place (main s) \<longrightarrow> main s \<noteq> Crashed \<longrightarrow> pit + 102 \<le> pit_count s) \<and>
     (main s \<noteq> Crashed \<longrightarrow> (pit_on s \<longleftrightarrow> place (main s) \<le> 10)) \<and>
     (main s = Crashed \<longrightarrow> U64_RANGE \<le> pit_count s + 102 \<or> U64_RANGE \<le> timer_count s + 1)"

definition clock_inv :: "timer_sys \<Rightarrow> bool" where
  "clock_inv s \<longleftrightarrow>
     (place (main s) \<le> 13 \<longrightarrow> timer_enabled s) \<and>
     (place (main s) \<le> 14 \<longrightarrow> timer_mode s = OneShot) \<and>
     (5 \<le> place (main s) \<longrightarrow> place (main s) \<le> 8 \<longrightarrow> lapic_now s \<le> lapic_start s) \<and>
     (9 \<le> place (main s) \<longrightarrow> main s \<noteq> Crashed \<longrightarrow> lapic_end s \<le> lapic_start s) \<and>
     (12 \<le> place (main s) \<longrightarrow> main s \<noteq> Crashed \<longrightarrow> divisor s = lapic_start s - lapic_end s) \<and>
     (15 \<le> place (main s) \<longrightarrow> main s \<noteq> Crashed \<longrightarrow> timer_mode s = Periodic) \<and>
     (16 \<le> place (main s) \<longrightarrow> main s \<noteq> Crashed \<longrightarrow> lapic_initial s = divisor s \<and> lapic_now s \<le> divisor s) \<and>
     (17 \<le> place (main s) \<longrightarrow> main s \<noteq> Crashed \<longrightarrow> timer_enabled s)"

text \<open>An interrupt is in service from its delivery to its acknowledgement, and never two.\<close>

definition service_inv :: "timer_sys \<Rightarrow> bool" where
  "service_inv s \<longleftrightarrow> main s \<noteq> Crashed \<longrightarrow> length (in_service s) = (if irq s \<in> {None, Some UnlockEoi} then 0 else 1)"

lemma service_inv_main: "main_step s s' \<Longrightarrow> service_inv s \<Longrightarrow> service_inv s'"
  by (cases s s' rule: main_step.cases) (simp_all add: service_inv_def)

lemma service_inv_irq: "irq_step s s' \<Longrightarrow> service_inv s \<Longrightarrow> service_inv s'"
  by (cases s s' rule: irq_step.cases) (auto simp: service_inv_def delivers_def)

lemma service_inv_clock: "clock_step s s' \<Longrightarrow> service_inv s \<Longrightarrow> service_inv s'"
  by (cases s s' rule: clock_step.cases) (simp_all add: service_inv_def)

lemma lock_inv_main: "main_step s s' \<Longrightarrow> irq s = None \<Longrightarrow> lock_inv s \<Longrightarrow> lock_inv s'"
  by (cases s s' rule: main_step.cases) (simp_all add: lock_inv_def holding_def)

lemma lock_inv_irq: "irq_step s s' \<Longrightarrow> lock_inv s \<Longrightarrow> lock_inv s'"
  by (cases s s' rule: irq_step.cases) (auto simp: lock_inv_def delivers_def)

lemma lock_inv_clock: "clock_step s s' \<Longrightarrow> lock_inv s \<Longrightarrow> lock_inv s'"
  by (cases s s' rule: clock_step.cases) (simp_all add: lock_inv_def)

text \<open>What an interrupt can change of the program it interrupts.\<close>

lemma irq_keeps:
  assumes "irq_step s s'"
  shows "main s' = main s \<or> main s' = Crashed \<and> (U64_RANGE \<le> pit_count s' + 1 \<or> U64_RANGE \<le> timer_count s' + 1)"
    and "pit_start s' = pit_start s" and "pit_on s' = pit_on s" and "pit_count s \<le> pit_count s'" and "timer_count s \<le> timer_count s'"
    and "lapic_now s' = lapic_now s" and "lapic_start s' = lapic_start s" and "lapic_end s' = lapic_end s" and "divisor s' = divisor s"
    and "timer_enabled s' = timer_enabled s" and "timer_mode s' = timer_mode s" and "lapic_initial s' = lapic_initial s"
  using assms by (cases s s' rule: irq_step.cases; auto)+

lemma irq_after_enable: "irq_step s s' \<Longrightarrow> lock_inv s \<Longrightarrow> main s \<noteq> ReadCount"
  by (cases s s' rule: irq_step.cases) (auto simp: lock_inv_def delivers_def)

lemma count_inv_main: "main_step s s' \<Longrightarrow> clock_inv s \<Longrightarrow> count_inv pit s \<Longrightarrow> count_inv pit s'"
  by (cases s s' rule: main_step.cases) (simp_all add: count_inv_def clock_inv_def)

lemma count_inv_irq:
  assumes "irq_step s s'" and "lock_inv s" and "count_inv pit s"
  shows "count_inv pit s'"
proof -
  note k = irq_keeps [OF assms(1)] and r = irq_after_enable [OF assms(1,2)]
  show ?thesis
  proof (cases "main s' = Crashed")
    case True
    have "U64_RANGE \<le> pit_count s' + 102 \<or> U64_RANGE \<le> timer_count s' + 1"
      using k(1,4,5) True assms(3) by (auto simp: count_inv_def)
    with True assms(3) r k(2,4) show ?thesis by (simp add: count_inv_def)
  next
    case False
    then have "main s' = main s" using k(1) by simp
    with False assms(3) r k(2-5) show ?thesis by (auto simp: count_inv_def)
  qed
qed

lemma count_inv_clock: "clock_step s s' \<Longrightarrow> count_inv pit s \<Longrightarrow> count_inv pit s'"
  by (cases s s' rule: clock_step.cases) (simp_all add: count_inv_def)

lemma clock_inv_main: "main_step s s' \<Longrightarrow> clock_inv s \<Longrightarrow> clock_inv s'"
  by (cases s s' rule: main_step.cases) (simp_all add: clock_inv_def)

lemma clock_inv_irq:
  assumes "irq_step s s'" and "clock_inv s"
  shows "clock_inv s'"
proof (cases "main s' = Crashed")
  case True
  then show ?thesis by (simp add: clock_inv_def)
next
  case False
  with irq_keeps(1) [OF assms(1)] have "main s' = main s" by simp
  then have "clock_inv s' = clock_inv s" by (simp only: clock_inv_def irq_keeps(6-12) [OF assms(1)])
  with assms(2) show ?thesis by simp
qed

lemma clock_keeps:
  assumes "clock_step s s'"
  shows "main s' = main s" and "irq s' = irq s" and "lapic_lock s' = lapic_lock s" and "pit_on s' = pit_on s"
    and "lapic_start s' = lapic_start s" and "lapic_end s' = lapic_end s" and "divisor s' = divisor s"
    and "timer_enabled s' = timer_enabled s" and "timer_mode s' = timer_mode s" and "lapic_initial s' = lapic_initial s"
    and "lapic_now s' \<le> lapic_now s \<or> timer_mode s = Periodic \<and> lapic_now s' = lapic_initial s"
  using assms by (cases s s' rule: clock_step.cases; simp)+

lemma clock_inv_clock:
  assumes "clock_step s s'" and "clock_inv s"
  shows "clock_inv s'"
proof -
  note k = clock_keeps [OF assms(1)]
  have "lapic_now s' \<le> lapic_start s" if "5 \<le> place (main s)" "place (main s) \<le> 8"
    using k(11) that assms(2) by (simp add: clock_inv_def)
  moreover have "lapic_now s' \<le> divisor s" if "16 \<le> place (main s)" "main s \<noteq> Crashed"
    using k(11) that assms(2) by (fastforce simp: clock_inv_def)
  ultimately show ?thesis using assms(2) unfolding clock_inv_def k(1,5-10) by blast
qed

text \<open>The invariant of all reachable states.\<close>

definition timer_inv :: "nat \<Rightarrow> timer_sys \<Rightarrow> bool" where
  "timer_inv pit s \<longleftrightarrow> lock_inv s \<and> service_inv s \<and> count_inv pit s \<and> clock_inv s"

lemma timer_inv_step: "step s s' \<Longrightarrow> timer_inv pit s \<Longrightarrow> timer_inv pit s'"
  unfolding timer_inv_def
  by (erule stepE)
    (blast intro: lock_inv_main lock_inv_irq lock_inv_clock service_inv_main service_inv_irq service_inv_clock count_inv_main count_inv_irq count_inv_clock
      clock_inv_main clock_inv_irq clock_inv_clock)+

lemma timer_inv_init: "timer_inv pit (timer_init_state pit now)"
  by (simp add: timer_inv_def lock_inv_def service_inv_def count_inv_def clock_inv_def timer_init_state_def holding_def)

lemma timer_inv_steps: "step\<^sup>*\<^sup>* s s' \<Longrightarrow> timer_inv pit s \<Longrightarrow> timer_inv pit s'"
  by (induction rule: rtranclp_induct) (auto intro: timer_inv_step)

section \<open>Progress\<close>

text \<open>An interrupt that came while the interrupted code holds the lock.\<close>

definition doomed :: "timer_sys \<Rightarrow> bool" where
  "doomed s \<longleftrightarrow> irq s \<in> {Some CountPit, Some CountTimer, Some LockEoi} \<and> lapic_lock s = Some Main_Thread"

definition can_finish :: "timer_sys \<Rightarrow> bool" where
  "can_finish s \<longleftrightarrow> (\<exists>s'. step\<^sup>*\<^sup>* s s' \<and> main s' = Done)"

lemma can_finish_step: "step s s' \<Longrightarrow> can_finish s' \<Longrightarrow> can_finish s"
  by (auto simp: can_finish_def intro: converse_rtranclp_into_rtranclp)

lemma can_finish_steps: "step\<^sup>*\<^sup>* s s' \<Longrightarrow> can_finish s' \<Longrightarrow> can_finish s"
  by (auto simp: can_finish_def intro: rtranclp_trans)

lemma finish_eoi:
  assumes "irq s = Some Eoi"
  shows "step\<^sup>*\<^sup>* s (s\<lparr>lapic_lock := None, irq := None, in_service := tl (in_service s)\<rparr>)"
proof -
  have "step (s\<lparr>in_service := tl (in_service s), irq := Some UnlockEoi\<rparr>) (s\<lparr>lapic_lock := None, irq := None, in_service := tl (in_service s)\<rparr>)"
    using step.irq [OF irq_step.unlock_eoi, of "s\<lparr>in_service := tl (in_service s), irq := Some UnlockEoi\<rparr>"] by (cases s) simp
  with step.irq [OF irq_step.eoi [OF assms]] show ?thesis by (blast intro: converse_rtranclp_into_rtranclp)
qed

lemma finish_lock_eoi:
  assumes "irq s = Some LockEoi" and "lapic_lock s = None"
  shows "step\<^sup>*\<^sup>* s (s\<lparr>lapic_lock := None, irq := None, in_service := tl (in_service s)\<rparr>)"
  using converse_rtranclp_into_rtranclp [of step, OF step.irq [OF irq_step.lock_eoi [OF assms]] finish_eoi] by simp

lemma finish_count_pit:
  assumes "irq s = Some CountPit" and "lapic_lock s = None" and "pit_count s + 1 < U64_RANGE"
  shows "step\<^sup>*\<^sup>* s (s\<lparr>pit_count := pit_count s + 1, lapic_lock := None, irq := None, in_service := tl (in_service s)\<rparr>)"
  using converse_rtranclp_into_rtranclp [of step, OF step.irq [OF irq_step.count_pit [OF assms(1,3)]] finish_lock_eoi] assms(2) by simp

lemma finish_count_timer:
  assumes "irq s = Some CountTimer" and "lapic_lock s = None" and "timer_count s + 1 < U64_RANGE"
  shows "step\<^sup>*\<^sup>* s (s\<lparr>timer_count := timer_count s + 1, lapic_lock := None, irq := None, in_service := tl (in_service s)\<rparr>)"
  using converse_rtranclp_into_rtranclp [of step, OF step.irq [OF irq_step.count_timer [OF assms(1,3)]] finish_lock_eoi] assms(2) by simp

text \<open>
  One period of the interval timer, and several: each interrupt is acknowledged, so that the next one is delivered.
\<close>

lemma pit_pulse:
  assumes "irq s = None" and "if_flag s" and "pit_on s" and "lapic_lock s = None" and "in_service s = []" and "pit_count s + 1 < U64_RANGE"
  shows "step\<^sup>*\<^sup>* s (s\<lparr>pit_count := pit_count s + 1\<rparr>)"
proof -
  have d: "delivers IRQ_PIT s" using assms(1,2,5) by (simp add: delivers_def)
  have "step\<^sup>*\<^sup>* s (s\<lparr>pit_count := pit_count s + 1, lapic_lock := None, irq := None\<rparr>)"
    using converse_rtranclp_into_rtranclp [of step, OF step.irq [OF irq_step.pit_irq [OF d assms(3)]] finish_count_pit] assms(4-6)
    by (cases s) simp
  moreover have "s\<lparr>pit_count := pit_count s + 1, lapic_lock := None, irq := None\<rparr> = s\<lparr>pit_count := pit_count s + 1\<rparr>"
    using assms(1,4) by (cases s) simp
  ultimately show ?thesis by simp
qed

lemma pit_pulses:
  assumes "irq s = None" and "if_flag s" and "pit_on s" and "lapic_lock s = None" and "in_service s = []" and "pit_count s + n < U64_RANGE"
  shows "step\<^sup>*\<^sup>* s (s\<lparr>pit_count := pit_count s + n\<rparr>)"
  using assms(6)
proof (induction n)
  case 0
  then show ?case by simp
next
  case (Suc n)
  then have "step\<^sup>*\<^sup>* s (s\<lparr>pit_count := pit_count s + n\<rparr>)" by simp
  also have "step\<^sup>*\<^sup>* (s\<lparr>pit_count := pit_count s + n\<rparr>) (s\<lparr>pit_count := pit_count s + Suc n\<rparr>)"
    using pit_pulse [of "s\<lparr>pit_count := pit_count s + n\<rparr>"] assms(1-5) Suc.prems by simp
  finally show ?case .
qed

text \<open>Without a handler running, the program makes its next step, after enough periods where it waits.\<close>

lemma main_step_next: "main_step s s' \<Longrightarrow> main s' \<noteq> Crashed \<Longrightarrow> irq s' = irq s \<and> place (main s') = Suc (place (main s))"
  by (cases s s' rule: main_step.cases) simp_all

lemma lock_free: "lock_inv s \<Longrightarrow> irq s = None \<Longrightarrow> main s \<noteq> Crashed \<Longrightarrow> main s \<notin> holding \<Longrightarrow> lapic_lock s = None"
  by (cases "lapic_lock s") (auto simp: lock_inv_def intro: owner.exhaust)

lemma main_enabled:
  assumes "lock_inv s" and "clock_inv s" and "irq s = None" and "main s \<notin> {Wait2, Wait102, Done, Crashed}"
  shows "\<exists>s'. main_step s s' \<and> main s' \<noteq> Crashed"
proof -
  have l: "main s \<in> {LockStart, LockEnd, LockSet} \<Longrightarrow> lapic_lock s = None"
    using lock_free [OF assms(1,3)] by (auto simp: holding_def)
  have c: "main s = Subtract \<Longrightarrow> lapic_end s \<le> lapic_start s" using assms(2) by (simp add: clock_inv_def)
  show ?thesis
    using assms(4) l c by (cases "main s") (simp_all, (rule exI, rule conjI, rule main_step.intros, simp_all)+)
qed

lemma main_progress:
  assumes "timer_inv pit s" and "irq s = None" and "main s \<notin> {Done, Crashed}" and "pit + 103 < U64_RANGE"
  shows "\<exists>s'. step\<^sup>*\<^sup>* s s' \<and> irq s' = None \<and> main s' \<noteq> Crashed \<and> place (main s') = Suc (place (main s))"
proof (cases "main s \<in> {Wait2, Wait102}")
  case False
  with main_enabled [of s] assms obtain s' where s': "main_step s s'" "main s' \<noteq> Crashed" by (auto simp: timer_inv_def)
  with main_step_next [OF s'] assms(2) show ?thesis by (intro exI [of _ s'] conjI r_into_rtranclp step.main) simp_all
next
  case True
  let ?n = "pit + 102 - pit_count s" and ?s = "s\<lparr>pit_count := pit_count s + (pit + 102 - pit_count s)\<rparr>"
  have lock: "lapic_lock s = None" using lock_free [of s] assms(1,2) True by (auto simp: timer_inv_def holding_def)
  have i: "if_flag s" "pit_on s" "pit_start s = pit" "pit \<le> pit_count s" "in_service s = []"
    using True assms(1,2) by (cases "main s = Wait2"; simp add: timer_inv_def lock_inv_def count_inv_def service_inv_def)+
  have "step\<^sup>*\<^sup>* s ?s"
  proof (cases "?n = 0")
    case False
    with pit_pulses [OF assms(2) i(1,2) lock i(5), of ?n] assms(4) show ?thesis by simp
  qed simp
  have "\<exists>s'. main_step ?s s' \<and> main s' \<noteq> Crashed"
  proof (cases "main s = Wait2")
    case True
    with assms(4) i(3) main_step.wait2 [of ?s] have "main_step ?s (?s\<lparr>main := LockStart\<rparr>)" by simp
    then show ?thesis by (intro exI [of _ "?s\<lparr>main := LockStart\<rparr>"] conjI) simp_all
  next
    case False
    with \<open>main s \<in> {Wait2, Wait102}\<close> assms(4) i(3) main_step.wait102 [of ?s] have "main_step ?s (?s\<lparr>main := LockEnd\<rparr>)" by simp
    then show ?thesis by (intro exI [of _ "?s\<lparr>main := LockEnd\<rparr>"] conjI) simp_all
  qed
  then obtain s' where s': "main_step ?s s'" "main s' \<noteq> Crashed" by blast
  have "step ?s s'" using assms(2) by (intro step.main s'(1)) simp
  with \<open>step\<^sup>*\<^sup>* s ?s\<close> have "step\<^sup>*\<^sup>* s s'" by (rule rtranclp.rtrancl_into_rtrancl)
  with main_step_next [OF s'] assms(2) s'(2) show ?thesis by (intro exI [of _ s'] conjI) simp_all
qed

lemma finish_main:
  assumes "timer_inv pit s" and "irq s = None" and "main s \<noteq> Crashed" and "pit + 103 < U64_RANGE"
  shows "can_finish s"
  using assms(1-3)
proof (induction "18 - place (main s)" arbitrary: s rule: less_induct)
  case less
  show ?case
  proof (cases "main s = Done")
    case True
    then show ?thesis by (auto simp: can_finish_def)
  next
    case False
    with main_progress [OF less.prems(1,2) _ assms(4)] less.prems(3) obtain s' where
      s': "step\<^sup>*\<^sup>* s s'" "irq s' = None" "main s' \<noteq> Crashed" "place (main s') = Suc (place (main s))" by auto
    have "place (main s) < 18" using False less.prems(3) by (cases "main s") simp_all
    with s'(4) have "18 - place (main s') < 18 - place (main s)" by simp
    from less.hyps [OF this timer_inv_steps [OF s'(1) less.prems(1)] s'(2,3)] can_finish_steps [OF s'(1)] show ?thesis by simp
  qed
qed

text \<open>A handler that does not wait for the interrupted code returns.\<close>

lemma finish_handler:
  assumes "timer_inv pit s" and "\<not> doomed s" and "pit_count s + 1 < U64_RANGE" and "timer_count s + 1 < U64_RANGE"
  shows "\<exists>s'. step\<^sup>*\<^sup>* s s' \<and> irq s' = None \<and> main s' = main s"
proof (cases "irq s")
  case (Some h)
  have lock: "lapic_lock s = None" if "h \<in> {CountPit, CountTimer, LockEoi}"
    using that Some assms(1,2) by (cases "lapic_lock s") (auto simp: doomed_def timer_inv_def lock_inv_def intro: owner.exhaust)
  have ex: ?thesis if "step\<^sup>*\<^sup>* s t" and "irq t = None" and "main t = main s" for t using that by blast
  show ?thesis
  proof (cases h)
    case CountPit
    then show ?thesis by (intro ex [OF finish_count_pit]) (simp_all add: Some lock assms(3) [simplified])
  next
    case CountTimer
    then show ?thesis by (intro ex [OF finish_count_timer]) (simp_all add: Some lock assms(4) [simplified])
  next
    case LockEoi
    then show ?thesis by (intro ex [OF finish_lock_eoi]) (simp_all add: Some lock)
  next
    case Eoi
    then show ?thesis by (intro ex [OF finish_eoi]) (simp_all add: Some)
  next
    case UnlockEoi
    then show ?thesis by (intro ex [OF r_into_rtranclp, OF step.irq, OF irq_step.unlock_eoi]) (simp_all add: Some)
  qed
qed auto

section \<open>Properties\<close>



text \<open>A state in which the handler waits for the interrupted code, or that has crashed, stays one.\<close>

lemma doomed_step:
  assumes "step s s'" and "doomed s \<and> main s \<noteq> Done \<or> main s = Crashed"
  shows "doomed s' \<and> main s' \<noteq> Done \<or> main s' = Crashed"
  using assms(1)
proof cases
  case main
  with assms(2) show ?thesis by (auto simp: doomed_def elim: main_stepE)
next
  case irq
  then show ?thesis using assms(2) by (cases s s' rule: irq_step.cases) (auto simp: doomed_def delivers_def)
next
  case clock
  then show ?thesis using assms(2) by (cases s s' rule: clock_step.cases) (auto simp: doomed_def)
qed

lemma doomed_steps:
  "step\<^sup>*\<^sup>* s s' \<Longrightarrow> doomed s \<and> main s \<noteq> Done \<or> main s = Crashed \<Longrightarrow> doomed s' \<and> main s' \<noteq> Done \<or> main s' = Crashed"
proof (induction rule: rtranclp_induct)
  case (step t u)
  show ?case by (rule doomed_step [OF step.hyps(2) step.IH [OF step.prems]])
qed

text \<open>
  C14: take a reachable state in which nothing has panicked, where the count of the interval timer at the start is at
  least 104, and both counters now at least 2, below the end of their range. The calibration can be completed from it if
  and only if no handler is waiting for the lock of the local APIC while \<open>timer::init\<close> itself holds it.
\<close>

theorem timer_can_finish:
  assumes "step\<^sup>*\<^sup>* (timer_init_state pit now) s" and "main s \<noteq> Crashed"
    and "pit + 103 < U64_RANGE" and "pit_count s + 1 < U64_RANGE" and "timer_count s + 1 < U64_RANGE"
  shows "(\<exists>s'. step\<^sup>*\<^sup>* s s' \<and> main s' = Done) \<longleftrightarrow> \<not> doomed s"
proof
  have inv: "timer_inv pit s" by (rule timer_inv_steps [OF assms(1) timer_inv_init])
  show "\<not> doomed s" if "\<exists>s'. step\<^sup>*\<^sup>* s s' \<and> main s' = Done"
  proof
    assume d: "doomed s"
    with inv have "main s \<noteq> Done" by (auto simp: timer_inv_def lock_inv_def doomed_def holding_def)
    with that d doomed_steps [of s] show False by fastforce
  qed
  assume "\<not> doomed s"
  from finish_handler [OF inv this assms(4,5)] obtain s1 where s1: "step\<^sup>*\<^sup>* s s1" "irq s1 = None" "main s1 = main s" by blast
  have "can_finish s1" using assms(2,3) s1(2,3) by (intro finish_main [OF timer_inv_steps [OF s1(1) inv]]) simp_all
  with can_finish_steps [OF s1(1)] show "\<exists>s'. step\<^sup>*\<^sup>* s s' \<and> main s' = Done" by (simp add: can_finish_def)
qed

theorem timer_can_finish_witness: "\<exists>s'. step\<^sup>*\<^sup>* (timer_init_state 7 9) s' \<and> main s' = Done"
  using timer_can_finish [OF rtranclp.rtrancl_refl, of 7 9] by (simp add: timer_init_state_def doomed_def U64_RANGE_def)

lemma stuck_step: "step s s' \<Longrightarrow> irq s = Some LockEoi \<and> lapic_lock s = Some Main_Thread \<and> main s = pc \<Longrightarrow>
  irq s' = Some LockEoi \<and> lapic_lock s' = Some Main_Thread \<and> main s' = pc"
  by (erule stepE) (auto simp: delivers_def elim: irq_stepE clock_stepE)

lemma stuck_steps: "step\<^sup>*\<^sup>* s s' \<Longrightarrow> irq s = Some LockEoi \<and> lapic_lock s = Some Main_Thread \<and> main s = pc \<Longrightarrow>
  irq s' = Some LockEoi \<and> lapic_lock s' = Some Main_Thread \<and> main s' = pc"
  by (induction rule: rtranclp_induct) (auto dest: stuck_step)

lemma reach_place:
  assumes "pit + 103 < U64_RANGE" and "n \<le> 18"
  shows "\<exists>s. step\<^sup>*\<^sup>* (timer_init_state pit now) s \<and> irq s = None \<and> main s \<noteq> Crashed \<and> place (main s) = n"
  using assms(2)
proof (induction n)
  case 0
  show ?case by (rule exI [of _ "timer_init_state pit now"]) (simp add: timer_init_state_def)
next
  case (Suc n)
  then obtain s where s: "step\<^sup>*\<^sup>* (timer_init_state pit now) s" "irq s = None" "main s \<noteq> Crashed" "place (main s) = n" by auto
  have "main s \<notin> {Done, Crashed}" using s(3,4) Suc.prems by auto
  from main_progress [OF timer_inv_steps [OF s(1) timer_inv_init] s(2) this assms(1)] s(4) obtain s' where
    "step\<^sup>*\<^sup>* s s'" "irq s' = None" "main s' \<noteq> Crashed" "place (main s') = Suc n" by auto
  with s(1) show ?case by (blast intro: rtranclp_trans)
qed

text \<open>
  C36: an interrupt while \<open>timer::init\<close> holds the lock of the local APIC stops the kernel for good: such a state
  is reachable from every start, and from it the calibration is never completed.
\<close>

theorem timer_deadlock_reachable:
  assumes "pit + 103 < U64_RANGE"
  shows "\<exists>s. step\<^sup>*\<^sup>* (timer_init_state pit now) s \<and> main s = ReadStart \<and> (\<forall>s'. step\<^sup>*\<^sup>* s s' \<longrightarrow> main s' = ReadStart)"
proof -
  obtain s where s: "step\<^sup>*\<^sup>* (timer_init_state pit now) s" "irq s = None" "main s \<noteq> Crashed" "place (main s) = 4"
    using reach_place [OF assms, of 4 now] by auto
  then have m: "main s = ReadStart" by (cases "main s") simp_all
  have l: "lapic_lock s = Some Main_Thread" "if_flag s"
    using timer_inv_steps [OF s(1) timer_inv_init] m by (simp_all add: timer_inv_def lock_inv_def holding_def)
  let ?s = "s\<lparr>irq := Some LockEoi, in_service := vector_of IRQ_Keyboard # in_service s\<rparr>"
  have "delivers IRQ_Keyboard s"
    using timer_inv_steps [OF s(1) timer_inv_init] m l(2) s(2) by (simp add: timer_inv_def service_inv_def delivers_def)
  then have "step s ?s" by (rule step.irq [OF irq_step.keyboard_irq])
  with s(1) have "step\<^sup>*\<^sup>* (timer_init_state pit now) ?s" by (rule rtranclp.rtrancl_into_rtrancl)
  with m l(1) show ?thesis
    by (intro exI [of _ ?s]) (auto dest: stuck_steps [where pc = ReadStart])
qed

theorem timer_deadlock_reachable_witness:
  "\<exists>s. step\<^sup>*\<^sup>* (timer_init_state 0 4294967295) s \<and> main s = ReadStart \<and> (\<forall>s'. step\<^sup>*\<^sup>* s s' \<longrightarrow> main s' = ReadStart)"
  by (rule timer_deadlock_reachable) (simp add: U64_RANGE_def)

end
