(* ===== verification/Devices.thy ===== *)
theory Devices
  imports Interrupts Timer
begin

text \<open>
  Setting up the interrupt controllers and the devices: \<open>apic::init\<close>
  (\<^verbatim>\<open>src/kernel/src/arch/x64/interrupt/apic.rs\<close>), \<open>device::init\<close> (\<^verbatim>\<open>device/mod.rs\<close>), \<open>keyboard::init\<close> and the
  redirection entry of the interval timer (\<^verbatim>\<open>device/pit.rs\<close>). The registers of the controllers belong to the crate
  \<^verbatim>\<open>x2apic\<close>: its operations are an argument. \<open>device::init\<close> ends in \<open>timer::init\<close>, which runs with interrupts on, so the whole is a
  step relation: the setup, then the steps of the theory \<open>Timer\<close>, each with what it does to the two controllers.
\<close>

section \<open>What the crate provides\<close>

datatype irq_mode = Fixed | LowestPriority | SMI | NMI | INIT | ExtINT

text \<open>What the builder of the local APIC is told.\<close>

record lapic_setup =
  ls_timer_vector :: nat
  ls_error_vector :: nat
  ls_spurious_vector :: nat
  ls_xapic_base :: nat
  ls_timer_initial :: nat
  ls_timer_mode :: timer_mode

record ('l, 'i, 'e) apic_ops =
  xapic_base :: nat
  lapic_build :: "lapic_setup \<Rightarrow> 'l option"
  lapic_enable :: "'l \<Rightarrow> 'l"
  lapic_id :: "'l \<Rightarrow> nat"
  lapic_disable_timer :: "'l \<Rightarrow> 'l"
  lapic_set_timer_mode :: "timer_mode \<Rightarrow> 'l \<Rightarrow> 'l"
  lapic_set_timer_initial :: "nat \<Rightarrow> 'l \<Rightarrow> 'l"
  lapic_enable_timer :: "'l \<Rightarrow> 'l"
  ioapic_new :: "nat \<Rightarrow> 'i"
  ioapic_init :: "nat \<Rightarrow> 'i \<Rightarrow> 'i"
  table_entry :: "nat \<Rightarrow> 'i \<Rightarrow> 'e"
  set_table_entry :: "nat \<Rightarrow> 'e \<Rightarrow> 'i \<Rightarrow> 'i"
  enable_irq :: "nat \<Rightarrow> 'i \<Rightarrow> 'i"
  disable_irq :: "nat \<Rightarrow> 'i \<Rightarrow> 'i"
  entry_set_mode :: "irq_mode \<Rightarrow> 'e \<Rightarrow> 'e"
  entry_set_masked :: "'e \<Rightarrow> 'e"
  entry_set_dest :: "nat \<Rightarrow> 'e \<Rightarrow> 'e"

section \<open>State\<close>

text \<open>A static behind a spin lock; the flag says that the lock is held.\<close>

record 'x locked =
  lk_held :: bool
  lk_inner :: 'x

record ('l, 'i, 'f) devices =
  dv_memory :: "'f memory"
  dv_lapic :: "'l locked option"
  dv_ioapic :: "'i locked option"
  dv_ports :: "(nat \<times> u8) list"

text \<open>\<open>as_ref().unwrap().lock()\<close> and the end of the guard, and both around the statements in between.\<close>

definition lock_ioapic :: "(('l, 'i, 'f) devices, unit) rust" where
  "lock_ioapic =
     bnd (gets dv_ioapic) (\<lambda>a. case a of
       None \<Rightarrow> panic UnwrapNone
     | Some lk \<Rightarrow>
         bnd (require (\<not> lk_held lk) Deadlock) (\<lambda>_.
         upd (\<lambda>s. s\<lparr>dv_ioapic := Some (lk\<lparr>lk_held := True\<rparr>)\<rparr>)))"

definition unlock_ioapic :: "('l, 'i, 'f) devices \<Rightarrow> ('l, 'i, 'f) devices" where
  "unlock_ioapic s = s\<lparr>dv_ioapic := map_option (\<lambda>lk. lk\<lparr>lk_held := False\<rparr>) (dv_ioapic s)\<rparr>"

definition with_ioapic :: "(('l, 'i, 'f) devices, 'x) rust \<Rightarrow> (('l, 'i, 'f) devices, 'x) rust" where
  "with_ioapic m = bnd lock_ioapic (\<lambda>_. bnd m (\<lambda>x. bnd (upd unlock_ioapic) (\<lambda>_. ret x)))"

definition lock_lapic :: "(('l, 'i, 'f) devices, unit) rust" where
  "lock_lapic =
     bnd (gets dv_lapic) (\<lambda>a. case a of
       None \<Rightarrow> panic UnwrapNone
     | Some lk \<Rightarrow>
         bnd (require (\<not> lk_held lk) Deadlock) (\<lambda>_.
         upd (\<lambda>s. s\<lparr>dv_lapic := Some (lk\<lparr>lk_held := True\<rparr>)\<rparr>)))"

definition unlock_lapic :: "('l, 'i, 'f) devices \<Rightarrow> ('l, 'i, 'f) devices" where
  "unlock_lapic s = s\<lparr>dv_lapic := map_option (\<lambda>lk. lk\<lparr>lk_held := False\<rparr>) (dv_lapic s)\<rparr>"

definition with_lapic :: "(('l, 'i, 'f) devices, 'x) rust \<Rightarrow> (('l, 'i, 'f) devices, 'x) rust" where
  "with_lapic m = bnd lock_lapic (\<lambda>_. bnd m (\<lambda>x. bnd (upd unlock_lapic) (\<lambda>_. ret x)))"

text \<open>Statements on what a guard protects.\<close>

definition on_ioapic :: "('i \<Rightarrow> 'i) \<Rightarrow> ('l, 'i, 'f) devices \<Rightarrow> ('l, 'i, 'f) devices" where
  "on_ioapic f s = s\<lparr>dv_ioapic := map_option (\<lambda>lk. lk\<lparr>lk_inner := f (lk_inner lk)\<rparr>) (dv_ioapic s)\<rparr>"

definition on_lapic :: "('l \<Rightarrow> 'l) \<Rightarrow> ('l, 'i, 'f) devices \<Rightarrow> ('l, 'i, 'f) devices" where
  "on_lapic f s = s\<lparr>dv_lapic := map_option (\<lambda>lk. lk\<lparr>lk_inner := f (lk_inner lk)\<rparr>) (dv_lapic s)\<rparr>"

definition lapic_id_u8 :: "('l, 'i, 'e) apic_ops \<Rightarrow> (('l, 'i, 'f) devices, nat) rust" where
  "lapic_id_u8 ops = bnd (gets dv_lapic) (\<lambda>a. case a of None \<Rightarrow> panic UnwrapNone | Some lk \<Rightarrow> ret (lapic_id ops (lk_inner lk) mod 256))"

definition on_dv_memory :: "('f memory, 'x) rust \<Rightarrow> (('l, 'i, 'f) devices, 'x) rust" where
  "on_dv_memory m = zoom dv_memory (\<lambda>x s. s\<lparr>dv_memory := x\<rparr>) m"

section \<open>Operations\<close>

definition IOAPIC_ADDR :: nat where
  "IOAPIC_ADDR = 0xFEC00000"

definition apic_init :: "'f phys_frame_ops \<Rightarrow> ('l, 'i, 'e) apic_ops \<Rightarrow> (('l, 'i, 'f) devices, unit) rust" where
  "apic_init fops ops =
     bnd (on_dv_memory (to_virt_addr fops (xapic_base ops))) (\<lambda>apic_virtual_address.
     bnd (pure (with_offset IRQ_Timer)) (\<lambda>tv.
     bnd (pure (with_offset IRQ_Error)) (\<lambda>ev.
     bnd (pure (with_offset IRQ_Spurious)) (\<lambda>sv.
     bnd (pure (case lapic_build ops \<lparr>ls_timer_vector = tv, ls_error_vector = ev, ls_spurious_vector = sv,
            ls_xapic_base = apic_virtual_address, ls_timer_initial = 2 ^ 32 - 1, ls_timer_mode = OneShot\<rparr> of
            None \<Rightarrow> Inl UnwrapNone | Some l \<Rightarrow> Inr l)) (\<lambda>l.
     bnd (upd (\<lambda>s. s\<lparr>dv_lapic := Some \<lparr>lk_held = False, lk_inner = l\<rparr>\<rparr>)) (\<lambda>_.
     with_lapic (
       bnd (upd (on_lapic (lapic_enable ops))) (\<lambda>_.
       bnd (on_dv_memory (to_virt_addr fops IOAPIC_ADDR)) (\<lambda>addr.
       bnd (upd (\<lambda>s. s\<lparr>dv_ioapic := Some \<lparr>lk_held = False, lk_inner = ioapic_new ops addr\<rparr>\<rparr>)) (\<lambda>_.
       with_ioapic (upd (on_ioapic (ioapic_init ops IOAPIC_OFFSET)))))))))))))"

text \<open>The redirection entry that \<open>keyboard::init\<close> and \<open>pit::enable\<close> write.\<close>

definition route_irq :: "('l, 'i, 'e) apic_ops \<Rightarrow> irq_vector \<Rightarrow> nat \<Rightarrow> 'i \<Rightarrow> 'i" where
  "route_irq ops v apic_id ioapic =
     (let n = IrqVector_as_u8 v;
          entry = entry_set_dest ops apic_id (entry_set_masked ops (entry_set_mode ops Fixed (table_entry ops n ioapic)))
      in enable_irq ops n (set_table_entry ops n entry ioapic))"

definition keyboard_init :: "('l, 'i, 'e) apic_ops \<Rightarrow> nat \<Rightarrow> 'i \<Rightarrow> 'i" where
  "keyboard_init ops apic_id = route_irq ops IRQ_Keyboard apic_id"

definition pit_enable :: "('l, 'i, 'e) apic_ops \<Rightarrow> nat \<Rightarrow> 'i \<Rightarrow> 'i" where
  "pit_enable ops apic_id = route_irq ops IRQ_PIT apic_id"

definition pit_disable :: "('l, 'i, 'e) apic_ops \<Rightarrow> 'i \<Rightarrow> 'i" where
  "pit_disable ops = disable_irq ops (IrqVector_as_u8 IRQ_PIT)"

definition setup_keyboard :: "('l, 'i, 'e) apic_ops \<Rightarrow> (('l, 'i, 'f) devices, unit) rust" where
  "setup_keyboard ops = with_ioapic (with_lapic (bnd (lapic_id_u8 ops) (\<lambda>apic_id. upd (on_ioapic (keyboard_init ops apic_id)))))"

definition setup_pit :: "('l, 'i, 'e) apic_ops \<Rightarrow> (('l, 'i, 'f) devices, unit) rust" where
  "setup_pit ops =
     bnd (upd (\<lambda>s. s\<lparr>dv_ports := dv_ports s @ pit_init\<rparr>)) (\<lambda>_.
     with_ioapic (with_lapic (bnd (lapic_id_u8 ops) (\<lambda>apic_id. upd (on_ioapic (pit_enable ops apic_id))))))"

definition device_setup :: "('l, 'i, 'e) apic_ops \<Rightarrow> (('l, 'i, 'f) devices, unit) rust" where
  "device_setup ops = bnd (setup_keyboard ops) (\<lambda>_. bnd (setup_pit ops) (\<lambda>_. lock_ioapic))"

section \<open>The whole of the initialization\<close>

text \<open>What a statement of \<open>timer::init\<close> and \<open>set_apic_timer\<close> does to the controllers; the guards follow \<open>lapic_lock\<close>.\<close>

definition drive :: "('l, 'i, 'e) apic_ops \<Rightarrow> timer_sys \<Rightarrow> ('l, 'i, 'f) devices \<Rightarrow> ('l, 'i, 'f) devices" where
  "drive ops t = (case main t of
     Disable \<Rightarrow> on_ioapic (pit_disable ops)
   | DisableTimer \<Rightarrow> on_lapic (lapic_disable_timer ops)
   | SetMode \<Rightarrow> on_lapic (lapic_set_timer_mode ops Periodic)
   | SetInitial \<Rightarrow> on_lapic (lapic_set_timer_initial ops (divisor t))
   | EnableTimer \<Rightarrow> on_lapic (lapic_enable_timer ops)
   | _ \<Rightarrow> (\<lambda>s. s))"

definition lapic_guard :: "timer_sys \<Rightarrow> ('l, 'i, 'f) devices \<Rightarrow> ('l, 'i, 'f) devices" where
  "lapic_guard t s = s\<lparr>dv_lapic := map_option (\<lambda>lk. lk\<lparr>lk_held := lapic_lock t \<noteq> None\<rparr>) (dv_lapic s)\<rparr>"

text \<open>
  \<open>device::init\<close>: the setup with interrupts off up to the call of \<open>timer::init\<close> with the guard of the I/O APIC, the call, and
  the end of the guard. The interval timer reaches the processor once its entry is unmasked.
\<close>

datatype dev_pc = Setup | Calibrate | Returned | Panicked rust_panic

record ('l, 'i, 'f) dev_sys =
  ds_pc :: dev_pc
  ds_devices :: "('l, 'i, 'f) devices"
  ds_timer :: timer_sys

inductive device_step :: "('l, 'i, 'e) apic_ops \<Rightarrow> ('l, 'i, 'f) dev_sys \<Rightarrow> ('l, 'i, 'f) dev_sys \<Rightarrow> bool" for ops where
  set_up: "ds_pc d = Setup \<Longrightarrow> device_setup ops (ds_devices d) = Inr ((), s) \<Longrightarrow>
    device_step ops d \<lparr>ds_pc = Calibrate, ds_devices = s, ds_timer = (ds_timer d)\<lparr>pit_on := True\<rparr>\<rparr>"
| set_up_panics: "ds_pc d = Setup \<Longrightarrow> device_setup ops (ds_devices d) = Inl e \<Longrightarrow> device_step ops d (d\<lparr>ds_pc := Panicked e\<rparr>)"
| calibrate: "ds_pc d = Calibrate \<Longrightarrow> irq (ds_timer d) = None \<Longrightarrow> main_step (ds_timer d) t \<Longrightarrow>
    device_step ops d (d\<lparr>ds_devices := lapic_guard t (drive ops (ds_timer d) (ds_devices d)), ds_timer := t\<rparr>)"
| interrupt: "irq_step (ds_timer d) t \<Longrightarrow> device_step ops d (d\<lparr>ds_devices := lapic_guard t (ds_devices d), ds_timer := t\<rparr>)"
| clock: "clock_step (ds_timer d) t \<Longrightarrow> device_step ops d (d\<lparr>ds_timer := t\<rparr>)"
| return: "ds_pc d = Calibrate \<Longrightarrow> main (ds_timer d) = Done \<Longrightarrow> irq (ds_timer d) = None \<Longrightarrow>
    device_step ops d (d\<lparr>ds_pc := Returned, ds_devices := unlock_ioapic (ds_devices d)\<rparr>)"

definition device_start :: "nat \<Rightarrow> nat \<Rightarrow> ('l, 'i, 'f) devices \<Rightarrow> ('l, 'i, 'f) dev_sys" where
  "device_start pit now s = \<lparr>ds_pc = Setup, ds_devices = s, ds_timer = (timer_init_state pit now)\<lparr>pit_on := False\<rparr>\<rparr>"

end
