(* ===== verification/Device_Properties.thy ===== *)
theory Device_Properties
  imports Devices Interrupt_Properties Timer_Properties
begin

text \<open>
  Where interrupts go after the setup. The locale \<open>io_apic\<close> states what the crate documents of the redirection
  table: entries are kept one by one, \<open>init\<close> gives line \<open>n\<close> the vector \<open>n\<close> plus the offset, and enabling or
  disabling a line changes its mask only. The steps of \<open>device::init\<close> keep the two controllers in the state that belongs to the
  place of \<open>timer::init\<close>, so that the invariant of the calibration carries over.
\<close>

record irq_entry =
  ie_vector :: nat
  ie_mode :: irq_mode
  ie_masked :: bool
  ie_dest :: nat

locale io_apic =
  fixes ops :: "('l, 'i, 'e) apic_ops"
    and entry :: "'e \<Rightarrow> irq_entry"
    and lines_max :: nat
  assumes init_vector: "n \<le> lines_max \<Longrightarrow> ie_vector (entry (table_entry ops n (ioapic_init ops off i))) = n + off"
    and set_entry: "n \<le> lines_max \<Longrightarrow> m \<le> lines_max \<Longrightarrow> table_entry ops m (set_table_entry ops n e i) = (if m = n then e else table_entry ops m i)"
    and enable_entry: "n \<le> lines_max \<Longrightarrow> m \<le> lines_max \<Longrightarrow> entry (table_entry ops m (enable_irq ops n i)) =
      (if m = n then (entry (table_entry ops m i))\<lparr>ie_masked := False\<rparr> else entry (table_entry ops m i))"
    and disable_entry: "n \<le> lines_max \<Longrightarrow> m \<le> lines_max \<Longrightarrow> entry (table_entry ops m (disable_irq ops n i)) =
      (if m = n then (entry (table_entry ops m i))\<lparr>ie_masked := True\<rparr> else entry (table_entry ops m i))"
    and mode_entry: "entry (entry_set_mode ops md e) = (entry e)\<lparr>ie_mode := md\<rparr>"
    and masked_entry: "entry (entry_set_masked ops e) = (entry e)\<lparr>ie_masked := True\<rparr>"
    and dest_entry: "entry (entry_set_dest ops d e) = (entry e)\<lparr>ie_dest := d\<rparr>"
    and enough_lines: "2 \<le> lines_max"
begin

abbreviation line_of :: "nat \<Rightarrow> 'i \<Rightarrow> irq_entry" where
  "line_of n i \<equiv> entry (table_entry ops n i)"

lemma route_entry:
  assumes "m \<le> lines_max" and "IrqVector_as_u8 v \<le> lines_max"
  shows "line_of m (route_irq ops v d i) =
    (if m = IrqVector_as_u8 v then (line_of m i)\<lparr>ie_mode := Fixed, ie_masked := False, ie_dest := d\<rparr> else line_of m i)"
  using assms by (simp add: route_irq_def Let_def enable_entry set_entry mode_entry masked_entry dest_entry)

text \<open>The table after the devices are set up.\<close>

definition routed :: "nat \<Rightarrow> 'i \<Rightarrow> 'i \<Rightarrow> bool" where
  "routed d i i' \<longleftrightarrow> line_of 1 i' = (line_of 1 i)\<lparr>ie_mode := Fixed, ie_masked := False, ie_dest := d\<rparr> \<and>
     line_of 2 i' = (line_of 2 i)\<lparr>ie_mode := Fixed, ie_masked := True, ie_dest := d\<rparr> \<and>
     (\<forall>m \<le> lines_max. m \<noteq> 1 \<and> m \<noteq> 2 \<longrightarrow> line_of m i' = line_of m i)"

lemma device_routes: "routed d i (pit_disable ops (pit_enable ops d (keyboard_init ops d i)))"
  using enough_lines
  by (auto simp: routed_def pit_disable_def pit_enable_def keyboard_init_def route_entry disable_entry)

end

text \<open>The guards in the order of the code, with both locks free before and after.\<close>

lemma runs_with_ioapic:
  "dv_ioapic s = Some \<lparr>lk_held = False, lk_inner = i\<rparr> \<Longrightarrow> runs (with_ioapic m) s Q \<longleftrightarrow>
     runs m (s\<lparr>dv_ioapic := Some \<lparr>lk_held = True, lk_inner = i\<rparr>\<rparr>) (\<lambda>x s'. Q x (unlock_ioapic s'))"
  by (simp add: with_ioapic_def lock_ioapic_def wp)

lemma runs_with_lapic:
  "dv_lapic s = Some \<lparr>lk_held = False, lk_inner = l\<rparr> \<Longrightarrow> runs (with_lapic m) s Q \<longleftrightarrow>
     runs m (s\<lparr>dv_lapic := Some \<lparr>lk_held = True, lk_inner = l\<rparr>\<rparr>) (\<lambda>x s'. Q x (unlock_lapic s'))"
  by (simp add: with_lapic_def lock_lapic_def wp)

lemmas device_wp = wp runs_with_ioapic runs_with_lapic on_ioapic_def on_lapic_def lapic_id_u8_def unlock_ioapic_def unlock_lapic_def

text \<open>The I/O APIC when \<open>timer::init\<close> is called.\<close>

definition both_routed :: "('l, 'i, 'e) apic_ops \<Rightarrow> 'l \<Rightarrow> 'i \<Rightarrow> 'i" where
  "both_routed ops l i = pit_enable ops (lapic_id ops l mod 256) (keyboard_init ops (lapic_id ops l mod 256) i)"

lemma device_setup_result:
  assumes "dv_lapic s = Some \<lparr>lk_held = False, lk_inner = l\<rparr>" and "dv_ioapic s = Some \<lparr>lk_held = False, lk_inner = i\<rparr>"
  shows "device_setup ops s = Inr ((), s\<lparr>dv_ports := dv_ports s @ pit_init, dv_ioapic := Some \<lparr>lk_held = True, lk_inner = both_routed ops l i\<rparr>\<rparr>)"
proof -
  have "runs (device_setup ops) s (\<lambda>_ s'. s' = s\<lparr>dv_ports := dv_ports s @ pit_init, dv_ioapic := Some \<lparr>lk_held = True, lk_inner = both_routed ops l i\<rparr>\<rparr>)"
    using assms by (simp add: device_setup_def setup_keyboard_def setup_pit_def both_routed_def lock_ioapic_def device_wp)
  then show ?thesis by (auto simp: runs_iff_result)
qed

section \<open>The controllers follow the calibration\<close>

text \<open>The local APIC and the I/O APIC at each place of \<open>timer::init\<close>.\<close>

definition lapic_stage :: "('l, 'i, 'e) apic_ops \<Rightarrow> timer_sys \<Rightarrow> 'l \<Rightarrow> 'l" where
  "lapic_stage ops t l =
     (let n = place (main t); l1 = lapic_disable_timer ops l; l2 = lapic_set_timer_mode ops Periodic l1; l3 = lapic_set_timer_initial ops (divisor t) l2
      in if n \<le> 13 then l else if n = 14 then l1 else if n = 15 then l2 else if n = 16 then l3 else lapic_enable_timer ops l3)"

definition ioapic_stage :: "('l, 'i, 'e) apic_ops \<Rightarrow> timer_sys \<Rightarrow> 'i \<Rightarrow> 'i" where
  "ioapic_stage ops t i = (if place (main t) \<le> 10 then i else pit_disable ops i)"

definition staged :: "('l, 'i, 'e) apic_ops \<Rightarrow> bool \<Rightarrow> 'l \<Rightarrow> 'i \<Rightarrow> timer_sys \<Rightarrow> ('l, 'i, 'f) devices \<Rightarrow> bool" where
  "staged ops held l i t s \<longleftrightarrow> dv_lapic s = Some \<lparr>lk_held = (lapic_lock t \<noteq> None), lk_inner = lapic_stage ops t l\<rparr> \<and>
     dv_ioapic s = Some \<lparr>lk_held = held, lk_inner = ioapic_stage ops t i\<rparr>"

lemma staged_main:
  assumes "main_step t t'" and "main t' \<noteq> Crashed" and "staged ops held l i t s"
  shows "staged ops held l i t' (lapic_guard t' (drive ops t s))"
  using assms by (cases t t' rule: main_step.cases)
    (simp_all add: staged_def lapic_guard_def drive_def lapic_stage_def ioapic_stage_def on_lapic_def on_ioapic_def Let_def)

lemma staged_keeps:
  assumes "main t' = main t" and "divisor t' = divisor t" and "staged ops held l i t s"
  shows "staged ops held l i t' (lapic_guard t' s)"
  using assms by (simp add: staged_def lapic_guard_def lapic_stage_def ioapic_stage_def Let_def)

lemma guard_same: "lapic_lock t' = lapic_lock t \<Longrightarrow> staged ops held l i t s \<Longrightarrow> lapic_guard t' s = s"
  by (simp add: staged_def lapic_guard_def)

lemma step_not_crashed: "step t t' \<Longrightarrow> main t' \<noteq> Crashed \<Longrightarrow> main t \<noteq> Crashed"
  by (auto elim!: stepE main_stepE irq_stepE clock_stepE)

text \<open>The invariant of \<open>device::init\<close>, from the state in which \<open>apic::init\<close> left the controllers.\<close>

fun device_inv :: "('l, 'i, 'e) apic_ops \<Rightarrow> 'l \<Rightarrow> 'i \<Rightarrow> timer_sys \<Rightarrow> dev_pc \<Rightarrow> ('l, 'i, 'f) devices \<Rightarrow> timer_sys \<Rightarrow> bool" where
  "device_inv ops l i t0 Setup s t \<longleftrightarrow> step\<^sup>*\<^sup>* t0 (t\<lparr>pit_on := True\<rparr>) \<and> main t = ReadCount \<and> irq t = None \<and> \<not> if_flag t \<and> lapic_lock t = None \<and>
     dv_lapic s = Some \<lparr>lk_held = False, lk_inner = l\<rparr> \<and> dv_ioapic s = Some \<lparr>lk_held = False, lk_inner = i\<rparr>"
| "device_inv ops l i t0 Calibrate s t \<longleftrightarrow> step\<^sup>*\<^sup>* t0 t \<and> (main t \<noteq> Crashed \<longrightarrow> staged ops True l (both_routed ops l i) t s)"
| "device_inv ops l i t0 Returned s t \<longleftrightarrow> step\<^sup>*\<^sup>* t0 t \<and> main t \<in> {Done, Crashed} \<and> (main t \<noteq> Crashed \<longrightarrow> staged ops False l (both_routed ops l i) t s)"
| "device_inv ops l i t0 (Panicked e) s t \<longleftrightarrow> False"

lemma clock_pit_on:
  assumes "clock_step t t'"
  shows "clock_step (t\<lparr>pit_on := b\<rparr>) (t'\<lparr>pit_on := b\<rparr>)"
  using assms
proof cases
  case tick
  then show ?thesis using clock_step.tick [of "t\<lparr>pit_on := b\<rparr>"] by (cases t) simp
next
  case reload
  then show ?thesis using clock_step.reload [of "t\<lparr>pit_on := b\<rparr>"] by (cases t) simp
qed

lemma device_inv_main:
  assumes "irq t = None" and "main_step t t'" and "device_inv ops l i t0 Calibrate s t"
  shows "device_inv ops l i t0 Calibrate (lapic_guard t' (drive ops t s)) t'"
proof -
  note st = step.main [OF assms(1,2)]
  have "main t' \<noteq> Crashed \<Longrightarrow> staged ops True l (both_routed ops l i) t' (lapic_guard t' (drive ops t s))"
    using staged_main [OF assms(2), of ops True l "both_routed ops l i" s] step_not_crashed [OF st] assms(3) by simp
  with assms(3) st show ?thesis by (auto intro: rtranclp.rtrancl_into_rtrancl)
qed

text \<open>An interrupt or a tick of the clock.\<close>

lemma device_inv_aside:
  assumes "step t t'" and "main t' = main t \<or> main t' = Crashed" and "divisor t' = divisor t" and "pc \<in> {Calibrate, Returned}"
    and "device_inv ops l i t0 pc s t"
  shows "device_inv ops l i t0 pc (lapic_guard t' s) t'"
proof -
  note c = step_not_crashed [OF assms(1)] and k = staged_keeps [of t' t ops _ l "both_routed ops l i" s, OF _ assms(3)]
  from assms(4) consider "pc = Calibrate" | "pc = Returned" by auto
  then show ?thesis
    using assms(1,2,5) c k by cases (auto intro: rtranclp.rtrancl_into_rtrancl)
qed

lemma device_inv_irq:
  assumes "irq_step t t'" and "device_inv ops l i t0 pc s t"
  shows "device_inv ops l i t0 pc (lapic_guard t' s) t'"
proof (cases pc)
  case Setup
  with assms have False by (cases t t' rule: irq_step.cases) (auto simp: delivers_def)
  then show ?thesis ..
qed (use device_inv_aside [OF step.irq [OF assms(1)] _ irq_keeps(9) [OF assms(1)] _ assms(2)] irq_keeps(1) [OF assms(1)] assms(2) in auto)

lemma device_inv_clock:
  assumes "clock_step t t'" and "device_inv ops l i t0 pc s t"
  shows "device_inv ops l i t0 pc s t'"
proof (cases "pc \<in> {Calibrate, Returned}")
  case True
  have i: "device_inv ops l i t0 pc (lapic_guard t' s) t'"
    using device_inv_aside [OF step.clock [OF assms(1)] _ clock_keeps(7) [OF assms(1)] True assms(2)] clock_keeps(1) [OF assms(1)] by simp
  have "main t' \<noteq> Crashed \<Longrightarrow> lapic_guard t' s = s"
    using True assms(2) clock_keeps(1) [OF assms(1)] guard_same [OF clock_keeps(3) [OF assms(1)], of ops _ l "both_routed ops l i" s] by auto
  with i True show ?thesis by (cases "main t' = Crashed") auto
next
  case False
  note k = clock_keeps [OF assms(1)] and p = step.clock [OF clock_pit_on [OF assms(1), of True]]
  have "if_flag t' = if_flag t" using assms(1) by (cases t t' rule: clock_step.cases) simp_all
  with False k p assms(2) show ?thesis by (cases pc) (auto intro: rtranclp.rtrancl_into_rtrancl)
qed

lemma device_inv_step:
  assumes "device_step ops d d'" and "device_inv ops l i t0 (ds_pc d) (ds_devices d) (ds_timer d)"
  shows "device_inv ops l i t0 (ds_pc d') (ds_devices d') (ds_timer d')"
  using assms(1)
proof cases
  case (set_up s)
  then show ?thesis using assms(2) device_setup_result [of "ds_devices d" l i ops]
    by (auto simp: staged_def lapic_stage_def ioapic_stage_def)
next
  case (set_up_panics e)
  then show ?thesis using assms(2) device_setup_result [of "ds_devices d" l i ops] by simp
next
  case (calibrate t)
  then show ?thesis using assms(2) device_inv_main [of "ds_timer d" t] by simp
next
  case (interrupt t)
  then show ?thesis using assms(2) device_inv_irq [of "ds_timer d" t] by simp
next
  case (clock t)
  then show ?thesis using assms(2) device_inv_clock [of "ds_timer d" t] by simp
next
  case return
  then show ?thesis using assms(2) by (simp add: staged_def unlock_ioapic_def)
qed

lemma device_inv_reach:
  assumes "(device_step ops)\<^sup>*\<^sup>* (device_start pit now s) d" and "dv_lapic s = Some \<lparr>lk_held = False, lk_inner = l\<rparr>"
    and "dv_ioapic s = Some \<lparr>lk_held = False, lk_inner = i\<rparr>"
  shows "device_inv ops l i (timer_init_state pit now) (ds_pc d) (ds_devices d) (ds_timer d)"
  using assms(1)
proof induction
  case base
  have "(timer_init_state pit now)\<lparr>pit_on := True\<rparr> = timer_init_state pit now" by (simp add: timer_init_state_def)
  with assms(2,3) show ?case by (simp add: device_start_def timer_init_state_def)
next
  case (step d d')
  from device_inv_step [OF step.hyps(2) step.IH] show ?case .
qed

text \<open>Every run of the calibration is one of \<open>device::init\<close>, which returns at its end.\<close>

lemma calibrate_lifts:
  assumes "step\<^sup>*\<^sup>* t t'"
  shows "\<exists>s'. (device_step ops)\<^sup>*\<^sup>* \<lparr>ds_pc = Calibrate, ds_devices = s, ds_timer = t\<rparr> \<lparr>ds_pc = Calibrate, ds_devices = s', ds_timer = t'\<rparr>"
  using assms
proof induction
  case (step u v)
  then obtain s1 where s1: "(device_step ops)\<^sup>*\<^sup>* \<lparr>ds_pc = Calibrate, ds_devices = s, ds_timer = t\<rparr> \<lparr>ds_pc = Calibrate, ds_devices = s1, ds_timer = u\<rparr>" by blast
  let ?d = "\<lparr>ds_pc = Calibrate, ds_devices = s1, ds_timer = u\<rparr>"
  from step.hyps(2) have "\<exists>s'. device_step ops ?d \<lparr>ds_pc = Calibrate, ds_devices = s', ds_timer = v\<rparr>"
  proof cases
    case main
    with device_step.calibrate [of ?d v ops] show ?thesis by auto
  next
    case irq
    with device_step.interrupt [of ?d v ops] show ?thesis by auto
  next
    case clock
    with device_step.clock [of ?d v ops] show ?thesis by auto
  qed
  with s1 show ?case by (blast intro: rtranclp.rtrancl_into_rtrancl)
qed blast

lemma device_init_returns:
  assumes "pit + 103 < U64_RANGE" and "dv_lapic s = Some \<lparr>lk_held = False, lk_inner = l\<rparr>" and "dv_ioapic s = Some \<lparr>lk_held = False, lk_inner = i\<rparr>"
  shows "\<exists>d. (device_step ops)\<^sup>*\<^sup>* (device_start pit now s) d \<and> ds_pc d = Returned \<and> main (ds_timer d) = Done"
proof -
  obtain t where t: "step\<^sup>*\<^sup>* (timer_init_state pit now) t" "irq t = None" "main t \<noteq> Crashed" "place (main t) = 18"
    using reach_place [OF assms(1), of 18 now] by auto
  then have fin: "main t = Done" by (cases "main t") simp_all
  obtain s1 where "device_setup ops s = Inr ((), s1)" using device_setup_result [OF assms(2,3)] by blast
  then have "device_step ops (device_start pit now s) \<lparr>ds_pc = Calibrate, ds_devices = s1, ds_timer = timer_init_state pit now\<rparr>"
    using device_step.set_up [of "device_start pit now s" ops s1] by (simp add: device_start_def timer_init_state_def)
  moreover obtain s2 where "(device_step ops)\<^sup>*\<^sup>* \<lparr>ds_pc = Calibrate, ds_devices = s1, ds_timer = timer_init_state pit now\<rparr>
      \<lparr>ds_pc = Calibrate, ds_devices = s2, ds_timer = t\<rparr>" using calibrate_lifts [OF t(1)] by blast
  moreover have "device_step ops \<lparr>ds_pc = Calibrate, ds_devices = s2, ds_timer = t\<rparr> \<lparr>ds_pc = Returned, ds_devices = unlock_ioapic s2, ds_timer = t\<rparr>"
    using device_step.return [of "\<lparr>ds_pc = Calibrate, ds_devices = s2, ds_timer = t\<rparr>" ops] fin t(2) by simp
  ultimately have "(device_step ops)\<^sup>*\<^sup>* (device_start pit now s) \<lparr>ds_pc = Returned, ds_devices = unlock_ioapic s2, ds_timer = t\<rparr>"
    by (meson converse_rtranclp_into_rtranclp rtranclp.rtrancl_into_rtrancl)
  with fin show ?thesis by (intro exI [of _ "\<lparr>ds_pc = Returned, ds_devices = unlock_ioapic s2, ds_timer = t\<rparr>"]) simp
qed

lemma to_virt_runs:
  assumes "phys_frames fops num lim" and "canonical (a + PHYSICAL_MEMORY_OFFSET (dv_memory s))"
  shows "runs (on_dv_memory (to_virt_addr fops a)) s Q \<longleftrightarrow> Q (a + PHYSICAL_MEMORY_OFFSET (dv_memory s)) s"
proof -
  have "a + PHYSICAL_MEMORY_OFFSET (dv_memory s) < U64_RANGE" using assms(2) by (auto simp: canonical_def U64_RANGE_def)
  with phys_frames.virt_law [OF assms] show ?thesis by (simp add: on_dv_memory_def to_virt_addr_def wp u64_add_def)
qed

lemma apic_init_runs:
  assumes "phys_frames fops num lim" and "canonical (xapic_base ops + PHYSICAL_MEMORY_OFFSET (dv_memory s))"
    and "canonical (IOAPIC_ADDR + PHYSICAL_MEMORY_OFFSET (dv_memory s))"
    and "lapic_build ops \<lparr>ls_timer_vector = 48, ls_error_vector = 60, ls_spurious_vector = 61,
      ls_xapic_base = xapic_base ops + PHYSICAL_MEMORY_OFFSET (dv_memory s), ls_timer_initial = 2 ^ 32 - 1, ls_timer_mode = OneShot\<rparr> = Some l"
  shows "runs (apic_init fops ops) s (\<lambda>_ s'. s' = s\<lparr>dv_lapic := Some \<lparr>lk_held = False, lk_inner = lapic_enable ops l\<rparr>,
    dv_ioapic := Some \<lparr>lk_held = False, lk_inner = ioapic_init ops IOAPIC_OFFSET (ioapic_new ops (IOAPIC_ADDR + PHYSICAL_MEMORY_OFFSET (dv_memory s)))\<rparr>\<rparr>)"
proof -
  note v = to_virt_runs [OF assms(1)]
  show ?thesis using assms(2-4) by (simp add: apic_init_def device_wp v offsets)
qed

section \<open>Interrupts reach their handlers\<close>

text \<open>What \<open>device::init\<close> leaves behind when it returns.\<close>

lemma device_returned:
  assumes "(device_step ops)\<^sup>*\<^sup>* (device_start pit now s) d" and "dv_lapic s = Some \<lparr>lk_held = False, lk_inner = l\<rparr>"
    and "dv_ioapic s = Some \<lparr>lk_held = False, lk_inner = i\<rparr>" and "ds_pc d = Returned" and "main (ds_timer d) \<noteq> Crashed"
  shows "dv_lapic (ds_devices d) = Some \<lparr>lk_held = (irq (ds_timer d) \<in> {Some Eoi, Some UnlockEoi}), lk_inner = lapic_enable_timer ops
      (lapic_set_timer_initial ops (lapic_start (ds_timer d) - lapic_end (ds_timer d)) (lapic_set_timer_mode ops Periodic (lapic_disable_timer ops l)))\<rparr>"
    and "dv_ioapic (ds_devices d) = Some \<lparr>lk_held = False, lk_inner = pit_disable ops (both_routed ops l i)\<rparr>"
proof -
  have "device_inv ops l i (timer_init_state pit now) Returned (ds_devices d) (ds_timer d)" using device_inv_reach [OF assms(1-3)] assms(4) by simp
  then have d: "main (ds_timer d) = Done" "step\<^sup>*\<^sup>* (timer_init_state pit now) (ds_timer d)" "staged ops False l (both_routed ops l i) (ds_timer d) (ds_devices d)"
    using assms(5) by auto
  have inv: "timer_inv pit (ds_timer d)" by (rule timer_inv_steps [OF d(2) timer_inv_init])
  have "divisor (ds_timer d) = lapic_start (ds_timer d) - lapic_end (ds_timer d)" using inv d(1) by (simp add: timer_inv_def clock_inv_def)
  moreover have "(lapic_lock (ds_timer d) \<noteq> None) = (irq (ds_timer d) \<in> {Some Eoi, Some UnlockEoi})"
    using inv d(1) by (cases "lapic_lock (ds_timer d)") (auto simp: timer_inv_def lock_inv_def holding_def intro: owner.exhaust)
  ultimately show "dv_lapic (ds_devices d) = Some \<lparr>lk_held = (irq (ds_timer d) \<in> {Some Eoi, Some UnlockEoi}), lk_inner = lapic_enable_timer ops
      (lapic_set_timer_initial ops (lapic_start (ds_timer d) - lapic_end (ds_timer d)) (lapic_set_timer_mode ops Periodic (lapic_disable_timer ops l)))\<rparr>"
    using d(1,3) by (simp add: staged_def lapic_stage_def Let_def)
  show "dv_ioapic (ds_devices d) = Some \<lparr>lk_held = False, lk_inner = pit_disable ops (both_routed ops l i)\<rparr>"
    using d(1,3) by (simp add: staged_def ioapic_stage_def)
qed

lemma runs_idt: "runs idt_init t Q \<longleftrightarrow> Q () the_idt"
  by (simp add: runs_def idt_init_runs)

text \<open>
  C27: after \<open>apic::init\<close>, \<open>device::init\<close> with its call of \<open>timer::init\<close> never panics in the setup, and it can return
  if the count of the interval timer is at least 104 below the end of its range. However interrupts fall, when it has returned (and no counter has overflowed) the lock of the
  I/O APIC is free and that of the local APIC is held only by a handler that acknowledges; the timer of the local APIC is periodic with
  the measured count; and every source is wired to its handler: the redirection entry of the keyboard is unmasked, goes to the
  processor that runs the setup and carries the vector where the descriptor table has the keyboard handler; the entry of the
  interval timer carries the vector of its handler and is masked again; and the vectors the local APIC was given for
  timer, error and spurious interrupts are those of their handlers.
\<close>

theorem irqs_routed:
  assumes "io_apic ops entry mx" and "phys_frames fops num lim"
    and "canonical (xapic_base ops + PHYSICAL_MEMORY_OFFSET (dv_memory s))"
    and "canonical (IOAPIC_ADDR + PHYSICAL_MEMORY_OFFSET (dv_memory s))"
    and "\<And>tv ev sv. with_offset IRQ_Timer = Inr tv \<Longrightarrow> with_offset IRQ_Error = Inr ev \<Longrightarrow> with_offset IRQ_Spurious = Inr sv \<Longrightarrow>
      lapic_build ops \<lparr>ls_timer_vector = tv, ls_error_vector = ev, ls_spurious_vector = sv,
        ls_xapic_base = xapic_base ops + PHYSICAL_MEMORY_OFFSET (dv_memory s), ls_timer_initial = 2 ^ 32 - 1, ls_timer_mode = OneShot\<rparr> = Some l"
    and "pit + 103 < U64_RANGE"
  shows "runs (apic_init fops ops) s (\<lambda>_ s'. runs idt_init Map.empty (\<lambda>_ t.
    (\<forall>d. (device_step ops)\<^sup>*\<^sup>* (device_start pit now s') d \<longrightarrow> (\<forall>e. ds_pc d \<noteq> Panicked e) \<and>
      (ds_pc d = Returned \<and> main (ds_timer d) \<noteq> Crashed \<longrightarrow>
        dv_lapic (ds_devices d) = Some \<lparr>lk_held = (irq (ds_timer d) \<in> {Some Eoi, Some UnlockEoi}), lk_inner = lapic_enable_timer ops
          (lapic_set_timer_initial ops (lapic_start (ds_timer d) - lapic_end (ds_timer d))
            (lapic_set_timer_mode ops Periodic (lapic_disable_timer ops (lapic_enable ops l))))\<rparr> \<and>
        (\<exists>i. dv_ioapic (ds_devices d) = Some \<lparr>lk_held = False, lk_inner = i\<rparr> \<and>
          (let key = entry (table_entry ops 1 i); pit = entry (table_entry ops 2 i); me = lapic_id ops (lapic_enable ops l) mod 256 in
            t (ie_vector key) = Some (keyboard_interrupt_handler, None) \<and> \<not> ie_masked key \<and> ie_mode key = Fixed \<and> ie_dest key = me \<and>
            t (ie_vector pit) = Some (pit_handler, None) \<and> ie_masked pit \<and> ie_dest pit = me)))) \<and>
    (\<exists>d. (device_step ops)\<^sup>*\<^sup>* (device_start pit now s') d \<and> ds_pc d = Returned \<and> main (ds_timer d) = Done) \<and>
    (\<forall>v h. (v, h) \<in> {(IRQ_Timer, timer_interrupt_handler), (IRQ_Error, apic_error_handler), (IRQ_Spurious, spurious_interrupt_handler)} \<longrightarrow>
      (\<exists>n. with_offset v = Inr n \<and> t n = Some (h, None)))))"
proof -
  have lb: "lapic_build ops \<lparr>ls_timer_vector = 48, ls_error_vector = 60, ls_spurious_vector = 61,
      ls_xapic_base = xapic_base ops + PHYSICAL_MEMORY_OFFSET (dv_memory s), ls_timer_initial = 2 ^ 32 - 1, ls_timer_mode = OneShot\<rparr> = Some l"
    by (rule assms(5)) (rule offsets)+
  let ?i = "ioapic_init ops IOAPIC_OFFSET (ioapic_new ops (IOAPIC_ADDR + PHYSICAL_MEMORY_OFFSET (dv_memory s)))" and ?l = "lapic_enable ops l"
  let ?s = "s\<lparr>dv_lapic := Some \<lparr>lk_held = False, lk_inner = ?l\<rparr>, dv_ioapic := Some \<lparr>lk_held = False, lk_inner = ?i\<rparr>\<rparr>"
  have r: "io_apic.routed ops entry mx (lapic_id ops ?l mod 256) ?i (pit_disable ops (both_routed ops ?l ?i))"
    unfolding both_routed_def by (rule io_apic.device_routes [OF assms(1)])
  have vec: "ie_vector (entry (table_entry ops 1 ?i)) = 33" "ie_vector (entry (table_entry ops 2 ?i)) = 34"
    using io_apic.init_vector [OF assms(1)] io_apic.enough_lines [OF assms(1)] by (simp_all add: IOAPIC_OFFSET_def)
  have reach: "(\<forall>e. ds_pc d \<noteq> Panicked e)" if "(device_step ops)\<^sup>*\<^sup>* (device_start pit now ?s) d" for d
    using device_inv_reach [OF that, of ?l ?i] by auto
  note d = device_returned [of ops pit now ?s _ ?l ?i] and e = device_init_returns [OF assms(6), of ?s ?l ?i ops now]
  have t: "\<forall>v h. (v, h) \<in> {(IRQ_Timer, timer_interrupt_handler), (IRQ_Error, apic_error_handler), (IRQ_Spurious, spurious_interrupt_handler)} \<longrightarrow>
      (\<exists>n. with_offset v = Inr n \<and> the_idt n = Some (h, None))" by (auto simp: offsets the_idt_irqs)
  show ?thesis
    by (rule runs_mono [OF apic_init_runs [OF assms(2-4) lb]], simp only: runs_idt, intro conjI allI impI)
      (use reach d e t r vec in \<open>auto simp: the_idt_irqs io_apic.routed_def [OF assms(1)]\<close>)
qed

text \<open>A controller with 24 lines.\<close>

definition plain_apic :: "(lapic_setup \<times> bool, nat \<Rightarrow> irq_entry, irq_entry) apic_ops" where
  "plain_apic = \<lparr>xapic_base = 0xFEE00000, lapic_build = (\<lambda>b. Some (b, False)), lapic_enable = (\<lambda>(b, _). (b, True)), lapic_id = (\<lambda>_. 0),
     lapic_disable_timer = (\<lambda>(b, _). (b, False)), lapic_set_timer_mode = (\<lambda>m (b, e). (b\<lparr>ls_timer_mode := m\<rparr>, e)),
     lapic_set_timer_initial = (\<lambda>n (b, e). (b\<lparr>ls_timer_initial := n\<rparr>, e)), lapic_enable_timer = (\<lambda>(b, _). (b, True)),
     ioapic_new = (\<lambda>_ n. \<lparr>ie_vector = 0, ie_mode = ExtINT, ie_masked = True, ie_dest = 0\<rparr>),
     ioapic_init = (\<lambda>off i n. (i n)\<lparr>ie_vector := n + off\<rparr>), table_entry = (\<lambda>n i. i n),
     set_table_entry = (\<lambda>n e i. i(n := e)), enable_irq = (\<lambda>n i. i(n := (i n)\<lparr>ie_masked := False\<rparr>)),
     disable_irq = (\<lambda>n i. i(n := (i n)\<lparr>ie_masked := True\<rparr>)), entry_set_mode = (\<lambda>md e. e\<lparr>ie_mode := md\<rparr>),
     entry_set_masked = (\<lambda>e. e\<lparr>ie_masked := True\<rparr>), entry_set_dest = (\<lambda>d e. e\<lparr>ie_dest := d\<rparr>)\<rparr>"

interpretation plain: io_apic plain_apic "\<lambda>e. e" 23
  by unfold_locales (simp_all add: plain_apic_def)

theorem irqs_routed_witness:
  "runs (apic_init x86_frames plain_apic)
     \<lparr>dv_memory = \<lparr>FRAME = None, PHYSICAL_MEMORY_OFFSET = 0xffff900000000000, KERNEL_P4_TABLE = 0\<rparr>, dv_lapic = None, dv_ioapic = None, dv_ports = []\<rparr>
     (\<lambda>_ s'. \<exists>d i l. (device_step plain_apic)\<^sup>*\<^sup>* (device_start 7 9 s') d \<and> dv_ioapic (ds_devices d) = Some \<lparr>lk_held = False, lk_inner = i\<rparr> \<and>
       the_idt (ie_vector (i 1)) = Some (keyboard_interrupt_handler, None) \<and> \<not> ie_masked (i 1) \<and>
       map_option lk_inner (dv_lapic (ds_devices d)) = Some (l, True) \<and> ls_timer_mode l = Periodic)"
proof -
  let ?s = "\<lparr>dv_memory = \<lparr>FRAME = None, PHYSICAL_MEMORY_OFFSET = 0xffff900000000000, KERNEL_P4_TABLE = 0\<rparr>, dv_lapic = None, dv_ioapic = None, dv_ports = []\<rparr>
    :: (lapic_setup \<times> bool, nat \<Rightarrow> irq_entry, 40 word) devices"
  let ?l = "(\<lparr>ls_timer_vector = 48, ls_error_vector = 60, ls_spurious_vector = 61, ls_xapic_base = 0xFEE00000 + 0xffff900000000000,
    ls_timer_initial = 2 ^ 32 - 1, ls_timer_mode = OneShot\<rparr>, False)"
  have pre: "canonical (xapic_base plain_apic + PHYSICAL_MEMORY_OFFSET (dv_memory ?s))" "canonical (IOAPIC_ADDR + PHYSICAL_MEMORY_OFFSET (dv_memory ?s))"
    by (simp_all add: plain_apic_def IOAPIC_ADDR_def canonical_def)
  have b: "lapic_build plain_apic \<lparr>ls_timer_vector = tv, ls_error_vector = ev, ls_spurious_vector = sv,
      ls_xapic_base = xapic_base plain_apic + PHYSICAL_MEMORY_OFFSET (dv_memory ?s), ls_timer_initial = 2 ^ 32 - 1, ls_timer_mode = OneShot\<rparr> = Some ?l"
    if "with_offset IRQ_Timer = Inr tv" "with_offset IRQ_Error = Inr ev" "with_offset IRQ_Spurious = Inr sv" for tv ev sv
    using that by (simp add: plain_apic_def offsets)
  have "(7::nat) + 103 < U64_RANGE" by (simp add: U64_RANGE_def)
  note r = irqs_routed [OF plain.io_apic_axioms x86.phys_frames_axioms pre _ this, of ?l 9, OF b]
  show ?thesis
    by (rule runs_mono, rule r) (assumption | simp only: runs_idt, elim conjE exE, drule spec, drule (1) mp, (fastforce simp: Let_def plain_apic_def)[])+
qed

end
