(* ===== verification/Pci.thy ===== *)
theory Pci
  imports Kernel_Disk
begin

text \<open>
  The bus driver, \<^verbatim>\<open>src/kernel/src/drivers/pci.rs\<close>: enabling a device, which walks the list of its
  capabilities, and starting the drivers of all devices. Access to the configuration space and the scan of
  the bus belong to the crate \<^verbatim>\<open>pci\<close> and are arguments. The list is linked by bytes that the device
  provides, so the walk may never end: \<open>cap_loop\<close> is a partial function and its value is \<open>None\<close> then.
\<close>

section \<open>Configuration space\<close>

record ('l, 'c) pci_ops =
  cs_read8 :: "'c \<Rightarrow> 'l \<Rightarrow> nat \<Rightarrow> u8"
  cs_read16 :: "'c \<Rightarrow> 'l \<Rightarrow> nat \<Rightarrow> 16 word"
  cs_read32 :: "'c \<Rightarrow> 'l \<Rightarrow> nat \<Rightarrow> 32 word"
  cs_write32 :: "'c \<Rightarrow> 'l \<Rightarrow> nat \<Rightarrow> 32 word \<Rightarrow> 'c"

definition PCI_COMMAND :: nat where
  "PCI_COMMAND = 0x04"

definition PCI_CAP_PTR :: nat where
  "PCI_CAP_PTR = 0x34"

definition PCI_MSI_CTRL_CAP :: nat where
  "PCI_MSI_CTRL_CAP = 0x00"

definition PCI_MSI_ADDR :: nat where
  "PCI_MSI_ADDR = 0x04"

definition PCI_MSI_DATA_32 :: nat where
  "PCI_MSI_DATA_32 = 0x08"

definition PCI_MSI_DATA_64 :: nat where
  "PCI_MSI_DATA_64 = 0x0C"

definition PCI_CAP_ID_MSI :: u8 where
  "PCI_CAP_ID_MSI = 0x05"

text \<open>The configuration space of all devices and the static counter of \<open>enable\<close>.\<close>

record 'c pci =
  cspace :: 'c
  MSI_IRQ :: nat

definition u32_add :: "nat \<Rightarrow> nat \<Rightarrow> rust_panic + nat" where
  "u32_add a b = (if a + b < 2 ^ 32 then Inr (a + b) else Inl ArithOverflow)"

definition write32 :: "('l, 'c) pci_ops \<Rightarrow> 'l \<Rightarrow> nat \<Rightarrow> 32 word \<Rightarrow> ('c pci, unit) rust" where
  "write32 ops loc r v = upd (\<lambda>s. s\<lparr>cspace := cs_write32 ops (cspace s) loc r v\<rparr>)"

section \<open>Enabling a device\<close>

text \<open>The body of the loop at a capability for message signalled interrupts; the result is the number assigned.\<close>

definition enable_msi :: "('l, 'c) pci_ops \<Rightarrow> 'l \<Rightarrow> nat \<Rightarrow> ('c pci, nat) rust" where
  "enable_msi ops loc cap_ptr =
     bnd (gets (\<lambda>s. cs_read32 ops (cspace s) loc (cap_ptr + PCI_MSI_CTRL_CAP))) (\<lambda>orig_ctrl.
     bnd (write32 ops loc (cap_ptr + PCI_MSI_ADDR) 0xfee00000) (\<lambda>_.
     bnd (gets MSI_IRQ) (\<lambda>n.
     bnd (pure (u32_add n 1)) (\<lambda>irq.
     bnd (upd (\<lambda>s. s\<lparr>MSI_IRQ := irq\<rparr>)) (\<lambda>_.
     bnd (pure (u32_add irq 32)) (\<lambda>vector.
     bnd (if drop_bit 16 orig_ctrl AND push_bit 7 1 \<noteq> 0
          then write32 ops loc (cap_ptr + PCI_MSI_DATA_64) (of_nat vector)
          else write32 ops loc (cap_ptr + PCI_MSI_DATA_32) (of_nat vector)) (\<lambda>_.
     bnd (write32 ops loc (cap_ptr + PCI_MSI_CTRL_CAP) (orig_ctrl OR 0x10000)) (\<lambda>_.
     ret irq))))))))"

text \<open>The loop, with \<open>assigned_irq\<close> and \<open>msi_found\<close>.\<close>

partial_function (option) cap_loop ::
    "('l, 'c) pci_ops \<Rightarrow> 'l \<Rightarrow> nat \<Rightarrow> nat option \<Rightarrow> bool \<Rightarrow> 'c pci \<Rightarrow> (rust_panic + (nat option \<times> bool) \<times> 'c pci) option" where
  "cap_loop ops loc cap_ptr assigned found s =
     (if cap_ptr = 0 then Some (Inr ((assigned, found), s))
      else if cs_read8 ops (cspace s) loc cap_ptr = PCI_CAP_ID_MSI then
        (case enable_msi ops loc cap_ptr s of
           Inl e \<Rightarrow> Some (Inl e)
         | Inr (irq, s') \<Rightarrow> cap_loop ops loc (unat (cs_read8 ops (cspace s') loc (cap_ptr + 1))) (Some irq) True s')
      else cap_loop ops loc (unat (cs_read8 ops (cspace s) loc (cap_ptr + 1))) assigned found s)"

definition enable :: "('l, 'c) pci_ops \<Rightarrow> 'l \<Rightarrow> 'c pci \<Rightarrow> (rust_panic + nat option \<times> 'c pci) option" where
  "enable ops loc s0 =
     (let orig = cs_read16 ops (cspace s0) loc PCI_COMMAND;
          s1 = s0\<lparr>cspace := cs_write32 ops (cspace s0) loc PCI_COMMAND (ucast (orig OR 0x40f))\<rparr> in
      case cap_loop ops loc (unat (cs_read8 ops (cspace s1) loc PCI_CAP_PTR)) None False s1 of
        None \<Rightarrow> None
      | Some (Inl e) \<Rightarrow> Some (Inl e)
      | Some (Inr ((assigned, found), s2)) \<Rightarrow>
          Some (Inr (assigned, if found then s2
            else s2\<lparr>cspace := cs_write32 ops (cspace s2) loc PCI_COMMAND (ucast (orig OR 0xf))\<rparr>)))"

section \<open>Starting drivers\<close>

datatype bar = BAR_Memory nat nat | BAR_IO nat

record 'l pci_device =
  dev_loc :: 'l
  dev_class :: nat
  dev_subclass :: nat
  dev_bars :: "bar option list"

record ('f, 'a, 'c) kernel_pci =
  kp_kernel :: "('f, 'a) kernel"
  kp_pci :: "'c pci"

definition init_driver ::
    "nat \<Rightarrow> 'f phys_frame_ops \<Rightarrow> 'a ahci_ops \<Rightarrow> 'g gpt_ops \<Rightarrow> ('l, 'c) pci_ops \<Rightarrow> 'l pci_device \<Rightarrow>
     ('f, 'a, 'c) kernel_pci \<Rightarrow> (rust_panic + unit \<times> ('f, 'a, 'c) kernel_pci) option" where
  "init_driver stack fops ops gpt pops dv k =
     (if dev_class dv = 0x01 \<and> dev_subclass dv = 0x06 then
        (case index (dev_bars dv) 5 of
           Inl e \<Rightarrow> Some (Inl e)
         | Inr (Some (BAR_Memory addr len)) \<Rightarrow>
             (case enable pops (dev_loc dv) (kp_pci k) of
                None \<Rightarrow> None
              | Some (Inl e) \<Rightarrow> Some (Inl e)
              | Some (Inr (irq, p)) \<Rightarrow>
                  if len \<le> PAGE_SIZE then
                    Some (case init_sata stack fops ops gpt irq addr len (kp_kernel k) of
                            Inl e \<Rightarrow> Inl e
                          | Inr (_, k') \<Rightarrow> Inr ((), \<lparr>kp_kernel = k', kp_pci = p\<rparr>))
                  else Some (Inl AssertFailed))
         | Inr _ \<Rightarrow> Some (Inr ((), k)))
      else Some (Inr ((), k)))"

text \<open>\<open>pci::init\<close>, over the devices that the scan of the bus yields.\<close>

primrec pci_init ::
    "nat \<Rightarrow> 'f phys_frame_ops \<Rightarrow> 'a ahci_ops \<Rightarrow> 'g gpt_ops \<Rightarrow> ('l, 'c) pci_ops \<Rightarrow> 'l pci_device list \<Rightarrow>
     ('f, 'a, 'c) kernel_pci \<Rightarrow> (rust_panic + unit \<times> ('f, 'a, 'c) kernel_pci) option" where
  "pci_init stack fops ops gpt pops [] k = Some (Inr ((), k))"
| "pci_init stack fops ops gpt pops (dv # ds) k =
     (case init_driver stack fops ops gpt pops dv k of
        None \<Rightarrow> None
      | Some (Inl e) \<Rightarrow> Some (Inl e)
      | Some (Inr (_, k')) \<Rightarrow> pci_init stack fops ops gpt pops ds k')"

section \<open>Devices whose headers are read-only\<close>

text \<open>The places of the capabilities of a device, in the order of the list.\<close>

primrec capabilities :: "('l, 'c) pci_ops \<Rightarrow> ('c \<Rightarrow> 'l \<Rightarrow> nat \<Rightarrow> bool) \<Rightarrow> 'c \<Rightarrow> 'l \<Rightarrow> nat \<Rightarrow> nat list \<Rightarrow> bool" where
  "capabilities ops header c l p [] \<longleftrightarrow> p = 0"
| "capabilities ops header c l p (q # qs) \<longleftrightarrow> p = q \<and> p \<noteq> 0 \<and> header c l p \<and> header c l (p + 1) \<and>
     capabilities ops header c l (unat (cs_read8 ops c l (p + 1))) qs"

definition msi_count :: "('l, 'c) pci_ops \<Rightarrow> 'c \<Rightarrow> 'l \<Rightarrow> nat list \<Rightarrow> nat" where
  "msi_count ops c l ps = length (filter (\<lambda>p. cs_read8 ops c l p = PCI_CAP_ID_MSI) ps)"

text \<open>
  What the standard says of the configuration space: the pointer to the capabilities and the two bytes at the
  start of each (its kind and the pointer to the next one) do not change when registers are written.
\<close>

locale pci_space =
  fixes ops :: "('l, 'c) pci_ops"
    and header :: "'c \<Rightarrow> 'l \<Rightarrow> nat \<Rightarrow> bool"
  assumes header_kept: "header (cs_write32 ops c l r v) l' p = header c l' p"
    and header_read: "header c l' p \<Longrightarrow> cs_read8 ops (cs_write32 ops c l r v) l' p = cs_read8 ops c l' p"
begin

text \<open>Two states of the space with the same headers.\<close>

definition same_headers :: "'c \<Rightarrow> 'c \<Rightarrow> bool" where
  "same_headers c c' \<longleftrightarrow> (\<forall>l p. header c' l p = header c l p) \<and> (\<forall>l p. header c l p \<longrightarrow> cs_read8 ops c' l p = cs_read8 ops c l p)"

lemma same_headers_refl [simp]: "same_headers c c"
  by (simp add: same_headers_def)

lemma same_headers_trans: "same_headers c c1 \<Longrightarrow> same_headers c1 c2 \<Longrightarrow> same_headers c c2"
  by (simp add: same_headers_def)

lemma same_headers_write [simp]: "same_headers c (cs_write32 ops c' l r v) \<longleftrightarrow> same_headers c c'"
  by (auto simp: same_headers_def header_kept header_read)

lemma capabilities_same: "same_headers c c' \<Longrightarrow> capabilities ops header c l p ps \<Longrightarrow> capabilities ops header c' l p ps"
  by (induction ps arbitrary: p) (simp_all add: same_headers_def)

lemma capabilities_header: "capabilities ops header c l p ps \<Longrightarrow> q \<in> set ps \<Longrightarrow> header c l q"
  by (induction ps arbitrary: p) auto

lemma msi_count_same:
  "same_headers c c' \<Longrightarrow> capabilities ops header c l p ps \<Longrightarrow> msi_count ops c' l ps = msi_count ops c l ps"
proof -
  assume h: "same_headers c c'" "capabilities ops header c l p ps"
  have "filter (\<lambda>p. cs_read8 ops c' l p = PCI_CAP_ID_MSI) ps = filter (\<lambda>p. cs_read8 ops c l p = PCI_CAP_ID_MSI) ps"
    using h(1) capabilities_header [OF h(2)] by (intro filter_cong) (simp_all add: same_headers_def)
  then show ?thesis by (simp add: msi_count_def)
qed

lemma enable_msi_ok:
  assumes "MSI_IRQ s + 33 < 2 ^ 32"
  shows "runs (enable_msi ops loc p) s (\<lambda>irq s'. irq = MSI_IRQ s + 1 \<and> MSI_IRQ s' = MSI_IRQ s + 1 \<and> same_headers (cspace s) (cspace s'))"
  using assms by (simp add: enable_msi_def write32_def wp u32_add_def)

lemma cap_loop_ok:
  assumes "capabilities ops header (cspace s) loc p ps" and "MSI_IRQ s + length ps + 32 < 2 ^ 32"
  shows "\<exists>s'. cap_loop ops loc p assigned found s =
      Some (Inr ((if msi_count ops (cspace s) loc ps = 0 then assigned else Some (MSI_IRQ s'), found \<or> msi_count ops (cspace s) loc ps \<noteq> 0), s')) \<and>
    MSI_IRQ s' = MSI_IRQ s + msi_count ops (cspace s) loc ps \<and> same_headers (cspace s) (cspace s')"
  using assms
proof (induction ps arbitrary: p assigned found s)
  case Nil
  then show ?case by (subst cap_loop.simps) (simp add: msi_count_def)
next
  case (Cons q qs)
  from Cons.prems(1) have q: "q = p" "p \<noteq> 0" "capabilities ops header (cspace s) loc (unat (cs_read8 ops (cspace s) loc (p + 1))) qs"
    "header (cspace s) loc (p + 1)" by auto
  show ?case
  proof (cases "cs_read8 ops (cspace s) loc p = PCI_CAP_ID_MSI")
    case True
    have "MSI_IRQ s + 33 < 2 ^ 32" using Cons.prems(2) by simp
    from enable_msi_ok [OF this, of loc p] obtain s1 where s1: "enable_msi ops loc p s = Inr (MSI_IRQ s + 1, s1)"
      "MSI_IRQ s1 = MSI_IRQ s + 1" "same_headers (cspace s) (cspace s1)" by (auto simp: runs_iff_result)
    have nxt: "cs_read8 ops (cspace s1) loc (p + 1) = cs_read8 ops (cspace s) loc (p + 1)"
      using s1(3) q(4) by (simp add: same_headers_def)
    have m: "msi_count ops (cspace s1) loc qs = msi_count ops (cspace s) loc qs" by (rule msi_count_same [OF s1(3) q(3)])
    have c: "msi_count ops (cspace s) loc (q # qs) = Suc (msi_count ops (cspace s) loc qs)" using True q(1) by (simp add: msi_count_def)
    from Cons.IH [OF capabilities_same [OF s1(3) q(3)], of "Some (MSI_IRQ s + 1)" True] Cons.prems(2) s1(2)
    obtain s2 where s2: "cap_loop ops loc (unat (cs_read8 ops (cspace s) loc (p + 1))) (Some (MSI_IRQ s + 1)) True s1 =
        Some (Inr ((if msi_count ops (cspace s) loc qs = 0 then Some (MSI_IRQ s + 1) else Some (MSI_IRQ s2), True), s2))"
      "MSI_IRQ s2 = MSI_IRQ s + 1 + msi_count ops (cspace s) loc qs" "same_headers (cspace s1) (cspace s2)"
      by (auto simp: m)
    with q(2) True s1 nxt c show ?thesis
      by (subst cap_loop.simps) (auto intro: same_headers_trans)
  next
    case False
    have c: "msi_count ops (cspace s) loc (q # qs) = msi_count ops (cspace s) loc qs" using False q(1) by (simp add: msi_count_def)
    from Cons.IH [OF q(3)] Cons.prems(2) q(2) False c show ?thesis by (subst cap_loop.simps) simp
  qed
qed

lemma enable_ok:
  assumes "header (cspace s) loc PCI_CAP_PTR"
    and "capabilities ops header (cspace s) loc (unat (cs_read8 ops (cspace s) loc PCI_CAP_PTR)) ps"
    and "MSI_IRQ s + length ps + 32 < 2 ^ 32"
  shows "\<exists>s'. enable ops loc s = Some (Inr (if msi_count ops (cspace s) loc ps = 0 then None else Some (MSI_IRQ s'), s')) \<and>
    MSI_IRQ s' = MSI_IRQ s + msi_count ops (cspace s) loc ps \<and> same_headers (cspace s) (cspace s')"
proof -
  define s1 where "s1 = s\<lparr>cspace := cs_write32 ops (cspace s) loc PCI_COMMAND (ucast (cs_read16 ops (cspace s) loc PCI_COMMAND OR 0x40f))\<rparr>"
  have h: "same_headers (cspace s) (cspace s1)" "MSI_IRQ s1 = MSI_IRQ s" by (simp_all add: s1_def)
  have r: "cs_read8 ops (cspace s1) loc PCI_CAP_PTR = cs_read8 ops (cspace s) loc PCI_CAP_PTR"
    using h(1) assms(1) by (simp add: same_headers_def)
  note m = msi_count_same [OF h(1) assms(2)]
  from cap_loop_ok [OF capabilities_same [OF h(1) assms(2)], of None False] assms(3) obtain s2 where
    s2: "cap_loop ops loc (unat (cs_read8 ops (cspace s1) loc PCI_CAP_PTR)) None False s1 =
      Some (Inr ((if msi_count ops (cspace s) loc ps = 0 then None else Some (MSI_IRQ s2), msi_count ops (cspace s) loc ps \<noteq> 0), s2))"
    "MSI_IRQ s2 = MSI_IRQ s + msi_count ops (cspace s) loc ps" "same_headers (cspace s1) (cspace s2)"
    by (auto simp: h(2) m r)
  have "same_headers (cspace s) (cspace s2)" by (rule same_headers_trans [OF h(1) s2(3)])
  moreover have "enable ops loc s = Some (Inr (if msi_count ops (cspace s) loc ps = 0 then None else Some (MSI_IRQ s2),
      if msi_count ops (cspace s) loc ps \<noteq> 0 then s2
      else s2\<lparr>cspace := cs_write32 ops (cspace s2) loc PCI_COMMAND (ucast (cs_read16 ops (cspace s) loc PCI_COMMAND OR 0xf))\<rparr>))"
    unfolding enable_def Let_def s1_def [symmetric] s2(1) by simp
  ultimately show ?thesis
    using s2(2) by (cases "msi_count ops (cspace s) loc ps = 0") simp_all
qed

end

text \<open>
  The command register: the bits that \<open>enable\<close> sets can be written, and registers from 0x40 on, where the standard
  puts the capabilities, are others.
\<close>

definition command_bit :: "('l, 'c) pci_ops \<Rightarrow> 'c \<Rightarrow> 'l \<Rightarrow> nat \<Rightarrow> bool" where
  "command_bit ops c l i = bit (cs_read16 ops c l PCI_COMMAND) i"

locale pci_command = pci_space +
  assumes command_written: "i \<in> {0, 1, 2, 10} \<Longrightarrow> command_bit ops (cs_write32 ops c l PCI_COMMAND v) l i = bit v i"
    and command_kept: "0x40 \<le> r \<Longrightarrow> i \<in> {0, 1, 2, 10} \<Longrightarrow> command_bit ops (cs_write32 ops c l r v) l i = command_bit ops c l i"
begin

lemma enable_msi_command:
  assumes "0x40 \<le> p" and "i \<in> {0, 1, 2, 10}" and "enable_msi ops loc p s = Inr (irq, s')"
  shows "command_bit ops (cspace s') loc i = command_bit ops (cspace s) loc i"
proof -
  have r: "0x40 \<le> p + PCI_MSI_ADDR" "0x40 \<le> p + PCI_MSI_DATA_64" "0x40 \<le> p + PCI_MSI_DATA_32" "0x40 \<le> p + PCI_MSI_CTRL_CAP"
    using assms(1) by simp_all
  show ?thesis
    using assms(3) by (auto simp: enable_msi_def write32_def bnd_def gets_def upd_def pure_def ret_def
      command_kept [OF r(1) assms(2)] command_kept [OF r(2) assms(2)] command_kept [OF r(3) assms(2)] command_kept [OF r(4) assms(2)]
      split: sum.splits if_splits)
qed

lemma cap_loop_command:
  assumes "capabilities ops header (cspace s) loc p ps" and "\<forall>q \<in> set ps. 0x40 \<le> q" and "i \<in> {0, 1, 2, 10}"
    and "MSI_IRQ s + length ps + 32 < 2 ^ 32" and "cap_loop ops loc p assigned found s = Some (Inr (x, s'))"
  shows "command_bit ops (cspace s') loc i = command_bit ops (cspace s) loc i"
  using assms
proof (induction ps arbitrary: p assigned found s)
  case Nil
  then show ?case by (subst (asm) cap_loop.simps) simp
next
  case (Cons q qs)
  from Cons.prems(1) have q: "q = p" "p \<noteq> 0" "capabilities ops header (cspace s) loc (unat (cs_read8 ops (cspace s) loc (p + 1))) qs"
    "header (cspace s) loc (p + 1)" by auto
  show ?case
  proof (cases "cs_read8 ops (cspace s) loc p = PCI_CAP_ID_MSI")
    case True
    have "MSI_IRQ s + 33 < 2 ^ 32" using Cons.prems(4) by simp
    from enable_msi_ok [OF this, of loc p] obtain s1 where s1: "enable_msi ops loc p s = Inr (MSI_IRQ s + 1, s1)"
      "MSI_IRQ s1 = MSI_IRQ s + 1" "same_headers (cspace s) (cspace s1)" by (auto simp: runs_iff_result)
    have nxt: "cs_read8 ops (cspace s1) loc (p + 1) = cs_read8 ops (cspace s) loc (p + 1)"
      using s1(3) q(4) by (simp add: same_headers_def)
    have "command_bit ops (cspace s1) loc i = command_bit ops (cspace s) loc i"
      using enable_msi_command [OF _ assms(3) s1(1)] Cons.prems(2) q(1) by simp
    moreover have "cap_loop ops loc (unat (cs_read8 ops (cspace s) loc (p + 1))) (Some (MSI_IRQ s + 1)) True s1 = Some (Inr (x, s'))"
      using Cons.prems(5) True q(2) s1(1) nxt by (subst (asm) cap_loop.simps) simp
    ultimately show ?thesis
      using Cons.IH [OF capabilities_same [OF s1(3) q(3)] _ assms(3)] Cons.prems(2,4) s1(2) by simp
  next
    case False
    with Cons.prems(5) q(2) have "cap_loop ops loc (unat (cs_read8 ops (cspace s) loc (p + 1))) assigned found s = Some (Inr (x, s'))"
      by (subst (asm) cap_loop.simps) simp
    from Cons.IH [OF q(3) _ assms(3) _ this] Cons.prems(2,4) show ?thesis by simp
  qed
qed

text \<open>An enabled device answers, reaches memory by itself, and keeps its interrupt line quiet if it sends messages.\<close>

lemma enable_command:
  assumes "header (cspace s) loc PCI_CAP_PTR"
    and "capabilities ops header (cspace s) loc (unat (cs_read8 ops (cspace s) loc PCI_CAP_PTR)) ps"
    and "\<forall>q \<in> set ps. 0x40 \<le> q" and "MSI_IRQ s + length ps + 32 < 2 ^ 32"
    and "enable ops loc s = Some (Inr (irq, s'))"
  shows "(\<forall>i \<in> {0, 1, 2}. command_bit ops (cspace s') loc i) \<and> (msi_count ops (cspace s) loc ps \<noteq> 0 \<longrightarrow> command_bit ops (cspace s') loc 10)"
proof -
  let ?orig = "cs_read16 ops (cspace s) loc PCI_COMMAND"
  define s1 where "s1 = s\<lparr>cspace := cs_write32 ops (cspace s) loc PCI_COMMAND (ucast (?orig OR 0x40f))\<rparr>"
  have h: "same_headers (cspace s) (cspace s1)" "MSI_IRQ s1 = MSI_IRQ s" by (simp_all add: s1_def)
  have r: "cs_read8 ops (cspace s1) loc PCI_CAP_PTR = cs_read8 ops (cspace s) loc PCI_CAP_PTR"
    using h(1) assms(1) by (simp add: same_headers_def)
  have cap: "capabilities ops header (cspace s1) loc (unat (cs_read8 ops (cspace s1) loc PCI_CAP_PTR)) ps"
    using capabilities_same [OF h(1) assms(2)] r by simp
  have one: "command_bit ops (cspace s1) loc i" if "i \<in> {0, 1, 2, 10}" for i
    using that command_written [OF that, of "cspace s" loc "ucast (?orig OR 0x40f)"]
    by (auto simp: s1_def bit_simps)
  from cap_loop_ok [OF cap, of None False] assms(4) h(2) obtain s2 where
    s2: "cap_loop ops loc (unat (cs_read8 ops (cspace s1) loc PCI_CAP_PTR)) None False s1 =
      Some (Inr ((if msi_count ops (cspace s) loc ps = 0 then None else Some (MSI_IRQ s2), msi_count ops (cspace s) loc ps \<noteq> 0), s2))"
    by (auto simp: msi_count_same [OF h(1) assms(2)])
  have two: "command_bit ops (cspace s2) loc i" if "i \<in> {0, 1, 2, 10}" for i
    using cap_loop_command [OF cap assms(3) that _ s2] assms(4) h(2) one [OF that] by simp
  have fin: "s' = (if msi_count ops (cspace s) loc ps \<noteq> 0 then s2 else s2\<lparr>cspace := cs_write32 ops (cspace s2) loc PCI_COMMAND (ucast (?orig OR 0xf))\<rparr>)"
    using assms(5) unfolding enable_def Let_def s1_def [symmetric] s2 by simp
  have three: "command_bit ops (cs_write32 ops (cspace s2) loc PCI_COMMAND (ucast (?orig OR 0xf))) loc i" if "i \<in> {0, 1, 2}" for i
    using that command_written [of i "cspace s2" loc "ucast (?orig OR 0xf)"] by (auto simp: bit_simps)
  show ?thesis using two three by (simp add: fin)
qed

end

text \<open>A capability that points to itself keeps the loop going forever.\<close>

lemma cap_loop_circle:
  assumes "p \<noteq> 0" and "cs_read8 ops (cspace s) loc p \<noteq> PCI_CAP_ID_MSI" and "unat (cs_read8 ops (cspace s) loc (p + 1)) = p"
  shows "cap_loop ops loc p assigned found s = None"
proof (rule ccontr)
  let ?circle = "\<lambda>ops loc p s. p \<noteq> 0 \<and> cs_read8 ops (cspace s) loc p \<noteq> PCI_CAP_ID_MSI \<and> unat (cs_read8 ops (cspace s) loc (p + 1)) = p"
  assume "cap_loop ops loc p assigned found s \<noteq> None"
  then obtain y where y: "cap_loop ops loc p assigned found s = Some y" by blast
  have "\<not> ?circle ops loc p s"
  proof (rule cap_loop.raw_induct [OF _ y, where P = "\<lambda>ops loc p assigned found s y. \<not> ?circle ops loc p s"], goal_cases)
    case (1 f ops loc p assigned found s y)
    show ?case
    proof
      assume c: "?circle ops loc p s"
      with 1(2) have "f ops loc p assigned found s = Some y" by simp
      from 1(1) [OF this] c show False by simp
    qed
  qed
  with assms show False by blast
qed

section \<open>A configuration space\<close>

text \<open>Bytes by device and offset; from offset 8 on some of them are read-only.\<close>

record byte_space =
  bs_bytes :: "nat \<Rightarrow> nat \<Rightarrow> u8"
  bs_read_only :: "nat \<Rightarrow> nat \<Rightarrow> bool"

definition fixed_byte :: "byte_space \<Rightarrow> nat \<Rightarrow> nat \<Rightarrow> bool" where
  "fixed_byte c l p \<longleftrightarrow> 8 \<le> p \<and> bs_read_only c l p"

definition byte_space_ops :: "(nat, byte_space) pci_ops" where
  "byte_space_ops = \<lparr>
     cs_read8 = (\<lambda>c l p. bs_bytes c l p),
     cs_read16 = (\<lambda>c l p. ucast (bs_bytes c l p) OR push_bit 8 (ucast (bs_bytes c l (p + 1)))),
     cs_read32 = (\<lambda>c l p. ucast (bs_bytes c l p) OR push_bit 8 (ucast (bs_bytes c l (p + 1))) OR
       push_bit 16 (ucast (bs_bytes c l (p + 2))) OR push_bit 24 (ucast (bs_bytes c l (p + 3)))),
     cs_write32 = (\<lambda>c l r v. c\<lparr>bs_bytes := (\<lambda>l' p. if l' = l \<and> r \<le> p \<and> p < r + 4 \<and> \<not> fixed_byte c l p
       then ucast (drop_bit (8 * (p - r)) v) else bs_bytes c l' p)\<rparr>)\<rparr>"

interpretation bytes_pci: pci_command byte_space_ops fixed_byte
proof
  show "command_bit byte_space_ops (cs_write32 byte_space_ops c l PCI_COMMAND v) l i = bit v i" if "i \<in> {0, 1, 2, 10}" for c l v i
    using that by (auto simp: byte_space_ops_def command_bit_def PCI_COMMAND_def fixed_byte_def bit_simps)
qed (auto simp: byte_space_ops_def command_bit_def PCI_COMMAND_def fixed_byte_def)

end
