(* ===== verification/Pci_Properties.thy ===== *)
theory Pci_Properties
  imports Pci Kernel_Properties
begin

text \<open>
  The properties of the bus driver: the walk over the capabilities ends for every device whose list ends, it
  does not end for a list that is a circle, and the scan of a bus with an AHCI controller starts the file
  system.
\<close>

text \<open>
  C15: enabling a device whose list of capabilities ends returns; it gives the device the next free interrupt
  number if it has message signalled interrupts, one for every such capability, and none otherwise.
\<close>

theorem pci_enable_terminates:
  assumes "pci_space ops header" and "header (cspace s) loc PCI_CAP_PTR"
    and "capabilities ops header (cspace s) loc (unat (cs_read8 ops (cspace s) loc PCI_CAP_PTR)) ps"
    and "MSI_IRQ s + length ps + 32 < 2 ^ 32"
  shows "\<exists>s'. enable ops loc s = Some (Inr (if msi_count ops (cspace s) loc ps = 0 then None else Some (MSI_IRQ s'), s')) \<and>
    MSI_IRQ s' = MSI_IRQ s + msi_count ops (cspace s) loc ps"
  using pci_space.enable_ok [OF assms] by blast

text \<open>A device with one capability, for message signalled interrupts, at 0x80.\<close>

definition msi_space :: byte_space where
  "msi_space = \<lparr>bs_bytes = (\<lambda>l p. if p = 0x34 then 0x80 else if p = 0x80 then 5 else 0),
     bs_read_only = (\<lambda>l p. p = 0x34 \<or> p = 0x80 \<or> p = 0x81)\<rparr>"

lemma msi_space_ok:
  "fixed_byte msi_space l PCI_CAP_PTR"
  "capabilities byte_space_ops fixed_byte msi_space l (unat (cs_read8 byte_space_ops msi_space l PCI_CAP_PTR)) [0x80]"
  "msi_count byte_space_ops msi_space l [0x80] = 1"
  by (simp_all add: msi_space_def fixed_byte_def PCI_CAP_PTR_def byte_space_ops_def msi_count_def PCI_CAP_ID_MSI_def)

theorem pci_enable_terminates_witness:
  "\<exists>s'. enable byte_space_ops 0 \<lparr>cspace = msi_space, MSI_IRQ = 23\<rparr> = Some (Inr (Some 24, s')) \<and> MSI_IRQ s' = 24"
  using pci_enable_terminates [OF bytes_pci.pci_space_axioms, of "\<lparr>cspace = msi_space, MSI_IRQ = 23\<rparr>" 0 "[0x80]"]
  by (auto simp: msi_space_ok simp del: capabilities.simps)

text \<open>
  A device whose first capability points to itself, and is not for message signalled interrupts, is never
  done: the kernel hangs.
\<close>

theorem pci_enable_hangs:
  assumes "pci_space ops header" and "header (cspace s) loc PCI_CAP_PTR" and "header (cspace s) loc p" and "header (cspace s) loc (p + 1)"
    and "unat (cs_read8 ops (cspace s) loc PCI_CAP_PTR) = p" and "p \<noteq> 0"
    and "cs_read8 ops (cspace s) loc p \<noteq> PCI_CAP_ID_MSI" and "unat (cs_read8 ops (cspace s) loc (p + 1)) = p"
  shows "enable ops loc s = None"
proof -
  define s1 where "s1 = s\<lparr>cspace := cs_write32 ops (cspace s) loc PCI_COMMAND (ucast (cs_read16 ops (cspace s) loc PCI_COMMAND OR 0x40f))\<rparr>"
  note r = pci_space.header_read [OF assms(1)]
  have "cap_loop ops loc p None False s1 = None"
    using assms(3-8) by (intro cap_loop_circle) (simp_all add: s1_def r)
  moreover have "unat (cs_read8 ops (cspace s1) loc PCI_CAP_PTR) = p" using assms(2,5) by (simp add: s1_def r)
  ultimately show ?thesis unfolding enable_def Let_def s1_def [symmetric] by simp
qed

theorem pci_enable_hangs_witness:
  "enable byte_space_ops 3 \<lparr>cspace = \<lparr>bs_bytes = (\<lambda>l p. 0x40), bs_read_only = (\<lambda>l p. True)\<rparr>, MSI_IRQ = 23\<rparr> = None"
  by (rule pci_enable_hangs [OF bytes_pci.pci_space_axioms, where p = 64])
    (simp_all add: byte_space_ops_def fixed_byte_def PCI_CAP_PTR_def PCI_CAP_ID_MSI_def)

section \<open>The scan of the bus\<close>

definition is_sata :: "'l pci_device \<Rightarrow> bool" where
  "is_sata d \<longleftrightarrow> dev_class d = 1 \<and> dev_subclass d = 6"

lemma init_driver_skips: "\<not> is_sata d \<Longrightarrow> init_driver stack fops ops gpt pops d k = Some (Inr ((), k))"
  by (auto simp: init_driver_def is_sata_def)

lemma pci_init_skips: "\<forall>d \<in> set ds. \<not> is_sata d \<Longrightarrow> pci_init stack fops ops gpt pops (ds @ ds') k = pci_init stack fops ops gpt pops ds' k"
  by (induction ds) (simp_all add: init_driver_skips)

lemma pci_init_none: "\<forall>d \<in> set ds. \<not> is_sata d \<Longrightarrow> pci_init stack fops ops gpt pops ds k = Some (Inr ((), k))"
  using pci_init_skips [of ds stack fops ops gpt pops "[]"] by simp

text \<open>
  C16: on a bus with one SATA controller, whose capabilities end and whose drive holds the tool's image, the scan
  of the bus returns; the controller is enabled (its command register has I/O, memory and bus mastering on, and its
  interrupt line off if it has message signalled interrupts, of which each got a number), and the kernel can read
  the program \<^verbatim>\<open>hello\<close> from the file system it started.
\<close>

theorem pci_init_starts_fs:
  assumes "ahci_drive ops drive_ok drive_size medium" and "phys_frames fops num lim"
    and "canonical (addr + PHYSICAL_MEMORY_OFFSET (kernel_memory (kp_kernel k)))"
    and "ahci_new ops (addr + PHYSICAL_MEMORY_OFFSET (kernel_memory (kp_kernel k))) len = Some d" and "drive_ok d"
    and "2048 \<le> drive_size d"
    and "read_gpt gpt (concat (map (medium d) [0..<2048])) = Inr ents" and "guid_from_str gpt PARTITION_UUID = Some g"
    and "filter (\<lambda>p. partition_type_guid p = g) ents = e # es"
    and "ge_starting_lba e + 2048 * sz \<le> drive_size d"
    and "image_fits (2048 * sz) file" and "create_img sz (Some file) = Inr img"
    and "\<forall>i < 2048 * sz. medium d (ge_starting_lba e + i) = take BLOCK_SIZE (drop (i * BLOCK_SIZE) img)" and "2 \<le> stack"
    and "pci_command pops header" and "header (cspace (kp_pci k)) (dev_loc dv) PCI_CAP_PTR"
    and "capabilities pops header (cspace (kp_pci k)) (dev_loc dv) (unat (cs_read8 pops (cspace (kp_pci k)) (dev_loc dv) PCI_CAP_PTR)) ps"
    and "\<forall>q \<in> set ps. 0x40 \<le> q" and "MSI_IRQ (kp_pci k) + length ps + 32 < 2 ^ 32"
    and "is_sata dv" and "5 < length (dev_bars dv)" and "dev_bars dv ! 5 = Some (BAR_Memory addr len)" and "len \<le> PAGE_SIZE"
    and "\<forall>x \<in> set (ds1 @ ds2). \<not> is_sata x"
  shows "\<exists>k'. pci_init stack fops ops gpt pops (ds1 @ dv # ds2) k = Some (Inr ((), k')) \<and>
    (\<forall>i \<in> {0, 1, 2}. command_bit pops (cspace (kp_pci k')) (dev_loc dv) i) \<and>
    (msi_count pops (cspace (kp_pci k)) (dev_loc dv) ps \<noteq> 0 \<longrightarrow> command_bit pops (cspace (kp_pci k')) (dev_loc dv) 10) \<and>
    MSI_IRQ (kp_pci k') = MSI_IRQ (kp_pci k) + msi_count pops (cspace (kp_pci k)) (dev_loc dv) ps \<and>
    runs hello_contents (kp_kernel k') (\<lambda>r _. r = file)"
proof -
  have sp: "pci_space pops header" using assms(15) by (simp add: pci_command_def)
  obtain irq p where en: "enable pops (dev_loc dv) (kp_pci k) = Some (Inr (irq, p))"
    "MSI_IRQ p = MSI_IRQ (kp_pci k) + msi_count pops (cspace (kp_pci k)) (dev_loc dv) ps"
    using pci_space.enable_ok [OF sp assms(16,17,19)] by blast
  note cmd = pci_command.enable_command [OF assms(15-19) en(1)]
  from ahci_drive.boot_image [OF assms(1-14), of irq, unfolded runs_bnd] obtain k1 where
    k1: "init_sata stack fops ops gpt irq addr len (kp_kernel k) = Inr ((), k1)" "runs hello_contents k1 (\<lambda>r _. r = file)"
    by (auto simp: runs_iff_result)
  have "init_driver stack fops ops gpt pops dv k = Some (Inr ((), \<lparr>kp_kernel = k1, kp_pci = p\<rparr>))"
    using assms(20-23) by (simp add: init_driver_def is_sata_def index_def en(1) k1(1))
  then show ?thesis
    using assms(24) k1(2) cmd en(2) by (simp add: pci_init_skips pci_init_none)
qed

definition sata_device :: "nat pci_device" where
  "sata_device = \<lparr>dev_loc = 0, dev_class = 1, dev_subclass = 6, dev_bars = [None, None, None, None, None, Some (BAR_Memory 0xfebf1000 4096)]\<rparr>"

definition vga_device :: "nat pci_device" where
  "vga_device = \<lparr>dev_loc = 1, dev_class = 3, dev_subclass = 0, dev_bars = []\<rparr>"

theorem pci_init_starts_fs_witness:
  "\<exists>d k'. pci_init 2 x86_frames (disk_drive d) sample_gpt byte_space_ops [vga_device, sata_device]
       \<lparr>kp_kernel = sample_kernel, kp_pci = \<lparr>cspace = msi_space, MSI_IRQ = 23\<rparr>\<rparr> = Some (Inr ((), k')) \<and>
     MSI_IRQ (kp_pci k') = 24 \<and> (\<forall>i \<in> {0, 1, 2, 10}. command_bit byte_space_ops (cspace (kp_pci k')) 0 i) \<and>
     runs hello_contents (kp_kernel k') (\<lambda>r _. r = [127, 69, 76, 70])"
proof -
  let ?k = "\<lparr>kp_kernel = sample_kernel, kp_pci = \<lparr>cspace = msi_space, MSI_IRQ = 23\<rparr>\<rparr>"
  have fits: "image_fits (2048 * 50) [127, 69, 76, 70]" using default_fits by simp
  from sample_image obtain d where d: "create_img 50 (Some [127, 69, 76, 70]) = Inr (concat (data d))"
    "canonical (0xfebf1000 + PHYSICAL_MEMORY_OFFSET (kernel_memory sample_kernel))"
    "ahci_new (disk_drive (sample_drive d)) (0xfebf1000 + PHYSICAL_MEMORY_OFFSET (kernel_memory sample_kernel)) 4096 = Some (sample_drive d)"
    "disk_inv (sample_drive d)" "2048 \<le> total_blocks (sample_drive d)"
    "ge_starting_lba sample_entry + 2048 * 50 \<le> total_blocks (sample_drive d)"
    "\<forall>i < 2048 * 50. disk_block (sample_drive d) (ge_starting_lba sample_entry + i) = take BLOCK_SIZE (drop (i * BLOCK_SIZE) (concat (data d)))" .
  have kk: "kp_kernel ?k = sample_kernel" "kp_pci ?k = \<lparr>cspace = msi_space, MSI_IRQ = 23\<rparr>"
    "cspace \<lparr>cspace = msi_space, MSI_IRQ = 23\<rparr> = msi_space" by simp_all
  note fs = pci_init_starts_fs [where k = ?k, unfolded kk, OF disk_ahci.ahci_drive_axioms x86.phys_frames_axioms d(2-5)
      sample_gpt_simps(1,2,3) d(6) fits d(1,7) order_refl bytes_pci.pci_command_axioms msi_space_ok(1,2), where dv = sata_device]
  have "\<exists>k'. pci_init 2 x86_frames (disk_drive (sample_drive d)) sample_gpt byte_space_ops ([vga_device] @ sata_device # []) ?k =
      Some (Inr ((), k')) \<and> (\<forall>i \<in> {0, 1, 2}. command_bit byte_space_ops (cspace (kp_pci k')) (dev_loc sata_device) i) \<and>
    (msi_count byte_space_ops msi_space (dev_loc sata_device) [0x80] \<noteq> 0 \<longrightarrow> command_bit byte_space_ops (cspace (kp_pci k')) (dev_loc sata_device) 10) \<and>
    MSI_IRQ (kp_pci k') = MSI_IRQ \<lparr>cspace = msi_space, MSI_IRQ = 23\<rparr> + msi_count byte_space_ops msi_space (dev_loc sata_device) [0x80] \<and>
    runs hello_contents (kp_kernel k') (\<lambda>r _. r = [127, 69, 76, 70])"
    by (rule fs) (simp_all add: sata_device_def vga_device_def is_sata_def PAGE_SIZE_def)
  then show ?thesis by (auto simp: sata_device_def msi_space_ok(3))
qed

end
