(* ===== verification/Page_Map.thy ===== *)
theory Page_Map
  imports Frame
begin

text \<open>
  The page tables that the boot loader builds for the kernel, \<^verbatim>\<open>src/bootloader/efi/src/page_table.rs\<close>: the
  segments of the ELF file, the stack and all physical memory. Addresses, pages, frames and the mapper belong
  to the crate \<^verbatim>\<open>x86_64\<close>, and memory comes from the firmware: their operations are an argument. What the
  code writes to memory is kept in the field \<open>ram\<close>, byte by byte of physical memory.
\<close>

section \<open>What the crates provide\<close>

record page_flags =
  PRESENT :: bool
  WRITABLE :: bool
  NO_EXECUTE :: bool

datatype map_to_error = FrameAllocationFailed | ParentEntryHugePage | PageAlreadyMapped

datatype unmap_error = UnmapParentEntryHugePage | PageNotMapped | InvalidFrameAddress

record ('q, 'f, 'm, 'a) paging_ops =
  va_new :: "nat \<Rightarrow> rust_panic + nat"
  va_add :: "nat \<Rightarrow> nat \<Rightarrow> rust_panic + nat"
  va_sub :: "nat \<Rightarrow> nat \<Rightarrow> rust_panic + nat"
  pa_new :: "nat \<Rightarrow> rust_panic + nat"
  pa_add :: "nat \<Rightarrow> nat \<Rightarrow> rust_panic + nat"
  pa_sub :: "nat \<Rightarrow> nat \<Rightarrow> rust_panic + nat"
  align_up :: "nat \<Rightarrow> nat \<Rightarrow> rust_panic + nat"
  page_containing_address :: "nat \<Rightarrow> 'q"
  page_add :: "'q \<Rightarrow> nat \<Rightarrow> rust_panic + 'q"
  page_range :: "'q \<Rightarrow> 'q \<Rightarrow> 'q list"
  page_range_inclusive :: "'q \<Rightarrow> 'q \<Rightarrow> 'q list"
  frame_containing_address :: "nat \<Rightarrow> 'f"
  frame_start_address :: "'f \<Rightarrow> nat"
  frame_minus :: "'f \<Rightarrow> 'f \<Rightarrow> nat"
  frame_range_inclusive :: "'f \<Rightarrow> 'f \<Rightarrow> 'f list"
  mapper_map_to :: "'q \<Rightarrow> 'f \<Rightarrow> page_flags \<Rightarrow> 'm \<times> 'a \<Rightarrow> map_to_error + 'm \<times> 'a"
  mapper_unmap :: "'q \<Rightarrow> 'm \<Rightarrow> unmap_error + 'm"
  fa_allocate_frame :: "'a \<Rightarrow> rust_panic + 'f option \<times> 'a"
  translate :: "'m \<Rightarrow> nat \<Rightarrow> nat option"

text \<open>The page table, the frame allocator and physical memory.\<close>

record ('m, 'a) boot =
  page_table :: 'm
  frame_allocator :: 'a
  ram :: "nat \<Rightarrow> u8"

section \<open>Results\<close>

text \<open>The operator \<open>?\<close> on a \<open>Result\<close>, and a loop whose body uses it.\<close>

definition ebnd :: "('s, 'e + 'x) rust \<Rightarrow> ('x \<Rightarrow> ('s, 'e + 'y) rust) \<Rightarrow> ('s, 'e + 'y) rust" where
  "ebnd m f = bnd m (\<lambda>r. case r of Inl e \<Rightarrow> ret (Inl e) | Inr x \<Rightarrow> f x)"

definition ok :: "'x \<Rightarrow> ('s, 'e + 'x) rust" where
  "ok x = ret (Inr x)"

definition lift_pure :: "rust_panic + 'x \<Rightarrow> ('s, 'e + 'x) rust" where
  "lift_pure r = bnd (pure r) ok"

primrec each_ok :: "'x list \<Rightarrow> ('x \<Rightarrow> ('s, 'e + unit) rust) \<Rightarrow> ('s, 'e + unit) rust" where
  "each_ok [] f = ok ()"
| "each_ok (x # xs) f = ebnd (f x) (\<lambda>_. each_ok xs f)"

section \<open>Single steps\<close>

definition map_to ::
    "('q, 'f, 'm, 'a) paging_ops \<Rightarrow> 'q \<Rightarrow> 'f \<Rightarrow> page_flags \<Rightarrow> (('m, 'a) boot, map_to_error + unit) rust" where
  "map_to ops page frame flags = (\<lambda>s.
     case mapper_map_to ops page frame flags (page_table s, frame_allocator s) of
       Inl e \<Rightarrow> Inr (Inl e, s)
     | Inr (m, a) \<Rightarrow> Inr (Inr (), s\<lparr>page_table := m, frame_allocator := a\<rparr>))"

text \<open>\<open>frame_allocator.allocate_frame().ok_or(MapToError::FrameAllocationFailed)\<close>\<close>

definition allocate_frame :: "('q, 'f, 'm, 'a) paging_ops \<Rightarrow> (('m, 'a) boot, map_to_error + 'f) rust" where
  "allocate_frame ops = (\<lambda>s.
     case fa_allocate_frame ops (frame_allocator s) of
       Inl e \<Rightarrow> Inl e
     | Inr (None, a) \<Rightarrow> Inr (Inl FrameAllocationFailed, s\<lparr>frame_allocator := a\<rparr>)
     | Inr (Some f, a) \<Rightarrow> Inr (Inr f, s\<lparr>frame_allocator := a\<rparr>))"

text \<open>\<open>UEFIFrameAllocator\<close>: one page from the firmware; its \<open>allocate_pages\<close> is an argument.\<close>

definition UEFIFrameAllocator_allocate_frame ::
    "('q, 'f, 'm, 'b) paging_ops \<Rightarrow> ('b \<Rightarrow> nat \<Rightarrow> nat option \<times> 'b) \<Rightarrow> 'b \<Rightarrow> rust_panic + 'f option \<times> 'b" where
  "UEFIFrameAllocator_allocate_frame ops allocate_pages bs =
     (case allocate_pages bs 1 of
        (None, bs') \<Rightarrow> Inl UnwrapNone
      | (Some addr, bs') \<Rightarrow> sbnd (pa_new ops addr) (\<lambda>a. Inr (Some (frame_containing_address ops a), bs')))"

text \<open>\<open>temp_page_ptr.write(last_page_ptr.read())\<close>: 512 words, through the identity mapping of the firmware.\<close>

definition copy_page :: "nat \<Rightarrow> nat \<Rightarrow> (('m, 'a) boot, unit) rust" where
  "copy_page src dst = upd (\<lambda>s. s\<lparr>ram := (\<lambda>a. if dst \<le> a \<and> a < dst + 4096 then ram s (src + (a - dst)) else ram s a)\<rparr>)"

text \<open>\<open>core::ptr::write_bytes(ptr, 0, n)\<close>, through the page table.\<close>

primrec write_zeros :: "('q, 'f, 'm, 'a) paging_ops \<Rightarrow> nat \<Rightarrow> nat \<Rightarrow> (('m, 'a) boot, unit) rust" where
  "write_zeros ops ptr 0 = ret ()"
| "write_zeros ops ptr (Suc n) =
     bnd (gets (\<lambda>s. translate ops (page_table s) ptr)) (\<lambda>pa.
     bnd (pure (case pa of None \<Rightarrow> Inl BadAddress | Some a \<Rightarrow> Inr a)) (\<lambda>a.
     bnd (upd (\<lambda>s. s\<lparr>ram := (ram s)(a := 0)\<rparr>)) (\<lambda>_.
     write_zeros ops (ptr + 1) n)))"

section \<open>Segments\<close>

text \<open>A program header: \<open>seg_load\<close> is \<open>None\<close> when \<open>get_type\<close> fails.\<close>

record segment =
  seg_load :: "bool option"
  seg_mem_size :: nat
  seg_file_size :: nat
  seg_offset :: nat
  seg_virtual_addr :: nat
  seg_write :: bool
  seg_execute :: bool

definition segment_flags :: "segment \<Rightarrow> page_flags" where
  "segment_flags seg = \<lparr>PRESENT = True, WRITABLE = seg_write seg, NO_EXECUTE = \<not> seg_execute seg\<rparr>"

text \<open>Giving the last page of the file a frame of its own, before the rest of it is cleared.\<close>

definition remap_last_page ::
    "('q, 'f, 'm, 'a) paging_ops \<Rightarrow> nat \<Rightarrow> nat \<Rightarrow> 'f \<Rightarrow> page_flags \<Rightarrow> (('m, 'a) boot, map_to_error + unit) rust" where
  "remap_last_page ops virt_start file_size last_frame flags =
     ebnd (allocate_frame ops) (\<lambda>new_frame.
     ebnd (lift_pure (sbnd (va_add ops virt_start file_size) (\<lambda>a. va_sub ops a 1))) (\<lambda>last_addr.
     let last_page = page_containing_address ops last_addr in
     bnd (copy_page (frame_start_address ops last_frame) (frame_start_address ops new_frame)) (\<lambda>_.
     bnd (gets page_table) (\<lambda>m.
       case mapper_unmap ops last_page m of
         Inl UnmapParentEntryHugePage \<Rightarrow> ret (Inl ParentEntryHugePage)
       | Inl _ \<Rightarrow> panic AssertFailed
       | Inr m' \<Rightarrow>
           bnd (upd (\<lambda>s. s\<lparr>page_table := m'\<rparr>)) (\<lambda>_.
           map_to ops last_page new_frame flags)))))"

text \<open>The memory of a segment beyond its part of the file.\<close>

definition map_bss ::
    "('q, 'f, 'm, 'a) paging_ops \<Rightarrow> nat \<Rightarrow> nat \<Rightarrow> nat \<Rightarrow> 'f \<Rightarrow> page_flags \<Rightarrow> (('m, 'a) boot, map_to_error + unit) rust" where
  "map_bss ops virt_start file_size mem_size last_frame flags =
     ebnd (lift_pure (va_add ops virt_start file_size)) (\<lambda>zero_start.
     ebnd (lift_pure (va_add ops virt_start mem_size)) (\<lambda>zero_end.
     ebnd (if zero_start mod 4096 \<noteq> 0 then remap_last_page ops virt_start file_size last_frame flags else ok ()) (\<lambda>_.
     ebnd (lift_pure (sbnd (align_up ops zero_start 4096) (va_new ops))) (\<lambda>aligned.
     let start_page = page_containing_address ops aligned; end_page = page_containing_address ops zero_end in
     ebnd (each_ok (page_range_inclusive ops start_page end_page) (\<lambda>page.
       ebnd (allocate_frame ops) (\<lambda>frame. map_to ops page frame flags))) (\<lambda>_.
     bnd (write_zeros ops zero_start (mem_size - file_size)) (\<lambda>_.
     ok ()))))))"

definition map_segment ::
    "('q, 'f, 'm, 'a) paging_ops \<Rightarrow> segment \<Rightarrow> nat \<Rightarrow> (('m, 'a) boot, map_to_error + unit) rust" where
  "map_segment ops seg kernel_start =
     (case seg_load seg of
        None \<Rightarrow> panic UnwrapNone
      | Some False \<Rightarrow> ok ()
      | Some True \<Rightarrow>
          let mem_size = seg_mem_size seg; file_size = seg_file_size seg;
              file_offset = seg_offset seg div 4096 * 4096 in
          ebnd (lift_pure (pa_add ops kernel_start file_offset)) (\<lambda>phys_start.
          ebnd (lift_pure (va_new ops (seg_virtual_addr seg))) (\<lambda>virt_start.
          let start_page = page_containing_address ops virt_start;
              start_frame = frame_containing_address ops phys_start in
          ebnd (lift_pure (sbnd (pa_add ops phys_start file_size) (\<lambda>a. pa_sub ops a 1))) (\<lambda>end_addr.
          let last_frame = frame_containing_address ops end_addr; flags = segment_flags seg in
          ebnd (each_ok (frame_range_inclusive ops start_frame last_frame) (\<lambda>frame.
            ebnd (lift_pure (page_add ops start_page (frame_minus ops frame start_frame))) (\<lambda>page.
            map_to ops page frame flags))) (\<lambda>_.
          if mem_size > file_size then map_bss ops virt_start file_size mem_size last_frame flags else ok ())))))"

text \<open>\<open>kernel_start\<close> is the address of the buffer that holds the file.\<close>

definition map_elf ::
    "('q, 'f, 'm, 'a) paging_ops \<Rightarrow> nat \<Rightarrow> segment list \<Rightarrow> (('m, 'a) boot, map_to_error + unit) rust" where
  "map_elf ops input segs =
     ebnd (lift_pure (pa_new ops input)) (\<lambda>kernel_start.
     each_ok segs (\<lambda>seg. map_segment ops seg kernel_start))"

section \<open>The stack and physical memory\<close>

definition map_stack ::
    "('q, 'f, 'm, 'a) paging_ops \<Rightarrow> nat \<Rightarrow> nat \<Rightarrow> (('m, 'a) boot, map_to_error + unit) rust" where
  "map_stack ops addr pages =
     ebnd (lift_pure (va_new ops addr)) (\<lambda>a.
     let stack_start = page_containing_address ops a in
     ebnd (lift_pure (page_add ops stack_start pages)) (\<lambda>stack_end.
     each_ok (page_range ops stack_start stack_end) (\<lambda>page.
       ebnd (allocate_frame ops) (\<lambda>frame.
       map_to ops page frame \<lparr>PRESENT = True, WRITABLE = True, NO_EXECUTE = False\<rparr>))))"

text \<open>
  \<open>map_physical_memory\<close> works on pages of 2 MiB: it is given the operations for that size. \<open>expect\<close> turns an
  error into a panic.
\<close>

definition map_physical_memory ::
    "('q, 'f, 'm, 'a) paging_ops \<Rightarrow> nat \<Rightarrow> nat \<Rightarrow> (('m, 'a) boot, unit) rust" where
  "map_physical_memory ops offset max_addr =
     bnd (pure (pa_new ops 0)) (\<lambda>zero.
     bnd (pure (pa_new ops max_addr)) (\<lambda>top.
     let start_frame = frame_containing_address ops zero; last_frame = frame_containing_address ops top in
     for_each (frame_range_inclusive ops start_frame last_frame) (\<lambda>frame.
       bnd (pure (sbnd (u64_add (frame_start_address ops frame) offset) (va_new ops))) (\<lambda>a.
       let page = page_containing_address ops a in
       bnd (map_to ops page frame \<lparr>PRESENT = True, WRITABLE = True, NO_EXECUTE = False\<rparr>) (\<lambda>r.
         case r of Inl e \<Rightarrow> panic UnwrapNone | Inr _ \<Rightarrow> ret ())))))"

end
