(* ===== verification/Page_Mapper.thy ===== *)
theory Page_Mapper
  imports Page_Map
begin

text \<open>
  The contract of a mapper (\<open>page_mapper\<close>): the abstract page table is a map from page numbers to frame
  numbers and flags, and mapping a page may take up to three frames for tables. The contract \<open>frame_mapper\<close> adds an
  allocator that hands out each free frame once and the removal of pages. Inside the locales the loops of the boot loader are proved to
  extend that map.
\<close>

lemma runs_ebnd [wp]: "runs (ebnd m f) s Q \<longleftrightarrow> runs m s (\<lambda>r s'. case r of Inl e \<Rightarrow> Q (Inl e) s' | Inr x \<Rightarrow> runs (f x) s' Q)"
proof -
  have eq: "runs (case r of Inl e \<Rightarrow> ret (Inl e) | Inr x \<Rightarrow> f x) s' Q = (case r of Inl e \<Rightarrow> Q (Inl e) s' | Inr x \<Rightarrow> runs (f x) s' Q)" for r s'
    by (cases r) (simp_all add: runs_ret)
  show ?thesis unfolding ebnd_def runs_bnd eq ..
qed

lemma runs_ok [wp]: "runs (ok x) s Q \<longleftrightarrow> Q (Inr x) s"
  by (simp add: ok_def runs_ret)

lemma runs_lift_pure [wp]: "runs (lift_pure r) s Q \<longleftrightarrow> (\<exists>x. r = Inr x \<and> Q (Inr x) s)"
  by (simp add: lift_pure_def wp)

text \<open>
  What a page is to the mapper of its size: free to be mapped, mapped to a frame, or out of reach because a
  page of another size covers it or tables for smaller pages are in its place.
\<close>

datatype slot = Free | Mapped nat page_flags | Blocked

locale page_mapper =
  fixes ops :: "('q, 'f, 'm, 'a) paging_ops"
    and pnum :: "'q \<Rightarrow> nat"
    and fnum :: "'f \<Rightarrow> nat"
    and tbl :: "'m \<Rightarrow> nat \<Rightarrow> slot"
    and free :: "'a \<Rightarrow> nat set"
    and psz :: nat
    and plim :: nat
  assumes psz_pos: "0 < psz"
    and va_new_law: "canonical a \<Longrightarrow> va_new ops a = Inr a"
    and va_add_law: "canonical a \<Longrightarrow> canonical (a + n) \<Longrightarrow> va_add ops a n = Inr (a + n)"
    and va_sub_law: "n \<le> a \<Longrightarrow> canonical (a - n) \<Longrightarrow> va_sub ops a n = Inr (a - n)"
    and pa_new_law: "a < plim \<Longrightarrow> pa_new ops a = Inr a"
    and pa_add_law: "a + n < plim \<Longrightarrow> pa_add ops a n = Inr (a + n)"
    and pa_sub_law: "n \<le> a \<Longrightarrow> a < plim \<Longrightarrow> pa_sub ops a n = Inr (a - n)"
    and align_law: "cdiv a psz * psz < U64_RANGE \<Longrightarrow> align_up ops a psz = Inr (cdiv a psz * psz)"
    and page_law: "canonical a \<Longrightarrow> pnum (page_containing_address ops a) = a div psz"
    and page_add_law: "canonical ((pnum q + n) * psz) \<Longrightarrow> \<exists>r. page_add ops q n = Inr r \<and> pnum r = pnum q + n"
    and range_law: "\<forall>x. pnum q \<le> x \<and> x < pnum r \<longrightarrow> canonical (x * psz) \<Longrightarrow> map pnum (page_range ops q r) = [pnum q..<pnum r]"
    and range_inclusive_law: "\<forall>x. pnum q \<le> x \<and> x \<le> pnum r \<longrightarrow> canonical (x * psz) \<Longrightarrow>
      map pnum (page_range_inclusive ops q r) = [pnum q..<Suc (pnum r)]"
    and frame_law: "a < plim \<Longrightarrow> fnum (frame_containing_address ops a) = a div psz"
    and frame_start_law: "frame_start_address ops f = fnum f * psz"
    and frame_minus_law: "fnum g \<le> fnum f \<Longrightarrow> frame_minus ops f g = fnum f - fnum g"
    and frame_range_law: "map fnum (frame_range_inclusive ops f g) = [fnum f..<Suc (fnum g)]"
    and free_finite: "finite (free al)"
    and map_law: "tbl m (pnum q) = Free \<Longrightarrow> 3 \<le> card (free al) \<Longrightarrow>
      \<exists>m' al'. mapper_map_to ops q f fl (m, al) = Inr (m', al') \<and> tbl m' = (tbl m)(pnum q := Mapped (fnum f) fl) \<and>
        free al' \<subseteq> free al \<and> card (free al) \<le> card (free al') + 3"
    and translate_law: "canonical a \<Longrightarrow> tbl m (a div psz) = Mapped x fl \<Longrightarrow> translate ops m a = Some (x * psz + a mod psz)"
begin

abbreviation table_of :: "('m, 'a) boot \<Rightarrow> nat \<Rightarrow> slot" where
  "table_of s \<equiv> tbl (page_table s)"

abbreviation free_of :: "('m, 'a) boot \<Rightarrow> nat set" where
  "free_of s \<equiv> free (frame_allocator s)"

text \<open>A stretch of pages mapped to the frames \<open>g 0, g 1, ...\<close>.\<close>

definition extend :: "nat \<Rightarrow> nat \<Rightarrow> (nat \<Rightarrow> nat) \<Rightarrow> page_flags \<Rightarrow> (nat \<Rightarrow> slot) \<Rightarrow> nat \<Rightarrow> slot" where
  "extend P n g fl t = (\<lambda>p. if P \<le> p \<and> p < P + n then Mapped (g (p - P)) fl else t p)"

lemma extend_0 [simp]: "extend P 0 g fl t = t"
  by (rule ext) (auto simp: extend_def)

lemma extend_Suc_front: "extend (Suc P) n g fl (t(P := Mapped f fl)) = extend P (Suc n) (\<lambda>j. if j = 0 then f else g (j - 1)) fl t"
  by (auto simp: extend_def fun_eq_iff)

lemma map_to_ok:
  assumes "table_of s (pnum q) = Free" and "3 \<le> card (free_of s)"
  shows "runs (map_to ops q f fl) s (\<lambda>r s'. r = Inr () \<and> table_of s' = (table_of s)(pnum q := Mapped (fnum f) fl) \<and>
    free_of s' \<subseteq> free_of s \<and> card (free_of s) \<le> card (free_of s') + 3 \<and> ram s' = ram s)"
proof -
  from map_law [OF assms, of f fl] obtain m' al' where "mapper_map_to ops q f fl (page_table s, frame_allocator s) = Inr (m', al')"
    "tbl m' = (table_of s)(pnum q := Mapped (fnum f) fl)" "free al' \<subseteq> free_of s" "card (free_of s) \<le> card (free al') + 3" by blast
  then show ?thesis by (simp add: runs_def map_to_def)
qed

text \<open>A stretch of pages mapped to consecutive frames.\<close>

definition linked :: "nat \<Rightarrow> nat \<Rightarrow> nat \<Rightarrow> page_flags \<Rightarrow> ('m, 'a) boot \<Rightarrow> ('m, 'a) boot \<Rightarrow> bool" where
  "linked P F n fl s s' \<longleftrightarrow> ram s' = ram s \<and> table_of s' = extend P n (\<lambda>j. F + j) fl (table_of s) \<and>
     free_of s' \<subseteq> free_of s \<and> card (free_of s) \<le> card (free_of s') + 3 * n"

lemma linked_0: "linked P F 0 fl s s"
  by (simp add: linked_def)

lemma linked_Cons:
  assumes "table_of s1 = (table_of s)(P := Mapped F fl)" and "free_of s1 \<subseteq> free_of s" and "card (free_of s) \<le> card (free_of s1) + 3"
    and "ram s1 = ram s" and "linked (Suc P) (Suc F) n fl s1 s2"
  shows "linked P F (Suc n) fl s s2"
proof -
  have "(\<lambda>j. if j = 0 then F else Suc F + (j - 1)) = (\<lambda>j. F + j)" by auto
  with extend_Suc_front [of P n "\<lambda>j. Suc F + j" fl "table_of s" F]
  have e: "extend (Suc P) n (\<lambda>j. Suc F + j) fl ((table_of s)(P := Mapped F fl)) = extend P (Suc n) (\<lambda>j. F + j) fl (table_of s)" by simp
  from assms(5) have l: "ram s2 = ram s1" "table_of s2 = extend (Suc P) n (\<lambda>j. Suc F + j) fl (table_of s1)" "free_of s2 \<subseteq> free_of s1"
    "card (free_of s1) \<le> card (free_of s2) + 3 * n" by (simp_all add: linked_def)
  show ?thesis
    unfolding linked_def l(2) assms(1) e using l(1,3,4) assms(2-4) by auto
qed

lemma link_loop:
  assumes "map fnum fs = [F..<F + n]" and "\<forall>p. P \<le> p \<and> p < P + n \<longrightarrow> table_of s p = Free" and "3 * n \<le> card (free_of s)"
    and "\<forall>f \<in> set fs. \<exists>q. page f = Inr q \<and> pnum q + F = P + fnum f"
  shows "runs (each_ok fs (\<lambda>f. ebnd (lift_pure (page f)) (\<lambda>q. map_to ops q f fl))) s (\<lambda>r s'. r = Inr () \<and> linked P F n fl s s')"
  using assms
proof (induction fs arbitrary: P F n s)
  case Nil
  then have "n = 0" by (cases n) auto
  then show ?case by (simp add: wp linked_0)
next
  case (Cons f fs)
  then obtain m where n: "n = Suc m" by (cases n) auto
  with Cons.prems(1) have f: "fnum f = F" "map fnum fs = [Suc F..<Suc F + m]" by (auto simp: upt_rec)
  with Cons.prems(4) obtain q where q: "page f = Inr q" "pnum q = P" by auto
  have pre: "table_of s (pnum q) = Free" "3 \<le> card (free_of s)" using Cons.prems(2,3) n q(2) by auto
  have rest: "runs (each_ok fs (\<lambda>f. ebnd (lift_pure (page f)) (\<lambda>q. map_to ops q f fl))) s1 (\<lambda>r s'. r = Inr () \<and> linked P F n fl s s')"
    if 1: "table_of s1 = (table_of s)(pnum q := Mapped (fnum f) fl)" "free_of s1 \<subseteq> free_of s" "card (free_of s) \<le> card (free_of s1) + 3"
      "ram s1 = ram s" for s1
  proof -
    have t: "\<forall>p. Suc P \<le> p \<and> p < Suc P + m \<longrightarrow> table_of s1 p = Free" "3 * m \<le> card (free_of s1)"
      using Cons.prems(2,3) n q(2) 1(1,3) by auto
    have pg: "\<forall>f \<in> set fs. \<exists>q. page f = Inr q \<and> pnum q + Suc F = Suc P + fnum f" using Cons.prems(4) by auto
    show ?thesis
      by (rule runs_mono [OF Cons.IH [OF f(2) t pg]]) (use linked_Cons [OF 1(1) [unfolded q(2) f(1)] 1(2-4)] n in simp)
  qed
  show ?case
    by (simp add: runs_ebnd runs_lift_pure q(1)) (rule runs_mono [OF map_to_ok [OF pre]], use rest in auto)
qed

lemma link_loop_panic:
  assumes "map fnum fs = [F..<F + n]" and "\<forall>p. P \<le> p \<and> p < P + n \<longrightarrow> table_of s p = Free" and "3 * n \<le> card (free_of s)"
    and "\<forall>f \<in> set fs. \<exists>a. addr f = Inr a \<and> pnum (page_containing_address ops a) + F = P + fnum f"
  shows "runs (for_each fs (\<lambda>f. bnd (pure (addr f)) (\<lambda>a. bnd (map_to ops (page_containing_address ops a) f fl) (\<lambda>r.
      case r of Inl e \<Rightarrow> panic UnwrapNone | Inr _ \<Rightarrow> ret ())))) s (\<lambda>_ s'. linked P F n fl s s')"
  using assms
proof (induction fs arbitrary: P F n s)
  case Nil
  then have "n = 0" by (cases n) auto
  then show ?case by (simp add: wp linked_0)
next
  case (Cons f fs)
  then obtain m where n: "n = Suc m" by (cases n) auto
  with Cons.prems(1) have f: "fnum f = F" "map fnum fs = [Suc F..<Suc F + m]" by (auto simp: upt_rec)
  with Cons.prems(4) obtain a where a: "addr f = Inr a" "pnum (page_containing_address ops a) = P" by auto
  have pre: "table_of s (pnum (page_containing_address ops a)) = Free" "3 \<le> card (free_of s)" using Cons.prems(2,3) n a(2) by auto
  have rest: "runs (for_each fs (\<lambda>f. bnd (pure (addr f)) (\<lambda>a. bnd (map_to ops (page_containing_address ops a) f fl) (\<lambda>r.
      case r of Inl e \<Rightarrow> panic UnwrapNone | Inr _ \<Rightarrow> ret ())))) s1 (\<lambda>_ s'. linked P F n fl s s')"
    if 1: "table_of s1 = (table_of s)(P := Mapped F fl)" "free_of s1 \<subseteq> free_of s" "card (free_of s) \<le> card (free_of s1) + 3"
      "ram s1 = ram s" for s1
  proof -
    have t: "\<forall>p. Suc P \<le> p \<and> p < Suc P + m \<longrightarrow> table_of s1 p = Free" "3 * m \<le> card (free_of s1)"
      using Cons.prems(2,3) n 1(1,3) by auto
    have pg: "\<forall>f \<in> set fs. \<exists>a. addr f = Inr a \<and> pnum (page_containing_address ops a) + Suc F = Suc P + fnum f"
      using Cons.prems(4) by auto
    show ?thesis by (rule runs_mono [OF Cons.IH [OF f(2) t pg]]) (use linked_Cons [OF 1] n in simp)
  qed
  show ?case
    by (simp add: runs_bnd runs_pure a(1)) (rule runs_mono [OF map_to_ok [OF pre]], use rest a(2) f(1) in \<open>auto simp: runs_ret\<close>)
qed

lemma map_physical_ok:
  assumes "psz dvd offset" and "max_addr < plim" and "n = Suc (max_addr div psz)"
    and "\<forall>x. offset \<le> x \<and> x < offset + n * psz \<longrightarrow> canonical x"
    and "\<forall>p. offset div psz \<le> p \<and> p < offset div psz + n \<longrightarrow> table_of s p = Free" and "3 * n \<le> card (free_of s)"
  shows "runs (map_physical_memory ops offset max_addr) s
    (\<lambda>_ s'. linked (offset div psz) 0 n \<lparr>PRESENT = True, WRITABLE = True, NO_EXECUTE = False\<rparr> s s')"
proof -
  let ?fs = "frame_range_inclusive ops (frame_containing_address ops 0) (frame_containing_address ops max_addr)"
  have z: "0 < plim" using assms(2) by simp
  have fs: "map fnum ?fs = [0..<0 + n]"
    using frame_range_law frame_law [OF z] frame_law [OF assms(2)] assms(3) by simp
  have pg: "\<exists>a. sbnd (u64_add (frame_start_address ops f) offset) (va_new ops) = Inr a \<and>
      pnum (page_containing_address ops a) + 0 = offset div psz + fnum f" if "f \<in> set ?fs" for f
  proof -
    have "fnum f \<in> set (map fnum ?fs)" using that by auto
    then have "fnum f < n" unfolding fs by simp
    then have "fnum f * psz < n * psz" using psz_pos by simp
    then have c: "canonical (fnum f * psz + offset)" using assms(4) by simp
    then have "fnum f * psz + offset < U64_RANGE" by (auto simp: canonical_def U64_RANGE_def)
    moreover have "(fnum f * psz + offset) div psz = offset div psz + fnum f" using psz_pos by simp
    ultimately show ?thesis
      using va_new_law [OF c] page_law [OF c] by (simp add: frame_start_law u64_add_def)
  qed
  show ?thesis
    unfolding map_physical_memory_def Let_def pa_new_law [OF z] pa_new_law [OF assms(2)] pure_Inr bnd_ret
    by (rule link_loop_panic [OF fs assms(5,6)]) (use pg in blast)
qed

text \<open>Where addresses of a stretch lead.\<close>

lemma translate_extend:
  assumes "table_of s = extend P n g fl t" and "i < n * psz" and "canonical (P * psz + i)"
  shows "translate ops (page_table s) (P * psz + i) = Some (g (i div psz) * psz + i mod psz)"
proof -
  have "(P * psz + i) div psz = P + i div psz" "(P * psz + i) mod psz = i mod psz" using psz_pos by simp_all
  moreover have "i div psz < n" using assms(2) by (simp add: less_mult_imp_div_less)
  ultimately show ?thesis using assms(1) translate_law [OF assms(3), of "page_table s" "g (i div psz)" fl] by (simp add: extend_def)
qed

lemma extend_append:
  "extend (P + n) k g' fl (extend P n g fl t) = extend P (n + k) (\<lambda>j. if j < n then g j else g' (j - n)) fl t"
  by (auto simp: extend_def fun_eq_iff)

text \<open>Clearing memory through the page table.\<close>

lemma write_zeros_ok:
  assumes "\<forall>i<n. translate ops (page_table s) (a + i) \<noteq> None"
  shows "runs (write_zeros ops a n) s (\<lambda>_ s'. page_table s' = page_table s \<and> frame_allocator s' = frame_allocator s \<and>
    (\<forall>pa. ram s' pa = (if \<exists>i<n. translate ops (page_table s) (a + i) = Some pa then 0 else ram s pa)))"
  using assms
proof (induction n arbitrary: a s)
  case 0
  then show ?case by (simp add: wp)
next
  case (Suc n)
  then obtain p where p: "translate ops (page_table s) a = Some p" by (metis add_0_right not_None_eq zero_less_Suc)
  let ?s = "s\<lparr>ram := (ram s)(p := 0)\<rparr>"
  have nxt: "\<forall>i<n. translate ops (page_table ?s) (a + 1 + i) \<noteq> None"
  proof (intro allI impI)
    fix i
    assume "i < n"
    then show "translate ops (page_table ?s) (a + 1 + i) \<noteq> None" using Suc.prems [rule_format, of "Suc i"] by simp
  qed
  have ex: "(\<exists>i<Suc n. translate ops (page_table s) (a + i) = Some pa) \<longleftrightarrow>
      pa = p \<or> (\<exists>i<n. translate ops (page_table s) (a + 1 + i) = Some pa)" for pa
    using p by (auto simp: less_Suc_eq_0_disj)
  have run: "runs (write_zeros ops (a + 1) n) ?s (\<lambda>_ s'. page_table s' = page_table s \<and> frame_allocator s' = frame_allocator s \<and>
      (\<forall>pa. ram s' pa = (if \<exists>i<Suc n. translate ops (page_table s) (a + i) = Some pa then 0 else ram s pa)))"
    by (rule runs_mono [OF Suc.IH [OF nxt]]) (auto simp: ex simp del: One_nat_def)
  show ?case
    unfolding write_zeros.simps runs_bnd runs_gets runs_upd p using run by (simp add: runs_ret)
qed

end

text \<open>A mapper with an allocator for the frames of its pages.\<close>

locale frame_mapper = page_mapper ops pnum fnum tbl free psz plim
  for ops :: "('q, 'f, 'm, 'a) paging_ops" and pnum fnum tbl free psz plim +
  assumes alloc_law: "free al \<noteq> {} \<Longrightarrow> \<exists>f al'. fa_allocate_frame ops al = Inr (Some f, al') \<and> fnum f \<in> free al \<and> free al' = free al - {fnum f}"
    and unmap_law: "tbl m (pnum q) = Mapped x fl \<Longrightarrow> \<exists>m'. mapper_unmap ops q m = Inr m' \<and> tbl m' = (tbl m)(pnum q := Free)"
begin

lemma allocate_frame_ok:
  assumes "free_of s \<noteq> {}"
  shows "runs (allocate_frame ops) s (\<lambda>r s'. \<exists>f. r = Inr f \<and> fnum f \<in> free_of s \<and> free_of s' = free_of s - {fnum f} \<and>
    page_table s' = page_table s \<and> ram s' = ram s)"
proof -
  from alloc_law [OF assms] obtain f al' where "fa_allocate_frame ops (frame_allocator s) = Inr (Some f, al')"
    "fnum f \<in> free_of s" "free al' = free_of s - {fnum f}" by blast
  then show ?thesis by (simp add: runs_def allocate_frame_def)
qed

text \<open>One page got a free frame.\<close>

definition took_frame :: "'q \<Rightarrow> page_flags \<Rightarrow> ('m, 'a) boot \<Rightarrow> ('m, 'a) boot \<Rightarrow> bool" where
  "took_frame q fl s s' \<longleftrightarrow> ram s' = ram s \<and>
     (\<exists>f. f \<in> free_of s \<and> table_of s' = (table_of s)(pnum q := Mapped f fl) \<and>
       free_of s' \<subseteq> free_of s - {f} \<and> card (free_of s) \<le> card (free_of s') + 4)"

lemma alloc_map_ok:
  assumes "table_of s (pnum q) = Free" and "4 \<le> card (free_of s)"
  shows "runs (ebnd (allocate_frame ops) (\<lambda>f. map_to ops q f fl)) s (\<lambda>r s'. r = Inr () \<and> took_frame q fl s s')"
proof -
  have ne: "free_of s \<noteq> {}" using assms(2) by auto
  have "runs (map_to ops q f fl) s1 (\<lambda>r s'. r = Inr () \<and> took_frame q fl s s')"
    if 1: "fnum f \<in> free_of s" "free_of s1 = free_of s - {fnum f}" "page_table s1 = page_table s" "ram s1 = ram s" for f s1
  proof -
    have c: "card (free_of s) = Suc (card (free_of s1))" using card_Suc_Diff1 [OF free_finite 1(1)] 1(2) by simp
    have pre: "table_of s1 (pnum q) = Free" "3 \<le> card (free_of s1)" using assms 1(3) c by simp_all
    show ?thesis
    proof (rule runs_mono [OF map_to_ok [OF pre]], elim conjE, rule conjI)
      fix r s2
      assume 2: "table_of s2 = (table_of s1)(pnum q := Mapped (fnum f) fl)" "free_of s2 \<subseteq> free_of s1"
        "card (free_of s1) \<le> card (free_of s2) + 3" "ram s2 = ram s1"
      show "took_frame q fl s s2"
        unfolding took_frame_def
      proof (intro conjI exI [of _ "fnum f"])
        show "ram s2 = ram s" using 1(4) 2(4) by simp
        show "fnum f \<in> free_of s" by (rule 1(1))
        show "table_of s2 = (table_of s)(pnum q := Mapped (fnum f) fl)" using 1(3) 2(1) by simp
        show "free_of s2 \<subseteq> free_of s - {fnum f}" using 1(2) 2(2) by simp
        show "card (free_of s) \<le> card (free_of s2) + 4" using c 2(3) by linarith
      qed
    qed
  qed
  then show ?thesis
    unfolding runs_ebnd by (intro runs_mono [OF allocate_frame_ok [OF ne]]) (elim exE conjE, simp)
qed

text \<open>A stretch of pages got free frames, all different.\<close>

definition took_frames :: "nat \<Rightarrow> nat \<Rightarrow> page_flags \<Rightarrow> ('m, 'a) boot \<Rightarrow> ('m, 'a) boot \<Rightarrow> bool" where
  "took_frames P n fl s s' \<longleftrightarrow> ram s' = ram s \<and>
     (\<exists>g. inj_on g {..<n} \<and> g ` {..<n} \<subseteq> free_of s - free_of s' \<and> table_of s' = extend P n g fl (table_of s) \<and>
       free_of s' \<subseteq> free_of s \<and> card (free_of s) \<le> card (free_of s') + 4 * n)"

lemma took_frames_Cons:
  assumes "took_frame q fl s s1" and "pnum q = P" and "took_frames (Suc P) n fl s1 s2"
  shows "took_frames P (Suc n) fl s s2"
proof -
  from assms(1,2) obtain f where f: "f \<in> free_of s" "table_of s1 = (table_of s)(P := Mapped f fl)" "free_of s1 \<subseteq> free_of s - {f}"
    "card (free_of s) \<le> card (free_of s1) + 4" "ram s1 = ram s" by (auto simp: took_frame_def)
  from assms(3) obtain g where g: "inj_on g {..<n}" "g ` {..<n} \<subseteq> free_of s1 - free_of s2" "ram s2 = ram s1"
    "table_of s2 = extend (Suc P) n g fl (table_of s1)" "free_of s2 \<subseteq> free_of s1" "card (free_of s1) \<le> card (free_of s2) + 4 * n"
    by (auto simp: took_frames_def)
  let ?g = "\<lambda>j. if j = 0 then f else g (j - 1)"
  have im: "?g ` {..<Suc n} = insert f (g ` {..<n})"
    by (force simp: image_iff lessThan_Suc_eq_insert_0)
  have "inj_on ?g {..<Suc n}"
  proof (rule inj_onI)
    fix i j
    assume ij: "i \<in> {..<Suc n}" "j \<in> {..<Suc n}" "?g i = ?g j"
    have "g k \<noteq> f" if "k < n" for k using that g(2) f(3) by blast
    with ij g(1) show "i = j" by (cases i; cases j) (auto simp: inj_on_def)
  qed
  moreover have "?g ` {..<Suc n} \<subseteq> free_of s - free_of s2" unfolding im using f g by auto
  ultimately show ?thesis
    unfolding took_frames_def using f g
    by (intro conjI exI [of _ ?g]) (auto simp: extend_Suc_front simp del: fun_upd_apply)
qed

lemma alloc_map_loop:
  assumes "map pnum qs = [P..<P + n]" and "\<forall>p. P \<le> p \<and> p < P + n \<longrightarrow> table_of s p = Free" and "4 * n \<le> card (free_of s)"
  shows "runs (each_ok qs (\<lambda>q. ebnd (allocate_frame ops) (\<lambda>f. map_to ops q f fl))) s (\<lambda>r s'. r = Inr () \<and> took_frames P n fl s s')"
  using assms
proof (induction qs arbitrary: P n s)
  case Nil
  then have "n = 0" by (cases n) auto
  then show ?case by (simp add: wp took_frames_def)
next
  case (Cons q qs)
  then obtain m where n: "n = Suc m" by (cases n) auto
  with Cons.prems(1) have q: "pnum q = P" "map pnum qs = [Suc P..<Suc P + m]" by (auto simp: upt_rec)
  have pre: "table_of s (pnum q) = Free" "4 \<le> card (free_of s)" using Cons.prems(2,3) n q(1) by auto
  show ?case
    unfolding each_ok.simps runs_ebnd [of _ "\<lambda>_. each_ok qs _"]
  proof (rule runs_mono [OF alloc_map_ok [OF pre]], elim conjE)
    fix r s1
    assume 1: "r = Inr ()" "took_frame q fl s s1"
    then have t: "\<forall>p. Suc P \<le> p \<and> p < Suc P + m \<longrightarrow> table_of s1 p = Free" "4 * m \<le> card (free_of s1)"
      using Cons.prems(2,3) n q(1) by (auto simp: took_frame_def)
    have "runs (each_ok qs (\<lambda>q. ebnd (allocate_frame ops) (\<lambda>f. map_to ops q f fl))) s1 (\<lambda>r s'. r = Inr () \<and> took_frames P n fl s s')"
      by (rule runs_mono [OF Cons.IH [OF q(2) t]]) (use took_frames_Cons [OF 1(2) q(1)] n in blast)
    with 1(1) show "case r of Inl e \<Rightarrow> Inl e = Inr () \<and> took_frames P n fl s s1 | Inr _ \<Rightarrow>
        runs (each_ok qs (\<lambda>q. ebnd (allocate_frame ops) (\<lambda>f. map_to ops q f fl))) s1 (\<lambda>r s'. r = Inr () \<and> took_frames P n fl s s')"
      by simp
  qed
qed

lemma map_stack_ok:
  assumes "canonical addr" and "\<forall>x. addr div psz \<le> x \<and> x \<le> addr div psz + n \<longrightarrow> canonical (x * psz)"
    and "\<forall>p. addr div psz \<le> p \<and> p < addr div psz + n \<longrightarrow> table_of s p = Free" and "4 * n \<le> card (free_of s)"
  shows "runs (map_stack ops addr n) s (\<lambda>r s'. r = Inr () \<and>
    took_frames (addr div psz) n \<lparr>PRESENT = True, WRITABLE = True, NO_EXECUTE = False\<rparr> s s')"
proof -
  let ?q = "page_containing_address ops addr"
  have q: "pnum ?q = addr div psz" by (rule page_law [OF assms(1)])
  have "canonical ((pnum ?q + n) * psz)" using assms(2) q by auto
  from page_add_law [OF this] obtain r where r: "page_add ops ?q n = Inr r" "pnum r = addr div psz + n" using q by auto
  have rng: "map pnum (page_range ops ?q r) = [addr div psz..<addr div psz + n]"
    using range_law [of ?q r] assms(2) q r(2) by simp
  show ?thesis
    unfolding map_stack_def Let_def
    by (simp add: runs_ebnd runs_lift_pure va_new_law [OF assms(1)] r(1))
      (rule alloc_map_loop [OF rng assms(3,4)])
qed

end

end
