(* ===== verification/Page_Segments.thy ===== *)
theory Page_Segments
  imports Page_Mapper
begin

text \<open>
  Loading segments. The locale \<open>elf_mapper\<close> is the contract of a mapper at the page size of the ELF loader;
  inside it a segment is followed through the steps of \<open>map_segment\<close>: its part of the file is linked to the
  frames of the buffer, the last page gets a frame of its own, the pages beyond get fresh frames, and what
  is not in the file is cleared.
\<close>

text \<open>Where a segment goes and where it comes from; \<open>K\<close> is the first frame of the buffer with the file.\<close>

definition seg_fits :: "nat \<Rightarrow> nat \<Rightarrow> segment \<Rightarrow> bool" where
  "seg_fits plim K seg \<longleftrightarrow> seg_virtual_addr seg mod 4096 = 0 \<and> seg_offset seg mod 4096 = 0 \<and> seg_file_size seg \<le> seg_mem_size seg \<and>
     K * 4096 + seg_offset seg + seg_file_size seg < plim \<and> 0 < K \<and>
     (\<forall>x. seg_virtual_addr seg \<le> x \<and> x \<le> seg_virtual_addr seg + seg_mem_size seg + 4096 \<longrightarrow> canonical x)"

abbreviation seg_page :: "segment \<Rightarrow> nat" where
  "seg_page seg \<equiv> seg_virtual_addr seg div 4096"

abbreviation seg_frame :: "nat \<Rightarrow> segment \<Rightarrow> nat" where
  "seg_frame K seg \<equiv> K + seg_offset seg div 4096"

lemma aligned: "x mod 4096 = 0 \<Longrightarrow> x div 4096 * 4096 = (x :: nat)"
  by (metis add_0_right div_mult_mod_eq)

lemma runs_lift_Inr: "r = Inr x \<Longrightarrow> runs (ebnd (lift_pure r) f) s Q = runs (f x) s Q"
  by (simp add: runs_ebnd runs_lift_pure)

locale elf_mapper = frame_mapper ops pnum fnum tbl free 4096 plim
  for ops :: "('q, 'f, 'm, 'a) paging_ops" and pnum fnum tbl free plim
begin

text \<open>
  \<open>n\<close> pages at \<open>P\<close> show the frames of the buffer from \<open>F\<close> on, directly or as a copy in a frame that was free;
  no other memory changed.
\<close>

definition loaded :: "nat \<Rightarrow> nat \<Rightarrow> nat \<Rightarrow> page_flags \<Rightarrow> (nat \<Rightarrow> nat) \<Rightarrow> ('m, 'a) boot \<Rightarrow> ('m, 'a) boot \<Rightarrow> bool" where
  "loaded P F n fl g s s' \<longleftrightarrow> table_of s' = extend P n g fl (table_of s) \<and> inj_on g {..<n} \<and>
     (\<forall>j<n. \<forall>k<4096. ram s' (g j * 4096 + k) = ram s ((F + j) * 4096 + k)) \<and>
     (\<forall>j<n. g j = F + j \<or> g j \<in> free_of s - free_of s') \<and> free_of s' \<subseteq> free_of s \<and>
     (\<forall>a. a div 4096 \<notin> free_of s - free_of s' \<longrightarrow> ram s' a = ram s a)"

lemma linked_loaded: "linked P F n fl s s' \<Longrightarrow> loaded P F n fl (\<lambda>j. F + j) s s'"
  by (simp add: linked_def loaded_def inj_on_def)

text \<open>A page beyond the file shows a frame that was free.\<close>

lemma remap_table:
  assumes "table_of s1 = extend P (Suc n) (\<lambda>j. F + j) fl (table_of s)"
  shows "((table_of s1)(P + n := Free))(P + n := Mapped N fl) = extend P (Suc n) (\<lambda>j. if j = n then N else F + j) fl (table_of s)"
  unfolding assms by (auto simp: extend_def fun_eq_iff)

lemma remap_loaded:
  assumes "linked P F (Suc n) fl s s1" and "\<forall>j \<le> n. F + j \<notin> free_of s" and "N \<in> free_of s1" and "free_of s2 \<subseteq> free_of s1 - {N}"
    and "table_of s2 = ((table_of s1)(P + n := Free))(P + n := Mapped N fl)"
    and "ram s2 = (\<lambda>a. if N * 4096 \<le> a \<and> a < N * 4096 + 4096 then ram s1 ((F + n) * 4096 + (a - N * 4096)) else ram s1 a)"
  shows "loaded P F (Suc n) fl (\<lambda>j. if j = n then N else F + j) s s2"
proof -
  have l: "ram s1 = ram s" "table_of s1 = extend P (Suc n) (\<lambda>j. F + j) fl (table_of s)" "free_of s1 \<subseteq> free_of s"
    using assms(1) by (simp_all add: linked_def)
  have N: "N \<in> free_of s - free_of s2" using assms(3,4) l(3) by auto
  have ne: "N \<noteq> F + j" if "j \<le> n" for j using assms(2) N that by auto
  have r: "ram s2 a = (if a div 4096 = N then ram s ((F + n) * 4096 + a mod 4096) else ram s a)" for a
  proof -
    have "N * 4096 \<le> a \<and> a < N * 4096 + 4096 \<longleftrightarrow> a div 4096 = N" by auto
    moreover have "a - N * 4096 = a mod 4096" if "a div 4096 = N" using that by (auto simp: minus_div_mult_eq_mod)
    ultimately show ?thesis using assms(6) l(1) by simp
  qed
  have "ram s2 ((if j = n then N else F + j) * 4096 + k) = ram s ((F + j) * 4096 + k)" if "j < Suc n" "k < 4096" for j k
    using that ne [of j] by (simp add: r)
  moreover have "inj_on (\<lambda>j. if j = n then N else F + j) {..<Suc n}"
  proof (rule inj_onI)
    fix i j
    assume "i \<in> {..<Suc n}" "j \<in> {..<Suc n}" "(if i = n then N else F + i) = (if j = n then N else F + j)"
    then show "i = j" using ne [of i] ne [of j] by (auto split: if_splits)
  qed
  ultimately show ?thesis
    unfolding loaded_def using remap_table [OF l(2)] assms(4,5) l(3) N by (auto simp: r)
qed

lemma remap_last_page_ok:
  assumes "linked P F (Suc n) fl s s1" and "\<forall>j \<le> n. F + j \<notin> free_of s" and "4 \<le> card (free_of s1)"
    and "canonical (P * 4096)" and "canonical (P * 4096 + fs)" and "canonical (P * 4096 + fs - 1)" and "0 < fs" and "(fs - 1) div 4096 = n"
    and "fnum lf = F + n"
  shows "runs (remap_last_page ops (P * 4096) fs lf fl) s1 (\<lambda>r s2. r = Inr () \<and> card (free_of s1) \<le> card (free_of s2) + 4 \<and>
    (\<exists>N. loaded P F (Suc n) fl (\<lambda>j. if j = n then N else F + j) s s2 \<and> N \<in> free_of s - free_of s2))"
proof -
  let ?q = "page_containing_address ops (P * 4096 + fs - 1)"
  have addr: "sbnd (va_add ops (P * 4096) fs) (\<lambda>a. va_sub ops a 1) = Inr (P * 4096 + fs - 1)"
    using va_add_law [OF assms(4,5)] va_sub_law [of 1 "P * 4096 + fs"] assms(6,7) by simp
  have "P * 4096 + fs - 1 = P * 4096 + (fs - 1)" using assms(7) by simp
  then have q: "pnum ?q = P + n" using page_law [OF assms(6)] assms(8) by simp
  have ne: "free_of s1 \<noteq> {}" using assms(3) by auto
  have l: "table_of s1 = extend P (Suc n) (\<lambda>j. F + j) fl (table_of s)" "free_of s1 \<subseteq> free_of s" using assms(1) by (simp_all add: linked_def)
  have "table_of s1 (pnum ?q) = Mapped (F + n) fl" using l(1) q by (simp add: extend_def)
  from unmap_law [OF this] obtain m' where m': "mapper_unmap ops ?q (page_table s1) = Inr m'" "tbl m' = (table_of s1)(P + n := Free)"
    using q by auto
  let ?Q = "\<lambda>r s2. r = Inr () \<and> card (free_of s1) \<le> card (free_of s2) + 4 \<and>
    (\<exists>N. loaded P F (Suc n) fl (\<lambda>j. if j = n then N else F + j) s s2 \<and> N \<in> free_of s - free_of s2)"
  have key: "runs (map_to ops ?q f fl) (t\<lparr>ram := (\<lambda>a. if fnum f * 4096 \<le> a \<and> a < fnum f * 4096 + 4096
      then ram t ((F + n) * 4096 + (a - fnum f * 4096)) else ram t a), page_table := m'\<rparr>) ?Q"
    if t: "fnum f \<in> free_of s1" "free_of t = free_of s1 - {fnum f}" "ram t = ram s1" for f t
  proof -
    let ?t = "t\<lparr>ram := (\<lambda>a. if fnum f * 4096 \<le> a \<and> a < fnum f * 4096 + 4096
      then ram t ((F + n) * 4096 + (a - fnum f * 4096)) else ram t a), page_table := m'\<rparr>"
    have c: "card (free_of s1) = Suc (card (free_of t))" using card_Suc_Diff1 [OF free_finite t(1)] t(2) by simp
    have pre: "table_of ?t (pnum ?q) = Free" "3 \<le> card (free_of ?t)" using m'(2) q c assms(3) by simp_all
    show ?thesis
    proof (rule runs_mono [OF map_to_ok [OF pre]], elim conjE, intro conjI exI [of _ "fnum f"])
      fix r' s2
      assume s2: "table_of s2 = (table_of ?t)(pnum ?q := Mapped (fnum f) fl)" "free_of s2 \<subseteq> free_of ?t"
        "card (free_of ?t) \<le> card (free_of s2) + 3" "ram s2 = ram ?t"
      show "card (free_of s1) \<le> card (free_of s2) + 4" using c s2(3) by simp
      show "fnum f \<in> free_of s - free_of s2" using t(1,2) s2(2) l(2) by auto
      show "loaded P F (Suc n) fl (\<lambda>j. if j = n then fnum f else F + j) s s2"
        using s2 t(2,3) m'(2) q by (intro remap_loaded [OF assms(1,2) t(1)]) (simp_all cong: if_cong)
    qed assumption
  qed
  show ?thesis
    unfolding remap_last_page_def Let_def runs_ebnd
    by (rule runs_mono [OF allocate_frame_ok [OF ne]], elim exE conjE)
      (simp add: runs_lift_pure addr runs_bnd runs_gets runs_upd copy_page_def m'(1) frame_start_law assms(9) key
        del: One_nat_def distrib_right_numeral Diff_iff)
qed

text \<open>The pages of the part of the file: \<open>cdiv fs 4096\<close> of them.\<close>

lemma file_pages:
  "0 < fs \<Longrightarrow> cdiv fs 4096 = Suc ((fs - 1) div 4096)" "cdiv 0 4096 = 0"
  "fs < ms \<Longrightarrow> cdiv fs 4096 \<le> ms div 4096 + 1" "fs \<le> cdiv fs 4096 * 4096"
  "fs mod 4096 = 0 \<Longrightarrow> cdiv fs 4096 * 4096 = fs" "cdiv (P * 4096 + fs) 4096 = P + cdiv fs 4096"
proof -
  show "0 < fs \<Longrightarrow> cdiv fs 4096 = Suc ((fs - 1) div 4096)" by (cases fs) (simp_all add: cdiv_def)
  show "cdiv 0 4096 = 0" by simp
  show "fs \<le> cdiv fs 4096 * 4096" using cdiv_ge [of 4096 fs] by (simp add: mult.commute)
  show "fs mod 4096 = 0 \<Longrightarrow> cdiv fs 4096 * 4096 = fs" by (auto simp: cdiv_def elim!: dvdE simp flip: dvd_eq_mod_eq_0)
  show "cdiv (P * 4096 + fs) 4096 = P + cdiv fs 4096"
    using div_mult_self3 [of 4096 P "fs + 4095"] by (simp add: cdiv_def add.assoc)
  assume "fs < ms"
  then have "(fs + 4095) div 4096 \<le> (ms + 4096) div 4096" by (intro div_le_mono) simp
  then show "cdiv fs 4096 \<le> ms div 4096 + 1" by (simp add: cdiv_def add.commute)
qed

lemma first_step:
  assumes "linked P F n fl s s1" and "n = cdiv fs 4096" and "\<forall>j < n. F + j \<notin> free_of s" and "4 \<le> card (free_of s1)"
    and "\<forall>x. P * 4096 \<le> x \<and> x \<le> P * 4096 + fs \<longrightarrow> canonical x" and "0 < fs \<longrightarrow> fnum lf = F + (fs - 1) div 4096"
  shows "runs (if (P * 4096 + fs) mod 4096 \<noteq> 0 then remap_last_page ops (P * 4096) fs lf fl else ok ()) s1 (\<lambda>r s2. r = Inr () \<and>
    card (free_of s1) \<le> card (free_of s2) + 4 \<and>
    (\<exists>g. loaded P F n fl g s s2 \<and> (fs mod 4096 \<noteq> 0 \<longrightarrow> g (n - 1) \<in> free_of s - free_of s2)))"
proof (cases "fs mod 4096 = 0")
  case True
  with linked_loaded [OF assms(1)] show ?thesis by (auto simp: runs_ok)
next
  case False
  then have fs: "0 < fs" by (cases fs) auto
  let ?n = "(fs - 1) div 4096"
  have n: "n = Suc ?n" using file_pages(1) [OF fs] assms(2) by simp
  have c: "canonical (P * 4096)" "canonical (P * 4096 + fs)" "canonical (P * 4096 + fs - 1)" using assms(5) fs by auto
  have d: "\<forall>j \<le> ?n. F + j \<notin> free_of s" using assms(3) n by simp
  have "runs (remap_last_page ops (P * 4096) fs lf fl) s1 (\<lambda>r s2. r = Inr () \<and> card (free_of s1) \<le> card (free_of s2) + 4 \<and>
      (\<exists>g. loaded P F n fl g s s2 \<and> (fs mod 4096 \<noteq> 0 \<longrightarrow> g (n - 1) \<in> free_of s - free_of s2)))"
    by (rule runs_mono [OF remap_last_page_ok [OF assms(1) [unfolded n] d assms(4) c fs refl assms(6) [rule_format, OF fs]]])
      (elim conjE exE, intro conjI exI, assumption, assumption, unfold n, assumption, simp)
  with False show ?thesis by simp
qed

text \<open>All pages of a segment, before what is not in the file is cleared.\<close>

definition paged :: "nat \<Rightarrow> nat \<Rightarrow> nat \<Rightarrow> nat \<Rightarrow> page_flags \<Rightarrow> (nat \<Rightarrow> nat) \<Rightarrow> ('m, 'a) boot \<Rightarrow> ('m, 'a) boot \<Rightarrow> bool" where
  "paged P F fs N fl g s s' \<longleftrightarrow> table_of s' = extend P N g fl (table_of s) \<and> inj_on g {..<N} \<and> fs \<le> N * 4096 \<and>
     (\<forall>j<N. g j \<notin> free_of s') \<and> (\<forall>i<fs. ram s' (g (i div 4096) * 4096 + i mod 4096) = ram s (F * 4096 + i)) \<and>
     (\<forall>i. fs \<le> i \<and> i < N * 4096 \<longrightarrow> g (i div 4096) \<in> free_of s - free_of s') \<and> free_of s' \<subseteq> free_of s \<and>
     (\<forall>a. a div 4096 \<notin> free_of s - free_of s' \<longrightarrow> ram s' a = ram s a)"

lemma page_split: "i < n * 4096 \<Longrightarrow> i div 4096 < (n :: nat)" "(i :: nat) div 4096 * 4096 + i mod 4096 = i"
  by (simp_all add: less_mult_imp_div_less)

lemma inj_append:
  assumes "inj_on g {..<n}" and "inj_on h {..<k}" and "\<And>i j. i < n \<Longrightarrow> j < k \<Longrightarrow> g i \<noteq> h j"
  shows "inj_on (\<lambda>j. if j < n then g j else h (j - n)) {..<n + (k :: nat)}"
proof (rule inj_onI)
  fix i j
  assume ij: "i \<in> {..<n + k}" "j \<in> {..<n + k}" "(if i < n then g i else h (i - n)) = (if j < n then g j else h (j - n))"
  consider "i < n" "j < n" | "i < n" "\<not> j < n" | "\<not> i < n" "j < n" | "\<not> i < n" "\<not> j < n" by blast
  then show "i = j"
  proof cases
    case 1
    with ij(3) assms(1) show ?thesis by (auto dest: inj_onD)
  next
    case 2
    then have "j - n < k" using ij(2) by (simp add: less_diff_conv2)
    with 2 ij(3) assms(3) [of i "j - n"] show ?thesis by simp
  next
    case 3
    then have "i - n < k" using ij(1) by (simp add: less_diff_conv2)
    with 3 ij(3) assms(3) [of j "i - n"] show ?thesis by simp
  next
    case 4
    with ij have "h (i - n) = h (j - n)" "i - n \<in> {..<k}" "j - n \<in> {..<k}" by simp_all
    with inj_onD [OF assms(2)] have "i - n = j - n" by blast
    with 4 show ?thesis by simp
  qed
qed

text \<open>Beyond the file, in the pages of the file, there is only the rest of the last page.\<close>

lemma beyond_file:
  assumes "fs \<le> i" and "i div 4096 < cdiv fs 4096"
  shows "fs mod 4096 \<noteq> 0" and "i div 4096 = cdiv fs 4096 - 1"
proof -
  show mod: "fs mod 4096 \<noteq> 0"
  proof
    assume "fs mod 4096 = 0"
    with file_pages(5) [of fs] assms(1) have "cdiv fs 4096 * 4096 \<le> i" by simp
    then have "cdiv fs 4096 \<le> i div 4096" by (simp add: less_eq_div_iff_mult_less_eq)
    with assms(2) show False by simp
  qed
  then have "cdiv fs 4096 - 1 = (fs - 1) div 4096" using file_pages(1) [of fs] by (cases fs) auto
  also have "\<dots> \<le> i div 4096" using assms(1) by (intro div_le_mono) simp
  finally show "i div 4096 = cdiv fs 4096 - 1" using assms(2) by simp
qed

text \<open>The frames of the two parts together.\<close>

abbreviation both :: "nat \<Rightarrow> (nat \<Rightarrow> nat) \<Rightarrow> (nat \<Rightarrow> nat) \<Rightarrow> nat \<Rightarrow> nat" where
  "both n g h \<equiv> \<lambda>j. if j < n then g j else h (j - n)"

lemma both_data:
  assumes "loaded P F n fl g s s2" and "ram s3 = ram s2" and "i < n * 4096"
  shows "ram s3 (both n g h (i div 4096) * 4096 + i mod 4096) = ram s (F * 4096 + i)"
proof -
  have "i div 4096 < n" by (rule page_split(1) [OF assms(3)])
  moreover have "(F + i div 4096) * 4096 + i mod 4096 = F * 4096 + i" using page_split(2) [of i] by (simp add: algebra_simps)
  moreover have "ram s2 (g j * 4096 + x) = ram s ((F + j) * 4096 + x)" if "j < n" "x < 4096" for j x
    using assms(1) that by (simp add: loaded_def)
  ultimately show ?thesis using assms(2) by (simp add: add.commute)
qed

lemma both_fresh:
  assumes "loaded P F n fl g s s2" and n: "n = cdiv fs 4096" and "fs mod 4096 \<noteq> 0 \<longrightarrow> g (n - 1) \<in> free_of s - free_of s2"
    and "\<And>j. j < k \<Longrightarrow> h j \<in> free_of s2 - free_of s3" and "free_of s3 \<subseteq> free_of s2" and i: "fs \<le> i" "i < (n + k) * 4096"
  shows "both n g h (i div 4096) \<in> free_of s - free_of s3"
proof (cases "i div 4096 < n")
  case True
  with beyond_file [OF i(1)] n have "fs mod 4096 \<noteq> 0" "i div 4096 = n - 1" by auto
  with assms(3,5) True show ?thesis by auto
next
  case False
  have "i div 4096 - n < k" using page_split(1) [OF i(2)] False by simp
  moreover have "free_of s2 \<subseteq> free_of s" using assms(1) by (simp add: loaded_def)
  ultimately show ?thesis using assms(4) [of "i div 4096 - n"] False by auto
qed

lemma loaded_paged:
  assumes "loaded P F n fl g s s2" and "n = cdiv fs 4096" and "fs mod 4096 \<noteq> 0 \<longrightarrow> g (n - 1) \<in> free_of s - free_of s2"
    and "\<forall>j < n. F + j \<notin> free_of s" and "took_frames (P + n) k fl s2 s3"
  shows "\<exists>g. paged P F fs (n + k) fl g s s3"
proof -
  have l: "table_of s2 = extend P n g fl (table_of s)" "inj_on g {..<n}" "\<And>j. j < n \<Longrightarrow> g j = F + j \<or> g j \<in> free_of s - free_of s2"
    "free_of s2 \<subseteq> free_of s" "\<And>a. a div 4096 \<notin> free_of s - free_of s2 \<Longrightarrow> ram s2 a = ram s a"
    using assms(1) by (simp_all add: loaded_def)
  from assms(5) obtain h where h: "inj_on h {..<k}" "h ` {..<k} \<subseteq> free_of s2 - free_of s3"
    "table_of s3 = extend (P + n) k h fl (table_of s2)" "free_of s3 \<subseteq> free_of s2" "ram s3 = ram s2"
    by (auto simp: took_frames_def)
  have hin: "h j \<in> free_of s2 - free_of s3" if "j < k" for j using h(2) that by blast
  have gout: "g j \<notin> free_of s2" if "j < n" for j using l(3) [OF that] l(4) assms(4) that by auto
  have fs: "fs \<le> n * 4096" using file_pages(4) assms(2) by simp
  have inj: "inj_on (both n g h) {..<n + k}"
  proof (rule inj_append [OF l(2) h(1)])
    fix i j
    assume "i < n" "j < k"
    with gout [of i] hin [of j] show "g i \<noteq> h j" by auto
  qed
  have tab: "table_of s3 = extend P (n + k) (both n g h) fl (table_of s)"
    using extend_append [of P n k h fl g "table_of s"] l(1) h(3) by simp
  have notin: "\<forall>j < n + k. both n g h j \<notin> free_of s3"
  proof (intro allI impI)
    fix j
    assume "j < n + k"
    then show "both n g h j \<notin> free_of s3" using gout [of j] hin [of "j - n"] h(4) by auto
  qed
  have kept: "\<forall>a. a div 4096 \<notin> free_of s - free_of s3 \<longrightarrow> ram s3 a = ram s a" using h(4,5) l(5) by auto
  have data: "\<forall>i < fs. ram s3 (both n g h (i div 4096) * 4096 + i mod 4096) = ram s (F * 4096 + i)"
    using fs by (intro allI impI both_data [OF assms(1) h(5)]) simp
  have fresh: "\<forall>i. fs \<le> i \<and> i < (n + k) * 4096 \<longrightarrow> both n g h (i div 4096) \<in> free_of s - free_of s3"
    using hin by (intro allI impI, elim conjE, intro both_fresh [OF assms(1-3) _ h(4)]) simp_all
  have sub: "fs \<le> (n + k) * 4096" "free_of s3 \<subseteq> free_of s" using fs h(4) l(4) by auto
  show ?thesis
    unfolding paged_def by (rule exI [of _ "both n g h"], intro conjI tab inj sub notin data fresh kept)
qed

text \<open>What \<open>map_segment\<close> achieves: the segment can be read at its addresses, and nothing else changed.\<close>

definition seg_done :: "nat \<Rightarrow> nat \<Rightarrow> nat \<Rightarrow> nat \<Rightarrow> page_flags \<Rightarrow> ('m, 'a) boot \<Rightarrow> ('m, 'a) boot \<Rightarrow> bool" where
  "seg_done P F fs ms fl s s' \<longleftrightarrow>
     (\<forall>i<ms. \<exists>pa. translate ops (page_table s') (P * 4096 + i) = Some pa \<and> pa div 4096 \<notin> free_of s' \<and>
        ram s' pa = (if i < fs then ram s (F * 4096 + i) else 0)) \<and>
     (\<forall>p. p < P \<or> P + ms div 4096 < p \<longrightarrow> table_of s' p = table_of s p) \<and>
     (\<forall>p. P \<le> p \<and> p * 4096 < P * 4096 + ms \<longrightarrow> (\<exists>f. table_of s' p = Mapped f fl)) \<and>
     free_of s' \<subseteq> free_of s \<and> (\<forall>a. a div 4096 \<notin> free_of s - free_of s' \<longrightarrow> ram s' a = ram s a)"

lemma extend_page: "table_of s = extend P N g fl t \<Longrightarrow> ms \<le> N * 4096 \<Longrightarrow> P \<le> p \<Longrightarrow> p * 4096 < P * 4096 + ms \<Longrightarrow>
  \<exists>f. table_of s p = Mapped f fl"
  by (auto simp: extend_def)

lemma extend_outside: "N \<le> ms div 4096 + 1 \<Longrightarrow> p < P \<or> P + ms div 4096 < p \<Longrightarrow> extend P N g fl t p = t p"
  by (auto simp: extend_def)

lemma file_done:
  assumes "linked P F n fl s s1" and "n = cdiv fs 4096" and "\<forall>j < n. F + j \<notin> free_of s"
    and "\<forall>x. P * 4096 \<le> x \<and> x \<le> P * 4096 + fs \<longrightarrow> canonical x"
  shows "seg_done P F fs fs fl s s1"
proof -
  have l: "ram s1 = ram s" "table_of s1 = extend P n (\<lambda>j. F + j) fl (table_of s)" "free_of s1 \<subseteq> free_of s"
    using assms(1) by (simp_all add: linked_def)
  have fs: "fs \<le> n * 4096" using file_pages(4) assms(2) by simp
  have n: "n \<le> fs div 4096 + 1" using cdiv_mono [of 4096 fs "fs + 1"] file_pages(3) [of fs "Suc fs"] file_pages(1) [of fs] assms(2)
    by (cases fs) (auto intro: div_le_mono)
  have "\<exists>pa. translate ops (page_table s1) (P * 4096 + i) = Some pa \<and> pa div 4096 \<notin> free_of s1 \<and>
      ram s1 pa = (if i < fs then ram s (F * 4096 + i) else 0)" if "i < fs" for i
  proof (intro exI conjI)
    show "translate ops (page_table s1) (P * 4096 + i) = Some ((F + i div 4096) * 4096 + i mod 4096)"
      using that fs assms(4) by (intro translate_extend [OF l(2)]) auto
    have "i div 4096 < n" using that fs by (intro page_split) simp
    then show "((F + i div 4096) * 4096 + i mod 4096) div 4096 \<notin> free_of s1" using assms(3) l(3) by auto
    show "ram s1 ((F + i div 4096) * 4096 + i mod 4096) = (if i < fs then ram s (F * 4096 + i) else 0)"
      using that l(1) page_split(2) [of i] by (simp add: add.assoc)
  qed
  then show ?thesis
    unfolding seg_done_def using l extend_page [OF l(2) fs] extend_outside [OF n] by auto
qed

text \<open>The address in memory of byte \<open>i\<close> of a segment.\<close>

definition phys :: "(nat \<Rightarrow> nat) \<Rightarrow> nat \<Rightarrow> nat" where
  "phys g i = g (i div 4096) * 4096 + i mod 4096"

lemma phys_div [simp]: "phys g i div 4096 = g (i div 4096)"
  by (simp add: phys_def)

lemma phys_inj:
  assumes "inj_on g {..<N}" and "i < N * 4096" and "j < N * 4096" and "phys g i = phys g j"
  shows "i = j"
proof -
  have d: "i div 4096 < N" "j div 4096 < N" using assms(2,3) by (auto intro: page_split)
  have "phys g i mod 4096 = phys g j mod 4096" "phys g i div 4096 = phys g j div 4096" using assms(4) by simp_all
  then have "g (i div 4096) = g (j div 4096)" "i mod 4096 = j mod 4096" by (simp_all add: phys_def)
  with assms(1) d have "i div 4096 = j div 4096" by (auto dest: inj_onD)
  with \<open>i mod 4096 = j mod 4096\<close> show ?thesis by (metis mod_mult_div_eq)
qed

lemma paged_translate:
  assumes "paged P F fs N fl g s s3" and "i < ms" and "ms \<le> N * 4096" and "\<forall>x. P * 4096 \<le> x \<and> x \<le> P * 4096 + ms \<longrightarrow> canonical x"
  shows "translate ops (page_table s3) (P * 4096 + i) = Some (phys g i)"
proof -
  have t: "table_of s3 = extend P N g fl (table_of s)" using assms(1) by (simp add: paged_def)
  show ?thesis unfolding phys_def using assms(2-4) by (intro translate_extend [OF t]) auto
qed

lemma cleared:
  assumes "\<And>i. i < ms \<Longrightarrow> translate ops m (A + i) = Some (phys g i)"
  shows "(\<exists>i<ms - fs. translate ops m (A + fs + i) = Some a) \<longleftrightarrow> (\<exists>i. fs \<le> i \<and> i < ms \<and> a = phys g i)"
proof
  assume "\<exists>i<ms - fs. translate ops m (A + fs + i) = Some a"
  then obtain i where "i < ms - fs" "translate ops m (A + (fs + i)) = Some a" by (auto simp: add.assoc)
  with assms [of "fs + i"] show "\<exists>i. fs \<le> i \<and> i < ms \<and> a = phys g i" by (intro exI [of _ "fs + i"]) auto
next
  assume "\<exists>i. fs \<le> i \<and> i < ms \<and> a = phys g i"
  then obtain i where i: "fs \<le> i" "i < ms" "a = phys g i" by blast
  with assms [of i] show "\<exists>i<ms - fs. translate ops m (A + fs + i) = Some a" by (intro exI [of _ "i - fs"]) auto
qed

text \<open>Memory once everything beyond the file is cleared.\<close>

lemma cleared_ram:
  assumes p: "paged P F fs N fl g s s3" and ms: "ms \<le> N * 4096"
    and r: "\<And>a. ram s' a = (if \<exists>i. fs \<le> i \<and> i < ms \<and> a = phys g i then 0 else ram s3 a)"
  shows "i < ms \<Longrightarrow> ram s' (phys g i) = (if i < fs then ram s (F * 4096 + i) else 0)"
    and "a div 4096 \<notin> free_of s - free_of s3 \<Longrightarrow> ram s' a = ram s a"
proof -
  assume i: "i < ms"
  show "ram s' (phys g i) = (if i < fs then ram s (F * 4096 + i) else 0)"
  proof (cases "i < fs")
    case True
    have "i \<noteq> j \<longrightarrow> phys g i \<noteq> phys g j" if "j < ms" for j using phys_inj [of g N i j] p i that ms by (auto simp: paged_def)
    with True have "\<not> (\<exists>j. fs \<le> j \<and> j < ms \<and> phys g i = phys g j)" by force
    with True r [of "phys g i"] p show ?thesis by (auto simp: paged_def phys_def)
  next
    case False
    with i have "\<exists>j. fs \<le> j \<and> j < ms \<and> phys g i = phys g j" by (intro exI [of _ i]) simp
    with False r [of "phys g i"] show ?thesis by simp
  qed
next
  assume a: "a div 4096 \<notin> free_of s - free_of s3"
  have "g (i div 4096) \<in> free_of s - free_of s3" if "fs \<le> i" "i < ms" for i using p that ms by (simp add: paged_def)
  with a have "\<not> (\<exists>i. fs \<le> i \<and> i < ms \<and> a = phys g i)" by (metis phys_div)
  with a r [of a] p show "ram s' a = ram s a" by (auto simp: paged_def)
qed

lemma zeros_done:
  assumes p: "paged P F fs N fl g s s3" and "fs \<le> ms" and ms: "ms \<le> N * 4096" and N: "N \<le> ms div 4096 + 1"
    and can: "\<forall>x. P * 4096 \<le> x \<and> x \<le> P * 4096 + ms \<longrightarrow> canonical x"
  shows "runs (write_zeros ops (P * 4096 + fs) (ms - fs)) s3 (\<lambda>_ s'. seg_done P F fs ms fl s s' \<and> frame_allocator s' = frame_allocator s3)"
proof -
  note tr = paged_translate [OF p _ ms can]
  have def: "\<forall>i<ms - fs. translate ops (page_table s3) (P * 4096 + fs + i) \<noteq> None" using tr by (simp add: add.assoc)
  have cl: "(\<exists>i<ms - fs. translate ops (page_table s3) (P * 4096 + fs + i) = Some a) \<longleftrightarrow> (\<exists>i. fs \<le> i \<and> i < ms \<and> a = phys g i)" for a
    by (rule cleared) (rule tr)
  have p': "table_of s3 = extend P N g fl (table_of s)" "free_of s3 \<subseteq> free_of s" "\<And>j. j < N \<Longrightarrow> g j \<notin> free_of s3"
    using p by (simp_all add: paged_def)
  show ?thesis
  proof (rule runs_mono [OF write_zeros_ok [OF def]], elim conjE, rule conjI)
    fix u and s' :: "('m, 'a) boot"
    assume s': "page_table s' = page_table s3" "frame_allocator s' = frame_allocator s3"
      "\<forall>a. ram s' a = (if \<exists>i<ms - fs. translate ops (page_table s3) (P * 4096 + fs + i) = Some a then 0 else ram s3 a)"
    have r: "ram s' a = (if \<exists>i. fs \<le> i \<and> i < ms \<and> a = phys g i then 0 else ram s3 a)" for a
      using s'(3) [rule_format, of a] unfolding cl .
    note cr = cleared_ram [OF p ms r]
    have "\<exists>x. translate ops (page_table s') (P * 4096 + i) = Some x \<and> x div 4096 \<notin> free_of s' \<and>
        ram s' x = (if i < fs then ram s (F * 4096 + i) else 0)" if "i < ms" for i
    proof (intro exI conjI)
      show "translate ops (page_table s') (P * 4096 + i) = Some (phys g i)" using tr [OF that] s'(1) by simp
      have "i div 4096 < N" using that ms by (auto intro: page_split)
      with p'(3) show "phys g i div 4096 \<notin> free_of s'" using s'(2) by simp
    qed (rule cr(1) [OF that])
    moreover have "table_of s' = extend P N g fl (table_of s)" using p'(1) s'(1) by simp
    ultimately show "seg_done P F fs ms fl s s'"
      unfolding seg_done_def using extend_page [of s' P N g fl "table_of s" ms] ms extend_outside [OF N] p'(2) s'(2) cr(2) by auto
  qed assumption
qed

text \<open>The pages beyond the file, and clearing what is not in it.\<close>

lemma bss_pages:
  assumes "n \<le> ms div 4096 + 1" and can: "\<forall>x. P * 4096 \<le> x \<and> x \<le> P * 4096 + ms + 4096 \<longrightarrow> canonical x" and k: "n + k = ms div 4096 + 1"
  shows "canonical ((P + n) * 4096)"
    and "map pnum (page_range_inclusive ops (page_containing_address ops ((P + n) * 4096)) (page_containing_address ops (P * 4096 + ms))) =
      [P + n..<P + n + k]"
proof -
  let ?z = "(P + n) * 4096" and ?e = "page_containing_address ops (P * 4096 + ms)"
  have "n * 4096 \<le> (ms div 4096 + 1) * 4096" using assms(1) by (rule mult_le_mono1)
  also have "\<dots> \<le> ms + 4096" by simp
  finally show cz: "canonical ?z" using can by (simp add: algebra_simps)
  have "canonical (P * 4096 + ms)" using can by simp
  then have q: "pnum (page_containing_address ops ?z) = P + n" "pnum ?e = P + ms div 4096"
    using page_law [OF cz] page_law [of "P * 4096 + ms"] by simp_all
  have "canonical (x * 4096)" if "P + n \<le> x" "x \<le> P + ms div 4096" for x
  proof -
    have "x * 4096 \<le> (P + ms div 4096) * 4096" using that(2) by (intro mult_le_mono1)
    also have "\<dots> \<le> P * 4096 + ms" by (simp add: distrib_right)
    finally show ?thesis using that(1) can by simp
  qed
  moreover have "P + n + k = Suc (P + ms div 4096)" using k by simp
  ultimately show "map pnum (page_range_inclusive ops (page_containing_address ops ?z) ?e) = [P + n..<P + n + k]"
    using range_inclusive_law [of "page_containing_address ops ?z" ?e] unfolding q by metis
qed

lemma bss_tail:
  assumes "loaded P F n fl g s s2" and n: "n = cdiv fs 4096" and "fs mod 4096 \<noteq> 0 \<longrightarrow> g (n - 1) \<in> free_of s - free_of s2"
    and "\<forall>j < n. F + j \<notin> free_of s" and "fs < ms" and can: "\<forall>x. P * 4096 \<le> x \<and> x \<le> P * 4096 + ms + 4096 \<longrightarrow> canonical x"
    and none: "\<forall>p. P \<le> p \<and> p \<le> P + ms div 4096 \<longrightarrow> table_of s p = Free"
    and k: "n + k = ms div 4096 + 1" and room: "4 * k \<le> card (free_of s2)"
    and rng: "map pnum qs = [P + n..<P + n + k]"
  shows "runs (ebnd (each_ok qs (\<lambda>page. ebnd (allocate_frame ops) (\<lambda>frame. map_to ops page frame fl)))
      (\<lambda>_. bnd (write_zeros ops (P * 4096 + fs) (ms - fs)) (\<lambda>_. ok ()))) s2 (\<lambda>r s'. r = Inr () \<and> seg_done P F fs ms fl s s' \<and>
        card (free_of s2) \<le> card (free_of s') + 4 * k)"
proof -
  have pre: "\<forall>p. P + n \<le> p \<and> p < P + n + k \<longrightarrow> table_of s2 p = Free" using none k assms(1) by (auto simp: loaded_def extend_def)
  show ?thesis
    unfolding runs_ebnd
  proof (rule runs_mono [OF alloc_map_loop [OF rng pre room]], elim conjE, simp add: runs_bnd runs_ok)
    fix s3
    assume t: "took_frames (P + n) k fl s2 s3"
    then have f: "card (free_of s2) \<le> card (free_of s3) + 4 * k" by (auto simp: took_frames_def)
    from loaded_paged [OF assms(1) n assms(3,4) t] k obtain h where h: "paged P F fs (ms div 4096 + 1) fl h s s3" by auto
    have "runs (write_zeros ops (P * 4096 + fs) (ms - fs)) s3 (\<lambda>_ s'. seg_done P F fs ms fl s s' \<and> frame_allocator s' = frame_allocator s3)"
      using assms(5) can by (intro zeros_done [OF h]) auto
    then show "runs (write_zeros ops (P * 4096 + fs) (ms - fs)) s3 (\<lambda>_ s'. seg_done P F fs ms fl s s' \<and>
        card (free_of s2) \<le> card (free_of s') + 4 * k)"
      by (rule runs_mono) (use f in auto)
  qed
qed

lemma map_bss_ok:
  assumes "linked P F n fl s s1" and n: "n = cdiv fs 4096" and buf: "\<forall>j < n. F + j \<notin> free_of s" and fs: "fs < ms"
    and can: "\<forall>x. P * 4096 \<le> x \<and> x \<le> P * 4096 + ms + 4096 \<longrightarrow> canonical x"
    and none: "\<forall>p. P \<le> p \<and> p \<le> P + ms div 4096 \<longrightarrow> table_of s p = Free"
    and k: "n + k = ms div 4096 + 1" and room: "4 + 4 * k \<le> card (free_of s1)" and lf: "0 < fs \<longrightarrow> fnum lf = F + (fs - 1) div 4096"
  shows "runs (map_bss ops (P * 4096) fs ms lf fl) s1 (\<lambda>r s'. r = Inr () \<and> seg_done P F fs ms fl s s' \<and>
    card (free_of s1) \<le> card (free_of s') + 4 + 4 * k)"
    (is "runs _ _ ?Q")
proof -
  let ?z = "(P + n) * 4096" and ?e = "page_containing_address ops (P * 4096 + ms)"
  have c: "canonical (P * 4096)" "canonical (P * 4096 + fs)" "canonical (P * 4096 + ms)" using can fs by auto
  have cfs: "\<forall>x. P * 4096 \<le> x \<and> x \<le> P * 4096 + fs \<longrightarrow> canonical x" using can fs by auto
  have nk: "n \<le> ms div 4096 + 1" using k by simp
  note cz = bss_pages(1) [OF nk can k] and rng = bss_pages(2) [OF nk can k]
  have "?z < U64_RANGE" using cz by (auto simp: canonical_def U64_RANGE_def)
  then have al: "sbnd (align_up ops (P * 4096 + fs) 4096) (va_new ops) = Inr ?z"
    using align_law [of "P * 4096 + fs"] file_pages(6) [of P fs] n va_new_law [OF cz] by simp
  have fst: "4 \<le> card (free_of s1)" using room by simp
  show ?thesis
    unfolding map_bss_def Let_def runs_lift_Inr [OF va_add_law [OF c(1,2)]] runs_lift_Inr [OF va_add_law [OF c(1,3)]] runs_lift_Inr [OF al]
      runs_ebnd [of "if _ then _ else _"]
  proof (rule runs_mono [OF first_step [OF assms(1) n buf fst cfs lf]], elim conjE exE)
    fix r :: "map_to_error + unit" and s2 g
    assume s2: "r = Inr ()" "card (free_of s1) \<le> card (free_of s2) + 4" "loaded P F n fl g s s2"
      "fs mod 4096 \<noteq> 0 \<longrightarrow> g (n - 1) \<in> free_of s - free_of s2"
    have r2: "4 * k \<le> card (free_of s2)" using s2(2) room by simp
    have "runs (ebnd (each_ok (page_range_inclusive ops (page_containing_address ops ?z) ?e) (\<lambda>page.
        ebnd (allocate_frame ops) (\<lambda>frame. map_to ops page frame fl))) (\<lambda>_. bnd (write_zeros ops (P * 4096 + fs) (ms - fs)) (\<lambda>_. ok ()))) s2 ?Q"
      by (rule runs_mono [OF bss_tail [OF s2(3) n s2(4) buf fs can none k r2 rng]]) (use s2(2) in auto)
    with s2(1) show "case r of Inl e \<Rightarrow> ?Q (Inl e) s2 | Inr x \<Rightarrow> runs (ebnd (each_ok (page_range_inclusive ops (page_containing_address ops ?z) ?e) (\<lambda>page.
        ebnd (allocate_frame ops) (\<lambda>frame. map_to ops page frame fl))) (\<lambda>_. bnd (write_zeros ops (P * 4096 + fs) (ms - fs)) (\<lambda>_. ok ()))) s2 ?Q"
      by (simp only: sum.case)
  qed
qed

text \<open>A whole segment whose address and offset are aligned.\<close>

abbreviation seg_loaded :: "nat \<Rightarrow> segment \<Rightarrow> ('m, 'a) boot \<Rightarrow> ('m, 'a) boot \<Rightarrow> bool" where
  "seg_loaded K seg s s' \<equiv> seg_done (seg_page seg) (seg_frame K seg) (seg_file_size seg) (seg_mem_size seg) (segment_flags seg) s s'"

lemma file_frames:
  assumes "0 < F" and "F * 4096 + fs < plim" and "n = cdiv fs 4096"
  shows "map fnum (frame_range_inclusive ops (frame_containing_address ops (F * 4096)) (frame_containing_address ops (F * 4096 + fs - 1))) = [F..<F + n]"
    and "0 < fs \<longrightarrow> fnum (frame_containing_address ops (F * 4096 + fs - 1)) = F + (fs - 1) div 4096"
proof -
  have f: "fnum (frame_containing_address ops (F * 4096)) = F"
    "fnum (frame_containing_address ops (F * 4096 + fs - 1)) = (F * 4096 + fs - 1) div 4096"
    using frame_law [of "F * 4096"] frame_law [of "F * 4096 + fs - 1"] assms(2) by simp_all
  have pos: "(F * 4096 + fs - 1) div 4096 = F + (fs - 1) div 4096" if "0 < fs"
  proof -
    have "F * 4096 + fs - 1 = F * 4096 + (fs - 1)" using that by simp
    then show ?thesis by simp
  qed
  show "0 < fs \<longrightarrow> fnum (frame_containing_address ops (F * 4096 + fs - 1)) = F + (fs - 1) div 4096" using f(2) pos by simp
  have "Suc ((F * 4096 + fs - 1) div 4096) = F + n"
  proof (cases "fs = 0")
    case True
    obtain G where "F = Suc G" using assms(1) by (cases F) auto
    then have "(F * 4096 - 1) div 4096 = G" by simp
    with True \<open>F = Suc G\<close> assms(3) show ?thesis by simp
  next
    case False
    with pos file_pages(1) [of fs] assms(3) show ?thesis by simp
  qed
  then show "map fnum (frame_range_inclusive ops (frame_containing_address ops (F * 4096)) (frame_containing_address ops (F * 4096 + fs - 1))) = [F..<F + n]"
    using frame_range_law [of "frame_containing_address ops (F * 4096)" "frame_containing_address ops (F * 4096 + fs - 1)"] f by metis
qed

lemma page_count: "fs \<le> ms \<Longrightarrow> cdiv fs 4096 \<le> ms div 4096 + 1"
  using file_pages(3) [of fs "Suc ms"] file_pages(1) [of fs] file_pages(3) [of fs ms]
  by (cases "fs = ms"; cases fs) (auto intro: div_le_mono)

text \<open>The pages of the first loop: one for each frame of the file.\<close>

lemma file_links:
  assumes "canonical V" and "0 < F" and "F * 4096 + fs < plim" and n: "n = cdiv fs 4096"
    and can: "\<And>j. j < n \<Longrightarrow> canonical ((V div 4096 + j) * 4096)"
  shows "\<forall>f \<in> set (frame_range_inclusive ops (frame_containing_address ops (F * 4096)) (frame_containing_address ops (F * 4096 + fs - 1))).
    \<exists>q. page_add ops (page_containing_address ops V) (frame_minus ops f (frame_containing_address ops (F * 4096))) = Inr q \<and>
      pnum q + F = V div 4096 + fnum f"
proof
  let ?sf = "frame_containing_address ops (F * 4096)"
  fix f
  assume "f \<in> set (frame_range_inclusive ops ?sf (frame_containing_address ops (F * 4096 + fs - 1)))"
  then have "fnum f \<in> set [F..<F + n]" unfolding file_frames(1) [OF assms(2,3) n, symmetric] by simp
  then have f: "F \<le> fnum f" "fnum f - F < n" by auto
  have "canonical ((V div 4096 + (fnum f - F)) * 4096)" by (rule can [OF f(2)])
  with page_add_law [of "page_containing_address ops V" "fnum f - F"] page_law [OF assms(1)] frame_minus_law [of ?sf f] frame_law [of "F * 4096"] assms(3) f(1)
  show "\<exists>q. page_add ops (page_containing_address ops V) (frame_minus ops f ?sf) = Inr q \<and> pnum q + F = V div 4096 + fnum f" by auto
qed

lemma file_page_in: "j < cdiv fs 4096 \<Longrightarrow> j * 4096 < fs"
  using file_pages(1) [of fs] file_pages(2) by (cases "fs = 0") (auto simp: less_Suc_eq_le less_eq_div_iff_mult_less_eq)

text \<open>The last step of a segment, whether or not it has memory beyond the file.\<close>

lemma segment_rest:
  assumes l: "linked P F n fl s s1" and n: "n = cdiv fs 4096" and buf: "\<forall>j < n. F + j \<notin> free_of s" and fs: "fs \<le> ms"
    and can: "\<forall>x. P * 4096 \<le> x \<and> x \<le> P * 4096 + ms + 4096 \<longrightarrow> canonical x"
    and none: "\<forall>p. P \<le> p \<and> p \<le> P + ms div 4096 \<longrightarrow> table_of s p = Free"
    and room: "4 * (ms div 4096 + 2) \<le> card (free_of s)" and lf: "0 < fs \<longrightarrow> fnum lf = F + (fs - 1) div 4096"
  shows "runs (if fs < ms then map_bss ops (P * 4096) fs ms lf fl else ok ()) s1 (\<lambda>r s'. r = Inr () \<and> seg_done P F fs ms fl s s' \<and>
    card (free_of s) \<le> card (free_of s') + 4 * (ms div 4096 + 2))"
proof (cases "fs < ms")
  case True
  obtain k where k: "n + k = ms div 4096 + 1" using page_count [OF fs] n le_Suc_ex by metis
  have c: "card (free_of s) \<le> card (free_of s1) + 3 * n" using l by (simp add: linked_def)
  have c4: "4 + 4 * k \<le> card (free_of s1)" using c k room by simp
  show ?thesis
    by (simp only: True if_True) (rule runs_mono [OF map_bss_ok [OF l n buf True can none k c4 lf]], use c k in auto)
next
  case False
  with fs have e: "fs = ms" by simp
  have "seg_done P F fs fs fl s s1" by (rule file_done [OF l n buf]) (use can e in auto)
  with False e l page_count [OF fs] n show ?thesis by (auto simp: runs_ok linked_def)
qed

lemma map_segment_ok:
  assumes "seg_load seg = Some True" and fits: "seg_fits plim K seg"
    and none: "\<forall>p. seg_page seg \<le> p \<and> p \<le> seg_page seg + seg_mem_size seg div 4096 \<longrightarrow> table_of s p = Free"
    and buf: "\<forall>f. seg_frame K seg \<le> f \<and> f * 4096 < seg_frame K seg * 4096 + seg_file_size seg \<longrightarrow> f \<notin> free_of s"
    and room: "4 * (seg_mem_size seg div 4096 + 2) \<le> card (free_of s)"
  shows "runs (map_segment ops seg (K * 4096)) s (\<lambda>r s'. r = Inr () \<and> seg_loaded K seg s s' \<and>
    card (free_of s) \<le> card (free_of s') + 4 * (seg_mem_size seg div 4096 + 2))"
    (is "runs _ _ ?Q")
proof -
  let ?P = "seg_page seg" and ?F = "seg_frame K seg" and ?fs = "seg_file_size seg" and ?ms = "seg_mem_size seg" and ?fl = "segment_flags seg"
  let ?lf = "frame_containing_address ops (?F * 4096 + ?fs - 1)"
  define n where "n = cdiv ?fs 4096"
  have v: "?P * 4096 = seg_virtual_addr seg" and o: "seg_offset seg div 4096 * 4096 = seg_offset seg"
    using fits by (simp_all add: seg_fits_def aligned)
  have f: "?F * 4096 = K * 4096 + seg_offset seg" using o by (simp add: distrib_right)
  have ale: "?fs \<le> ?ms" "0 < ?F" "?F * 4096 + ?fs < plim" using fits f by (simp_all add: seg_fits_def)
  have can: "\<forall>x. ?P * 4096 \<le> x \<and> x \<le> ?P * 4096 + ?ms + 4096 \<longrightarrow> canonical x" using fits v by (simp add: seg_fits_def)
  have pa: "pa_add ops (K * 4096) (seg_offset seg div 4096 * 4096) = Inr (?F * 4096)"
    using pa_add_law [of "K * 4096" "seg_offset seg"] ale(3) unfolding o f by simp
  have cV: "canonical (?P * 4096)" using can by simp
  have va: "va_new ops (seg_virtual_addr seg) = Inr (?P * 4096)" using va_new_law [OF cV] unfolding v by simp
  have en: "sbnd (pa_add ops (?F * 4096) ?fs) (\<lambda>a. pa_sub ops a 1) = Inr (?F * 4096 + ?fs - 1)"
    using pa_add_law [OF ale(3)] pa_sub_law [of 1 "?F * 4096 + ?fs"] ale(2,3) by simp
  note fr = file_frames [OF ale(2,3) n_def]
  have nN: "n \<le> ?ms div 4096 + 1" unfolding n_def by (rule page_count [OF ale(1)])
  have inside: "j * 4096 < ?fs" if "j < n" for j using file_page_in that unfolding n_def .
  have pg: "canonical ((?P * 4096 div 4096 + j) * 4096)" if "j < n" for j using can inside [OF that] ale(1) by (simp add: distrib_right)
  have t: "\<forall>p. ?P \<le> p \<and> p < ?P + n \<longrightarrow> table_of s p = Free" "3 * n \<le> card (free_of s)" using none nN room by auto
  have bufn: "\<forall>j<n. ?F + j \<notin> free_of s" using buf inside by (simp add: distrib_right)
  note links = file_links [OF cV ale(2,3) n_def pg, unfolded nonzero_mult_div_cancel_right [OF zero_neq_numeral [symmetric]]]
  show ?thesis
    unfolding map_segment_def Let_def assms(1) option.case bool.case runs_lift_Inr [OF pa] runs_lift_Inr [OF va] runs_lift_Inr [OF en]
      runs_ebnd [of "each_ok _ _"]
  proof (rule runs_mono [OF link_loop [OF fr(1) t links]], assumption, elim conjE)
    fix r :: "map_to_error + unit" and s1
    assume "r = Inr ()" "linked ?P ?F n ?fl s s1"
    with segment_rest [OF _ n_def bufn ale(1) can none room fr(2)] show "case r of Inl e \<Rightarrow> ?Q (Inl e) s1 | Inr x \<Rightarrow>
        runs (if ?fs < ?ms then map_bss ops (?P * 4096) ?fs ?ms ?lf ?fl else ok ()) s1 ?Q" by (simp only: sum.case)
  qed
qed

end

end
