(* ===== verification/Page_Elf.thy ===== *)
theory Page_Elf
  imports Page_Segments
begin

text \<open>
  Loading a whole ELF file: the segments one after the other. What one segment put in memory stays there,
  because the pages of the others are different and later steps only write to frames that were still free.
\<close>

definition loads :: "segment list \<Rightarrow> segment list" where
  "loads segs = filter (\<lambda>seg. seg_load seg = Some True) segs"

definition seg_pages :: "segment \<Rightarrow> nat set" where
  "seg_pages seg = {seg_page seg..seg_page seg + seg_mem_size seg div 4096}"

definition seg_frames :: "nat \<Rightarrow> segment \<Rightarrow> nat set" where
  "seg_frames K seg = {f. seg_frame K seg \<le> f \<and> f * 4096 < seg_frame K seg * 4096 + seg_file_size seg}"

definition frames_needed :: "segment \<Rightarrow> nat" where
  "frames_needed seg = 4 * (seg_mem_size seg div 4096 + 2)"

definition elf_fits :: "nat \<Rightarrow> nat \<Rightarrow> segment list \<Rightarrow> bool" where
  "elf_fits plim K segs \<longleftrightarrow> K * 4096 < plim \<and> (\<forall>seg \<in> set segs. seg_load seg \<noteq> None) \<and> (\<forall>seg \<in> set (loads segs). seg_fits plim K seg) \<and>
     sorted_wrt (\<lambda>a b. seg_pages a \<inter> seg_pages b = {}) (loads segs)"

text \<open>The memory behind the addresses of a segment after loading.\<close>

definition seg_shown :: "('q, 'f, 'm, 'a) paging_ops \<Rightarrow> ('a \<Rightarrow> nat set) \<Rightarrow> nat \<Rightarrow> segment \<Rightarrow> ('m, 'a) boot \<Rightarrow> ('m, 'a) boot \<Rightarrow> bool" where
  "seg_shown ops free K seg s s' \<longleftrightarrow> (\<forall>i < seg_mem_size seg. \<exists>pa. translate ops (page_table s') (seg_virtual_addr seg + i) = Some pa \<and>
     pa div 4096 \<notin> free (frame_allocator s') \<and>
     ram s' pa = (if i < seg_file_size seg then ram s (K * 4096 + seg_offset seg + i) else 0))"

lemma elf_fits_Cons:
  assumes "elf_fits plim K (seg # segs)"
  shows "elf_fits plim K segs" and "seg_load seg \<noteq> None"
    and "seg_load seg = Some True \<Longrightarrow> seg_fits plim K seg \<and> (\<forall>b \<in> set (loads segs). seg_pages seg \<inter> seg_pages b = {})"
  using assms by (auto simp: elf_fits_def loads_def split: if_splits)

lemma buffer_frame:
  assumes "seg_fits plim K seg" and "i < seg_file_size seg"
  shows "(K * 4096 + seg_offset seg + i) div 4096 \<in> seg_frames K seg"
proof -
  let ?x = "K * 4096 + seg_offset seg + i"
  have f: "seg_frame K seg * 4096 = K * 4096 + seg_offset seg"
    using assms(1) aligned [of "seg_offset seg"] by (simp add: seg_fits_def distrib_right)
  have "?x div 4096 * 4096 < seg_frame K seg * 4096 + seg_file_size seg"
    using assms(2) f div_times_less_eq_dividend [of ?x 4096] by linarith
  moreover have "seg_frame K seg \<le> ?x div 4096" using f by (simp add: less_eq_div_iff_mult_less_eq)
  ultimately show ?thesis by (simp add: seg_frames_def)
qed

lemma seg_page_in: "seg_fits plim K seg \<Longrightarrow> seg_page seg \<le> p \<Longrightarrow> p * 4096 < seg_virtual_addr seg + seg_mem_size seg \<Longrightarrow> p \<in> seg_pages seg"
proof -
  assume a: "seg_fits plim K seg" "seg_page seg \<le> p" "p * 4096 < seg_virtual_addr seg + seg_mem_size seg"
  have v: "seg_page seg * 4096 = seg_virtual_addr seg" using a(1) by (simp add: seg_fits_def aligned)
  have "(p - seg_page seg) * 4096 \<le> seg_mem_size seg" using a(3) v by (simp add: diff_mult_distrib)
  then have "p - seg_page seg \<le> seg_mem_size seg div 4096" by (simp add: less_eq_div_iff_mult_less_eq)
  with a(2) show ?thesis by (simp add: seg_pages_def)
qed

context elf_mapper
begin

definition elf_done :: "nat \<Rightarrow> segment list \<Rightarrow> ('m, 'a) boot \<Rightarrow> ('m, 'a) boot \<Rightarrow> bool" where
  "elf_done K segs s s' \<longleftrightarrow> (\<forall>seg \<in> set (loads segs). seg_shown ops free K seg s s') \<and>
     (\<forall>seg \<in> set (loads segs). \<forall>p. seg_page seg \<le> p \<and> p * 4096 < seg_virtual_addr seg + seg_mem_size seg \<longrightarrow>
        (\<exists>f. table_of s' p = Mapped f (segment_flags seg))) \<and>
     (\<forall>p. (\<forall>seg \<in> set (loads segs). p \<notin> seg_pages seg) \<longrightarrow> table_of s' p = table_of s p) \<and>
     free_of s' \<subseteq> free_of s \<and> (\<forall>a. a div 4096 \<notin> free_of s - free_of s' \<longrightarrow> ram s' a = ram s a)"

lemma elf_done_skip: "seg_load seg \<noteq> Some True \<Longrightarrow> elf_done K (seg # segs) s s' = elf_done K segs s s'"
  by (simp add: elf_done_def loads_def)

lemma elf_done_Nil: "elf_done K [] s s"
  by (simp add: elf_done_def loads_def)

text \<open>A segment stays as it is while others are loaded.\<close>

lemma seg_translate_later:
  assumes "seg_fits plim K seg" and i: "i < seg_mem_size seg"
    and "\<forall>p. seg_page seg \<le> p \<and> p * 4096 < seg_virtual_addr seg + seg_mem_size seg \<longrightarrow> (\<exists>f. table_of s1 p = Mapped f (segment_flags seg))"
    and "\<forall>p \<in> seg_pages seg. \<forall>f fl. table_of s1 p = Mapped f fl \<longrightarrow> table_of s2 p = Mapped f fl"
  shows "translate ops (page_table s2) (seg_virtual_addr seg + i) = translate ops (page_table s1) (seg_virtual_addr seg + i)"
proof -
  let ?a = "seg_virtual_addr seg + i"
  have can: "canonical ?a" using assms(1) i by (simp add: seg_fits_def)
  have "seg_page seg \<le> ?a div 4096" by (simp add: div_le_mono)
  moreover have "?a div 4096 * 4096 < seg_virtual_addr seg + seg_mem_size seg" using i div_times_less_eq_dividend [of ?a 4096] by linarith
  ultimately obtain f where f: "table_of s1 (?a div 4096) = Mapped f (segment_flags seg)" "?a div 4096 \<in> seg_pages seg"
    using assms(3) seg_page_in [OF assms(1)] by blast
  with assms(4) have "table_of s2 (?a div 4096) = Mapped f (segment_flags seg)" by simp
  with translate_law [OF can] f(1) show ?thesis by metis
qed

lemma seg_shown_later:
  assumes "seg_fits plim K seg" and "seg_shown ops free K seg s s1" and "free_of s2 \<subseteq> free_of s1"
    and "\<forall>p. seg_page seg \<le> p \<and> p * 4096 < seg_virtual_addr seg + seg_mem_size seg \<longrightarrow> (\<exists>f. table_of s1 p = Mapped f (segment_flags seg))"
    and "\<forall>p \<in> seg_pages seg. \<forall>f fl. table_of s1 p = Mapped f fl \<longrightarrow> table_of s2 p = Mapped f fl"
    and "\<forall>a. a div 4096 \<notin> free_of s1 - free_of s2 \<longrightarrow> ram s2 a = ram s1 a"
  shows "seg_shown ops free K seg s s2"
  unfolding seg_shown_def
proof (intro allI impI)
  fix i
  assume i: "i < seg_mem_size seg"
  with assms(2) obtain pa where pa: "translate ops (page_table s1) (seg_virtual_addr seg + i) = Some pa" "pa div 4096 \<notin> free_of s1"
    "ram s1 pa = (if i < seg_file_size seg then ram s (K * 4096 + seg_offset seg + i) else 0)" by (auto simp: seg_shown_def)
  with assms(3,6) seg_translate_later [OF assms(1) i assms(4,5)]
  show "\<exists>pa. translate ops (page_table s2) (seg_virtual_addr seg + i) = Some pa \<and> pa div 4096 \<notin> free_of s2 \<and>
      ram s2 pa = (if i < seg_file_size seg then ram s (K * 4096 + seg_offset seg + i) else 0)" by auto
qed

lemma seg_loaded_facts:
  assumes "seg_fits plim K seg" and "seg_loaded K seg s s1"
  shows "seg_shown ops free K seg s s1"
    and "\<forall>p. seg_page seg \<le> p \<and> p * 4096 < seg_virtual_addr seg + seg_mem_size seg \<longrightarrow> (\<exists>f. table_of s1 p = Mapped f (segment_flags seg))"
    and "\<forall>p. p \<notin> seg_pages seg \<longrightarrow> table_of s1 p = table_of s p" and "free_of s1 \<subseteq> free_of s"
    and "\<forall>a. a div 4096 \<notin> free_of s - free_of s1 \<longrightarrow> ram s1 a = ram s a"
proof -
  have v: "seg_page seg * 4096 = seg_virtual_addr seg" "seg_frame K seg * 4096 = K * 4096 + seg_offset seg"
    using assms(1) aligned [of "seg_offset seg"] by (simp_all add: seg_fits_def aligned distrib_right)
  note d = assms(2) [unfolded seg_done_def v]
  show "seg_shown ops free K seg s s1" unfolding seg_shown_def using d by blast
  show "\<forall>p. seg_page seg \<le> p \<and> p * 4096 < seg_virtual_addr seg + seg_mem_size seg \<longrightarrow> (\<exists>f. table_of s1 p = Mapped f (segment_flags seg))"
    using d by blast
  show "\<forall>p. p \<notin> seg_pages seg \<longrightarrow> table_of s1 p = table_of s p" using d by (auto simp: seg_pages_def)
  show "free_of s1 \<subseteq> free_of s" using d by blast
  show "\<forall>a. a div 4096 \<notin> free_of s - free_of s1 \<longrightarrow> ram s1 a = ram s a" using d by blast
qed

text \<open>What is loaded later comes from the same buffer.\<close>

lemma seg_shown_earlier:
  assumes "seg_fits plim K seg" and "seg_shown ops free K seg s1 s2" and "\<forall>f \<in> seg_frames K seg. f \<notin> free_of s"
    and "\<forall>a. a div 4096 \<notin> free_of s - free_of s1 \<longrightarrow> ram s1 a = ram s a"
  shows "seg_shown ops free K seg s s2"
proof -
  have "ram s1 (K * 4096 + seg_offset seg + i) = ram s (K * 4096 + seg_offset seg + i)" if "i < seg_file_size seg" for i
    using buffer_frame [OF assms(1) that] assms(3,4) by auto
  with assms(2) show ?thesis by (auto simp: seg_shown_def)
qed

lemma elf_done_Cons:
  assumes "elf_fits plim K (seg # segs)" and "seg_load seg = Some True"
    and "\<forall>b \<in> set (loads segs). \<forall>f \<in> seg_frames K b. f \<notin> free_of s"
    and "seg_loaded K seg s s1" and "elf_done K segs s1 s2"
  shows "elf_done K (seg # segs) s s2"
proof -
  have fits: "seg_fits plim K seg" and apart: "\<forall>b \<in> set (loads segs). seg_pages seg \<inter> seg_pages b = {}"
    using elf_fits_Cons(3) [OF assms(1,2)] by blast+
  have fitb: "seg_fits plim K b" if "b \<in> set (loads segs)" for b using elf_fits_Cons(1) [OF assms(1)] that by (simp add: elf_fits_def)
  note l = seg_loaded_facts [OF fits assms(4)]
  have e: "\<And>b. b \<in> set (loads segs) \<Longrightarrow> seg_shown ops free K b s1 s2"
    "\<And>b p. b \<in> set (loads segs) \<Longrightarrow> seg_page b \<le> p \<Longrightarrow> p * 4096 < seg_virtual_addr b + seg_mem_size b \<Longrightarrow> \<exists>f. table_of s2 p = Mapped f (segment_flags b)"
    "\<And>p. \<forall>b \<in> set (loads segs). p \<notin> seg_pages b \<Longrightarrow> table_of s2 p = table_of s1 p" "free_of s2 \<subseteq> free_of s1"
    "\<forall>a. a div 4096 \<notin> free_of s1 - free_of s2 \<longrightarrow> ram s2 a = ram s1 a"
    using assms(5) by (simp_all add: elf_done_def)
  have same: "\<forall>p \<in> seg_pages seg. table_of s2 p = table_of s1 p" using e(3) apart by blast
  have ld: "loads (seg # segs) = seg # loads segs" using assms(2) by (simp add: loads_def)
  show ?thesis
    unfolding elf_done_def ld list.set
  proof (intro conjI ballI allI impI)
    fix b
    assume "b \<in> insert seg (set (loads segs))"
    then consider "b = seg" | "b \<in> set (loads segs)" by blast
    then show "seg_shown ops free K b s s2"
    proof cases
      case 1
      with seg_shown_later [OF fits l(1) e(4) l(2) _ e(5)] same show ?thesis by simp
    next
      case 2
      with seg_shown_earlier [OF fitb [OF 2] e(1) [OF 2] _ l(5)] assms(3) show ?thesis by blast
    qed
  next
    fix b p
    assume b: "b \<in> insert seg (set (loads segs))" "seg_page b \<le> p \<and> p * 4096 < seg_virtual_addr b + seg_mem_size b"
    show "\<exists>f. table_of s2 p = Mapped f (segment_flags b)"
    proof (cases "b = seg")
      case True
      with b(2) l(2) same seg_page_in [OF fits] show ?thesis by metis
    next
      case False
      with b e(2) show ?thesis by blast
    qed
  next
    fix p
    assume "\<forall>b \<in> insert seg (set (loads segs)). p \<notin> seg_pages b"
    with l(3) e(3) show "table_of s2 p = table_of s p" by simp
  next
    fix a
    assume "a div 4096 \<notin> free_of s - free_of s2"
    with l(4,5) e(4,5) show "ram s2 a = ram s a" by auto
  qed (use l(4) e(4) in auto)
qed

lemma map_segments_ok:
  assumes "elf_fits plim K segs" and "\<forall>seg \<in> set (loads segs). \<forall>p \<in> seg_pages seg. table_of s p = Free"
    and "\<forall>seg \<in> set (loads segs). \<forall>f \<in> seg_frames K seg. f \<notin> free_of s"
    and "sum_list (map frames_needed (loads segs)) \<le> card (free_of s)"
  shows "runs (each_ok segs (\<lambda>seg. map_segment ops seg (K * 4096))) s (\<lambda>r s'. r = Inr () \<and> elf_done K segs s s' \<and>
    card (free_of s) \<le> card (free_of s') + sum_list (map frames_needed (loads segs)))"
  using assms
proof (induction segs arbitrary: s)
  case Nil
  then show ?case by (simp add: runs_ok elf_done_Nil)
next
  case (Cons seg segs)
  note fits = elf_fits_Cons [OF Cons.prems(1)]
  show ?case
  proof (cases "seg_load seg = Some True")
    case False
    with fits(2) have f: "seg_load seg = Some False" by (cases "seg_load seg") auto
    have ld: "loads (seg # segs) = loads segs" using f by (simp add: loads_def)
    have "map_segment ops seg (K * 4096) = ok ()" using f by (simp add: map_segment_def)
    with Cons.IH [OF fits(1)] Cons.prems(2-4) f show ?thesis by (simp add: ld runs_ebnd runs_ok elf_done_skip)
  next
    case True
    have ld: "loads (seg # segs) = seg # loads segs" using True by (simp add: loads_def)
    have sf: "seg_fits plim K seg" using fits(3) [OF True] by blast
    have pre: "\<forall>p. seg_page seg \<le> p \<and> p \<le> seg_page seg + seg_mem_size seg div 4096 \<longrightarrow> table_of s p = Free"
      "\<forall>f. seg_frame K seg \<le> f \<and> f * 4096 < seg_frame K seg * 4096 + seg_file_size seg \<longrightarrow> f \<notin> free_of s"
      "4 * (seg_mem_size seg div 4096 + 2) \<le> card (free_of s)"
      using Cons.prems(2-4) by (simp_all add: ld seg_pages_def seg_frames_def frames_needed_def)
    have rest: "runs (each_ok segs (\<lambda>seg. map_segment ops seg (K * 4096))) s1 (\<lambda>r s'. r = Inr () \<and> elf_done K (seg # segs) s s' \<and>
        card (free_of s) \<le> card (free_of s') + sum_list (map frames_needed (loads (seg # segs))))"
      if s1: "seg_loaded K seg s s1" "card (free_of s) \<le> card (free_of s1) + frames_needed seg" for s1
    proof -
      note l = seg_loaded_facts [OF sf s1(1)]
      have t: "\<forall>b \<in> set (loads segs). \<forall>p \<in> seg_pages b. table_of s1 p = Free"
        using Cons.prems(2) fits(3) [OF True] l(3) unfolding ld by fastforce
      have u: "\<forall>b \<in> set (loads segs). \<forall>f \<in> seg_frames K b. f \<notin> free_of s" using Cons.prems(3) unfolding ld by simp
      have u1: "\<forall>b \<in> set (loads segs). \<forall>f \<in> seg_frames K b. f \<notin> free_of s1" using u l(4) by blast
      have w: "sum_list (map frames_needed (loads segs)) \<le> card (free_of s1)" using Cons.prems(4) s1(2) unfolding ld by simp
      show ?thesis
        by (rule runs_mono [OF Cons.IH [OF fits(1) t u1 w]]) (use elf_done_Cons [OF Cons.prems(1) True u s1(1)] s1(2) ld in auto)
    qed
    show ?thesis
      unfolding each_ok.simps runs_ebnd
      by (rule runs_mono [OF map_segment_ok [OF True sf pre]]) (use rest in \<open>auto simp: frames_needed_def\<close>)
  qed
qed

text \<open>
  A segment that does not start on a page boundary: the pages that are mapped are counted from its size alone, so
  the page of its last byte may be missing.
\<close>

lemma unaligned_segment_ok:
  assumes "seg_load seg = Some True" and sz: "seg_mem_size seg = seg_file_size seg" "0 < seg_file_size seg"
    and F: "0 < seg_frame K seg" "seg_frame K seg * 4096 + seg_file_size seg < plim"
    and spill: "(seg_virtual_addr seg + seg_file_size seg - 1) div 4096 = seg_page seg + n" and n: "n = cdiv (seg_file_size seg) 4096"
    and can: "\<forall>x. seg_page seg * 4096 \<le> x \<and> x \<le> seg_virtual_addr seg + seg_file_size seg \<longrightarrow> canonical x"
    and none: "\<forall>p. seg_page seg \<le> p \<and> p \<le> seg_page seg + n \<longrightarrow> table_of s p = Free" and room: "3 * n \<le> card (free_of s)"
  shows "runs (map_segment ops seg (K * 4096)) s (\<lambda>r s'. r = Inr () \<and>
    table_of s' ((seg_virtual_addr seg + seg_file_size seg - 1) div 4096) = Free)"
proof -
  let ?V = "seg_virtual_addr seg" and ?fs = "seg_file_size seg" and ?F = "seg_frame K seg" and ?P = "seg_page seg"
  let ?sf = "frame_containing_address ops (?F * 4096)" and ?lf = "frame_containing_address ops (?F * 4096 + ?fs - 1)"
  have "?P * 4096 \<le> ?V" by (rule div_times_less_eq_dividend)
  then have cV: "canonical ?V" using can by simp
  have pa: "pa_add ops (K * 4096) (seg_offset seg div 4096 * 4096) = Inr (?F * 4096)"
    using pa_add_law [of "K * 4096" "seg_offset seg div 4096 * 4096"] F(2) by (simp add: distrib_right)
  have en: "sbnd (pa_add ops (?F * 4096) ?fs) (\<lambda>a. pa_sub ops a 1) = Inr (?F * 4096 + ?fs - 1)"
    using pa_add_law [OF F(2)] pa_sub_law [of 1 "?F * 4096 + ?fs"] F by simp
  note fr = file_frames [OF F n]
  have pg: "canonical ((?P + j) * 4096)" if "j < n" for j
  proof -
    have "?P + j \<le> (?V + ?fs - 1) div 4096" using spill that by simp
    then have "(?P + j) * 4096 \<le> ?V + ?fs - 1"
      using div_times_less_eq_dividend [of "?V + ?fs - 1" 4096] by (meson le_trans mult_le_mono1)
    then show ?thesis using can by (simp add: distrib_right)
  qed
  have links: "\<forall>f \<in> set (frame_range_inclusive ops ?sf ?lf). \<exists>q. page_add ops (page_containing_address ops ?V) (frame_minus ops f ?sf) = Inr q \<and>
      pnum q + ?F = ?P + fnum f" by (rule file_links [OF cV F n pg])
  have t: "\<forall>p. ?P \<le> p \<and> p < ?P + n \<longrightarrow> table_of s p = Free" using none by auto
  show ?thesis
    unfolding map_segment_def Let_def assms(1) option.case bool.case runs_lift_Inr [OF pa] runs_lift_Inr [OF va_new_law [OF cV]] runs_lift_Inr [OF en]
      runs_ebnd [of "each_ok _ _"] sz
    by (rule runs_mono [OF link_loop [OF fr(1) t room links]])
      (use none spill sz(2) in \<open>auto simp: linked_def extend_def runs_ok\<close>)
qed

end

end
