(* ===== verification/Boot_Config.thy ===== *)
theory Boot_Config
  imports Rust_Str
begin

text \<open>
  The configuration of the boot loader, \<^verbatim>\<open>src/bootloader/efi/src/config.rs\<close>: the record, its default, the
  reader of the file \<^verbatim>\<open>boot.conf\<close> and the assignment of one key. A file that is not UTF-8, a line without
  \<open>=\<close> and a number that does not parse stop the boot; an unknown key is only logged.
\<close>

section \<open>The configuration\<close>

record config =
  kernel_stack_address :: nat
  kernel_stack_size :: nat
  physical_memory_offset :: nat
  kernel_path :: "u8 list"
  resolution :: "(nat \<times> nat) option"

definition DEFAULT_CONFIG :: config where
  "DEFAULT_CONFIG = \<lparr>kernel_stack_address = 0xffff802000000000, kernel_stack_size = 512,
     physical_memory_offset = 0xffff900000000000,
     kernel_path = [92] @ bytes_of ''EFI'' @ [92] @ bytes_of ''canyon'' @ [92] @ bytes_of ''kernel.elf'',
     resolution = None\<rparr>"

definition unwrap :: "'a option \<Rightarrow> rust_panic + 'a" where
  "unwrap x = (case x of None \<Rightarrow> Inl UnwrapNone | Some a \<Rightarrow> Inr a)"

text \<open>The pieces an iterator yields one after the other.\<close>

definition next_at :: "'a list \<Rightarrow> nat \<Rightarrow> 'a option" where
  "next_at xs i = (if i < length xs then Some (xs ! i) else None)"

text \<open>The closures \<open>r10\<close> and \<open>r16\<close>; the latter drops the two bytes \<open>0x\<close> without looking at them.\<close>

definition r10 :: "u8 list \<Rightarrow> rust_panic + nat" where
  "r10 v = unwrap (from_str_radix 10 v)"

definition r16 :: "u8 list \<Rightarrow> rust_panic + nat" where
  "r16 v = sbnd (str_from 2 v) (\<lambda>s. unwrap (from_str_radix 16 s))"

text \<open>\<open>Config::process\<close>\<close>

definition Config_process :: "config \<Rightarrow> u8 list \<Rightarrow> u8 list \<Rightarrow> rust_panic + config" where
  "Config_process c key v =
     (if key = bytes_of ''kernel_stack_address'' then sbnd (r16 v) (\<lambda>n. Inr (c\<lparr>kernel_stack_address := n\<rparr>))
      else if key = bytes_of ''kernel_stack_size'' then sbnd (r10 v) (\<lambda>n. Inr (c\<lparr>kernel_stack_size := n\<rparr>))
      else if key = bytes_of ''physical_memory_offset'' then sbnd (r16 v) (\<lambda>n. Inr (c\<lparr>physical_memory_offset := n\<rparr>))
      else if key = bytes_of ''kernel_path'' then Inr (c\<lparr>kernel_path := v\<rparr>)
      else if key = bytes_of ''resolution'' then
        (let parts = split_on 120 v in
         sbnd (sbnd (unwrap (next_at parts 0)) r10) (\<lambda>x.
         sbnd (sbnd (unwrap (next_at parts 1)) r10) (\<lambda>y.
         Inr (c\<lparr>resolution := Some (x, y)\<rparr>))))
      else Inr c)"

text \<open>One line of the file.\<close>

definition parse_line :: "config \<Rightarrow> u8 list \<Rightarrow> rust_panic + config" where
  "parse_line c raw =
     (let line = trim raw in
      if line = [] \<or> hd line = 35 then Inr c
      else (case split_once 61 line of (key, v) \<Rightarrow> sbnd (unwrap v) (Config_process c key)))"

fun parse_lines :: "config \<Rightarrow> u8 list list \<Rightarrow> rust_panic + config" where
  "parse_lines c [] = Inr c"
| "parse_lines c (l # ls) = sbnd (parse_line c l) (\<lambda>c'. parse_lines c' ls)"

text \<open>\<open>Config::parse\<close>\<close>

definition Config_parse :: "u8 list \<Rightarrow> rust_panic + config" where
  "Config_parse content =
     (if valid_utf8 content then parse_lines DEFAULT_CONFIG (split_on 10 content) else Inl UnwrapNone)"

section \<open>Keys and lines\<close>

lemma inj_byte: "inj (of_char :: char \<Rightarrow> u8)"
proof (rule injI)
  fix c d :: char
  assume "(of_char c :: u8) = of_char d"
  then have "unat (of_char c :: u8) = unat (of_char d :: u8)" by simp
  moreover have "unat (of_char x :: u8) = of_char x" for x :: char
    using of_nat_of_char [of x, where ?'a = u8, symmetric] by (simp add: unat_of_nat)
  ultimately show "c = d" by simp
qed

lemma bytes_of_eq [simp]: "bytes_of s = bytes_of t \<longleftrightarrow> s = t"
  by (simp add: bytes_of_def inj_map_eq_map [OF inj_byte])

lemma byte_mem: "of_char c \<in> set (bytes_of s) \<longleftrightarrow> c \<in> set s"
  by (auto simp: bytes_of_def dest: injD [OF inj_byte])

lemma hd_bytes_of:
  assumes "key \<noteq> []" and "hd key \<noteq> CHR ''#''"
  shows "bytes_of key \<noteq> []" and "hd (bytes_of key) \<noteq> 35"
proof -
  have "(of_char (hd key) :: u8) \<noteq> of_char CHR ''#''" using assms(2) inj_byte by (simp only: inj_eq not_False_eq_True)
  then have "of_char (hd key) \<noteq> (35 :: u8)" by simp
  with assms(1) show "hd (bytes_of key) \<noteq> 35" by (simp add: bytes_of_def list.map_sel)
qed (use assms in \<open>simp add: bytes_of_def\<close>)

definition all_printable :: "u8 list \<Rightarrow> bool" where
  "all_printable s \<longleftrightarrow> (\<forall>b \<in> set s. printable b)"

lemma all_printable_simps [simp]:
  "all_printable []" "all_printable (b # s) \<longleftrightarrow> printable b \<and> all_printable s"
  "all_printable (s @ t) \<longleftrightarrow> all_printable s \<and> all_printable t"
  by (auto simp: all_printable_def)

lemma trim_all_printable: "all_printable s \<Longrightarrow> trim s = s"
  by (rule trim_printable) (auto simp: all_printable_def)

lemma printable_ascii: "printable b \<Longrightarrow> b < 0x80 \<and> b \<noteq> 10"
  unfolding printable_def
proof (elim conjE, rule conjI)
  assume "b \<le> 126"
  then show "b < 0x80" by (rule le_less_trans) simp
qed auto

lemma show_radix_printable: "2 \<le> radix \<Longrightarrow> radix \<le> 36 \<Longrightarrow> all_printable (show_radix radix n)"
  by (auto simp: all_printable_def printable_def word_le_nat_alt dest!: show_radix_bytes)

text \<open>A line that assigns a key.\<close>

lemma parse_assign:
  assumes "all_printable (bytes_of key)" and "key \<noteq> []" and "CHR ''='' \<notin> set key" and "hd key \<noteq> CHR ''#''" and "all_printable v"
  shows "parse_line c (bytes_of key @ 61 # v) = Config_process c (bytes_of key) v"
proof -
  have eq: "61 = (of_char CHR ''='' :: u8)" by simp
  have "61 \<notin> set (bytes_of key)" using assms(3) by (simp only: eq byte_mem not_False_eq_True)
  moreover note hd_bytes_of [OF assms(2,4)]
  moreover have "trim (bytes_of key @ 61 # v) = bytes_of key @ 61 # v"
    using assms(1,5) by (intro trim_all_printable) (simp add: printable_def)
  ultimately show ?thesis
    by (simp add: parse_line_def split_once_append unwrap_def)
qed

section \<open>Printing a configuration\<close>

definition config_lines :: "config \<Rightarrow> u8 list list" where
  "config_lines c =
     [bytes_of ''kernel_stack_address'' @ 61 # 48 # 120 # show_radix 16 (kernel_stack_address c),
      bytes_of ''kernel_stack_size'' @ 61 # show_radix 10 (kernel_stack_size c),
      bytes_of ''physical_memory_offset'' @ 61 # 48 # 120 # show_radix 16 (physical_memory_offset c),
      bytes_of ''kernel_path'' @ 61 # kernel_path c] @
     (case resolution c of None \<Rightarrow> []
      | Some (x, y) \<Rightarrow> [bytes_of ''resolution'' @ 61 # show_radix 10 x @ 120 # show_radix 10 y])"

definition config_ok :: "config \<Rightarrow> bool" where
  "config_ok c \<longleftrightarrow> kernel_stack_address c < U64_RANGE \<and> kernel_stack_size c < U64_RANGE \<and>
     physical_memory_offset c < U64_RANGE \<and> all_printable (kernel_path c) \<and>
     (case resolution c of None \<Rightarrow> True | Some (x, y) \<Rightarrow> x < U64_RANGE \<and> y < U64_RANGE)"

text \<open>The lines that the parser passes over.\<close>

definition skipped :: "u8 list \<Rightarrow> bool" where
  "skipped l \<longleftrightarrow> trim l = [] \<or> hd (trim l) = 35"

fun join_lines :: "u8 list list \<Rightarrow> u8 list" where
  "join_lines [] = []"
| "join_lines [l] = l"
| "join_lines (l # l2 # ls) = l @ 10 # join_lines (l2 # ls)"

lemma split_join: "ls \<noteq> [] \<Longrightarrow> \<forall>l \<in> set ls. 10 \<notin> set l \<Longrightarrow> split_on 10 (join_lines ls) = ls"
  by (induction ls rule: join_lines.induct) (simp_all add: split_on_append split_on_no)

lemma parse_skipped: "skipped l \<Longrightarrow> parse_line c l = Inr c"
  by (auto simp: skipped_def parse_line_def Let_def)

lemma parse_lines_filter: "parse_lines c ls = parse_lines c (filter (\<lambda>l. \<not> skipped l) ls)"
  by (induction ls arbitrary: c) (auto simp: parse_skipped sbnd_def split: sum.splits)

lemma r16_show: "n < U64_RANGE \<Longrightarrow> r16 (48 # 120 # show_radix 16 n) = Inr n"
proof -
  assume n: "n < U64_RANGE"
  obtain b bs where b: "show_radix 16 n = b # bs" by (cases "show_radix 16 n") auto
  with show_radix_bytes [of 16 b n] have "unat b \<le> 122" by simp
  then have "\<not> is_continuation b" by (simp add: is_continuation_def word_le_nat_alt)
  with b from_show_radix [of 16 n] n show ?thesis by (simp add: r16_def str_from_def unwrap_def)
qed

lemma r10_show: "n < U64_RANGE \<Longrightarrow> r10 (show_radix 10 n) = Inr n"
  by (simp add: r10_def unwrap_def from_show_radix)

lemma show_radix_10_no_x: "120 \<notin> set (show_radix 10 n)"
proof (induction "10 :: nat" n rule: show_radix.induct)
  case (1 n)
  have "digit_byte d \<noteq> 120" if "d < 10" for d
    using unat_digit_byte [of d] that by auto
  then show ?case using 1 by (subst show_radix.simps) simp
qed

lemma resolution_show:
  assumes "x < U64_RANGE" and "y < U64_RANGE"
  shows "Config_process c (bytes_of ''resolution'') (show_radix 10 x @ 120 # show_radix 10 y) = Inr (c\<lparr>resolution := Some (x, y)\<rparr>)"
  using assms show_radix_10_no_x
  by (simp add: Config_process_def split_on_append split_on_no next_at_def unwrap_def r10_show)

lemma keys_printable:
  "all_printable (bytes_of ''kernel_stack_address'')" "all_printable (bytes_of ''kernel_stack_size'')"
  "all_printable (bytes_of ''physical_memory_offset'')" "all_printable (bytes_of ''kernel_path'')"
  "all_printable (bytes_of ''resolution'')"
  by (simp_all add: bytes_of_def printable_def)

lemma parse_config_lines:
  assumes "config_ok c" and "resolution d = None"
  shows "parse_lines d (config_lines c) = Inr c"
proof -
  have c: "c = \<lparr>kernel_stack_address = kernel_stack_address c, kernel_stack_size = kernel_stack_size c,
    physical_memory_offset = physical_memory_offset c, kernel_path = kernel_path c, resolution = resolution c\<rparr>" by simp
  have p: "all_printable (48 # 120 # show_radix 16 n)" "all_printable (show_radix 10 n)" for n
    by (simp_all add: show_radix_printable printable_def)
  have step: "parse_line e (bytes_of ''kernel_stack_address'' @ 61 # 48 # 120 # show_radix 16 (kernel_stack_address c)) =
        Inr (e\<lparr>kernel_stack_address := kernel_stack_address c\<rparr>)"
      "parse_line e (bytes_of ''kernel_stack_size'' @ 61 # show_radix 10 (kernel_stack_size c)) =
        Inr (e\<lparr>kernel_stack_size := kernel_stack_size c\<rparr>)"
      "parse_line e (bytes_of ''physical_memory_offset'' @ 61 # 48 # 120 # show_radix 16 (physical_memory_offset c)) =
        Inr (e\<lparr>physical_memory_offset := physical_memory_offset c\<rparr>)"
      "parse_line e (bytes_of ''kernel_path'' @ 61 # kernel_path c) = Inr (e\<lparr>kernel_path := kernel_path c\<rparr>)" for e
    using assms(1) p [of "kernel_stack_address c"] p [of "kernel_stack_size c"] p [of "physical_memory_offset c"]
    by (simp_all add: parse_assign keys_printable config_ok_def Config_process_def r16_show r10_show)
  have res: "parse_line e (bytes_of ''resolution'' @ 61 # show_radix 10 x @ 120 # show_radix 10 y) =
      Inr (e\<lparr>resolution := Some (x, y)\<rparr>)" if "resolution c = Some (x, y)" for e x y
    using assms(1) that p [of x] p [of y]
    by (simp add: parse_assign keys_printable resolution_show config_ok_def printable_def)
  show ?thesis
    using assms(2) by (subst (2) c) (auto simp: config_lines_def step res split: option.splits)
qed

lemma config_lines_printable: "config_ok c \<Longrightarrow> l \<in> set (config_lines c) \<Longrightarrow> all_printable l"
  by (auto simp: config_lines_def config_ok_def keys_printable show_radix_printable printable_def split: option.splits)

lemma config_lines_ne [simp]: "config_lines c \<noteq> []"
  by (simp add: config_lines_def)

lemma config_lines_kept:
  assumes "config_ok c"
  shows "filter (\<lambda>l. \<not> skipped l) (config_lines c) = config_lines c"
proof (rule filter_True, rule ballI)
  fix l
  assume l: "l \<in> set (config_lines c)"
  then have "\<exists>key t. l = bytes_of key @ t \<and> key \<noteq> [] \<and> hd key \<noteq> CHR ''#''"
    by (fastforce simp: config_lines_def split: option.splits)
  then have "l \<noteq> []" "hd l \<noteq> 35" using hd_bytes_of by auto
  with trim_all_printable [OF config_lines_printable [OF assms l]] show "\<not> skipped l" by (simp add: skipped_def)
qed

lemma set_join_lines: "b \<in> set (join_lines ls) \<Longrightarrow> b = 10 \<or> (\<exists>l \<in> set ls. b \<in> set l)"
  by (induction ls rule: join_lines.induct) auto

lemma join_lines_ascii:
  assumes "\<forall>l \<in> set ls. all_printable l"
  shows "\<forall>l \<in> set ls. 10 \<notin> set l" and "valid_utf8 (join_lines ls)"
  using assms by (auto simp: all_printable_def dest!: printable_ascii set_join_lines intro!: ascii_valid)

text \<open>The parts of a number are read digit by digit.\<close>

section \<open>Properties\<close>

definition sample_config :: config where
  "sample_config = \<lparr>kernel_stack_address = 0xffff802000000000, kernel_stack_size = 16,
     physical_memory_offset = 0xffff900000000000, kernel_path = [92, 107], resolution = Some (800, 600)\<rparr>"

text \<open>
  C29: reading back. A file whose lines, without blank ones and comments, print a configuration is parsed to
  that configuration.
\<close>

theorem config_round_trip:
  assumes "config_ok c" and "filter (\<lambda>l. \<not> skipped l) ls = config_lines c"
    and "\<forall>l \<in> set ls. 10 \<notin> set l" and "valid_utf8 (join_lines ls)"
  shows "Config_parse (join_lines ls) = Inr c"
proof -
  have "ls \<noteq> []" using assms(2) config_lines_ne [of c] by (metis filter.simps(1))
  with assms show ?thesis
    by (simp add: Config_parse_def split_join parse_lines_filter [of _ ls] parse_config_lines DEFAULT_CONFIG_def)
qed

theorem config_round_trip_witness:
  "Config_parse (join_lines ([35, 33] # [] # config_lines sample_config)) = Inr sample_config"
proof -
  have ok: "config_ok sample_config" by (simp add: config_ok_def sample_config_def U64_RANGE_def printable_def)
  have pr: "\<forall>l \<in> set ([35, 33] # [] # config_lines sample_config). all_printable l"
    using config_lines_printable [OF ok] by (simp add: printable_def)
  have sk: "skipped [35, 33]" "skipped []" by (simp_all add: skipped_def trim_all_printable printable_def)
  show ?thesis
    by (rule config_round_trip [OF ok _ join_lines_ascii [OF pr]]) (simp add: sk config_lines_kept [OF ok])
qed

text \<open>The file the repository ships, \<^verbatim>\<open>src/bootloader/efi/boot.conf\<close>.\<close>

definition boot_conf :: "u8 list list" where
  "boot_conf =
     [bytes_of ''# The config file for bootloader.'',
      bytes_of ''# Place me at '' @ [92] @ bytes_of ''EFI'' @ [92] @ bytes_of ''Boot'' @ [92] @ bytes_of ''conf.yaml'',
      [],
      bytes_of ''# The address at which the kernel stack is placed.'',
      bytes_of ''kernel_stack_address=0xFFFF802000000000'',
      [],
      bytes_of ''# The size of the kernel stack, given in number of 4KiB pages. Defaults to 512.'',
      bytes_of ''kernel_stack_size=512'',
      [],
      bytes_of ''# The virtual address offset from which physical memory is mapped, as described in'',
      bytes_of ''physical_memory_offset=0xFFFF900000000000'',
      [],
      bytes_of ''# The path of kernel ELF'',
      bytes_of ''kernel_path='' @ [92] @ bytes_of ''EFI'' @ [92] @ bytes_of ''canyon'' @ [92] @ bytes_of ''kernel.elf'',
      [],
      bytes_of ''# The resolution of graphic output'',
      bytes_of ''resolution=1024x768'',
      []]"

lemma comment_skipped: "s \<noteq> [] \<Longrightarrow> hd s = 35 \<Longrightarrow> printable (last s) \<Longrightarrow> skipped s"
  by (simp add: skipped_def trim_printable printable_def)

lemma assign_kept:
  "all_printable (bytes_of key) \<Longrightarrow> key \<noteq> [] \<Longrightarrow> hd key \<noteq> CHR ''#'' \<Longrightarrow> all_printable v \<Longrightarrow>
   \<not> skipped (bytes_of key @ 61 # v)"
  using hd_bytes_of [of key] by (auto simp: skipped_def trim_all_printable printable_def)

text \<open>The comments of the file, and its assignments.\<close>

definition boot_assignments :: "u8 list list" where
  "boot_assignments =
     [bytes_of ''kernel_stack_address'' @ 61 # bytes_of ''0xFFFF802000000000'',
      bytes_of ''kernel_stack_size'' @ 61 # bytes_of ''512'',
      bytes_of ''physical_memory_offset'' @ 61 # bytes_of ''0xFFFF900000000000'',
      bytes_of ''kernel_path'' @ 61 # kernel_path DEFAULT_CONFIG,
      bytes_of ''resolution'' @ 61 # bytes_of ''1024x768'']"

lemma boot_comments:
  "skipped (bytes_of ''# The config file for bootloader.'')"
  "skipped (bytes_of ''# Place me at '' @ [92] @ bytes_of ''EFI'' @ [92] @ bytes_of ''Boot'' @ [92] @ bytes_of ''conf.yaml'')"
  "skipped (bytes_of ''# The address at which the kernel stack is placed.'')"
  "skipped (bytes_of ''# The size of the kernel stack, given in number of 4KiB pages. Defaults to 512.'')"
  "skipped (bytes_of ''# The virtual address offset from which physical memory is mapped, as described in'')"
  "skipped (bytes_of ''# The path of kernel ELF'')"
  "skipped (bytes_of ''# The resolution of graphic output'')"
  "skipped []"
  by (rule comment_skipped; simp add: bytes_of_def printable_def)+ (simp add: skipped_def trim_all_printable)

lemma boot_values_printable:
  "all_printable (bytes_of ''0xFFFF802000000000'')" "all_printable (bytes_of ''512'')"
  "all_printable (bytes_of ''0xFFFF900000000000'')" "all_printable (kernel_path DEFAULT_CONFIG)"
  "all_printable (bytes_of ''1024x768'')"
  by (simp_all add: bytes_of_def DEFAULT_CONFIG_def printable_def)

lemma boot_assignments_text:
  "bytes_of ''kernel_stack_address=0xFFFF802000000000'' = boot_assignments ! 0"
  "bytes_of ''kernel_stack_size=512'' = boot_assignments ! 1"
  "bytes_of ''physical_memory_offset=0xFFFF900000000000'' = boot_assignments ! 2"
  "bytes_of ''kernel_path='' @ [92] @ bytes_of ''EFI'' @ [92] @ bytes_of ''canyon'' @ [92] @ bytes_of ''kernel.elf'' =
     boot_assignments ! 3"
  "bytes_of ''resolution=1024x768'' = boot_assignments ! 4"
  by (simp_all add: boot_assignments_def bytes_of_def DEFAULT_CONFIG_def)

lemma boot_conf_kept: "filter (\<lambda>l. \<not> skipped l) boot_conf = boot_assignments"
  unfolding boot_conf_def boot_assignments_text
  by (simp only: filter.simps boot_comments not_True_eq_False if_False)
    (simp add: boot_assignments_def assign_kept keys_printable boot_values_printable)

lemma boot_numbers:
  "r16 (bytes_of ''0xFFFF802000000000'') = Inr 0xffff802000000000" "r10 (bytes_of ''512'') = Inr 512"
  "r16 (bytes_of ''0xFFFF900000000000'') = Inr 0xffff900000000000"
  "r10 (bytes_of ''1024'') = Inr 1024" "r10 (bytes_of ''768'') = Inr 768"
  by (simp_all add: bytes_of_def r16_def r10_def str_from_def is_continuation_def from_str_radix_def to_digit_def
    unwrap_def U64_RANGE_def)

lemma boot_resolution:
  "Config_process c (bytes_of ''resolution'') (bytes_of ''1024x768'') = Inr (c\<lparr>resolution := Some (1024, 768)\<rparr>)"
proof -
  have "split_on 120 (bytes_of ''1024x768'') = [bytes_of ''1024'', bytes_of ''768'']" by (simp add: bytes_of_def)
  then show ?thesis by (simp add: Config_process_def next_at_def unwrap_def boot_numbers)
qed

text \<open>
  The configuration file of the repository sets every key, and to the defaults apart from the resolution.
\<close>

theorem boot_conf_parses:
  "Config_parse (join_lines boot_conf) = Inr (DEFAULT_CONFIG\<lparr>resolution := Some (1024, 768)\<rparr>)"
proof -
  have ascii: "b < 0x80 \<and> b \<noteq> 10" if "l \<in> set boot_conf" "b \<in> set l" for l b
    using that by (auto simp: boot_conf_def bytes_of_def)
  then have "valid_utf8 (join_lines boot_conf)" "\<forall>l \<in> set boot_conf. 10 \<notin> set l"
    by (auto dest!: set_join_lines intro!: ascii_valid)
  moreover have "boot_conf \<noteq> []" by (simp add: boot_conf_def)
  ultimately have "Config_parse (join_lines boot_conf) = parse_lines DEFAULT_CONFIG boot_assignments"
    by (simp add: Config_parse_def split_join parse_lines_filter [of _ boot_conf] boot_conf_kept)
  also have "\<dots> = Inr (DEFAULT_CONFIG\<lparr>resolution := Some (1024, 768)\<rparr>)"
    by (simp add: boot_assignments_def parse_assign keys_printable boot_values_printable boot_resolution)
      (simp add: Config_process_def boot_numbers DEFAULT_CONFIG_def)
  finally show ?thesis .
qed

end
