(* ===== verification/Boot_Main.thy ===== *)
theory Boot_Main
  imports Page_Map Boot_Config Memory Logger
begin

text \<open>
  The boot loader from the memory map to the jump into the kernel: \<^verbatim>\<open>src/bootloader/efi/src/main.rs\<close> and the
  file access of \<^verbatim>\<open>src/bootloader/efi/src/fs.rs\<close>. The firmware, the ELF parser and the paging of the crate
  \<^verbatim>\<open>x86_64\<close> are arguments. The state is that of the page tables: the memory services of the firmware are its frame
  allocator. Control registers and the texts that are logged are left out.
\<close>

section \<open>What the firmware provides\<close>

text \<open>
  A protocol that is not found, a volume, a path or a file that cannot be opened and a failed read are \<open>None\<close>.
  \<open>fw_read\<close> yields the bytes that a file puts into a buffer of the given length.
\<close>

record ('a, 't, 'v, 'r, 'p, 'h, 'g, 'd) firmware =
  fw_memory_map :: "'a \<Rightarrow> 't memory_descriptor list option"
  fw_exit_boot_services :: "'a \<Rightarrow> 't memory_descriptor list option"
  fw_allocate_pages :: "'a \<Rightarrow> nat \<Rightarrow> nat option \<times> 'a"
  fw_locate_fs :: "'a \<Rightarrow> 'v option"
  fw_open_volume :: "'v \<Rightarrow> 'r option"
  fw_path :: "u8 list \<Rightarrow> nat \<Rightarrow> 'p option"
  fw_open :: "'r \<Rightarrow> 'p \<Rightarrow> 'h option"
  fw_file_size :: "'h \<Rightarrow> nat option"
  fw_read :: "'h \<Rightarrow> nat \<Rightarrow> u8 list option"
  fw_locate_gop :: "'a \<Rightarrow> 'g option"
  fw_modes :: "'g \<Rightarrow> 'd list"
  fw_resolution :: "'d \<Rightarrow> nat \<times> nat"
  fw_set_mode :: "'g \<Rightarrow> 'd \<Rightarrow> 'g option"
  fw_graphic_info :: "'g \<Rightarrow> graphic_info"

definition expect :: "'x option \<Rightarrow> (('m, 'a) boot, 'x) rust" where
  "expect x = pure (unwrap x)"

section \<open>Files\<close>

definition open_file ::
    "('a, 't, 'v, 'r, 'p, 'h, 'g, 'd) firmware \<Rightarrow> u8 list \<Rightarrow> (('m, 'a) boot, 'h) rust" where
  "open_file fw path =
     bnd (gets frame_allocator) (\<lambda>bs.
     bnd (expect (fw_locate_fs fw bs)) (\<lambda>fs.
     bnd (expect (fw_open_volume fw fs)) (\<lambda>root.
     bnd (expect (fw_path fw path (length path + 1))) (\<lambda>path_cstr.
     expect (fw_open fw root path_cstr)))))"

text \<open>The firmware writes the bytes of the file to the buffer.\<close>

definition fill_buffer :: "nat \<Rightarrow> u8 list \<Rightarrow> (('m, 'a) boot, unit) rust" where
  "fill_buffer start bs = upd (\<lambda>s. s\<lparr>ram := (\<lambda>a. if start \<le> a \<and> a < start + length bs then bs ! (a - start) else ram s a)\<rparr>)"

definition fw_pages ::
    "('a, 't, 'v, 'r, 'p, 'h, 'g, 'd) firmware \<Rightarrow> nat \<Rightarrow> (('m, 'a) boot, nat option) rust" where
  "fw_pages fw pages = (\<lambda>s. case fw_allocate_pages fw (frame_allocator s) pages of (r, bs) \<Rightarrow> Inr (r, s\<lparr>frame_allocator := bs\<rparr>))"

text \<open>\<open>load_file\<close> returns the slice as its address and its length.\<close>

definition load_file ::
    "('a, 't, 'v, 'r, 'p, 'h, 'g, 'd) firmware \<Rightarrow> 'h \<Rightarrow> (('m, 'a) boot, nat \<times> nat) rust" where
  "load_file fw h =
     bnd (expect (fw_file_size fw h)) (\<lambda>size.
     let pages = size div 0x1000 + 1 in
     bnd (bnd (fw_pages fw pages) expect) (\<lambda>mem_start.
     bnd (pure (u64_mul pages 0x1000)) (\<lambda>cap.
     bnd (expect (fw_read fw h cap)) (\<lambda>bs.
     bnd (fill_buffer mem_start bs) (\<lambda>_.
     bnd (require (length bs \<le> cap) IndexOutOfBounds) (\<lambda>_.
     ret (mem_start, length bs)))))))"

text \<open>The bytes of a slice.\<close>

definition slice :: "nat \<times> nat \<Rightarrow> (('m, 'a) boot, u8 list) rust" where
  "slice b = gets (\<lambda>s. map (\<lambda>i. ram s (fst b + i)) [0..<snd b])"

section \<open>Graphics\<close>

definition init_graphic ::
    "('a, 't, 'v, 'r, 'p, 'h, 'g, 'd) firmware \<Rightarrow> (nat \<times> nat) option \<Rightarrow> (('m, 'a) boot, graphic_info) rust" where
  "init_graphic fw res =
     bnd (bnd (gets frame_allocator) (\<lambda>bs. expect (fw_locate_gop fw bs))) (\<lambda>gop.
     case res of
       None \<Rightarrow> ret (fw_graphic_info fw gop)
     | Some r \<Rightarrow>
         bnd (expect (find (\<lambda>mode. fw_resolution fw mode = r) (fw_modes fw gop))) (\<lambda>mode.
         bnd (expect (fw_set_mode fw gop mode)) (\<lambda>gop'.
         ret (fw_graphic_info fw gop'))))"

section \<open>The program\<close>

primrec phys_ends :: "'t memory_descriptor list \<Rightarrow> rust_panic + nat list" where
  "phys_ends [] = Inr []"
| "phys_ends (x # xs) =
     sbnd (sbnd (u64_mul (md_page_count x) 0x1000) (u64_add (md_phys_start x))) (\<lambda>e.
     sbnd (phys_ends xs) (\<lambda>es. Inr (e # es)))"

definition max_phys_addr :: "'t memory_descriptor list \<Rightarrow> rust_panic + nat" where
  "max_phys_addr mmap =
     sbnd (phys_ends mmap) (\<lambda>ends. unwrap (if ends = [] then None else Some (Max (set ends))))"

text \<open>Mapping the kernel, its stack and physical memory; the result is the top of the stack.\<close>

definition expect_ok :: "(('m, 'a) boot, 'e + 'x) rust \<Rightarrow> (('m, 'a) boot, 'x) rust" where
  "expect_ok m = bnd m (\<lambda>r. case r of Inl e \<Rightarrow> panic UnwrapNone | Inr x \<Rightarrow> ret x)"

definition map_kernel ::
    "('q, 'f, 'm, 'a) paging_ops \<Rightarrow> ('q2, 'f2, 'm, 'a) paging_ops \<Rightarrow> config \<Rightarrow> nat \<Rightarrow> nat \<Rightarrow> segment list \<Rightarrow> (('m, 'a) boot, nat) rust" where
  "map_kernel ops ops2 c max_phys elf_input segs =
     bnd (expect_ok (map_elf ops elf_input segs)) (\<lambda>_.
     bnd (expect_ok (map_stack ops (kernel_stack_address c) (kernel_stack_size c))) (\<lambda>_.
     bnd (map_physical_memory ops2 (physical_memory_offset c) max_phys) (\<lambda>_.
     pure (sbnd (u64_mul (kernel_stack_size c) 0x1000) (u64_add (kernel_stack_address c))))))"

record 't boot_info =
  bi_memory_map :: "'t memory_descriptor list"
  bi_physical_memory_offset :: nat
  bi_graphic_info :: graphic_info

text \<open>What \<open>jump_to_entry\<close> puts in \<open>rsp\<close>, calls and puts in \<open>rdi\<close>.\<close>

record 't handover =
  ho_stack_top :: nat
  ho_entry :: nat
  ho_boot_info :: "'t boot_info"

definition jump_to_entry :: "nat \<Rightarrow> nat \<Rightarrow> 't boot_info \<Rightarrow> (('m, 'a) boot, 't handover) rust" where
  "jump_to_entry stack_top entry info = ret \<lparr>ho_stack_top = stack_top, ho_entry = entry, ho_boot_info = info\<rparr>"

definition conf_path :: "u8 list" where
  "conf_path = [92] @ bytes_of ''EFI'' @ [92] @ bytes_of ''Boot'' @ [92] @ bytes_of ''boot.conf''"

text \<open>\<open>main\<close>; \<open>elf_new\<close> stands for \<open>ElfFile::new\<close>, it yields the entry point and the program headers.\<close>

definition boot_main ::
    "('a, 't, 'v, 'r, 'p, 'h, 'g, 'd) firmware \<Rightarrow> (u8 list \<Rightarrow> (nat \<times> segment list) option) \<Rightarrow>
     ('q, 'f, 'm, 'a) paging_ops \<Rightarrow> ('q2, 'f2, 'm, 'a) paging_ops \<Rightarrow> (('m, 'a) boot, 't handover) rust" where
  "boot_main fw elf_new ops ops2 =
     bnd (bnd (gets frame_allocator) (\<lambda>bs. expect (fw_memory_map fw bs))) (\<lambda>mmap.
     bnd (pure (max_phys_addr mmap)) (\<lambda>max_phys.
     bnd (open_file fw conf_path) (\<lambda>conf.
     bnd (bnd (load_file fw conf) slice) (\<lambda>content.
     bnd (pure (Config_parse content)) (\<lambda>c.
     bnd (init_graphic fw (resolution c)) (\<lambda>graphic.
     bnd (open_file fw (kernel_path c)) (\<lambda>kernel.
     bnd (load_file fw kernel) (\<lambda>buf.
     bnd (bnd (slice buf) (\<lambda>bytes. expect (elf_new bytes))) (\<lambda>(entry, segs).
     bnd (map_kernel ops ops2 c max_phys (fst buf) segs) (\<lambda>stack_top.
     bnd (bnd (gets frame_allocator) (\<lambda>bs. expect (fw_exit_boot_services fw bs))) (\<lambda>memory_map.
     jump_to_entry stack_top entry \<lparr>bi_memory_map = memory_map,
       bi_physical_memory_offset = physical_memory_offset c, bi_graphic_info = graphic\<rparr>)))))))))))"

end
