(* ===== verification/Page_Space.thy ===== *)
theory Page_Space
  imports Page_Elf Boot_Main
begin

text \<open>
  The address space of the kernel. The same tables hold pages of 4 KiB, for the ELF file and the stack, and of
  2 MiB, for physical memory. The locale \<open>boot_machine\<close> puts the contracts of both mappers together with
  what one does to the other, and \<open>map_kernel\<close> is followed through its three steps.
\<close>

section \<open>What succeeding steps keep\<close>

text \<open>\<open>stable J m\<close>: when \<open>m\<close> returns without an error, the page table has \<open>J\<close> if it had it before.\<close>

definition stable :: "('m \<Rightarrow> bool) \<Rightarrow> (('m, 'a) boot, 'e + 'x) rust \<Rightarrow> bool" where
  "stable J m \<longleftrightarrow> (\<forall>s x s'. m s = Inr (Inr x, s') \<longrightarrow> J (page_table s) \<longrightarrow> J (page_table s'))"

lemma stable_ok [intro]: "stable J (ok x)" "stable J (lift_pure r)"
  by (auto simp: stable_def ok_def ret_def lift_pure_def bnd_def pure_def split: sum.splits)

lemma stable_ebnd [intro]:
  assumes "stable J m" and "\<And>x. stable J (f x)"
  shows "stable J (ebnd m f)"
  unfolding stable_def
proof (intro allI impI)
  fix s x s'
  assume run: "ebnd m f s = Inr (Inr x, s')" and J: "J (page_table s)"
  then obtain y s1 where 1: "m s = Inr (Inr y, s1)" "f y s1 = Inr (Inr x, s')"
    by (auto simp: ebnd_def bnd_def ret_def split: sum.splits prod.splits)
  with assms J show "J (page_table s')" by (auto simp: stable_def)
qed

lemma stable_each_ok [intro]: "(\<And>x. stable J (f x)) \<Longrightarrow> stable J (each_ok xs f)"
  by (induction xs) (auto intro!: stable_ok stable_ebnd)

lemma stable_allocate [intro]: "stable J (allocate_frame ops)"
  by (auto simp: stable_def allocate_frame_def split: sum.splits prod.splits option.splits)

lemma stable_map_to:
  assumes "\<And>q f fl m al m' al'. mapper_map_to ops q f fl (m, al) = Inr (m', al') \<Longrightarrow> J m \<Longrightarrow> J m'"
  shows "stable J (map_to ops q f fl)"
  using assms by (auto simp: stable_def map_to_def split: sum.splits prod.splits)

text \<open>A computation that touches memory but not the page table.\<close>

lemma stable_bnd:
  assumes "\<And>s x s'. m s = Inr (x, s') \<Longrightarrow> page_table s' = page_table s" and "\<And>x. stable J (f x)"
  shows "stable J (bnd m f)"
  unfolding stable_def
proof (intro allI impI)
  fix s x s'
  assume run: "bnd m f s = Inr (Inr x, s')" and J: "J (page_table s)"
  then obtain y s1 where 1: "m s = Inr (y, s1)" "f y s1 = Inr (Inr x, s')" by (auto simp: bnd_def split: sum.splits prod.splits)
  with assms(1) [OF 1(1)] assms(2) [of y] J show "J (page_table s')" by (auto simp: stable_def)
qed

lemma write_zeros_table: "write_zeros ops a n s = Inr (x, s') \<Longrightarrow> page_table s' = page_table s"
proof (induction n arbitrary: a s)
  case 0
  then show ?case by (simp add: ret_def)
next
  case (Suc n)
  then obtain p where "write_zeros ops (a + 1) n (s\<lparr>ram := (ram s)(p := 0)\<rparr>) = Inr (x, s')"
    by (auto simp: bnd_def gets_def pure_def upd_def split: option.splits)
  from Suc.IH [OF this] show ?case by simp
qed

text \<open>Giving the last page a new frame replaces a mapping by another one of the same page.\<close>

definition remaps :: "('q, 'f, 'm, 'a) paging_ops \<Rightarrow> ('m \<Rightarrow> bool) \<Rightarrow> bool" where
  "remaps ops J \<longleftrightarrow> (\<forall>q f fl m m1 al m' al'. mapper_unmap ops q m = Inr m1 \<longrightarrow> mapper_map_to ops q f fl (m1, al) = Inr (m', al') \<longrightarrow> J m \<longrightarrow> J m')"

lemma stable_remap:
  assumes "remaps ops J"
  shows "stable J (remap_last_page ops v fs lf fl)"
proof -
  have "stable J (bnd (copy_page x y) (\<lambda>_. bnd (gets page_table) (\<lambda>m.
      case mapper_unmap ops q m of Inl UnmapParentEntryHugePage \<Rightarrow> ret (Inl ParentEntryHugePage) | Inl _ \<Rightarrow> panic AssertFailed
      | Inr m' \<Rightarrow> bnd (upd (\<lambda>s. s\<lparr>page_table := m'\<rparr>)) (\<lambda>_. map_to ops q f fl))))" for x y q f
    using assms unfolding stable_def remaps_def
    by (auto simp: copy_page_def bnd_def gets_def upd_def ret_def panic_def map_to_def split: sum.splits prod.splits unmap_error.splits)
  then show ?thesis unfolding remap_last_page_def Let_def by (intro stable_ebnd stable_allocate stable_ok)
qed

lemma stable_map_elf:
  assumes "\<And>q f fl m al m' al'. mapper_map_to ops q f fl (m, al) = Inr (m', al') \<Longrightarrow> J m \<Longrightarrow> J m'" and "remaps ops J"
  shows "stable J (map_elf ops k segs)"
proof -
  note mp = stable_map_to [of ops J, OF assms(1)]
  have bss: "stable J (map_bss ops v fs ms lf fl)" for v fs ms lf fl
    unfolding map_bss_def Let_def
    by (intro stable_ebnd stable_ok stable_each_ok stable_allocate mp stable_bnd write_zeros_table)
      (auto intro: stable_remap [OF assms(2)])
  have "stable J (map_segment ops seg v)" for seg v
  proof (cases "seg_load seg")
    case None
    then show ?thesis by (simp add: map_segment_def stable_def panic_def)
  next
    case (Some ld)
    have "stable J (if c then map_bss ops v fs ms lf fl else ok ())" for c v fs ms lf fl using bss by auto
    with Some show ?thesis
      unfolding map_segment_def Let_def by (cases ld) (auto intro!: stable_ebnd stable_ok stable_each_ok mp)
  qed
  then show ?thesis unfolding map_elf_def by (intro stable_ebnd stable_ok stable_each_ok)
qed

lemma stable_map_stack:
  assumes "\<And>q f fl m al m' al'. mapper_map_to ops q f fl (m, al) = Inr (m', al') \<Longrightarrow> J m \<Longrightarrow> J m'"
  shows "stable J (map_stack ops a n)"
  unfolding map_stack_def Let_def by (intro stable_ebnd stable_ok stable_each_ok stable_allocate stable_map_to [of ops J, OF assms])

lemma stable_map_physical:
  assumes "\<And>q f fl m al m' al'. mapper_map_to ops q f fl (m, al) = Inr (m', al') \<Longrightarrow> J m \<Longrightarrow> J m'"
    and "map_physical_memory ops off mx s = Inr (x, s')" and "J (page_table s)"
  shows "J (page_table s')"
proof -
  let ?body = "\<lambda>frame. bnd (pure (sbnd (u64_add (frame_start_address ops frame) off) (va_new ops))) (\<lambda>a.
    bnd (map_to ops (page_containing_address ops a) frame \<lparr>PRESENT = True, WRITABLE = True, NO_EXECUTE = False\<rparr>) (\<lambda>r.
      case r of Inl e \<Rightarrow> panic UnwrapNone | Inr _ \<Rightarrow> ret ()))"
  have loop: "for_each fs ?body s = Inr (x, s') \<Longrightarrow> J (page_table s) \<Longrightarrow> J (page_table s')" for fs s
  proof (induction fs arbitrary: s)
    case Nil
    then show ?case by (simp add: ret_def)
  next
    case (Cons f fs)
    then obtain a m' al' where "mapper_map_to ops (page_containing_address ops a) f \<lparr>PRESENT = True, WRITABLE = True, NO_EXECUTE = False\<rparr>
        (page_table s, frame_allocator s) = Inr (m', al')" "for_each fs ?body (s\<lparr>page_table := m', frame_allocator := al'\<rparr>) = Inr (x, s')"
      by (auto simp: bnd_def pure_def map_to_def ret_def panic_def split: sum.splits prod.splits)
    with assms(1) Cons.prems(2) Cons.IH show ?case by fastforce
  qed
  from assms(2) obtain fs where "for_each fs ?body s = Inr (x, s')"
    unfolding map_physical_memory_def Let_def by (auto simp: bnd_def pure_def split: sum.splits)
  from loop [OF this assms(3)] show ?thesis .
qed

section \<open>The address space that a configuration asks for\<close>

definition stack_pages :: "config \<Rightarrow> nat set" where
  "stack_pages c = {kernel_stack_address c div 4096..<kernel_stack_address c div 4096 + kernel_stack_size c}"

definition window :: "config \<Rightarrow> nat \<Rightarrow> nat set" where
  "window c max_phys = {physical_memory_offset c div 2097152..physical_memory_offset c div 2097152 + max_phys div 2097152}"

text \<open>The addresses exist, and segments, stack and window do not meet.\<close>

definition space_fits :: "nat \<Rightarrow> config \<Rightarrow> nat \<Rightarrow> nat \<Rightarrow> segment list \<Rightarrow> bool" where
  "space_fits plim c max_phys K segs \<longleftrightarrow> elf_fits plim K segs \<and> max_phys < plim \<and>
     kernel_stack_address c mod 4096 = 0 \<and> physical_memory_offset c mod 2097152 = 0 \<and>
     (\<forall>x. kernel_stack_address c \<le> x \<and> x \<le> kernel_stack_address c + kernel_stack_size c * 4096 \<longrightarrow> canonical x) \<and>
     (\<forall>x. physical_memory_offset c \<le> x \<and> x < physical_memory_offset c + Suc (max_phys div 2097152) * 2097152 \<longrightarrow> canonical x) \<and>
     (\<forall>seg \<in> set (loads segs). seg_pages seg \<inter> stack_pages c = {}) \<and>
     (\<forall>p. p \<in> stack_pages c \<or> (\<exists>seg \<in> set (loads segs). p \<in> seg_pages seg) \<longrightarrow> p div 512 \<notin> window c max_phys)"

definition space_needed :: "config \<Rightarrow> nat \<Rightarrow> segment list \<Rightarrow> nat" where
  "space_needed c max_phys segs =
     sum_list (map frames_needed (loads segs)) + 4 * kernel_stack_size c + 3 * Suc (max_phys div 2097152)"

text \<open>Segments, stack and physical memory where they belong, and nothing else overwritten.\<close>

definition stack_mapped :: "('q, 'f, 'm, 'a) paging_ops \<Rightarrow> config \<Rightarrow> ('m, 'a) boot \<Rightarrow> (nat \<Rightarrow> nat) \<Rightarrow> bool" where
  "stack_mapped ops c s' g \<longleftrightarrow> inj_on g {..<kernel_stack_size c} \<and>
     (\<forall>i < kernel_stack_size c * 4096. translate ops (page_table s') (kernel_stack_address c + i) = Some (g (i div 4096) * 4096 + i mod 4096))"

definition kernel_space ::
    "('q, 'f, 'm, 'a) paging_ops \<Rightarrow> ('a \<Rightarrow> nat set) \<Rightarrow> config \<Rightarrow> nat \<Rightarrow> nat \<Rightarrow> segment list \<Rightarrow> ('m, 'a) boot \<Rightarrow> ('m, 'a) boot \<Rightarrow> bool" where
  "kernel_space ops free c max_phys K segs s s' \<longleftrightarrow>
     (\<forall>seg \<in> set (loads segs). seg_shown ops free K seg s s') \<and>
     (\<exists>g. stack_mapped ops c s' g \<and> g ` {..<kernel_stack_size c} \<subseteq> free (frame_allocator s) - free (frame_allocator s') \<and>
        (\<forall>seg \<in> set (loads segs). \<forall>i < seg_mem_size seg. \<forall>j < kernel_stack_size c * 4096.
           translate ops (page_table s') (seg_virtual_addr seg + i) \<noteq> translate ops (page_table s') (kernel_stack_address c + j))) \<and>
     (\<forall>a \<le> max_phys. translate ops (page_table s') (physical_memory_offset c + a) = Some a) \<and>
     free (frame_allocator s') \<subseteq> free (frame_allocator s) \<and>
     (\<forall>a. a div 4096 \<notin> free (frame_allocator s) - free (frame_allocator s') \<longrightarrow> ram s' a = ram s a)"

section \<open>Two page sizes\<close>

locale boot_machine = small: elf_mapper ops pnum fnum tbl free plim + huge: page_mapper ops2 pnum2 fnum2 tbl2 free 2097152 plim
  for ops :: "('q, 'f, 'm, 'a) paging_ops" and pnum fnum tbl free plim
    and ops2 :: "('q2, 'f2, 'm, 'a) paging_ops" and pnum2 fnum2 tbl2 +
  assumes same_translate: "translate ops2 = translate ops"
    and map_small: "mapper_map_to ops q f fl (m, al) = Inr (m', al') \<Longrightarrow> tbl m' = (tbl m)(pnum q := Mapped (fnum f) fl) \<and>
      (\<forall>h. tbl2 m h = Free \<longrightarrow> h \<noteq> pnum q div 512 \<longrightarrow> tbl2 m' h = Free)"
    and unmap_small: "mapper_unmap ops q m = Inr m' \<Longrightarrow> tbl m' = (tbl m)(pnum q := Free) \<and> (\<forall>h. tbl2 m h = Free \<longrightarrow> tbl2 m' h = Free)"
    and map_huge: "mapper_map_to ops2 q2 f2 fl (m, al) = Inr (m', al') \<Longrightarrow> tbl m p = Mapped x fl' \<Longrightarrow> tbl m' p = Mapped x fl'"
    and huge_free: "tbl2 m h = Free \<Longrightarrow> p div 512 = h \<Longrightarrow> tbl m p \<noteq> Mapped x fl"
begin

text \<open>An area that was free for a large page still is, or a page in it has been mapped.\<close>

definition areas_kept :: "'m \<Rightarrow> 'm \<Rightarrow> bool" where
  "areas_kept m0 m \<longleftrightarrow> (\<forall>h. tbl2 m0 h = Free \<longrightarrow> tbl2 m h = Free \<or> (\<exists>p x fl. p div 512 = h \<and> tbl m p = Mapped x fl))"

lemma areas_map: "mapper_map_to ops q f fl (m, al) = Inr (m', al') \<Longrightarrow> areas_kept m0 m \<Longrightarrow> areas_kept m0 m'"
  unfolding areas_kept_def
proof (intro allI impI)
  fix h
  assume m: "mapper_map_to ops q f fl (m, al) = Inr (m', al')"
    and kept: "\<forall>h. tbl2 m0 h = Free \<longrightarrow> tbl2 m h = Free \<or> (\<exists>p x fl. p div 512 = h \<and> tbl m p = Mapped x fl)" and h: "tbl2 m0 h = Free"
  note l = map_small [OF m]
  from kept h consider "tbl2 m h = Free" | p x fl' where "p div 512 = h" "tbl m p = Mapped x fl'" by blast
  then show "tbl2 m' h = Free \<or> (\<exists>p x fl. p div 512 = h \<and> tbl m' p = Mapped x fl)"
  proof cases
    case 1
    show ?thesis
    proof (cases "h = pnum q div 512")
      case True
      have "tbl m' (pnum q) = Mapped (fnum f) fl" using l by simp
      with True show ?thesis by blast
    qed (use l 1 in blast)
  next
    case 2
    have "\<exists>y fl'. tbl m' p = Mapped y fl'" using l 2(2) by (cases "p = pnum q") auto
    with 2(1) show ?thesis by blast
  qed
qed

lemma areas_remap: "remaps ops (areas_kept m0)"
  unfolding remaps_def
proof (intro allI impI)
  fix q f fl m m1 al m' al'
  assume m: "mapper_unmap ops q m = Inr m1" "mapper_map_to ops q f fl (m1, al) = Inr (m', al')" "areas_kept m0 m"
  note u = unmap_small [OF m(1)] and l = map_small [OF m(2)]
  show "areas_kept m0 m'"
    unfolding areas_kept_def
  proof (intro allI impI)
    fix h
    assume "tbl2 m0 h = Free"
    with m(3) consider "tbl2 m h = Free" | p x fl' where "p div 512 = h" "tbl m p = Mapped x fl'" by (auto simp: areas_kept_def)
    then show "tbl2 m' h = Free \<or> (\<exists>p x fl. p div 512 = h \<and> tbl m' p = Mapped x fl)"
    proof cases
      case 1
      have "tbl m' (pnum q) = Mapped (fnum f) fl" using l by simp
      then show ?thesis using u l 1 by (cases "h = pnum q div 512") blast+
    next
      case 2
      have "\<exists>y fl'. tbl m' p = Mapped y fl'" using u l 2(2) by (cases "p = pnum q") auto
      with 2(1) show ?thesis by blast
    qed
  qed
qed

text \<open>The areas where no page was mapped are still free.\<close>

lemma areas_free:
  assumes "areas_kept m0 m" and "tbl2 m0 h = Free" and "\<forall>p. p div 512 = h \<longrightarrow> tbl m p = tbl m0 p"
  shows "tbl2 m h = Free"
  using assms huge_free [OF assms(2)] unfolding areas_kept_def by metis

text \<open>The three steps.\<close>

lemma elf_step:
  assumes fits: "space_fits plim c mx K segs"
    and "\<forall>seg \<in> set (loads segs). \<forall>p \<in> seg_pages seg. tbl (page_table s) p = Free"
    and "\<forall>seg \<in> set (loads segs). \<forall>f \<in> seg_frames K seg. f \<notin> free (frame_allocator s)"
    and "sum_list (map frames_needed (loads segs)) \<le> card (free (frame_allocator s))"
  shows "runs (expect_ok (map_elf ops (K * 4096) segs)) s (\<lambda>_ s1. small.elf_done K segs s s1 \<and> areas_kept (page_table s) (page_table s1) \<and>
    card (free (frame_allocator s)) \<le> card (free (frame_allocator s1)) + sum_list (map frames_needed (loads segs)))"
proof -
  have e: "elf_fits plim K segs" "K * 4096 < plim" using fits by (auto simp: space_fits_def elf_fits_def)
  have start: "map_elf ops (K * 4096) segs = ebnd (ok (K * 4096)) (\<lambda>k. each_ok segs (\<lambda>seg. map_segment ops seg k))"
    using small.pa_new_law [OF e(2)] by (simp add: map_elf_def lift_pure_def)
  have "runs (map_elf ops (K * 4096) segs) s (\<lambda>r s1. r = Inr () \<and> small.elf_done K segs s s1 \<and>
      card (free (frame_allocator s)) \<le> card (free (frame_allocator s1)) + sum_list (map frames_needed (loads segs)))"
    unfolding start runs_ebnd runs_ok by (simp) (rule small.map_segments_ok [OF e(1) assms(2-4)])
  then obtain s1 where r: "map_elf ops (K * 4096) segs s = Inr (Inr (), s1)" "small.elf_done K segs s s1"
      "card (free (frame_allocator s)) \<le> card (free (frame_allocator s1)) + sum_list (map frames_needed (loads segs))"
    by (auto simp: runs_def split: sum.splits prod.splits)
  have "areas_kept (page_table s) (page_table s)" by (simp add: areas_kept_def)
  with stable_map_elf [of ops "areas_kept (page_table s)" "K * 4096" segs, OF areas_map areas_remap] r(1)
  have "areas_kept (page_table s) (page_table s1)" by (auto simp: stable_def)
  with r show ?thesis by (simp add: runs_def expect_ok_def bnd_def ret_def)
qed

abbreviation rw :: page_flags where
  "rw \<equiv> \<lparr>PRESENT = True, WRITABLE = True, NO_EXECUTE = False\<rparr>"

lemma stack_step:
  assumes fits: "space_fits plim c mx K segs" and "\<forall>p \<in> stack_pages c. tbl (page_table s1) p = Free"
    and "4 * kernel_stack_size c \<le> card (free (frame_allocator s1))" and "areas_kept m0 (page_table s1)"
  shows "runs (expect_ok (map_stack ops (kernel_stack_address c) (kernel_stack_size c))) s1 (\<lambda>_ s2.
    small.took_frames (kernel_stack_address c div 4096) (kernel_stack_size c) rw s1 s2 \<and> areas_kept m0 (page_table s2))"
proof -
  let ?A = "kernel_stack_address c" and ?n = "kernel_stack_size c"
  have al: "?A div 4096 * 4096 = ?A" and can: "\<forall>x. ?A \<le> x \<and> x \<le> ?A + ?n * 4096 \<longrightarrow> canonical x"
    using fits by (auto simp: space_fits_def aligned)
  have pages: "\<forall>x. ?A div 4096 \<le> x \<and> x \<le> ?A div 4096 + ?n \<longrightarrow> canonical (x * 4096)"
  proof (intro allI impI, elim conjE)
    fix x
    assume "?A div 4096 \<le> x" "x \<le> ?A div 4096 + ?n"
    then have "?A div 4096 * 4096 \<le> x * 4096" "x * 4096 \<le> (?A div 4096 + ?n) * 4096" by (simp_all only: mult_le_mono1)
    then show "canonical (x * 4096)" using can al by (simp add: distrib_right)
  qed
  have "runs (map_stack ops ?A ?n) s1 (\<lambda>r s2. r = Inr () \<and> small.took_frames (?A div 4096) ?n rw s1 s2)"
    using can assms(2) by (intro small.map_stack_ok [OF _ pages _ assms(3)]) (simp_all add: stack_pages_def)
  then obtain s2 where r: "map_stack ops ?A ?n s1 = Inr (Inr (), s2)" "small.took_frames (?A div 4096) ?n rw s1 s2"
    by (auto simp: runs_def split: sum.splits prod.splits)
  with stable_map_stack [of ops "areas_kept m0" ?A ?n, OF areas_map] assms(4)
  have "areas_kept m0 (page_table s2)" by (auto simp: stable_def)
  with r show ?thesis by (simp add: runs_def expect_ok_def bnd_def ret_def)
qed

lemma window_step:
  assumes fits: "space_fits plim c mx K segs" and "\<forall>h \<in> window c mx. tbl2 (page_table s2) h = Free"
    and "3 * Suc (mx div 2097152) \<le> card (free (frame_allocator s2))"
  shows "runs (map_physical_memory ops2 (physical_memory_offset c) mx) s2 (\<lambda>_ s3.
    huge.linked (physical_memory_offset c div 2097152) 0 (Suc (mx div 2097152)) rw s2 s3 \<and>
    (\<forall>p x fl. tbl (page_table s2) p = Mapped x fl \<longrightarrow> tbl (page_table s3) p = Mapped x fl))"
proof -
  let ?O = "physical_memory_offset c" and ?n = "Suc (mx div 2097152)"
  have pre: "2097152 dvd ?O" "mx < plim" "\<forall>x. ?O \<le> x \<and> x < ?O + ?n * 2097152 \<longrightarrow> canonical x"
    using fits by (auto simp: space_fits_def)
  have "runs (map_physical_memory ops2 ?O mx) s2 (\<lambda>_ s3. huge.linked (?O div 2097152) 0 ?n rw s2 s3)"
    using assms(2) by (intro huge.map_physical_ok [OF pre(1,2) refl pre(3) _ assms(3)]) (auto simp: window_def)
  then obtain u s3 where r: "map_physical_memory ops2 ?O mx s2 = Inr (u, s3)" "huge.linked (?O div 2097152) 0 ?n rw s2 s3"
    by (auto simp: runs_def split: sum.splits prod.splits)
  have "tbl (page_table s3) p = Mapped x fl" if "tbl (page_table s2) p = Mapped x fl" for p x fl
    using stable_map_physical [of ops2 "\<lambda>m. tbl m p = Mapped x fl", OF map_huge r(1)] that by simp
  with r show ?thesis by (simp add: runs_def)
qed

lemma window_translate:
  assumes "space_fits plim c mx K segs" and "huge.linked (physical_memory_offset c div 2097152) 0 (Suc (mx div 2097152)) fl s2 s3" and "a \<le> mx"
  shows "translate ops (page_table s3) (physical_memory_offset c + a) = Some a"
proof -
  let ?O = "physical_memory_offset c" and ?n = "Suc (mx div 2097152)"
  have al: "?O div 2097152 * 2097152 = ?O" and can: "\<forall>x. ?O \<le> x \<and> x < ?O + ?n * 2097152 \<longrightarrow> canonical x"
    using assms(1) by (auto simp: space_fits_def)
  have "mx < ?n * 2097152" using dividend_less_div_times [of 2097152 mx] by simp
  then have lt: "a < ?n * 2097152" using assms(3) by (rule le_less_trans [rotated])
  have t: "tbl2 (page_table s3) = huge.extend (?O div 2097152) ?n (\<lambda>j. 0 + j) fl (tbl2 (page_table s2))"
    using assms(2) by (simp add: huge.linked_def)
  have "canonical (?O + a)" using can lt by simp
  with huge.translate_extend [OF t lt] al show ?thesis by (simp add: same_translate)
qed

lemma stack_translate:
  assumes "space_fits plim c mx K segs" and "inj_on g {..<kernel_stack_size c}"
    and "\<forall>j < kernel_stack_size c. tbl (page_table s3) (kernel_stack_address c div 4096 + j) = Mapped (g j) rw"
  shows "stack_mapped ops c s3 g"
  unfolding stack_mapped_def
proof (intro conjI allI impI)
  fix i
  assume i: "i < kernel_stack_size c * 4096"
  let ?A = "kernel_stack_address c"
  have al: "?A div 4096 * 4096 = ?A" and can: "canonical (?A + i)" using assms(1) i by (auto simp: space_fits_def aligned)
  have "(?A div 4096 * 4096 + i) div 4096 = ?A div 4096 + i div 4096" "(?A div 4096 * 4096 + i) mod 4096 = i mod 4096" by simp_all
  then have d: "(?A + i) div 4096 = ?A div 4096 + i div 4096" "(?A + i) mod 4096 = i mod 4096" unfolding al by simp_all
  have "i div 4096 < kernel_stack_size c" by (rule small.page_split(1) [OF i])
  with assms(3) d(1) have "tbl (page_table s3) ((?A + i) div 4096) = Mapped (g (i div 4096)) rw" by simp
  from small.translate_law [OF can this] d(2) show "translate ops (page_table s3) (?A + i) = Some (g (i div 4096) * 4096 + i mod 4096)" by simp
qed (rule assms(2))

text \<open>What the states after the steps have in common with each other gives the address space.\<close>

lemma space_of_steps:
  assumes fits: "space_fits plim c mx K segs" and e: "small.elf_done K segs s s1"
    and t: "small.took_frames (kernel_stack_address c div 4096) (kernel_stack_size c) rw s1 s2"
    and l: "huge.linked (physical_memory_offset c div 2097152) 0 (Suc (mx div 2097152)) rw s2 s3"
    and kept: "\<forall>p x fl. tbl (page_table s2) p = Mapped x fl \<longrightarrow> tbl (page_table s3) p = Mapped x fl"
  shows "kernel_space ops free c mx K segs s s3"
proof -
  let ?A = "kernel_stack_address c" and ?n = "kernel_stack_size c"
  have sf: "seg_fits plim K seg" if "seg \<in> set (loads segs)" for seg using fits that by (simp add: space_fits_def elf_fits_def)
  have apart: "seg_pages seg \<inter> stack_pages c = {}" if "seg \<in> set (loads segs)" for seg using fits that by (simp add: space_fits_def)
  from t obtain g where g: "inj_on g {..<?n}" "g ` {..<?n} \<subseteq> free (frame_allocator s1) - free (frame_allocator s2)"
    "tbl (page_table s2) = small.extend (?A div 4096) ?n g rw (tbl (page_table s1))"
    "free (frame_allocator s2) \<subseteq> free (frame_allocator s1)" "ram s2 = ram s1" by (auto simp: small.took_frames_def)
  have h: "free (frame_allocator s3) \<subseteq> free (frame_allocator s2)" "ram s3 = ram s2" using l by (simp_all add: huge.linked_def)
  have e': "\<And>seg. seg \<in> set (loads segs) \<Longrightarrow> seg_shown ops free K seg s s1"
    "\<And>seg. seg \<in> set (loads segs) \<Longrightarrow> \<forall>p. seg_page seg \<le> p \<and> p * 4096 < seg_virtual_addr seg + seg_mem_size seg \<longrightarrow>
      (\<exists>f. tbl (page_table s1) p = Mapped f (segment_flags seg))"
    "free (frame_allocator s1) \<subseteq> free (frame_allocator s)"
    "\<forall>a. a div 4096 \<notin> free (frame_allocator s) - free (frame_allocator s1) \<longrightarrow> ram s1 a = ram s a"
    using e by (simp_all add: small.elf_done_def)
  have mp: "\<forall>p \<in> seg_pages seg. \<forall>f fl. tbl (page_table s1) p = Mapped f fl \<longrightarrow> tbl (page_table s3) p = Mapped f fl"
    if "seg \<in> set (loads segs)" for seg
  proof (intro ballI allI impI)
    fix p f fl
    assume p: "p \<in> seg_pages seg" "tbl (page_table s1) p = Mapped f fl"
    with apart [OF that] have "p \<notin> stack_pages c" by blast
    then have "tbl (page_table s2) p = Mapped f fl" using p(2) g(3) by (auto simp: small.extend_def stack_pages_def)
    with kept show "tbl (page_table s3) p = Mapped f fl" by blast
  qed
  have sm: "stack_mapped ops c s3 g"
    by (rule stack_translate [OF fits g(1)]) (use kept g(3) in \<open>auto simp: small.extend_def\<close>)
  have ne: "translate ops (page_table s3) (seg_virtual_addr seg + i) \<noteq> translate ops (page_table s3) (?A + j)"
    if that': "seg \<in> set (loads segs)" "i < seg_mem_size seg" "j < ?n * 4096" for seg i j
  proof -
    obtain pa where pa: "translate ops (page_table s1) (seg_virtual_addr seg + i) = Some pa" "pa div 4096 \<notin> free (frame_allocator s1)"
      using e'(1) [OF that'(1)] that'(2) by (auto simp: seg_shown_def)
    have "g (j div 4096) \<in> free (frame_allocator s1)" using g(2) small.page_split(1) [OF that'(3)] by blast
    with pa(2) have "pa \<noteq> g (j div 4096) * 4096 + j mod 4096" by auto
    with pa(1) sm that'(3) small.seg_translate_later [OF sf [OF that'(1)] that'(2) e'(2) [OF that'(1)] mp [OF that'(1)]]
    show ?thesis by (simp add: stack_mapped_def)
  qed
  have shown: "seg_shown ops free K seg s s3" if "seg \<in> set (loads segs)" for seg
    using g(4,5) h by (intro small.seg_shown_later [OF sf [OF that] e'(1) [OF that] _ e'(2) [OF that] mp [OF that]]) auto
  have gin: "g ` {..<?n} \<subseteq> free (frame_allocator s) - free (frame_allocator s3)" using g(2) h(1) e'(3) by blast
  have ramk: "ram s3 a = ram s a" if "a div 4096 \<notin> free (frame_allocator s) - free (frame_allocator s3)" for a
  proof -
    have "a div 4096 \<notin> free (frame_allocator s) - free (frame_allocator s1)" using that g(4) h(1) by blast
    with e'(4) g(5) h(2) show ?thesis by simp
  qed
  show ?thesis
    unfolding kernel_space_def
    using shown sm gin ne window_translate [OF fits l] ramk e'(3) g(4) h(1) by (intro conjI exI [of _ g] ballI allI impI) auto
qed

lemma map_kernel_ok:
  assumes fits: "space_fits plim c mx K segs"
    and free: "\<forall>seg \<in> set (loads segs). \<forall>p \<in> seg_pages seg. tbl (page_table s) p = Free"
      "\<forall>p \<in> stack_pages c. tbl (page_table s) p = Free" "\<forall>h \<in> window c mx. tbl2 (page_table s) h = Free"
    and buf: "\<forall>seg \<in> set (loads segs). \<forall>f \<in> seg_frames K seg. f \<notin> free (frame_allocator s)"
    and room: "space_needed c mx segs \<le> card (free (frame_allocator s))"
  shows "runs (map_kernel ops ops2 c mx (K * 4096) segs) s (\<lambda>top s'.
    top = kernel_stack_address c + kernel_stack_size c * 4096 \<and> kernel_space ops free c mx K segs s s')"
proof -
  let ?A = "kernel_stack_address c" and ?n = "kernel_stack_size c" and ?w = "sum_list (map frames_needed (loads segs))"
  have top: "sbnd (u64_mul ?n 0x1000) (u64_add ?A) = Inr (?A + ?n * 4096)"
  proof -
    have "canonical (?A + ?n * 4096)" using fits by (auto simp: space_fits_def)
    then have "?A + ?n * 4096 < U64_RANGE" by (auto simp: canonical_def U64_RANGE_def)
    then show ?thesis by (simp add: u64_mul_def u64_add_def)
  qed
  have apart: "seg_pages seg \<inter> stack_pages c = {}" if "seg \<in> set (loads segs)" for seg using fits that by (simp add: space_fits_def)
  have area: "p div 512 \<notin> window c mx" if "p \<in> stack_pages c \<or> (\<exists>seg \<in> set (loads segs). p \<in> seg_pages seg)" for p
    using fits that unfolding space_fits_def by blast
  have w: "?w \<le> card (free (frame_allocator s))" using room by (simp add: space_needed_def)
  show ?thesis
    unfolding map_kernel_def runs_bnd
  proof (rule runs_mono [OF elf_step [OF fits free(1) buf w]], elim conjE)
    fix u s1
    assume e: "small.elf_done K segs s s1" "areas_kept (page_table s) (page_table s1)"
      and c1: "card (free (frame_allocator s)) \<le> card (free (frame_allocator s1)) + ?w"
    have out1: "tbl (page_table s1) p = tbl (page_table s) p" if "\<forall>seg \<in> set (loads segs). p \<notin> seg_pages seg" for p
      using e(1) that by (simp add: small.elf_done_def)
    have st: "\<forall>p \<in> stack_pages c. tbl (page_table s1) p = Free" using out1 free(2) apart by (metis disjoint_iff)
    have w1: "4 * ?n \<le> card (free (frame_allocator s1))" using room c1 by (simp add: space_needed_def)
    show "runs (expect_ok (map_stack ops ?A ?n)) s1 (\<lambda>_ s2. runs (map_physical_memory ops2 (physical_memory_offset c) mx) s2 (\<lambda>_ s3.
        runs (pure (sbnd (u64_mul ?n 0x1000) (u64_add ?A))) s3 (\<lambda>top s'. top = ?A + ?n * 4096 \<and> kernel_space ops free c mx K segs s s')))"
    proof (rule runs_mono [OF stack_step [OF fits st w1 e(2)]], elim conjE)
      fix u s2
      assume t: "small.took_frames (?A div 4096) ?n rw s1 s2" "areas_kept (page_table s) (page_table s2)"
      have tb: "tbl (page_table s2) p = tbl (page_table s) p" if "p div 512 \<in> window c mx" for p
      proof -
        have "p \<notin> stack_pages c" "\<forall>seg \<in> set (loads segs). p \<notin> seg_pages seg" using area that by blast+
        with t(1) out1 show ?thesis by (auto simp: small.took_frames_def small.extend_def stack_pages_def)
      qed
      have wi: "\<forall>h \<in> window c mx. tbl2 (page_table s2) h = Free" using areas_free [OF t(2)] free(3) tb by blast
      have w2: "3 * Suc (mx div 2097152) \<le> card (free (frame_allocator s2))"
        using t(1) c1 room by (auto simp: small.took_frames_def space_needed_def)
      show "runs (map_physical_memory ops2 (physical_memory_offset c) mx) s2 (\<lambda>_ s3.
          runs (pure (sbnd (u64_mul ?n 0x1000) (u64_add ?A))) s3 (\<lambda>top s'. top = ?A + ?n * 4096 \<and> kernel_space ops free c mx K segs s s'))"
        by (rule runs_mono [OF window_step [OF fits wi w2]]) (use space_of_steps [OF fits e(1) t(1)] top in \<open>auto simp: runs_ret\<close>)
    qed
  qed
qed

end

end
