(* ===== verification/Boot_Proof.thy ===== *)
theory Boot_Proof
  imports Page_Space
begin

text \<open>
  The boot loader as a whole. The locale \<open>boot_firmware\<close> adds to the paging contract what the firmware promises
  about memory and files; inside it \<open>load_file\<close> is proved to bring a whole file into fresh pages and \<open>boot_main\<close> to
  hand over to the kernel.
\<close>

definition file_pages_of :: "u8 list \<Rightarrow> nat" where
  "file_pages_of bs = length bs div 4096 + 1"

text \<open>A path leads to a file, a resolution to a graphic mode.\<close>

definition opens :: "('a, 't, 'v, 'r, 'p, 'h, 'g, 'd) firmware \<Rightarrow> 'a \<Rightarrow> u8 list \<Rightarrow> 'h \<Rightarrow> bool" where
  "opens fw al path h \<longleftrightarrow> (\<exists>fs root p. fw_locate_fs fw al = Some fs \<and> fw_open_volume fw fs = Some root \<and>
     fw_path fw path (length path + 1) = Some p \<and> fw_open fw root p = Some h)"

definition shows_graphic :: "('a, 't, 'v, 'r, 'p, 'h, 'g, 'd) firmware \<Rightarrow> 'a \<Rightarrow> (nat \<times> nat) option \<Rightarrow> graphic_info \<Rightarrow> bool" where
  "shows_graphic fw al res info \<longleftrightarrow> (\<exists>gop. fw_locate_gop fw al = Some gop \<and>
     (case res of
        None \<Rightarrow> info = fw_graphic_info fw gop
      | Some r \<Rightarrow> \<exists>mode gop'. find (\<lambda>mode. fw_resolution fw mode = r) (fw_modes fw gop) = Some mode \<and>
          fw_set_mode fw gop mode = Some gop' \<and> info = fw_graphic_info fw gop'))"

text \<open>The segments of a file that the kernel finds at their addresses.\<close>

definition file_shown :: "('q, 'f, 'm, 'a) paging_ops \<Rightarrow> u8 list \<Rightarrow> segment \<Rightarrow> ('m, 'a) boot \<Rightarrow> bool" where
  "file_shown ops bs seg s' \<longleftrightarrow> (\<forall>i < seg_mem_size seg. \<exists>pa. translate ops (page_table s') (seg_virtual_addr seg + i) = Some pa \<and>
     ram s' pa = (if i < seg_file_size seg then bs ! (seg_offset seg + i) else 0))"

text \<open>What the kernel finds: the hand-over record, its image, its stack and the window on physical memory.\<close>

definition handed_over :: "('q, 'f, 'm, 'a) paging_ops \<Rightarrow> config \<Rightarrow> nat \<Rightarrow> u8 list \<Rightarrow> nat \<Rightarrow> segment list \<Rightarrow>
    't memory_descriptor list \<Rightarrow> graphic_info \<Rightarrow> 't handover \<Rightarrow> ('m, 'a) boot \<Rightarrow> bool" where
  "handed_over ops c mx bs entry segs mmap info ho s' \<longleftrightarrow>
    ho = \<lparr>ho_stack_top = kernel_stack_address c + kernel_stack_size c * 4096, ho_entry = entry,
      ho_boot_info = \<lparr>bi_memory_map = mmap, bi_physical_memory_offset = physical_memory_offset c, bi_graphic_info = info\<rparr>\<rparr> \<and>
    (\<forall>seg \<in> set (loads segs). file_shown ops bs seg s') \<and>
    (\<exists>g. stack_mapped ops c s' g \<and> (\<forall>seg \<in> set (loads segs). \<forall>i < seg_mem_size seg. \<forall>j < kernel_stack_size c * 4096.
       translate ops (page_table s') (seg_virtual_addr seg + i) \<noteq> translate ops (page_table s') (kernel_stack_address c + j))) \<and>
    (\<forall>a \<le> mx. translate ops (page_table s') (physical_memory_offset c + a) = Some a)"

lemma runs_expect: "runs (expect x) s Q \<longleftrightarrow> (\<exists>a. x = Some a \<and> Q a s)"
  by (cases x) (simp_all add: expect_def unwrap_def runs_def pure_def)

lemma runs_fw_pages: "runs (fw_pages fw n) s Q \<longleftrightarrow>
  (case fw_allocate_pages fw (frame_allocator s) n of (r, bs) \<Rightarrow> Q r (s\<lparr>frame_allocator := bs\<rparr>))"
  by (simp add: runs_def fw_pages_def split: prod.splits)

lemma runs_slice: "runs (slice b) s Q \<longleftrightarrow> Q (map (\<lambda>i. ram s (fst b + i)) [0..<snd b]) s"
  by (simp add: slice_def wp)

text \<open>A step that only looks.\<close>

lemma runs_step: "runs m s (\<lambda>r s'. r = x \<and> s' = s) \<Longrightarrow> runs (f x) s Q \<Longrightarrow> runs (bnd m f) s Q"
  by (auto simp: runs_def bnd_def split: sum.splits prod.splits)

lemma open_file_ok: "opens fw (frame_allocator s) path h \<Longrightarrow> runs (open_file fw path) s (\<lambda>r s'. r = h \<and> s' = s)"
  by (auto simp: opens_def open_file_def wp runs_expect)

lemma init_graphic_ok:
  "shows_graphic fw (frame_allocator s) res info \<Longrightarrow> runs (init_graphic fw res) s (\<lambda>r s'. r = info \<and> s' = s)"
  by (cases res) (auto simp: shows_graphic_def init_graphic_def wp runs_expect)

locale boot_firmware = boot_machine ops pnum fnum tbl free plim ops2 pnum2 fnum2 tbl2
  for ops :: "('q, 'f, 'm, 'a) paging_ops" and pnum fnum tbl free plim
    and ops2 :: "('q2, 'f2, 'm, 'a) paging_ops" and pnum2 fnum2 tbl2 +
  fixes fw :: "('a, 't, 'v, 'r, 'p, 'h, 'g, 'd) firmware" and contents :: "'h \<Rightarrow> u8 list"
  assumes pages_law: "fw_allocate_pages fw al n = (Some st, al') \<Longrightarrow> st mod 4096 = 0 \<and>
      {st div 4096..<st div 4096 + n} \<subseteq> free al \<and> free al' = free al - {st div 4096..<st div 4096 + n}"
    and size_law: "fw_file_size fw h = Some (length (contents h))"
    and read_law: "length (contents h) \<le> n \<Longrightarrow> fw_read fw h n = Some (contents h)"
begin

text \<open>A file is in fresh pages after \<open>load_file\<close>.\<close>

definition in_memory :: "u8 list \<Rightarrow> nat \<Rightarrow> ('m, 'a) boot \<Rightarrow> ('m, 'a) boot \<Rightarrow> bool" where
  "in_memory bs st s s' \<longleftrightarrow> page_table s' = page_table s \<and> (\<forall>i < length bs. ram s' (st + i) = bs ! i) \<and>
     (\<forall>a. a < st \<or> st + length bs \<le> a \<longrightarrow> ram s' a = ram s a)"

lemma load_file_ok:
  assumes "fw_allocate_pages fw (frame_allocator s) (file_pages_of (contents h)) = (Some st, al')"
    and "file_pages_of (contents h) * 4096 < U64_RANGE"
  shows "runs (load_file fw h) s (\<lambda>b s'. b = (st, length (contents h)) \<and> frame_allocator s' = al' \<and> in_memory (contents h) st s s')"
proof -
  have "length (contents h) < file_pages_of (contents h) * 4096"
    using dividend_less_div_times [of 4096 "length (contents h)"] by (simp add: file_pages_of_def)
  then have "length (contents h) \<le> file_pages_of (contents h) * 4096" by simp
  with assms show ?thesis
    by (simp add: load_file_def Let_def wp runs_expect runs_fw_pages size_law read_law fill_buffer_def file_pages_of_def
      u64_mul_def in_memory_def)
qed

lemma in_memory_slice: "in_memory bs st s s' \<Longrightarrow> map (\<lambda>i. ram s' (st + i)) [0..<length bs] = bs"
  by (auto simp: in_memory_def intro: nth_equalityI)

text \<open>The frames of the buffer are no longer free.\<close>

lemma buffer_taken:
  assumes "fw_allocate_pages fw al (file_pages_of bs) = (Some (K * 4096), al')" and "seg_fits plim K seg"
    and "seg_offset seg + seg_file_size seg \<le> length bs" and "f \<in> seg_frames K seg"
  shows "f \<notin> free al'"
proof -
  have o: "seg_frame K seg * 4096 = K * 4096 + seg_offset seg" using assms(2) aligned [of "seg_offset seg"]
    by (simp add: seg_fits_def distrib_right)
  have f: "K \<le> f" "f * 4096 < K * 4096 + length bs" using assms(3,4) o by (auto simp: seg_frames_def)
  then have "(f - K) * 4096 \<le> length bs" by (simp add: diff_mult_distrib)
  then have "f - K \<le> length bs div 4096" by (simp add: less_eq_div_iff_mult_less_eq)
  with f(1) have "f \<in> {K..<K + file_pages_of bs}" by (auto simp: file_pages_of_def)
  with pages_law [OF assms(1)] show ?thesis by simp
qed

lemma seg_file_shown:
  assumes "in_memory bs (K * 4096) s s2" and "seg_offset seg + seg_file_size seg \<le> length bs" and "seg_shown ops free K seg s2 s3"
  shows "file_shown ops bs seg s3"
  unfolding file_shown_def
proof (intro allI impI)
  fix i
  assume "i < seg_mem_size seg"
  with assms(3) obtain pa where "translate ops (page_table s3) (seg_virtual_addr seg + i) = Some pa"
    "ram s3 pa = (if i < seg_file_size seg then ram s2 (K * 4096 + seg_offset seg + i) else 0)" by (auto simp: seg_shown_def)
  moreover have "ram s2 (K * 4096 + seg_offset seg + i) = bs ! (seg_offset seg + i)" if "i < seg_file_size seg"
    using assms(1,2) that by (simp add: in_memory_def add.assoc)
  ultimately show "\<exists>pa. translate ops (page_table s3) (seg_virtual_addr seg + i) = Some pa \<and>
      ram s3 pa = (if i < seg_file_size seg then bs ! (seg_offset seg + i) else 0)" by auto
qed

text \<open>The last steps: the address space, the end of the boot services and the jump.\<close>

lemma hand_over_ok:
  assumes s2: "frame_allocator s2 = al2" "page_table s2 = page_table s" "in_memory bs (K * 4096) s1 s2"
    and buf: "fw_allocate_pages fw al1 (file_pages_of bs) = (Some (K * 4096), al2)"
    and lens: "\<forall>seg \<in> set (loads segs). seg_offset seg + seg_file_size seg \<le> length bs"
    and fits: "space_fits plim c mx K segs"
    and free: "\<forall>seg \<in> set (loads segs). \<forall>p \<in> seg_pages seg. tbl (page_table s) p = Free"
      "\<forall>p \<in> stack_pages c. tbl (page_table s) p = Free" "\<forall>h \<in> window c mx. tbl2 (page_table s) h = Free"
    and room: "space_needed c mx segs \<le> card (free al2)"
    and ends: "\<forall>al. fw_exit_boot_services fw al = Some mmap'"
  shows "runs (bnd (map_kernel ops ops2 c mx (K * 4096) segs) (\<lambda>stack_top.
      bnd (bnd (gets frame_allocator) (\<lambda>bs. expect (fw_exit_boot_services fw bs))) (\<lambda>memory_map.
      jump_to_entry stack_top entry \<lparr>bi_memory_map = memory_map,
        bi_physical_memory_offset = physical_memory_offset c, bi_graphic_info = info\<rparr>))) s2
    (handed_over ops c mx bs entry segs mmap' info)"
proof -
  have taken: "\<forall>seg \<in> set (loads segs). \<forall>f \<in> seg_frames K seg. f \<notin> free (frame_allocator s2)"
    using buffer_taken [OF buf] fits lens s2(1) by (auto simp: space_fits_def elf_fits_def)
  have r: "space_needed c mx segs \<le> card (free (frame_allocator s2))" using room s2(1) by simp
  show ?thesis
    unfolding runs_bnd
  proof (rule runs_mono [OF map_kernel_ok [OF fits free [folded s2(2)] taken r]], elim conjE)
    fix top s'
    assume t: "top = kernel_stack_address c + kernel_stack_size c * 4096" and ks: "kernel_space ops free c mx K segs s2 s'"
    have "file_shown ops bs seg s'" if "seg \<in> set (loads segs)" for seg
      using seg_file_shown [OF s2(3)] lens ks that by (simp add: kernel_space_def)
    with ks t ends show "runs (gets frame_allocator) s' (\<lambda>al s'. runs (expect (fw_exit_boot_services fw al)) s' (\<lambda>memory_map s'.
        runs (jump_to_entry top entry \<lparr>bi_memory_map = memory_map,
          bi_physical_memory_offset = physical_memory_offset c, bi_graphic_info = info\<rparr>) s'
          (handed_over ops c mx bs entry segs mmap' info)))"
      by (auto simp: wp runs_expect jump_to_entry_def kernel_space_def handed_over_def)
  qed
qed

lemma boot_main_ok:
  assumes mmap: "fw_memory_map fw (frame_allocator s) = Some mmap" "max_phys_addr mmap = Inr mx"
    and conf: "opens fw (frame_allocator s) conf_path hc" "Config_parse (contents hc) = Inr c"
      "fw_allocate_pages fw (frame_allocator s) (file_pages_of (contents hc)) = (Some stc, al1)"
    and gop: "shows_graphic fw al1 (resolution c) info"
    and kernel: "opens fw al1 (kernel_path c) hk" "elf_new (contents hk) = Some (entry, segs)"
      "fw_allocate_pages fw al1 (file_pages_of (contents hk)) = (Some (K * 4096), al2)"
    and lens: "file_pages_of (contents hc) * 4096 < U64_RANGE" "file_pages_of (contents hk) * 4096 < U64_RANGE"
      "\<forall>seg \<in> set (loads segs). seg_offset seg + seg_file_size seg \<le> length (contents hk)"
    and fits: "space_fits plim c mx K segs"
    and free: "\<forall>seg \<in> set (loads segs). \<forall>p \<in> seg_pages seg. tbl (page_table s) p = Free"
      "\<forall>p \<in> stack_pages c. tbl (page_table s) p = Free" "\<forall>h \<in> window c mx. tbl2 (page_table s) h = Free"
    and room: "space_needed c mx segs \<le> card (free al2)"
    and ends: "\<forall>al. fw_exit_boot_services fw al = Some mmap'"
  shows "runs (boot_main fw elf_new ops ops2) s (handed_over ops c mx (contents hk) entry segs mmap' info)"
    (is "runs _ _ ?Q")
proof -
  let ?tail = "\<lambda>buf. bnd (bnd (slice buf) (\<lambda>bytes. expect (elf_new bytes))) (\<lambda>(entry, segs).
      bnd (map_kernel ops ops2 c mx (fst buf) segs) (\<lambda>stack_top.
      bnd (bnd (gets frame_allocator) (\<lambda>bs. expect (fw_exit_boot_services fw bs))) (\<lambda>memory_map.
      jump_to_entry stack_top entry \<lparr>bi_memory_map = memory_map,
        bi_physical_memory_offset = physical_memory_offset c, bi_graphic_info = info\<rparr>)))"
  have k: "runs (bnd (load_file fw hk) ?tail) s1 ?Q" if s1: "frame_allocator s1 = al1" "page_table s1 = page_table s" for s1
    unfolding runs_bnd [of "load_file _ _"]
  proof (rule runs_mono [OF load_file_ok [OF kernel(3) [folded s1(1)] lens(2)]], elim conjE)
    fix b s2
    assume b: "b = (K * 4096, length (contents hk))" and s2: "frame_allocator s2 = al2" "in_memory (contents hk) (K * 4096) s1 s2"
    have "runs (bnd (slice b) (\<lambda>bytes. expect (elf_new bytes))) s2 (\<lambda>r s'. r = (entry, segs) \<and> s' = s2)"
      using in_memory_slice [OF s2(2)] kernel(2) by (simp add: runs_bnd runs_slice runs_expect b)
    moreover have "page_table s2 = page_table s" using s2(2) s1(2) by (simp add: in_memory_def)
    ultimately show "runs (?tail b) s2 ?Q"
      using hand_over_ok [OF s2(1) _ s2(2) kernel(3) lens(3) fits free room ends] by (intro runs_step [of _ _ "(entry, segs)"]) (simp_all add: b)
  qed
  have cfg: "runs (bnd (load_file fw hc) slice) s (\<lambda>r s1. r = contents hc \<and> frame_allocator s1 = al1 \<and> page_table s1 = page_table s)"
    unfolding runs_bnd [of "load_file _ _"]
    by (rule runs_mono [OF load_file_ok [OF conf(3) lens(1)]], elim conjE, simp add: runs_slice in_memory_slice)
      (simp add: in_memory_def)
  show ?thesis
    unfolding boot_main_def
  proof (rule runs_step [of _ _ mmap], (simp add: wp runs_expect mmap(1)), rule runs_step [of _ _ mx], (simp add: wp mmap(2)),
      rule runs_step [OF open_file_ok [OF conf(1)]], subst runs_bnd, rule runs_mono [OF cfg], elim conjE)
    fix r and s1 :: "('m, 'a) boot"
    assume s1: "r = contents hc" "frame_allocator s1 = al1" "page_table s1 = page_table s"
    have gr: "shows_graphic fw (frame_allocator s1) (resolution c) info" and op: "opens fw (frame_allocator s1) (kernel_path c) hk"
      using gop kernel(1) s1(2) by simp_all
    show "runs (bnd (pure (Config_parse r)) (\<lambda>c. bnd (init_graphic fw (resolution c)) (\<lambda>graphic. bnd (open_file fw (kernel_path c)) (\<lambda>kernel.
        bnd (load_file fw kernel) (\<lambda>buf. bnd (bnd (slice buf) (\<lambda>bytes. expect (elf_new bytes))) (\<lambda>(entry, segs).
        bnd (map_kernel ops ops2 c mx (fst buf) segs) (\<lambda>stack_top.
        bnd (bnd (gets frame_allocator) (\<lambda>bs. expect (fw_exit_boot_services fw bs))) (\<lambda>memory_map.
        jump_to_entry stack_top entry \<lparr>bi_memory_map = memory_map,
          bi_physical_memory_offset = physical_memory_offset c, bi_graphic_info = graphic\<rparr>)))))))) s1 ?Q"
      using k [OF s1(2,3)] conf(2) s1(1)
      by (intro runs_step [of "pure _" _ c] runs_step [OF init_graphic_ok [OF gr]] runs_step [OF open_file_ok [OF op]]) (simp_all add: wp)
  qed
qed

end

end
