(* ===== verification/Flat_Machine.thy ===== *)
theory Flat_Machine
  imports Boot_Proof
begin

text \<open>
  A machine on which the contracts of the boot loader can be met: page tables as two maps, for pages of 4 KiB and of
  2 MiB, and a firmware that keeps its free frames in a list. Frames for single pages come from
  \<open>UEFIFrameAllocator_allocate_frame\<close>, as in the source.
\<close>

section \<open>Page tables\<close>

record flat_table =
  small_pages :: "nat \<rightharpoonup> nat \<times> page_flags"
  huge_pages :: "nat \<rightharpoonup> nat \<times> page_flags"

definition slot_of :: "(nat \<times> page_flags) option \<Rightarrow> slot" where
  "slot_of e = (case e of None \<Rightarrow> Free | Some (f, fl) \<Rightarrow> Mapped f fl)"

definition small_slot :: "flat_table \<Rightarrow> nat \<Rightarrow> slot" where
  "small_slot t p = (if huge_pages t (p div 512) \<noteq> None then Blocked else slot_of (small_pages t p))"

definition huge_slot :: "flat_table \<Rightarrow> nat \<Rightarrow> slot" where
  "huge_slot t h = (if huge_pages t h = None \<and> (\<exists>j<512. small_pages t (h * 512 + j) \<noteq> None) then Blocked else slot_of (huge_pages t h))"

definition small_map_to :: "nat \<Rightarrow> nat \<Rightarrow> page_flags \<Rightarrow> flat_table \<times> nat list \<Rightarrow> map_to_error + flat_table \<times> nat list" where
  "small_map_to q f fl ta = (case small_slot (fst ta) q of
     Free \<Rightarrow> Inr ((fst ta)\<lparr>small_pages := (small_pages (fst ta))(q \<mapsto> (f, fl))\<rparr>, snd ta)
   | Mapped _ _ \<Rightarrow> Inl PageAlreadyMapped | Blocked \<Rightarrow> Inl ParentEntryHugePage)"

definition huge_map_to :: "nat \<Rightarrow> nat \<Rightarrow> page_flags \<Rightarrow> flat_table \<times> nat list \<Rightarrow> map_to_error + flat_table \<times> nat list" where
  "huge_map_to q f fl ta = (case huge_slot (fst ta) q of
     Free \<Rightarrow> Inr ((fst ta)\<lparr>huge_pages := (huge_pages (fst ta))(q \<mapsto> (f, fl))\<rparr>, snd ta)
   | _ \<Rightarrow> Inl PageAlreadyMapped)"

definition small_unmap :: "nat \<Rightarrow> flat_table \<Rightarrow> unmap_error + flat_table" where
  "small_unmap q t = (case small_slot t q of
     Mapped _ _ \<Rightarrow> Inr (t\<lparr>small_pages := (small_pages t)(q := None)\<rparr>)
   | Free \<Rightarrow> Inl PageNotMapped | Blocked \<Rightarrow> Inl UnmapParentEntryHugePage)"

definition huge_unmap :: "nat \<Rightarrow> flat_table \<Rightarrow> unmap_error + flat_table" where
  "huge_unmap q t = (case huge_slot t q of
     Mapped _ _ \<Rightarrow> Inr (t\<lparr>huge_pages := (huge_pages t)(q := None)\<rparr>) | _ \<Rightarrow> Inl PageNotMapped)"

definition flat_translate :: "flat_table \<Rightarrow> nat \<Rightarrow> nat option" where
  "flat_translate t a = (case huge_pages t (a div 2097152) of
     Some (f, _) \<Rightarrow> Some (f * 2097152 + a mod 2097152)
   | None \<Rightarrow> (case small_pages t (a div 4096) of None \<Rightarrow> None | Some (f, _) \<Rightarrow> Some (f * 4096 + a mod 4096)))"

section \<open>The free frames of the firmware\<close>

definition flat_free :: "nat list \<Rightarrow> nat set" where
  "flat_free al = {f \<in> set al. f < 2 ^ 40}"

definition flat_allocate_pages :: "nat list \<Rightarrow> nat \<Rightarrow> nat option \<times> nat list" where
  "flat_allocate_pages al n =
     (case find (\<lambda>f. \<forall>j<n. f + j \<in> flat_free al) (filter (\<lambda>f. f < 2 ^ 40) al) of
        None \<Rightarrow> (None, al)
      | Some f \<Rightarrow> (Some (f * 4096), filter (\<lambda>x. x < f \<or> f + n \<le> x) al))"

section \<open>The operations\<close>

definition checked :: "bool \<Rightarrow> 'x \<Rightarrow> rust_panic + 'x" where
  "checked b x = (if b then Inr x else Inl BadAddress)"

definition flat_ops :: "nat \<Rightarrow> (nat \<Rightarrow> nat \<Rightarrow> page_flags \<Rightarrow> flat_table \<times> nat list \<Rightarrow> map_to_error + flat_table \<times> nat list) \<Rightarrow>
    (nat \<Rightarrow> flat_table \<Rightarrow> unmap_error + flat_table) \<Rightarrow> (nat, nat, flat_table, nat list) paging_ops" where
  "flat_ops psz mapf unmapf = \<lparr>
     va_new = (\<lambda>a. checked (canonical a) a), va_add = (\<lambda>a n. checked (canonical (a + n)) (a + n)),
     va_sub = (\<lambda>a n. checked (n \<le> a \<and> canonical (a - n)) (a - n)),
     pa_new = (\<lambda>a. checked (a < 2 ^ 52) a), pa_add = (\<lambda>a n. checked (a + n < 2 ^ 52) (a + n)),
     pa_sub = (\<lambda>a n. checked (n \<le> a \<and> a < 2 ^ 52) (a - n)),
     align_up = (\<lambda>a b. checked (cdiv a b * b < U64_RANGE) (cdiv a b * b)),
     page_containing_address = (\<lambda>a. a div psz), page_add = (\<lambda>q n. checked (canonical ((q + n) * psz)) (q + n)),
     page_range = (\<lambda>q r. [q..<r]), page_range_inclusive = (\<lambda>q r. [q..<Suc r]),
     frame_containing_address = (\<lambda>a. a div psz), frame_start_address = (\<lambda>f. f * psz), frame_minus = (\<lambda>f g. f - g),
     frame_range_inclusive = (\<lambda>f g. [f..<Suc g]), mapper_map_to = mapf, mapper_unmap = unmapf,
     fa_allocate_frame = (\<lambda>al. Inr (None, al)), translate = flat_translate\<rparr>"

definition small_ops :: "(nat, nat, flat_table, nat list) paging_ops" where
  "small_ops = (let ops = flat_ops 4096 small_map_to small_unmap in
     ops\<lparr>fa_allocate_frame := UEFIFrameAllocator_allocate_frame ops flat_allocate_pages\<rparr>)"

definition huge_ops :: "(nat, nat, flat_table, nat list) paging_ops" where
  "huge_ops = flat_ops 2097152 huge_map_to huge_unmap"

section \<open>The laws\<close>

lemma slot_of_simps [simp]: "slot_of None = Free" "slot_of (Some (f, fl)) = Mapped f fl" "slot_of e \<noteq> Blocked"
  "slot_of e = Free \<longleftrightarrow> e = None" "slot_of e = Mapped f fl \<longleftrightarrow> e = Some (f, fl)"
  by (auto simp: slot_of_def split: option.splits)

lemma small_map_to_Inr:
  "small_map_to q f fl (t, al) = Inr (t', al') \<longleftrightarrow>
     small_slot t q = Free \<and> t' = t\<lparr>small_pages := (small_pages t)(q \<mapsto> (f, fl))\<rparr> \<and> al' = al"
  by (auto simp: small_map_to_def split: slot.splits)

lemma huge_map_to_Inr:
  "huge_map_to q f fl (t, al) = Inr (t', al') \<longleftrightarrow>
     huge_slot t q = Free \<and> t' = t\<lparr>huge_pages := (huge_pages t)(q \<mapsto> (f, fl))\<rparr> \<and> al' = al"
  by (auto simp: huge_map_to_def split: slot.splits)

lemma small_unmap_Inr:
  "small_unmap q t = Inr t' \<longleftrightarrow> (\<exists>f fl. small_slot t q = Mapped f fl) \<and> t' = t\<lparr>small_pages := (small_pages t)(q := None)\<rparr>"
  by (auto simp: small_unmap_def split: slot.splits)

lemma small_slot_upd:
  "small_slot t q \<noteq> Blocked \<Longrightarrow> small_slot (t\<lparr>small_pages := (small_pages t)(q := e)\<rparr>) = (small_slot t)(q := slot_of e)"
  by (auto simp: small_slot_def fun_eq_iff split: if_splits)

lemma huge_slot_upd:
  "huge_slot t q = Free \<Longrightarrow> huge_slot (t\<lparr>huge_pages := (huge_pages t)(q \<mapsto> e)\<rparr>) = (huge_slot t)(q := slot_of (Some e))"
  by (auto simp: huge_slot_def fun_eq_iff split: if_splits)

lemma huge_slot_Free: "huge_slot t h = Free \<longleftrightarrow> huge_pages t h = None \<and> (\<forall>p. p div 512 = h \<longrightarrow> small_pages t p = None)"
proof -
  have "(\<forall>p. p div 512 = h \<longrightarrow> small_pages t p = None) \<longleftrightarrow> (\<forall>j<512. small_pages t (h * 512 + j) = None)"
  proof (intro iffI allI impI)
    fix p
    assume all: "\<forall>j<512. small_pages t (h * 512 + j) = None" and "p div 512 = h"
    then have "p = h * 512 + p mod 512" by auto
    with all show "small_pages t p = None" by (metis mod_less_divisor zero_less_numeral)
  qed auto
  then show ?thesis by (auto simp: huge_slot_def split: if_splits)
qed

lemma flat_free_finite: "finite (flat_free al)"
  by (simp add: flat_free_def)

lemma flat_pages:
  assumes "flat_allocate_pages al n = (Some st, al')"
  shows "st mod 4096 = 0 \<and> {st div 4096..<st div 4096 + n} \<subseteq> flat_free al \<and> flat_free al' = flat_free al - {st div 4096..<st div 4096 + n}"
proof -
  from assms obtain f where f: "find (\<lambda>f. \<forall>j<n. f + j \<in> flat_free al) (filter (\<lambda>f. f < 2 ^ 40) al) = Some f"
    "st = f * 4096" "al' = filter (\<lambda>x. x < f \<or> f + n \<le> x) al" by (auto simp: flat_allocate_pages_def split: option.splits)
  from f(1) have in_free: "f + j \<in> flat_free al" if "j < n" for j using that by (auto simp: find_Some_iff)
  have "x \<in> flat_free al" if "f \<le> x" "x < f + n" for x using in_free [of "x - f"] that by simp
  then show ?thesis using f(2,3) by (auto simp: flat_free_def)
qed

lemma flat_one_page:
  assumes "flat_free al \<noteq> {}"
  shows "\<exists>f al'. flat_allocate_pages al 1 = (Some (f * 4096), al') \<and> f \<in> flat_free al \<and> flat_free al' = flat_free al - {f}"
proof -
  have "find (\<lambda>f. \<forall>j<1. f + j \<in> flat_free al) (filter (\<lambda>f. f < 2 ^ 40) al) \<noteq> None"
    using assms by (auto simp: find_None_iff flat_free_def)
  then obtain f where "find (\<lambda>f. \<forall>j<1. f + j \<in> flat_free al) (filter (\<lambda>f. f < 2 ^ 40) al) = Some f" by blast
  then have e: "flat_allocate_pages al 1 = (Some (f * 4096), filter (\<lambda>x. x < f \<or> f + 1 \<le> x) al)" by (simp add: flat_allocate_pages_def)
  have "f * 4096 div 4096 = f" "{f..<f + 1} = {f}" by auto
  with flat_pages [OF e] have "f \<in> flat_free al" "flat_free (filter (\<lambda>x. x < f \<or> f + 1 \<le> x) al) = flat_free al - {f}" by (simp_all only: insert_subset)
  with e show ?thesis by blast
qed

lemma flat_translate_small: "small_slot t (a div 4096) = Mapped x fl \<Longrightarrow> flat_translate t a = Some (x * 4096 + a mod 4096)"
proof -
  assume "small_slot t (a div 4096) = Mapped x fl"
  moreover have "a div 2097152 = a div 4096 div 512" by (simp add: div_mult2_eq [symmetric])
  ultimately show ?thesis by (cases "huge_pages t (a div 2097152)") (auto simp: flat_translate_def small_slot_def split: if_splits)
qed

lemma flat_translate_huge: "huge_slot t (a div 2097152) = Mapped x fl \<Longrightarrow> flat_translate t a = Some (x * 2097152 + a mod 2097152)"
  by (auto simp: flat_translate_def huge_slot_def split: if_splits)

interpretation flat_huge: page_mapper huge_ops "\<lambda>q. q" "\<lambda>f. f" huge_slot flat_free 2097152 "2 ^ 52"
proof (unfold_locales, goal_cases)
  case (18 m q al f fl)
  then show ?case by (simp add: huge_ops_def flat_ops_def huge_map_to_Inr huge_slot_upd)
next
  case (19 a m x fl)
  then show ?case by (simp add: huge_ops_def flat_ops_def flat_translate_huge)
qed (simp_all add: huge_ops_def flat_ops_def checked_def flat_free_finite)

lemma small_ops_simps [simp]:
  "va_new small_ops = (\<lambda>a. checked (canonical a) a)" "va_add small_ops = (\<lambda>a n. checked (canonical (a + n)) (a + n))"
  "va_sub small_ops = (\<lambda>a n. checked (n \<le> a \<and> canonical (a - n)) (a - n))" "pa_new small_ops = (\<lambda>a. checked (a < 2 ^ 52) a)"
  "pa_add small_ops = (\<lambda>a n. checked (a + n < 2 ^ 52) (a + n))" "pa_sub small_ops = (\<lambda>a n. checked (n \<le> a \<and> a < 2 ^ 52) (a - n))"
  "align_up small_ops = (\<lambda>a b. checked (cdiv a b * b < U64_RANGE) (cdiv a b * b))"
  "page_containing_address small_ops = (\<lambda>a. a div 4096)" "page_add small_ops = (\<lambda>q n. checked (canonical ((q + n) * 4096)) (q + n))"
  "page_range small_ops = (\<lambda>q r. [q..<r])" "page_range_inclusive small_ops = (\<lambda>q r. [q..<Suc r])"
  "frame_containing_address small_ops = (\<lambda>a. a div 4096)" "frame_start_address small_ops = (\<lambda>f. f * 4096)"
  "frame_minus small_ops = (\<lambda>f g. f - g)" "frame_range_inclusive small_ops = (\<lambda>f g. [f..<Suc g])"
  "mapper_map_to small_ops = small_map_to" "mapper_unmap small_ops = small_unmap" "translate small_ops = flat_translate"
  by (simp_all add: small_ops_def flat_ops_def)

lemma small_allocate:
  assumes "flat_free al \<noteq> {}"
  shows "\<exists>f al'. fa_allocate_frame small_ops al = Inr (Some f, al') \<and> f \<in> flat_free al \<and> flat_free al' = flat_free al - {f}"
proof -
  from flat_one_page [OF assms] obtain f al' where f: "flat_allocate_pages al 1 = (Some (f * 4096), al')" "f \<in> flat_free al"
    "flat_free al' = flat_free al - {f}" by blast
  then have "f * 4096 < 2 ^ 52" by (simp add: flat_free_def)
  with f show ?thesis by (simp add: small_ops_def UEFIFrameAllocator_allocate_frame_def flat_ops_def checked_def)
qed

interpretation flat: boot_machine small_ops "\<lambda>q. q" "\<lambda>f. f" small_slot flat_free "2 ^ 52" huge_ops "\<lambda>q. q" "\<lambda>f. f" huge_slot
proof (unfold_locales, goal_cases)
  case (18 m q al f fl)
  then show ?case by (simp add: small_map_to_Inr small_slot_upd)
next
  case (19 a m x fl)
  then show ?case by (simp add: flat_translate_small)
next
  case (20 al)
  then show ?case by (rule small_allocate)
next
  case (21 m q x fl)
  then show ?case by (simp add: small_unmap_Inr small_slot_upd)
next
  case 22
  show ?case by (simp add: huge_ops_def flat_ops_def)
next
  case (23 q f fl m al m' al')
  then show ?case by (auto simp: small_map_to_Inr small_slot_upd huge_slot_Free)
next
  case (24 q m m')
  then show ?case by (auto simp: small_unmap_Inr small_slot_upd huge_slot_Free)
next
  case (25 q f fl m al m' al' p x fl')
  then show ?case by (auto simp: huge_ops_def flat_ops_def huge_map_to_Inr small_slot_def huge_slot_Free split: if_splits)
next
  case (26 m h p x fl)
  then show ?case by (auto simp: huge_slot_Free small_slot_def)
qed (simp_all add: checked_def flat_free_finite)

end
