(* ===== verification/Boot_Properties.thy ===== *)
theory Boot_Properties
  imports Flat_Machine
begin

text \<open>
  What the boot loader achieves: the properties of \<open>boot_main\<close> and of its page tables, with a sample machine on which
  their hypotheses hold.
\<close>

section \<open>A sample machine\<close>

lemma flat_pages_upt:
  assumes "0 < n" and "a + n \<le> b" and "b \<le> 2 ^ 40"
  shows "flat_allocate_pages [a..<b] n = (Some (a * 4096), [a + n..<b])"
proof -
  have "a < b" using assms(1,2) by simp
  then have "filter (\<lambda>f. f < 2 ^ 40) [a..<b] = a # filter (\<lambda>f. f < 2 ^ 40) [Suc a..<b]" using assms(3) by (simp add: upt_conv_Cons)
  moreover have "\<forall>j<n. a + j \<in> flat_free [a..<b]" using assms by (auto simp: flat_free_def)
  moreover have "filter (\<lambda>x. x < a \<or> a + n \<le> x) [a..<b] = [a + n..<b]"
  proof -
    have "[a..<b] = [a..<a + n] @ [a + n..<b]" using assms(2) by (metis le_add1 le_add_diff_inverse upt_add_eq_append)
    then show ?thesis by (simp add: filter_empty_conv filter_id_conv)
  qed
  ultimately show ?thesis by (simp add: flat_allocate_pages_def)
qed

definition sample_segment :: segment where
  "sample_segment = \<lparr>seg_load = Some True, seg_mem_size = 9000, seg_file_size = 5000, seg_offset = 4096,
     seg_virtual_addr = 0xffff800000000000, seg_write = True, seg_execute = False\<rparr>"

definition sample_info :: graphic_info where
  "sample_info = \<lparr>gi_resolution = (800, 600), gi_pixel_format = Rgb, gi_stride = 800, fb_size = 1920000\<rparr>"

definition sample_map :: "unit memory_descriptor list" where
  "sample_map = [\<lparr>md_ty = (), md_phys_start = 0, md_page_count = 8192\<rparr>]"

text \<open>Two files: the configuration is empty, the kernel has three pages.\<close>

definition sample_contents :: "bool \<Rightarrow> u8 list" where
  "sample_contents k = (if k then replicate 12288 7 else [])"

lemma sample_lengths [simp]: "length (sample_contents True) = 12288" "sample_contents False = []"
  by (simp_all only: sample_contents_def if_True if_False length_replicate simp_thms)

definition sample_firmware :: "(nat list, unit, unit, unit, u8 list, bool, unit, unit) firmware" where
  "sample_firmware = \<lparr>fw_memory_map = (\<lambda>_. Some sample_map), fw_exit_boot_services = (\<lambda>_. Some sample_map),
     fw_allocate_pages = flat_allocate_pages, fw_locate_fs = (\<lambda>_. Some ()), fw_open_volume = (\<lambda>_. Some ()),
     fw_path = (\<lambda>p n. Some p), fw_open = (\<lambda>_ p. Some (p \<noteq> conf_path)),
     fw_file_size = (\<lambda>h. Some (length (sample_contents h))), fw_read = (\<lambda>h n. Some (take n (sample_contents h))),
     fw_locate_gop = (\<lambda>_. Some ()), fw_modes = (\<lambda>_. []), fw_resolution = (\<lambda>_. (0, 0)), fw_set_mode = (\<lambda>_ _. None),
     fw_graphic_info = (\<lambda>_. sample_info)\<rparr>"

interpretation sample: boot_firmware small_ops "\<lambda>q. q" "\<lambda>f. f" small_slot flat_free "2 ^ 52" huge_ops "\<lambda>q. q" "\<lambda>f. f" huge_slot
  sample_firmware sample_contents
proof (unfold_locales, goal_cases)
  case (1 al n st al')
  then show ?case by (simp add: sample_firmware_def flat_pages)
qed (simp_all add: sample_firmware_def)

definition sample_boot :: "(flat_table, nat list) boot" where
  "sample_boot = \<lparr>page_table = \<lparr>small_pages = Map.empty, huge_pages = Map.empty\<rparr>, frame_allocator = [16..<6000], ram = (\<lambda>_. 0)\<rparr>"

lemma sample_default: "Config_parse [] = Inr DEFAULT_CONFIG"
  by (simp add: Config_parse_def parse_line_def trim_all_printable)

lemma sample_fits: "space_fits (2 ^ 52) DEFAULT_CONFIG 33554432 17 [sample_segment]"
proof -
  have p: "seg_pages sample_segment = {0xffff800000000..0xffff800000002}" "stack_pages DEFAULT_CONFIG = {0xffff802000000..<0xffff802000200}"
    "window DEFAULT_CONFIG 33554432 = {0x7fffc800000..0x7fffc800010}"
    by (simp_all add: seg_pages_def stack_pages_def window_def sample_segment_def DEFAULT_CONFIG_def)
  have l: "loads [sample_segment] = [sample_segment]" by (simp add: loads_def sample_segment_def)
  have s: "seg_fits (2 ^ 52) 17 sample_segment" by (simp add: seg_fits_def sample_segment_def canonical_def)
  have d: "p div 512 \<notin> {0x7fffc800000..0x7fffc800010}" if "p < 0xffff802000200" for p :: nat
    using that by (simp add: less_eq_div_iff_mult_less_eq)
  show ?thesis
    unfolding space_fits_def l p elf_fits_def
    using s d p by (auto simp: sample_segment_def [THEN arg_cong [of _ _ seg_load]] DEFAULT_CONFIG_def canonical_def)
qed

section \<open>Handing over to the kernel\<close>

text \<open>
  C3: when the firmware works as documented, the configuration parses, the files fit in memory and the parts of the
  address space do not meet, the boot loader reaches the jump into the kernel. It jumps to the entry point of the ELF
  file with the stack pointer at the end of the stack and the boot information in place; every byte of every loadable
  segment reads as in the kernel file, or as zero beyond it; the stack has frames of its own; and all physical
  memory shows at the configured offset.
\<close>

theorem boot_hands_over:
  assumes "boot_firmware ops pnum fnum tbl free plim ops2 pnum2 fnum2 tbl2 fw contents"
    and "fw_memory_map fw (frame_allocator s) = Some mmap" and "max_phys_addr mmap = Inr mx"
    and "opens fw (frame_allocator s) conf_path hc" and "Config_parse (contents hc) = Inr c"
    and "fw_allocate_pages fw (frame_allocator s) (file_pages_of (contents hc)) = (Some stc, al1)"
    and "shows_graphic fw al1 (resolution c) info"
    and "opens fw al1 (kernel_path c) hk" and "elf_new (contents hk) = Some (entry, segs)"
    and "fw_allocate_pages fw al1 (file_pages_of (contents hk)) = (Some (K * 4096), al2)"
    and "file_pages_of (contents hc) * 4096 < U64_RANGE" and "file_pages_of (contents hk) * 4096 < U64_RANGE"
    and "\<forall>seg \<in> set (loads segs). seg_offset seg + seg_file_size seg \<le> length (contents hk)"
    and "space_fits plim c mx K segs"
    and "\<forall>seg \<in> set (loads segs). \<forall>p \<in> seg_pages seg. tbl (page_table s) p = Free"
    and "\<forall>p \<in> stack_pages c. tbl (page_table s) p = Free" and "\<forall>h \<in> window c mx. tbl2 (page_table s) h = Free"
    and "space_needed c mx segs \<le> card (free al2)" and "\<forall>al. fw_exit_boot_services fw al = Some mmap'"
  shows "\<exists>s'. boot_main fw elf_new ops ops2 s = Inr (\<lparr>ho_stack_top = kernel_stack_address c + kernel_stack_size c * 4096, ho_entry = entry,
      ho_boot_info = \<lparr>bi_memory_map = mmap', bi_physical_memory_offset = physical_memory_offset c, bi_graphic_info = info\<rparr>\<rparr>, s') \<and>
    (\<forall>seg \<in> set (loads segs). file_shown ops (contents hk) seg s') \<and>
    (\<exists>g. stack_mapped ops c s' g \<and> (\<forall>seg \<in> set (loads segs). \<forall>i < seg_mem_size seg. \<forall>j < kernel_stack_size c * 4096.
       translate ops (page_table s') (seg_virtual_addr seg + i) \<noteq> translate ops (page_table s') (kernel_stack_address c + j))) \<and>
    (\<forall>a \<le> mx. translate ops (page_table s') (physical_memory_offset c + a) = Some a)"
  using boot_firmware.boot_main_ok [OF assms(1), where elf_new = elf_new and hk = hk and hc = hc, OF assms(2-19)] by (auto simp: runs_def handed_over_def split: sum.splits prod.splits)

theorem boot_hands_over_witness:
  "\<exists>s'. boot_main sample_firmware (\<lambda>_. Some (0xffff800000000000, [sample_segment])) small_ops huge_ops sample_boot =
      Inr (\<lparr>ho_stack_top = 0xffff802000200000, ho_entry = 0xffff800000000000,
        ho_boot_info = \<lparr>bi_memory_map = sample_map, bi_physical_memory_offset = 0xffff900000000000, bi_graphic_info = sample_info\<rparr>\<rparr>, s') \<and>
    file_shown small_ops (sample_contents True) sample_segment s' \<and>
    (\<forall>a \<le> 33554432. flat_translate (page_table s') (0xffff900000000000 + a) = Some a)"
proof -
  have l: "loads [sample_segment] = [sample_segment]" by (simp add: loads_def sample_segment_def)
  have al: "fw_allocate_pages sample_firmware (frame_allocator sample_boot) (file_pages_of (sample_contents False)) = (Some 65536, [17..<6000])"
    using flat_pages_upt [of 1 16 6000] by (simp add: sample_firmware_def sample_boot_def file_pages_of_def del: upt_rec_numeral)
  have al2: "fw_allocate_pages sample_firmware [17..<6000] (file_pages_of (sample_contents True)) = (Some (17 * 4096), [21..<6000])"
    using flat_pages_upt [of 4 17 6000] by (simp add: sample_firmware_def file_pages_of_def del: upt_rec_numeral)
  have f: "card (flat_free [21..<6000]) = 5979"
  proof -
    have "flat_free [21..<6000] = {21..<6000}" by (auto simp: flat_free_def simp del: upt_rec_numeral)
    then show ?thesis by simp
  qed
  have mx: "max_phys_addr sample_map = Inr 33554432"
    by (simp add: max_phys_addr_def sample_map_def unwrap_def u64_mul_def u64_add_def U64_RANGE_def)
  have fr: "small_slot (page_table sample_boot) p = Free" "huge_slot (page_table sample_boot) p = Free" for p
    by (simp_all add: small_slot_def huge_slot_def sample_boot_def del: upt_rec_numeral)
  have "kernel_path DEFAULT_CONFIG \<noteq> conf_path" by (simp add: DEFAULT_CONFIG_def conf_path_def bytes_of_def)
  then have op: "opens sample_firmware (frame_allocator sample_boot) conf_path False" "opens sample_firmware [17..<6000] (kernel_path DEFAULT_CONFIG) True"
    by (simp_all add: opens_def sample_firmware_def del: upt_rec_numeral)
  have gr: "shows_graphic sample_firmware [17..<6000] (resolution DEFAULT_CONFIG) sample_info"
    by (simp add: shows_graphic_def sample_firmware_def DEFAULT_CONFIG_def del: upt_rec_numeral)
  have cfg: "Config_parse (sample_contents False) = Inr DEFAULT_CONFIG" using sample_default by simp
  have need: "space_needed DEFAULT_CONFIG 33554432 [sample_segment] \<le> card (flat_free [21..<6000])"
    by (simp add: f space_needed_def l frames_needed_def del: upt_rec_numeral) (simp add: sample_segment_def DEFAULT_CONFIG_def)
  from boot_hands_over [OF sample.boot_firmware_axioms _ mx op(1) cfg al gr op(2) _ al2 _ _ _ sample_fits _ _ _ need,
      of "\<lambda>_. Some (0xffff800000000000, [sample_segment])" "0xffff800000000000" sample_map]
  show ?thesis
    by (simp add: l fr) (simp add: sample_firmware_def sample_segment_def file_pages_of_def U64_RANGE_def DEFAULT_CONFIG_def, blast)
qed

section \<open>Segments off the page boundary\<close>

text \<open>
  C39: a segment that starts inside a page may lose its last page. The loader rounds the file offset down to a page
  but counts frames from the size alone; when offset and size together reach into one page more, the page of the last
  byte stays unmapped, although loading reports success.
\<close>

theorem unaligned_segment_truncated:
  assumes "elf_mapper ops pnum fnum tbl free plim" and "seg_load seg = Some True"
    and "seg_mem_size seg = seg_file_size seg" and "0 < seg_file_size seg"
    and "0 < seg_frame K seg" and "seg_frame K seg * 4096 + seg_file_size seg < plim"
    and "(seg_virtual_addr seg + seg_file_size seg - 1) div 4096 = seg_page seg + cdiv (seg_file_size seg) 4096"
    and "\<forall>x. seg_page seg * 4096 \<le> x \<and> x \<le> seg_virtual_addr seg + seg_file_size seg \<longrightarrow> canonical x"
    and "\<forall>p. seg_page seg \<le> p \<and> p \<le> seg_page seg + cdiv (seg_file_size seg) 4096 \<longrightarrow> tbl (page_table s) p = Free"
    and "3 * cdiv (seg_file_size seg) 4096 \<le> card (free (frame_allocator s))"
  shows "\<exists>s'. map_segment ops seg (K * 4096) s = Inr (Inr (), s') \<and>
    tbl (page_table s') ((seg_virtual_addr seg + seg_file_size seg - 1) div 4096) = Free"
  using elf_mapper.unaligned_segment_ok [OF assms(1), OF assms(2-7) refl assms(8-10)]
  by (auto simp: runs_def split: sum.splits prod.splits)

theorem unaligned_segment_truncated_witness:
  "\<exists>s'. map_segment small_ops \<lparr>seg_load = Some True, seg_mem_size = 4096, seg_file_size = 4096, seg_offset = 0x1800,
      seg_virtual_addr = 0x401800, seg_write = False, seg_execute = True\<rparr> (17 * 4096) sample_boot = Inr (Inr (), s') \<and>
    small_slot (page_table s') 0x402 = Free"
proof -
  have f: "flat_free [16..<6000] = {16..<6000}" by (auto simp: flat_free_def simp del: upt_rec_numeral)
  have "\<forall>x. 0x401000 \<le> x \<and> x \<le> 0x402800 \<longrightarrow> canonical x" by (auto simp: canonical_def)
  moreover have "\<forall>p. small_slot (page_table sample_boot) p = Free"
    by (simp add: small_slot_def sample_boot_def del: upt_rec_numeral)
  moreover have "3 \<le> card (flat_free (frame_allocator sample_boot))" by (simp add: sample_boot_def f del: upt_rec_numeral)
  ultimately show ?thesis
    using unaligned_segment_truncated [OF flat.small.elf_mapper_axioms, of "\<lparr>seg_load = Some True, seg_mem_size = 4096, seg_file_size = 4096,
      seg_offset = 0x1800, seg_virtual_addr = 0x401800, seg_write = False, seg_execute = True\<rparr>" 17 sample_boot]
    by (simp add: cdiv_def)
qed

end
