(* ===== verification/Spec2Isabelle.thy ===== *)
theory Spec2Isabelle
  imports Cafs_Errors Vfs_Properties Kernel_Properties Logger_Properties Interrupt_Properties Timer_Properties
    Device_Properties Pci_Properties Boot_Properties
begin

text \<open>
  A verification library of the canyon repository: a file system, a kernel that uses it, and the boot loader that
  starts the kernel. All files below are under \<^verbatim>\<open>src/\<close>.

  \<^bold>\<open>The program.\<close> The boot loader (\<^verbatim>\<open>bootloader/efi/src\<close>) reads its configuration, loads the kernel as an ELF file,
  builds the page tables for the segments, the stack and all physical memory and jumps. The kernel (\<^verbatim>\<open>kernel/src\<close>) sets up
  the screen logger, its frame allocator, the interrupt table, the interrupt controllers and the timers, walks the PCI
  bus, and mounts the file system it finds on a partition of a SATA drive; then it reads the first program. The
  file system (\<^verbatim>\<open>fs/src\<close>) is a block device, a cache of blocks above it, bitmaps and inodes in blocks (CAFS), and a tree
  of directory entries (VFS). The image tool (\<^verbatim>\<open>fs/src/main.rs\<close>) writes the partition that the kernel mounts.

  \<^bold>\<open>How code is modelled.\<close> Stateful code is a function in the monad \<open>('s, 'a) rust\<close> of the theory \<open>Prelude\<close>: a state goes in,
  a result and a state or a panic come out. Each way to stop has a constructor of \<open>rust_panic\<close>: failed assertions,
  indices out of bounds, overflow (the crates are built in the debug profile, where it panics), \<open>unwrap\<close> on a missing
  value, a spin lock that is already held (\<open>Deadlock\<close>), memory outside an object and unbounded recursion. Numbers of type \<open>u64\<close> and \<open>usize\<close> are \<open>nat\<close> with checked operations (\<open>u64_add\<close> and others);
  where bits matter they are words. The predicate \<open>runs m s Q\<close> is total correctness: \<open>m\<close> returns and its result satisfies
  \<open>Q\<close>; the collection \<open>wp\<close> holds its rules.

  \<^bold>\<open>The file system.\<close>
  \<^item> \<open>Bytes\<close> and the locale \<open>struct_view\<close>: what \<open>Cache::read\<close> and \<open>modify\<close> see through a \<open>#[repr(C)]\<close> type, as a pair of
    decoding and encoding; \<open>Bitmap\<close> and \<open>Layout\<close> interpret it for every structure on disk.
  \<^item> \<open>Block_Device\<close> (\<^verbatim>\<open>lib.rs\<close>): the trait as a table of methods, the locale \<open>block_device\<close> as its contract, the in-memory
    \<open>Disk\<close> as an instance. \<open>Block_Cache\<close> (\<^verbatim>\<open>cafs/cache.rs\<close>): entries, reference counts, replacement, write-back and the
    guards; what clients see does not depend on the cache, and \<open>flush\<close> makes the device hold it.
  \<^item> \<open>Bitmap\<close> (\<^verbatim>\<open>cafs/bitmap.rs\<close>), \<open>Layout\<close> and \<open>Block_Map\<close> (\<^verbatim>\<open>cafs/layout.rs\<close>): allocation of the least free number;
    the trees of index blocks of an inode, their growth, truncation and lookup against a reference definition by levels.
    \<open>Inode_Number\<close>: the encoding of inode numbers in directories.
  \<^item> \<open>Cafs\<close> (\<^verbatim>\<open>cafs/mod.rs\<close>): all operations of CAFS. \<open>Cafs_Blocks\<close>, \<open>Cafs_Files\<close>, \<open>Inode_Cache\<close>, \<open>Cafs_Ops\<close>, \<open>Cafs_Init\<close>,
    \<open>Cafs_Shrink\<close> and \<open>Inode_Slots\<close> carry their proofs: who owns which block, which inode is cached, what each operation does.
    \<open>Fs_Service\<close> states the contract of a file system as the locale \<open>file_system\<close> and shows by a \<open>sublocale\<close> that CAFS on
    any block device meets it; \<open>Fs_Spec\<close> is the abstract file system, and \<open>Cafs_Properties\<close> the refinement: every
    sequence of requests gets the same replies, blocks are never shared, files survive a flush and a reopen.
    \<open>Cafs_Errors\<close> has the error paths.
  \<^item> \<open>Vfs\<close>, \<open>Vfs_Tree\<close>, \<open>Vfs_Properties\<close> (\<^verbatim>\<open>vfs/\<close>): paths, the tree of directory entries and its operations, proved over
    \<open>file_system\<close>. \<open>Image\<close> (\<^verbatim>\<open>main.rs\<close>): what the image tool writes mounts with the files it was given.

  \<^bold>\<open>The kernel.\<close>
  \<^item> \<open>Frame\<close>, \<open>Memory\<close>, \<open>Memory_Properties\<close> (\<^verbatim>\<open>memory/\<close>, \<^verbatim>\<open>drivers/provider.rs\<close>, \<^verbatim>\<open>allocator.rs\<close>): the frame allocator refines a set
    of free frame numbers; memory for drivers; the heap.
  \<^item> \<open>Kernel_Disk\<close>, \<open>Pci\<close> and their properties (\<^verbatim>\<open>drivers/\<close>, \<^verbatim>\<open>process/mod.rs\<close>): the locales \<open>pci_space\<close> and \<open>pci_command\<close> for the
    configuration space, the locale \<open>ahci_drive\<close> and the sublocale that
    makes a partition of a drive a block device; the walk over the capabilities of a device, which may not end and is
    therefore a partial function; enabling a device and starting the drivers; and, across all layers, that a kernel that finds the image of the
    image tool mounts it and reads \<^verbatim>\<open>/hello\<close> as it was given to the tool.
  \<^item> \<open>Logger\<close>, \<open>Logger_Screen\<close>, \<open>Logger_Text\<close>, \<open>Logger_Properties\<close> (\<^verbatim>\<open>logger.rs\<close>): drawing, scrolling and the text of records, with the
    locale \<open>console\<close> for font and serial port; any sequence of records leaves on the frame buffer what an abstract terminal makes of
    their text, and the text itself on the serial port.
  \<^item> \<open>Interrupts\<close>, \<open>Interrupt_Properties\<close> (\<^verbatim>\<open>arch/x64/interrupt/\<close>, \<^verbatim>\<open>gdt.rs\<close>, \<^verbatim>\<open>lib.rs\<close>): the table and all handlers over the state
    \<open>machine\<close> (the logger, the counters, the acknowledgements, the ports read, and \<open>halted\<close> for the endless loop of the panic
    handler); which handler is at which vector, what each exception logs, and that each interrupt is acknowledged once.
  \<^item> \<open>Timer\<close>, \<open>Timer_Properties\<close> (\<^verbatim>\<open>device/timer.rs\<close>, \<^verbatim>\<open>pit.rs\<close>): the calibration with interrupts between any two
    statements, as a step relation; the local APIC holds interrupts back until the one in service is acknowledged. Its
    invariant, when it can finish, and the deadlock it can run into.
  \<^item> \<open>Devices\<close>, \<open>Device_Properties\<close> (\<^verbatim>\<open>apic.rs\<close>, \<^verbatim>\<open>device/\<close>): \<open>apic::init\<close>, and \<open>device::init\<close> as a step relation that runs the steps of \<open>Timer\<close>
    together with their effect on the two controllers and their locks; every source is wired to its handler when it returns.

  \<^bold>\<open>The boot loader.\<close>
  \<^item> \<open>Rust_Str\<close>, \<open>Boot_Config\<close> (\<^verbatim>\<open>config.rs\<close>): the parser of the configuration and its round trip.
  \<^item> \<open>Page_Map\<close> (\<^verbatim>\<open>page_table.rs\<close>): the mapping of segments, stack and physical memory. \<open>Page_Mapper\<close> states the contract of
    a mapper (locales \<open>page_mapper\<close> and \<open>frame_mapper\<close>), \<open>Page_Segments\<close> and \<open>Page_Elf\<close> follow one segment and a whole file,
    \<open>Page_Space\<close> puts both page sizes together (\<open>boot_machine\<close>).
  \<^item> \<open>Boot_Main\<close> (\<^verbatim>\<open>main.rs\<close>, \<^verbatim>\<open>fs.rs\<close>): the whole program up to the jump. \<open>Boot_Proof\<close> adds the contract of the firmware
    (\<open>boot_firmware\<close>), \<open>Flat_Machine\<close> an instance of all of them, and \<open>Boot_Properties\<close> shows what the kernel finds when it is
    entered.

  \<^bold>\<open>What comes from outside.\<close> Code that is not in the repository is an argument: the crates for page tables and addresses,
  the interrupt controllers, the PCI and SATA access, partition tables, ELF headers, the font and the serial port, and the
  firmware. What is used of them are the assumptions of the locales named above, each with an interpretation.
  Host files of the image tool, the text that formatting makes of a value and the memory behind the frame buffer are
  arguments too.

  \<^bold>\<open>Bounds.\<close> The recursion over index blocks takes \<open>TREE_FUEL\<close>, two more than the cache has entries: a deeper
  recursion holds a block per level and runs out of the cache first. Reading the directory tree takes the depth of the
  stack as an argument; the properties hold for every depth larger than the height of the tree. \<open>cap_loop\<close> is a
  \<open>partial_function\<close>: its termination on capability lists and its divergence on cycles are both proved.

  \<^bold>\<open>Not modelled.\<close> Loading descriptor tables, segment and control registers (assembly instructions without a result);
  \<open>p4_table\<close>, which reads CR3; the messages that are only logged in the file system and the boot loader; the test harness
  \<^verbatim>\<open>testing.rs\<close> and the tests of the file system crates, which run the operations on fixed inputs; \<open>map_elf\<close> of
  \<^verbatim>\<open>process/elf.rs\<close>, which logs an address and whose loop body and only call are commented out;
  \<^verbatim>\<open>process/thread.rs\<close>, a struct without operations; \<^verbatim>\<open>process/context.rs\<close> and \<^verbatim>\<open>memory/page.rs\<close>,
  which are empty. The function \<open>init\<close> of
  \<^verbatim>\<open>lib.rs\<close> only calls the initialisations, in the order logger, memory, descriptor tables, interrupts,
  interrupt controllers, devices, PCI bus and first process.
\<close>

end
